(* ===== verification/Prelude.thy ===== *)
theory Prelude
  imports Main "HOL-Library.Word"
begin

text \<open>
  What every component of the verifier shares: bytes and byte strings (a Go \<open>string\<close> and a Go
  \<open>[]byte\<close> are both a list of bytes), string literals as bytes, signed 64-bit wrap-around for
  Go's \<open>int\<close> and \<open>int64\<close>, and the generic lemmas on lists the components use.
\<close>

unbundle bit_operations_syntax

type_synonym byte = "8 word"
type_synonym bytes = "byte list"

named_theorems lit_simps \<open>evaluation of string literals as bytes\<close>

definition lit :: "string \<Rightarrow> bytes" where
  "lit s = map of_char s"

lemma lit_Nil [simp, lit_simps]: "lit [] = []"
  by (simp add: lit_def)

lemma lit_Cons [lit_simps]: "lit (c # cs) = of_char c # lit cs"
  by (simp add: lit_def)

lemma lit_append: "lit (s @ t) = lit s @ lit t"
  by (simp add: lit_def)

lemma length_lit [simp]: "length (lit s) = length s"
  by (simp add: lit_def)

text \<open>Go's \<open>int\<close> and \<open>int64\<close>: an integer reduced into \<open>[-2^63, 2^63)\<close>.\<close>

definition wrap64 :: "int \<Rightarrow> int" where
  "wrap64 x = (x + 2 ^ 63) mod 2 ^ 64 - 2 ^ 63"

definition int64_ok :: "int \<Rightarrow> bool" where
  "int64_ok x \<longleftrightarrow> - (2 ^ 63) \<le> x \<and> x < 2 ^ 63"

lemma wrap64_id [simp]: "int64_ok x \<Longrightarrow> wrap64 x = x"
  by (simp add: wrap64_def int64_ok_def)

lemma wrap64_ok [simp]: "int64_ok (wrap64 x)"
proof -
  have "0 \<le> (x + 2 ^ 63) mod 2 ^ 64" and "(x + 2 ^ 63) mod 2 ^ 64 < (2::int) ^ 64"
    by simp_all
  then show ?thesis by (simp add: wrap64_def int64_ok_def)
qed

lemma wrap64_unique:
  assumes "int64_ok y" "2 ^ 64 dvd x - y"
  shows "wrap64 x = y"
proof -
  from assms(2) obtain k where "x - y = 2 ^ 64 * k" by (rule dvdE)
  then have "x + 2 ^ 63 = (y + 2 ^ 63) + 2 ^ 64 * k" by linarith
  then have "wrap64 x = wrap64 y" by (simp only: wrap64_def mod_mult_self2)
  with assms(1) show ?thesis by simp
qed

abbreviation max_int64 :: int where "max_int64 \<equiv> 9223372036854775807"
abbreviation min_int64 :: int where "min_int64 \<equiv> - 9223372036854775808"

subsection \<open>Bytes as numbers\<close>

lemma unat_byte_lt [simp]: "unat (b :: byte) < 256"
  using unsigned_less [of b] by simp

lemma unat_byte_le: "unat (b :: byte) \<le> 255"
  using unat_byte_lt [of b] by linarith

lemma unat_of_nat_byte: "n < 256 \<Longrightarrow> unat (of_nat n :: byte) = n"
  by (simp add: unsigned_of_nat take_bit_nat_eq_self)

lemma byte_eq: "n < 256 \<Longrightarrow> unat x = n \<Longrightarrow> of_nat n = (x :: byte)"
  by (simp only: word_unat_eq_iff unat_of_nat_byte)

subsection \<open>Strings\<close>

text \<open>\<open>strings.Split\<close> and \<open>strings.Join\<close> with a one-byte separator, and the other functions used.\<close>

fun split_byte :: "byte \<Rightarrow> bytes \<Rightarrow> bytes list" where
  "split_byte c [] = [[]]"
| "split_byte c (b # bs) =
     (if b = c then [] # split_byte c bs
      else case split_byte c bs of [] \<Rightarrow> [[b]] | p # ps \<Rightarrow> (b # p) # ps)"

fun join_byte :: "byte \<Rightarrow> bytes list \<Rightarrow> bytes" where
  "join_byte c [] = []"
| "join_byte c [p] = p"
| "join_byte c (p # ps) = p @ c # join_byte c ps"

definition has_suffix :: "bytes \<Rightarrow> bytes \<Rightarrow> bool" where
  "has_suffix s suf \<longleftrightarrow> length suf \<le> length s \<and> drop (length s - length suf) s = suf"

definition has_prefix :: "bytes \<Rightarrow> bytes \<Rightarrow> bool" where
  "has_prefix s pre \<longleftrightarrow> take (length pre) s = pre"

end
