(* ===== verification/Float64.thy ===== *)
theory Float64
  imports Prelude
begin

text \<open>
  Go's \<open>float64\<close> as far as the verifier uses it: reading a decimal literal (\<open>strconv.ParseFloat\<close>,
  rounded to nearest, ties to even, overflow to infinity) and truncation. A finite value is a sign,
  a mantissa and a power of two, so the operations below are exact.
\<close>

datatype float64 = FNaN | FInf bool | FFin bool nat int

function ilog2 :: "nat \<Rightarrow> nat" where
  "ilog2 n = (if n \<le> 1 then 0 else Suc (ilog2 (n div 2)))"
  by pat_completeness auto
termination by (relation "measure id") auto

declare ilog2.simps [simp del]

lemma ilog2_bounds: "0 < n \<Longrightarrow> 2 ^ ilog2 n \<le> n \<and> n < 2 ^ Suc (ilog2 n)"
proof (induction n rule: ilog2.induct)
  case (1 n)
  show ?case
  proof (cases "n \<le> 1")
    case True
    with 1(2) show ?thesis by (simp add: ilog2.simps)
  next
    case False
    then have "ilog2 n = Suc (ilog2 (n div 2))" by (simp add: ilog2.simps [of n])
    with 1(1) False show ?thesis by auto
  qed
qed

definition scale2 :: "nat \<Rightarrow> int \<Rightarrow> nat" where
  "scale2 n e = (if 0 \<le> e then n * 2 ^ nat e else n)"

text \<open>\<open>num / den\<close> divided by \<open>2^q\<close>, to the nearest integer, ties to even.\<close>

definition round_even :: "nat \<Rightarrow> nat \<Rightarrow> int \<Rightarrow> nat" where
  "round_even num den q =
     (let n = scale2 num (- q); d = scale2 den q; m = n div d; r = n mod d
      in if 2 * r < d \<or> 2 * r = d \<and> even m then m else m + 1)"

definition round_ratio :: "bool \<Rightarrow> nat \<Rightarrow> nat \<Rightarrow> float64" where
  "round_ratio neg num den =
     (if num = 0 then FFin neg 0 0
      else let e0 = int (ilog2 num) - int (ilog2 den);
               e = (if scale2 num (- e0) < scale2 den e0 then e0 - 1 else e0);
               q = max (e - 52) (- 1074);
               m = round_even num den q
           in if scale2 m (q - 971) \<ge> 2 ^ 53 \<and> q \<ge> 971 then FInf neg else FFin neg m q)"

definition is_digit :: "byte \<Rightarrow> bool" where
  "is_digit b \<longleftrightarrow> 48 \<le> unat b \<and> unat b \<le> 57"

definition digits_val :: "bytes \<Rightarrow> nat" where
  "digits_val ds = foldl (\<lambda>a d. 10 * a + (unat d - 48)) 0 ds"

text \<open>\<open>[+-]?d+(.d*)?([eE][+-]?d+)?\<close>, the literals the callers have already delimited.\<close>

definition strip_sign :: "bytes \<Rightarrow> bool \<times> bytes" where
  "strip_sign s = (case s of
     [] \<Rightarrow> (False, [])
   | c # cs \<Rightarrow> if c = 45 then (True, cs) else if c = 43 then (False, cs) else (False, s))"

definition exponent_val :: "bytes \<Rightarrow> int" where
  "exponent_val s = (case s of
     [] \<Rightarrow> 0
   | _ # cs \<Rightarrow> (let (neg, ds) = strip_sign cs; v = int (digits_val (takeWhile is_digit ds))
               in if neg then - v else v))"

definition ParseFloat :: "bytes \<Rightarrow> float64" where
  "ParseFloat s =
     (let (neg, body) = strip_sign s;
          ip = takeWhile is_digit body;
          rest = dropWhile is_digit body;
          (fp, rest') = (case rest of
              c # cs \<Rightarrow> if c = 46 then (takeWhile is_digit cs, dropWhile is_digit cs) else ([], rest)
            | [] \<Rightarrow> ([], []));
          e10 = exponent_val rest' - int (length fp);
          n = digits_val (ip @ fp)
      in if 0 \<le> e10 then round_ratio neg (n * 10 ^ nat e10) 1
         else round_ratio neg n (10 ^ nat (- e10)))"

text \<open>Truncation toward zero, and comparison of the magnitude with a power of two.\<close>

fun ftrunc :: "float64 \<Rightarrow> int" where
  "ftrunc (FFin neg m e) =
     (let t = int (if 0 \<le> e then m * 2 ^ nat e else m div 2 ^ nat (- e)) in if neg then - t else t)"
| "ftrunc _ = 0"

definition ge_pow2 :: "nat \<Rightarrow> int \<Rightarrow> nat \<Rightarrow> bool" where
  "ge_pow2 m e k \<longleftrightarrow> 2 ^ k \<le> m * 2 ^ nat e \<and> 0 \<le> e \<or> 2 ^ k * 2 ^ nat (- e) \<le> m \<and> e < 0"

lemma ge_pow2_trunc:
  "ge_pow2 m e k \<longleftrightarrow> 2 ^ k \<le> (if 0 \<le> e then m * 2 ^ nat e else m div 2 ^ nat (- e))"
  by (auto simp: ge_pow2_def less_eq_div_iff_mult_less_eq)

definition le_pow2 :: "nat \<Rightarrow> int \<Rightarrow> nat \<Rightarrow> bool" where
  "le_pow2 m e k \<longleftrightarrow> m * 2 ^ nat e \<le> 2 ^ k \<and> 0 \<le> e \<or> m \<le> 2 ^ k * 2 ^ nat (- e) \<and> e < 0"

lemma le_pow2_trunc: "le_pow2 m e k \<Longrightarrow> (if 0 \<le> e then m * 2 ^ nat e else m div 2 ^ nat (- e)) \<le> 2 ^ k"
  by (auto simp: le_pow2_def) (metis div_le_mono nonzero_mult_div_cancel_right power_eq_0_iff zero_neq_numeral)

subsection \<open>Decimal text\<close>

text \<open>\<open>strconv.FormatInt(i, 10)\<close>.\<close>

function nat_digits :: "nat \<Rightarrow> bytes" where
  "nat_digits n = (if n < 10 then [of_nat (48 + n)] else nat_digits (n div 10) @ [of_nat (48 + n mod 10)])"
  by pat_completeness auto
termination by (relation "measure id") auto

declare nat_digits.simps [simp del]

definition int_text :: "int \<Rightarrow> bytes" where
  "int_text i = (if i < 0 then 45 # nat_digits (nat (- i)) else nat_digits (nat i))"

lemma is_digit_of_nat: "d < 10 \<Longrightarrow> is_digit (of_nat (48 + d)) \<and> unat (of_nat (48 + d) :: byte) = 48 + d"
  using unat_of_nat_byte [of "48 + d"] by (simp add: is_digit_def del: of_nat_add)

lemma digits_val_snoc: "digits_val (ds @ [d]) = 10 * digits_val ds + (unat d - 48)"
  by (simp add: digits_val_def)

lemma nat_digits_props:
  "nat_digits n \<noteq> [] \<and> list_all is_digit (nat_digits n) \<and> digits_val (nat_digits n) = n \<and>
   (hd (nat_digits n) = 48 \<longrightarrow> n = 0) \<and> (n = 0 \<longrightarrow> nat_digits n = [48])"
proof (induction n rule: nat_digits.induct)
  case (1 n)
  show ?case
  proof (cases "n < 10")
    case True
    have "of_nat (48 + n) = (48 :: byte) \<longrightarrow> n = 0"
      using is_digit_of_nat [OF True] by (auto simp del: of_nat_add)
    then show ?thesis
      using True is_digit_of_nat [OF True]
      by (subst nat_digits.simps) (simp add: digits_val_def nat_digits.simps del: of_nat_add)
  next
    case False
    with 1 have IH: "nat_digits (n div 10) \<noteq> []" "list_all is_digit (nat_digits (n div 10))"
      "digits_val (nat_digits (n div 10)) = n div 10" "hd (nat_digits (n div 10)) = 48 \<longrightarrow> n div 10 = 0"
      by auto
    have e: "nat_digits n = nat_digits (n div 10) @ [of_nat (48 + n mod 10)]"
      using False by (subst nat_digits.simps) (simp del: of_nat_add)
    have d: "n mod 10 < 10" by simp
    have "n div 10 \<noteq> 0" using False by (simp add: div_eq_0_iff)
    with IH is_digit_of_nat [OF d] False show ?thesis
      by (simp add: e digits_val_snoc del: of_nat_add)
  qed
qed

lemma length_nat_digits: "0 < k \<Longrightarrow> n < 10 ^ k \<Longrightarrow> length (nat_digits n) \<le> k"
proof (induction n arbitrary: k rule: nat_digits.induct)
  case (1 n)
  show ?case
  proof (cases "n < 10")
    case True
    with 1(2) show ?thesis by (simp add: nat_digits.simps)
  next
    case False
    obtain j where kj: "k = Suc j" using 1(2) by (cases k) auto
    moreover have "0 < j" using 1(3) False kj by (cases j) auto
    ultimately have k: "k = Suc j" "0 < j" by simp_all
    have "n div 10 < 10 ^ j" using 1(3) k by (simp add: div_less_iff_less_mult mult.commute)
    with 1(1) [OF False k(2)] k False show ?thesis by (subst nat_digits.simps) simp
  qed
qed

end
