(* ===== verification/Php_Compat.thy ===== *)
theory Php_Compat
  imports Float64 "HOL-Library.Sublist"
begin

text \<open>
  \<open>internal/phpcompat/base64.go\<close> and \<open>internal/phpcompat/cast.go\<close>: PHP's strict base64 decoder
  with its accumulator of 32 bits, and the \<open>(int)\<close> casts of strings and floats.
\<close>

subsection \<open>Strict base64\<close>

definition base64Value :: "byte \<Rightarrow> byte option" where
  "base64Value ch =
     (if unat ch \<ge> 65 \<and> unat ch \<le> 90 then Some (ch - 65)
      else if unat ch \<ge> 97 \<and> unat ch \<le> 122 then Some (ch - 97 + 26)
      else if unat ch \<ge> 48 \<and> unat ch \<le> 57 then Some (ch - 48 + 52)
      else if ch = 43 then Some 62
      else if ch = 47 then Some 63
      else None)"

record b64state =
  b_out :: bytes
  b_acc :: "32 word"
  b_bits :: nat
  b_count :: nat
  b_padding :: nat

definition b64_init :: b64state where
  "b64_init = \<lparr>b_out = [], b_acc = 0, b_bits = 0, b_count = 0, b_padding = 0\<rparr>"

definition is_b64_space :: "byte \<Rightarrow> bool" where
  "is_b64_space ch \<longleftrightarrow> ch = 32 \<or> ch = 9 \<or> ch = 13 \<or> ch = 10"

definition b64_push :: "byte \<Rightarrow> b64state \<Rightarrow> b64state" where
  "b64_push v st =
     (let acc = push_bit 6 (b_acc st) OR ucast v;
          bits = b_bits st + 6;
          st' = st\<lparr>b_acc := acc, b_bits := bits, b_count := b_count st + 1\<rparr>
      in if bits \<ge> 8
         then st'\<lparr>b_bits := bits - 8, b_out := b_out st @ [ucast (drop_bit (bits - 8) acc)]\<rparr>
         else st')"

fun b64_loop :: "bytes \<Rightarrow> b64state \<Rightarrow> b64state option" where
  "b64_loop [] st = Some st"
| "b64_loop (ch # s) st =
     (if ch = 61 then b64_loop s (st\<lparr>b_padding := b_padding st + 1\<rparr>)
      else case base64Value ch of
        None \<Rightarrow> if is_b64_space ch then b64_loop s st else None
      | Some v \<Rightarrow> if b_padding st > 0 then None else b64_loop s (b64_push v st))"

definition Base64Strict :: "bytes \<Rightarrow> bytes option" where
  "Base64Strict s =
     (case b64_loop s b64_init of
        None \<Rightarrow> None
      | Some st \<Rightarrow>
          if b_count st mod 4 = 1 then None
          else if b_padding st > 0 \<and> (b_padding st > 2 \<or> (b_count st + b_padding st) mod 4 \<noteq> 0) then None
          else Some (b_out st))"

subsection \<open>The casts\<close>

definition is_php_space :: "byte \<Rightarrow> bool" where
  "is_php_space b \<longleftrightarrow> b = 32 \<or> b = 9 \<or> b = 10 \<or> b = 13 \<or> b = 11 \<or> b = 12"

fun saturatingFloatToInt :: "float64 \<Rightarrow> int" where
  "saturatingFloatToInt (FFin neg m e) =
     (if \<not> neg \<and> ge_pow2 m e 63 then max_int64
      else if neg \<and> ge_pow2 m e 63 then min_int64
      else ftrunc (FFin neg m e))"
| "saturatingFloatToInt _ = 0"

text \<open>
  \<open>strconv.ParseInt\<close> in base 10 on an optionally signed run of digits: nothing when it is out of range.
\<close>

definition ParseInt10 :: "bytes \<Rightarrow> int option" where
  "ParseInt10 s =
     (let (neg, ds) = strip_sign s; v = (if neg then - int (digits_val ds) else int (digits_val ds))
      in if int64_ok v then Some v else None)"

text \<open>
  The cursor of the source is kept as the text it has left: \<open>sign\<close>, \<open>digits\<close>, and what follows them,
  \<open>frac\<close> the dot and its digits, \<open>expo\<close> the exponent when it has a digit.
\<close>

definition StringToInt :: "bytes \<Rightarrow> int" where
  "StringToInt s =
     (let s1 = dropWhile is_php_space s;
          sign = (case s1 of c # _ \<Rightarrow> if c = 43 \<or> c = 45 then [c] else [] | [] \<Rightarrow> []);
          s2 = drop (length sign) s1;
          digits = takeWhile is_digit s2;
          s3 = dropWhile is_digit s2
      in if digits = [] then 0
         else let frac = (case s3 of c # cs \<Rightarrow> if c = 46 then 46 # takeWhile is_digit cs else [] | [] \<Rightarrow> []);
                  s4 = drop (length frac) s3;
                  expo = (case s4 of
                      c # cs \<Rightarrow>
                        if c = 101 \<or> c = 69
                        then let es = (case cs of d # _ \<Rightarrow> if d = 43 \<or> d = 45 then [d] else [] | [] \<Rightarrow> []);
                                 ed = takeWhile is_digit (drop (length es) cs)
                             in if ed \<noteq> [] then c # es @ ed else []
                        else []
                    | [] \<Rightarrow> [])
              in if frac @ expo \<noteq> []
                 then saturatingFloatToInt (ParseFloat (sign @ digits @ frac @ expo))
                 else case ParseInt10 (sign @ digits) of
                   Some v \<Rightarrow> v
                 | None \<Rightarrow> if sign = [45] then min_int64 else max_int64)"

text \<open>\<open>math.Mod\<close> keeps the sign of its first argument; \<open>int64(uint64(m))\<close> reinterprets.\<close>

fun FloatToInt :: "float64 \<Rightarrow> int" where
  "FloatToInt (FFin neg m e) =
     (if neg \<and> le_pow2 m e 63 \<or> \<not> neg \<and> \<not> ge_pow2 m e 63
      then ftrunc (FFin neg m e)
      else let t = ftrunc (FFin neg m e);
               r = (if t < 0 then - (- t mod 2 ^ 64) else t mod 2 ^ 64);
               r' = (if r < 0 then r + 2 ^ 64 else r)
           in if r' \<ge> 2 ^ 63 then r' - 2 ^ 64 else r')"
| "FloatToInt _ = 0"

lemma signed_mod_bounds:
  assumes "0 < M"
  shows "- M < (if f < 0 then - (- f mod M) else f mod M) \<and> (if f < 0 then - (- f mod M) else f mod M) < (M :: int)"
  using pos_mod_bound [OF assms, of f] pos_mod_bound [OF assms, of "- f"]
    pos_mod_sign [OF assms, of f] pos_mod_sign [OF assms, of "- f"] assms
  by (intro conjI; cases "f < 0"; simp only: if_True if_False; linarith)

lemma FloatToInt_wrap: "FloatToInt f = wrap64 (ftrunc f)"
proof (cases f)
  case (FFin neg m e)
  define a where "a = (if 0 \<le> e then m * 2 ^ nat e else m div 2 ^ nat (- e))"
  have t: "ftrunc f = (if neg then - int a else int a)" by (simp add: FFin a_def)
  show ?thesis
  proof (cases "neg \<and> le_pow2 m e 63 \<or> \<not> neg \<and> \<not> ge_pow2 m e 63")
    case True
    then have "neg \<and> a \<le> 2 ^ 63 \<or> \<not> neg \<and> a < 2 ^ 63"
      using le_pow2_trunc [of m e 63] ge_pow2_trunc [of m e 63] by (auto simp: a_def not_le)
    then have "int64_ok (ftrunc f)" unfolding t int64_ok_def by auto
    with True show ?thesis by (simp add: FFin)
  next
    case False
    define r where "r = (if ftrunc f < 0 then - (- ftrunc f mod 2 ^ 64) else ftrunc f mod 2 ^ 64)"
    define r' where "r' = (if r < 0 then r + 2 ^ 64 else r)"
    define v where "v = (if r' \<ge> 2 ^ 63 then r' - 2 ^ 64 else r')"
    have "- (2 ^ 64) < r \<and> r < 2 ^ 64"
      unfolding r_def by (rule signed_mod_bounds) simp
    then have "int64_ok v" by (simp add: v_def r'_def int64_ok_def)
    have "2 ^ 64 dvd ftrunc f - r"
    proof (cases "ftrunc f < 0")
      case True
      then have "ftrunc f - r = - (- ftrunc f - - ftrunc f mod 2 ^ 64)" by (simp only: r_def if_True)
      then show ?thesis by (simp only: dvd_minus_iff dvd_minus_mod)
    next
      case False
      then show ?thesis by (simp only: r_def if_False dvd_minus_mod)
    qed
    have "v = r + 0 * 2 ^ 64 \<or> v = r + 1 * 2 ^ 64 \<or> v = r + (- 1) * 2 ^ 64"
      by (simp add: v_def r'_def)
    then obtain k where "v = r + k * 2 ^ 64" by blast
    then have "ftrunc f - v = (ftrunc f - r) - k * 2 ^ 64" by simp
    with \<open>2 ^ 64 dvd ftrunc f - r\<close> have "2 ^ 64 dvd ftrunc f - v"
      by (simp only: dvd_diff dvd_triv_right)
    with \<open>int64_ok v\<close> have "wrap64 (ftrunc f) = v" by (rule wrap64_unique)
    moreover have "FloatToInt f = v"
      using False unfolding FFin FloatToInt.simps by (simp only: if_False Let_def v_def r'_def r_def FFin)
    ultimately show ?thesis by simp
  qed
qed (simp_all add: wrap64_def)

subsection \<open>What the base64 decoder computes\<close>

text \<open>
  The decoder against a specification without an accumulator: white space dropped, a body of
  alphabet characters, padding that completes a quartet, and the bytes of the body read as one
  number in base 64, its last incomplete bits dropped.
\<close>

definition val_base :: "nat \<Rightarrow> nat list \<Rightarrow> nat" where
  "val_base k ds = foldl (\<lambda>a d. k * a + d) 0 ds"

lemma val_base_snoc [simp]: "val_base k [] = 0" "val_base k (ds @ [d]) = k * val_base k ds + d"
  by (simp_all add: val_base_def)

text \<open>The last \<open>n\<close> bytes of a number, most significant first.\<close>

fun be_bytes :: "nat \<Rightarrow> nat \<Rightarrow> bytes" where
  "be_bytes 0 x = []"
| "be_bytes (Suc n) x = be_bytes n (x div 256) @ [of_nat (x mod 256)]"

lemma be_bytes_val: "be_bytes (length bs) (val_base 256 (map unat bs)) = bs"
proof (induction bs rule: rev_induct)
  case (snoc b bs)
  then show ?case by simp
qed simp

definition b64_val :: "byte \<Rightarrow> nat" where
  "b64_val ch = unat (the (base64Value ch))"

definition b64_spec :: "bytes \<Rightarrow> bytes option" where
  "b64_spec s =
     (let clean = filter (\<lambda>c. \<not> is_b64_space c) s;
          body = takeWhile (\<lambda>c. c \<noteq> 61) clean; pads = dropWhile (\<lambda>c. c \<noteq> 61) clean;
          n = length body
      in if list_all (\<lambda>c. base64Value c \<noteq> None) body \<and> list_all (\<lambda>c. c = 61) pads \<and> n mod 4 \<noteq> 1 \<and>
            (pads = [] \<or> length pads \<le> 2 \<and> (n + length pads) mod 4 = 0)
         then Some (be_bytes (6 * n div 8) (val_base 64 (map b64_val body) div 2 ^ (6 * n mod 8)))
         else None)"

lemma base64Value_not: "base64Value 61 = None" "is_b64_space c \<Longrightarrow> base64Value c = None \<and> c \<noteq> 61"
  by (auto simp: base64Value_def is_b64_space_def)

lemma b64_loop_clean: "b64_loop (filter (\<lambda>c. \<not> is_b64_space c) s) st = b64_loop s st"
  using base64Value_not by (induction s st rule: b64_loop.induct) (auto split: option.splits)

definition b64_pushes :: "bytes \<Rightarrow> b64state \<Rightarrow> b64state" where
  "b64_pushes cs st = fold (\<lambda>c. b64_push (the (base64Value c))) cs st"

lemma b64_push_padding [simp]: "b_padding (b64_push v st) = b_padding st"
  by (simp add: b64_push_def Let_def)

lemma b64_loop_pads:
  "list_all (\<lambda>c. \<not> is_b64_space c) s \<Longrightarrow> b_padding st > 0 \<Longrightarrow>
   b64_loop s st = (if list_all (\<lambda>c. c = 61) s then Some (st\<lparr>b_padding := b_padding st + length s\<rparr>) else None)"
  by (induction s arbitrary: st) (auto split: option.splits)

lemma b64_loop_body:
  assumes "list_all (\<lambda>c. \<not> is_b64_space c) s" "b_padding st = 0"
  shows "b64_loop s st =
     (let body = takeWhile (\<lambda>c. c \<noteq> 61) s; pads = dropWhile (\<lambda>c. c \<noteq> 61) s
      in if list_all (\<lambda>c. base64Value c \<noteq> None) body \<and> list_all (\<lambda>c. c = 61) pads
         then Some ((b64_pushes body st)\<lparr>b_padding := length pads\<rparr>) else None)"
  using assms
proof (induction s arbitrary: st)
  case (Cons c s)
  show ?case
  proof (cases "c = 61")
    case True
    with Cons.prems show ?thesis by (simp add: b64_loop_pads b64_pushes_def Let_def)
  next
    case False
    with Cons show ?thesis by (cases "base64Value c") (simp_all add: b64_pushes_def Let_def)
  qed
qed (simp add: b64_pushes_def)

lemma base64Value_bound: "base64Value c = Some v \<Longrightarrow> unat v < 64"
  by (auto simp: base64Value_def unat_sub_if' unat_word_ariths split: if_splits)

lemma acc_step:
  fixes acc :: "32 word" and v :: byte
  assumes "unat v < 64" "k \<le> 26"
  shows "unat (push_bit 6 acc OR ucast v :: 32 word) mod 2 ^ (k + 6) = (unat acc mod 2 ^ k) * 64 + unat v"
proof -
  have v: "take_bit 6 (unat v) = unat v" using assms(1) by (simp add: take_bit_nat_eq_self)
  have "unat (push_bit 6 acc OR ucast v :: 32 word) = take_bit 32 (push_bit 6 (unat acc)) OR unat v"
    by (simp add: unsigned_or_eq unsigned_push_bit_eq unsigned_ucast_eq take_bit_nat_eq_self order.strict_trans [OF unat_byte_lt])
  then have "unat (push_bit 6 acc OR ucast v :: 32 word) mod 2 ^ (k + 6) =
      take_bit (k + 6) (push_bit 6 (unat acc)) OR take_bit (k + 6) (unat v)"
    using assms(2) by (simp flip: take_bit_eq_mod)
  also have "take_bit (k + 6) (unat v) = unat v" using assms(1) by (metis v take_bit_take_bit min.absorb_iff2 le_add2)
  also have "take_bit (k + 6) (push_bit 6 (unat acc)) = push_bit 6 (take_bit k (unat acc))"
    by (simp add: take_bit_push_bit)
  also have "\<dots> OR unat v = push_bit 6 (take_bit k (unat acc)) + unat v"
    by (rule disjunctive_add [symmetric]) (metis v bit_push_bit_iff bit_take_bit_iff not_less)
  also have "\<dots> = (unat acc mod 2 ^ k) * 64 + unat v"
    by (simp add: push_bit_eq_mult take_bit_eq_mod)
  finally show ?thesis .
qed

text \<open>The accumulator: the bytes out and the pending bits are the number read so far.\<close>

definition b64_inv :: "b64state \<Rightarrow> nat list \<Rightarrow> bool" where
  "b64_inv st vs \<longleftrightarrow> b_bits st < 8 \<and> 8 * length (b_out st) + b_bits st = 6 * length vs \<and>
     b_count st = length vs \<and>
     val_base 256 (map unat (b_out st)) * 2 ^ b_bits st + unat (b_acc st) mod 2 ^ b_bits st = val_base 64 vs"

lemma b64_push_inv:
  assumes inv: "b64_inv st vs" and v: "unat v < 64"
  shows "b64_inv (b64_push v st) (vs @ [unat v])"
proof -
  define k where "k = b_bits st"
  define acc :: "32 word" where "acc = push_bit 6 (b_acc st) OR ucast v"
  define N where "N = val_base 256 (map unat (b_out st))"
  from inv have k: "k < 8" "8 * length (b_out st) + k = 6 * length vs" and cnt: "b_count st = length vs"
    and num: "N * 2 ^ k + unat (b_acc st) mod 2 ^ k = val_base 64 vs"
    by (simp_all add: b64_inv_def k_def N_def)
  have step: "unat acc mod 2 ^ (k + 6) = (unat (b_acc st) mod 2 ^ k) * 64 + unat v"
    unfolding acc_def using k(1) v by (intro acc_step) simp_all
  have "val_base 64 (vs @ [unat v]) = 64 * (N * 2 ^ k + unat (b_acc st) mod 2 ^ k) + unat v"
    by (simp add: num)
  also have "\<dots> = N * 2 ^ (k + 6) + unat acc mod 2 ^ (k + 6)"
    by (simp only: step) (simp add: power_add algebra_simps)
  finally have new: "val_base 64 (vs @ [unat v]) = N * 2 ^ (k + 6) + unat acc mod 2 ^ (k + 6)" .
  show ?thesis
  proof (cases "k + 6 \<ge> 8")
    case False
    with new k cnt show ?thesis
      by (simp add: b64_inv_def b64_push_def Let_def N_def flip: k_def acc_def)
  next
    case True
    define j where "j = k - 2"
    have kj: "k + 6 = j + 8" "j < 8" using True k by (simp_all add: j_def)
    define b :: byte where "b = ucast (drop_bit j acc)"
    have "unat b = take_bit 8 (drop_bit j (unat acc))"
      using unsigned_less [of acc, where ?'a = nat]
      by (simp add: b_def unsigned_ucast_eq unsigned_drop_bit_eq take_bit_nat_eq_self)
    then have "unat b * 2 ^ j + unat acc mod 2 ^ j = unat acc mod 2 ^ (j + 8)"
      by (metis bits_ident drop_bit_take_bit push_bit_eq_mult take_bit_eq_mod take_bit_take_bit add_diff_cancel_left' le_add1 min.absorb1)
    then have "N * 2 ^ (k + 6) + unat acc mod 2 ^ (k + 6) = (N * 256 + unat b) * 2 ^ j + unat acc mod 2 ^ j"
      unfolding kj(1) by (simp add: power_add algebra_simps)
    with new have "val_base 64 (vs @ [unat v]) = (256 * N + unat b) * 2 ^ j + unat acc mod 2 ^ j"
      by (simp add: mult.commute)
    then show ?thesis
      using k cnt kj True
      by (simp add: b64_inv_def b64_push_def Let_def N_def j_def b_def flip: k_def acc_def)
  qed
qed

lemma b64_pushes_inv:
  "b64_inv st vs \<Longrightarrow> list_all (\<lambda>c. base64Value c \<noteq> None) cs \<Longrightarrow>
   b64_inv (b64_pushes cs st) (vs @ map b64_val cs)"
proof (induction cs arbitrary: st vs)
  case (Cons c cs)
  then obtain v where v: "base64Value c = Some v" by auto
  from Cons.IH [OF b64_push_inv [OF Cons.prems(1) base64Value_bound [OF v]]] Cons.prems(2) v
  show ?case by (simp add: b64_pushes_def b64_val_def)
qed (simp add: b64_pushes_def)

lemma Base64Strict_spec: "Base64Strict s = b64_spec s"
proof -
  define clean where "clean = filter (\<lambda>c. \<not> is_b64_space c) s"
  define body where "body = takeWhile (\<lambda>c. c \<noteq> 61) clean"
  define pads where "pads = dropWhile (\<lambda>c. c \<noteq> 61) clean"
  have loop: "b64_loop s b64_init =
      (if list_all (\<lambda>c. base64Value c \<noteq> None) body \<and> list_all (\<lambda>c. c = 61) pads
       then Some ((b64_pushes body b64_init)\<lparr>b_padding := length pads\<rparr>) else None)"
  proof -
    have "list_all (\<lambda>c. \<not> is_b64_space c) clean" by (simp add: clean_def list_all_iff)
    moreover have "b_padding b64_init = 0" by (simp add: b64_init_def)
    ultimately show ?thesis
      unfolding b64_loop_clean [of s b64_init, folded clean_def, symmetric]
      by (simp only: b64_loop_body Let_def body_def pads_def)
  qed
  show ?thesis
  proof (cases "list_all (\<lambda>c. base64Value c \<noteq> None) body \<and> list_all (\<lambda>c. c = 61) pads")
    case False
    with loop show ?thesis
      by (auto simp: Base64Strict_def b64_spec_def Let_def clean_def body_def pads_def)
  next
    case True
    define st where "st = b64_pushes body b64_init"
    define n where "n = length body"
    have "b64_inv b64_init []" by (simp add: b64_inv_def b64_init_def)
    from b64_pushes_inv [OF this] True have inv: "b64_inv st (map b64_val body)" by (simp add: st_def)
    have n: "6 * n = b_bits st + 8 * length (b_out st)" "b_bits st < 8"
      using inv by (simp_all add: b64_inv_def n_def)
    then have bits: "b_bits st = 6 * n mod 8" and len: "length (b_out st) = 6 * n div 8"
      unfolding n(1) by simp_all
    have "val_base 64 (map b64_val body) =
        val_base 256 (map unat (b_out st)) * 2 ^ b_bits st + unat (b_acc st) mod 2 ^ b_bits st"
      using inv by (simp add: b64_inv_def)
    then have "val_base 64 (map b64_val body) div 2 ^ b_bits st = val_base 256 (map unat (b_out st))"
      by simp
    then have out: "be_bytes (6 * n div 8) (val_base 64 (map b64_val body) div 2 ^ (6 * n mod 8)) = b_out st"
      using be_bytes_val [of "b_out st"] by (simp add: bits len)
    have "b_count st = n" using inv by (simp add: b64_inv_def n_def)
    moreover have "b64_spec s =
       (if n mod 4 \<noteq> 1 \<and> (pads = [] \<or> length pads \<le> 2 \<and> (n + length pads) mod 4 = 0)
        then Some (be_bytes (6 * n div 8) (val_base 64 (map b64_val body) div 2 ^ (6 * n mod 8))) else None)"
      using True unfolding b64_spec_def Let_def n_def body_def pads_def clean_def by (simp only: simp_thms)
    ultimately show ?thesis
      using loop True out by (auto simp: Base64Strict_def st_def)
  qed
qed

end
