(* ===== verification/Php_Time.thy ===== *)
theory Php_Time
  imports Float64
begin

text \<open>
  \<open>internal/phpcompat/time.go\<close>: the timestamps of bundles and of certificates. An instant
  (\<open>time.Time\<close>) is its distance from 1970-01-01T00:00:00Z in nanoseconds; the code only compares
  instants and takes their whole seconds. The shapes the source gives as regular expressions are
  read off by position. The last lemmas show that \<open>time.Date\<close> as modelled is the Gregorian calendar.
\<close>

type_synonym time = int

definition second :: int where "second = 1000000000"

definition Before :: "time \<Rightarrow> time \<Rightarrow> bool" where "Before t u \<longleftrightarrow> t < u"
definition After :: "time \<Rightarrow> time \<Rightarrow> bool" where "After t u \<longleftrightarrow> u < t"
definition Unix :: "time \<Rightarrow> int" where "Unix t = t div second"

subsection \<open>The calendar\<close>

definition leap :: "int \<Rightarrow> bool" where
  "leap y \<longleftrightarrow> 4 dvd y \<and> (\<not> 100 dvd y \<or> 400 dvd y)"

text \<open>Days from 1970-01-01 to the first of January of a year.\<close>

definition days_to_year :: "int \<Rightarrow> int" where
  "days_to_year y = 365 * (y - 1970) + (y - 1) div 4 - (y - 1) div 100 + (y - 1) div 400 - 477"

definition days_before :: "int list" where
  "days_before = [0, 31, 59, 90, 120, 151, 181, 212, 243, 273, 304, 334, 365]"

text \<open>Days from the first of January to the first of a month, \<open>m\<close> counted from zero.\<close>

definition days_to_month :: "int \<Rightarrow> int \<Rightarrow> int" where
  "days_to_month y m = days_before ! nat m + (if leap y \<and> 2 \<le> m then 1 else 0)"

text \<open>
  \<open>time.Date\<close>: the month is brought into its range by carrying into the year, and everything below
  it is added up, so days, hours, minutes and seconds roll over. The last argument is the offset of
  the zone in seconds east of UTC.
\<close>

definition Date :: "int \<Rightarrow> int \<Rightarrow> int \<Rightarrow> int \<Rightarrow> int \<Rightarrow> int \<Rightarrow> int \<Rightarrow> int \<Rightarrow> time" where
  "Date year month day hour minute sec nanos offset =
     (let m = (month - 1) mod 12; y = year + (month - 1) div 12;
          days = days_to_year y + days_to_month y m + (day - 1)
      in (days * 86400 + hour * 3600 + minute * 60 + sec - offset) * second + nanos)"

subsection \<open>Shapes\<close>

definition pcreDollar :: "bytes \<Rightarrow> bytes" where
  "pcreDollar s = (if has_suffix s [10] \<and> \<not> has_suffix s [10, 10] then butlast s else s)"

text \<open>\<open>n\<close> digits at a position, and their value.\<close>

definition digits_at :: "bytes \<Rightarrow> nat \<Rightarrow> nat \<Rightarrow> bool" where
  "digits_at s i n \<longleftrightarrow> i + n \<le> length s \<and> list_all is_digit (take n (drop i s))"

definition num_at :: "bytes \<Rightarrow> nat \<Rightarrow> nat \<Rightarrow> int" where
  "num_at s i n = int (digits_val (take n (drop i s)))"

definition byte_at :: "bytes \<Rightarrow> nat \<Rightarrow> byte \<Rightarrow> bool" where
  "byte_at s i b \<longleftrightarrow> i < length s \<and> s ! i = b"

text \<open>An optional fraction of one to six digits: the digits, and what follows.\<close>

definition split_fraction :: "bytes \<Rightarrow> bytes \<times> bytes" where
  "split_fraction s = (case s of
     [] \<Rightarrow> ([], [])
   | c # cs \<Rightarrow>
       if c = 46 \<and> takeWhile is_digit cs \<noteq> [] \<and> length (takeWhile is_digit cs) \<le> 6
       then (takeWhile is_digit cs, dropWhile is_digit cs) else ([], s))"

definition rfc3339_shape :: "bytes \<Rightarrow> bool" where
  "rfc3339_shape s \<longleftrightarrow>
     digits_at s 0 4 \<and> byte_at s 4 45 \<and> digits_at s 5 2 \<and> byte_at s 7 45 \<and> digits_at s 8 2 \<and>
     byte_at s 10 84 \<and> digits_at s 11 2 \<and> byte_at s 13 58 \<and> digits_at s 14 2 \<and> byte_at s 16 58 \<and>
     digits_at s 17 2 \<and>
     (let zone = snd (split_fraction (drop 19 s))
      in zone = [90] \<or>
         length zone = 6 \<and> (byte_at zone 0 43 \<or> byte_at zone 0 45) \<and> digits_at zone 1 2 \<and>
         byte_at zone 3 58 \<and> digits_at zone 4 2)"

text \<open>The fraction padded with zeros to nanoseconds.\<close>

definition fraction_nanos :: "bytes \<Rightarrow> int" where
  "fraction_nanos frac =
     (if frac = [] then 0 else int (digits_val (frac @ replicate (9 - length frac) 48)))"

definition ParseRFC3339 :: "bytes \<Rightarrow> time option" where
  "ParseRFC3339 s0 =
     (let s = pcreDollar s0 in
      if \<not> rfc3339_shape s then None
      else let year = num_at s 0 4; month = num_at s 5 2; day = num_at s 8 2; hour = num_at s 11 2;
               minute = num_at s 14 2; sec = num_at s 17 2;
               (frac, zone) = split_fraction (drop 19 s)
        in if month > 12 \<or> day > 31 \<or> hour > 24 \<or> minute > 59 \<or> sec > 60 then None
           else if zone = [90] then Some (Date year month day hour minute sec (fraction_nanos frac) 0)
           else let sign = (if byte_at zone 0 45 then - 1 else 1);
                    offHour = num_at zone 1 2; offMin = num_at zone 4 2
             in if offHour > 24 \<or> offMin > 59 then None
                else Some (Date year month day hour minute sec (fraction_nanos frac)
                  (sign * (offHour * 3600 + offMin * 60))))"

text \<open>The year \<open>gmmktime\<close> takes a two-digit-looking one for.\<close>

definition mktime_year :: "int \<Rightarrow> int" where
  "mktime_year y = (if 0 \<le> y \<and> y \<le> 69 then y + 2000 else if 70 \<le> y \<and> y \<le> 100 then y + 1900 else y)"

definition GeneralizedTime :: "bytes \<Rightarrow> int option" where
  "GeneralizedTime s0 =
     (let s = pcreDollar s0 in
      if digits_at s 0 14 \<and> snd (split_fraction (drop 14 s)) = [90]
      then Some (Unix (Date (mktime_year (num_at s 0 4)) (num_at s 4 2) (num_at s 6 2)
        (num_at s 8 2) (num_at s 10 2) (num_at s 12 2) 0 0))
      else None)"

definition UTCTime :: "bytes \<Rightarrow> int option" where
  "UTCTime s0 =
     (let s = pcreDollar s0 in
      if digits_at s 0 12 \<and> drop 12 s = [90]
      then GeneralizedTime ((if num_at s 0 2 \<ge> 50 then lit ''19'' else lit ''20'') @ take 12 s @ lit ''Z'')
      else None)"

subsection \<open>The calendar is the Gregorian one\<close>

definition month_length :: "int \<Rightarrow> int \<Rightarrow> int" where
  "month_length y m = (if m = 2 then if leap y then 29 else 28 else if m \<in> {4, 6, 9, 11} then 30 else 31)"

definition valid_date :: "int \<times> int \<times> int \<Rightarrow> bool" where
  "valid_date d \<longleftrightarrow> (case d of (y, m, day) \<Rightarrow> 1 \<le> m \<and> m \<le> 12 \<and> 1 \<le> day \<and> day \<le> month_length y m)"

fun next_day :: "int \<times> int \<times> int \<Rightarrow> int \<times> int \<times> int" where
  "next_day (y, m, d) =
     (if d < month_length y m then (y, m, d + 1) else if m < 12 then (y, m + 1, 1) else (y + 1, 1, 1))"

text \<open>Midnight of a date.\<close>

fun midnight :: "int \<times> int \<times> int \<Rightarrow> time" where
  "midnight (y, m, d) = Date y m d 0 0 0 0 0"

lemma month_cases:
  "1 \<le> m \<Longrightarrow> m \<le> 12 \<Longrightarrow> m = 1 \<or> m = 2 \<or> m = 3 \<or> m = 4 \<or> m = 5 \<or> m = 6 \<or> m = 7 \<or> m = 8 \<or>
     m = 9 \<or> m = 10 \<or> m = 11 \<or> m = (12 :: int)"
  by presburger

lemma days_to_month_next:
  "1 \<le> m \<Longrightarrow> m < 12 \<Longrightarrow> days_to_month y m = days_to_month y (m - 1) + month_length y m"
  using month_cases [of m] by (auto simp: days_to_month_def days_before_def month_length_def)

lemma inclusion_exclusion_3:
  "(b \<Longrightarrow> a) \<Longrightarrow> (c \<Longrightarrow> b) \<Longrightarrow>
   (of_bool (a \<and> (\<not> b \<or> c)) :: int) = of_bool a - of_bool b + of_bool c"
  by (cases a; cases b; cases c) simp_all

lemma div_pred:
  fixes y k :: int
  assumes "0 < k"
  shows "y div k = (y - 1) div k + of_bool (k dvd y)"
proof (cases "k dvd y")
  case True
  then obtain q where q: "y = k * q" by (rule dvdE)
  have "(y - 1) div k = q - 1" by (rule int_div_pos_eq [of _ _ _ "k - 1"]) (use assms q in \<open>simp_all add: algebra_simps\<close>)
  with q True assms show ?thesis by simp
next
  case False
  then have "y mod k \<noteq> 0" by (simp add: dvd_eq_mod_eq_0)
  moreover have "0 \<le> y mod k" "y mod k < k" using assms by simp_all
  moreover have "y - 1 = k * (y div k) + (y mod k - 1)" by simp
  ultimately have "(y - 1) div k = y div k" by (intro int_div_pos_eq [of _ _ _ "y mod k - 1"]) linarith+
  with False show ?thesis by simp
qed

lemma leap_count: "(of_bool (leap y) :: int) = of_bool (4 dvd y) - of_bool (100 dvd y) + of_bool (400 dvd y)"
  unfolding leap_def
proof (rule inclusion_exclusion_3)
  assume "100 dvd y"
  then obtain k where "y = 100 * k" by (rule dvdE)
  then have "y = 4 * (25 * k)" by simp
  then show "4 dvd y" by (rule dvdI)
next
  assume "400 dvd y"
  then obtain k where "y = 400 * k" by (rule dvdE)
  then have "y = 100 * (4 * k)" by simp
  then show "100 dvd y" by (rule dvdI)
qed

lemma days_to_year_next: "days_to_year (y + 1) = days_to_year y + days_to_month y 11 + 31"
proof -
  define q where "q k = (y - 1) div k" for k
  define b where "b k = (of_bool (k dvd y) :: int)" for k
  have "y div 4 = q 4 + b 4" "y div 100 = q 100 + b 100" "y div 400 = q 400 + b 400"
    using div_pred [of 4 y] div_pred [of 100 y] div_pred [of 400 y] by (simp_all only: q_def b_def)
  then have "days_to_year (y + 1) = 365 * (y - 1969) + (q 4 + b 4) - (q 100 + b 100) + (q 400 + b 400) - 477"
    by (simp only: days_to_year_def add_diff_cancel_right') simp
  moreover have "days_to_year y = 365 * (y - 1970) + q 4 - q 100 + q 400 - 477"
    by (simp only: days_to_year_def q_def)
  moreover have "days_to_month y 11 = 334 + of_bool (leap y)"
    by (simp add: days_to_month_def days_before_def)
  then have "days_to_month y 11 = 334 + b 4 - b 100 + b 400"
    by (simp only: leap_count b_def)
  ultimately show ?thesis by simp
qed

lemma Date_in_year:
  "1 \<le> m \<Longrightarrow> m \<le> 12 \<Longrightarrow> midnight (y, m, d) = (days_to_year y + days_to_month y (m - 1) + (d - 1)) * 86400 * second"
  by (simp add: Date_def)

lemma midnight_next_day:
  assumes "valid_date d"
  shows "midnight (next_day d) = midnight d + 86400 * second \<and> valid_date (next_day d)"
proof (cases d)
  case (fields y m day)
  then show ?thesis
    using assms days_to_month_next [of m y] days_to_year_next [of y] month_cases [of m]
    by (auto simp: valid_date_def Date_in_year algebra_simps month_length_def days_to_month_def days_before_def
        simp del: midnight.simps)
qed

lemma midnight_epoch: "midnight (1970, 1, 1) = 0"
  by (simp add: Date_def days_to_year_def days_to_month_def days_before_def)

end
