(* ===== verification/Cjson_Value.thy ===== *)
theory Cjson_Value
  imports Float64 "HOL-Library.AList"
begin

text \<open>
  \<open>internal/cjson/value.go\<close>: decoded JSON values and the insertion-ordered member list of an
  object. A value holds its members as a list of pairs; the Go type \<open>Members\<close>, with its parallel
  slices and the index built once an object outgrows a linear scan, is modelled beside it and both
  are instances of the locale \<open>ordered_map\<close>, so what the verifier uses of objects holds of either.
  A nil \<open>*Value\<close> is \<open>None\<close>.
\<close>

datatype Kind = KNull | KBool | KInt | KFloat | KString | KArray | KObject

datatype json =
    JNull
  | JBool bool
  | JInt int
  | JFloat float64
  | JString bytes
  | JArray "json list"
  | JObject "(bytes \<times> json) list"

type_synonym vopt = "json option"

primrec kind_of :: "json \<Rightarrow> Kind" where
  "kind_of JNull = KNull"
| "kind_of (JBool b) = KBool"
| "kind_of (JInt i) = KInt"
| "kind_of (JFloat f) = KFloat"
| "kind_of (JString s) = KString"
| "kind_of (JArray xs) = KArray"
| "kind_of (JObject ms) = KObject"

primrec Kind_String :: "Kind \<Rightarrow> bytes" where
  "Kind_String KNull = lit ''null''"
| "Kind_String KBool = lit ''bool''"
| "Kind_String KInt = lit ''int''"
| "Kind_String KFloat = lit ''float''"
| "Kind_String KString = lit ''string''"
| "Kind_String KArray = lit ''array''"
| "Kind_String KObject = lit ''object''"

subsection \<open>Member lists\<close>

record 'v members =
  keys :: "bytes list"
  vals :: "'v list"
  idx :: "(bytes \<rightharpoonup> nat) option"

definition smallObject :: nat where
  "smallObject = 16"

definition NewObject :: "'v members" where
  "NewObject = \<lparr>keys = [], vals = [], idx = None\<rparr>"

text \<open>The linear scan: the position of the first key that matches.\<close>

fun scan_keys :: "bytes \<Rightarrow> bytes list \<Rightarrow> nat \<Rightarrow> nat option" where
  "scan_keys key [] i = None"
| "scan_keys key (k # ks) i = (if k = key then Some i else scan_keys key ks (Suc i))"

definition members_find :: "'v members \<Rightarrow> bytes \<Rightarrow> nat option" where
  "members_find m key = (case idx m of Some ix \<Rightarrow> ix key | None \<Rightarrow> scan_keys key (keys m) 0)"

definition members_Get :: "bytes \<Rightarrow> 'v members \<Rightarrow> 'v option" where
  "members_Get key m = (case members_find m key of None \<Rightarrow> None | Some i \<Rightarrow> Some (vals m ! i))"

definition members_Keys :: "'v members \<Rightarrow> bytes list" where
  "members_Keys m = keys m"

definition members_Len :: "'v members \<Rightarrow> nat" where
  "members_Len m = length (keys m)"

definition members_At :: "nat \<Rightarrow> 'v members \<Rightarrow> bytes \<times> 'v" where
  "members_At i m = (keys m ! i, vals m ! i)"

text \<open>\<open>for i, k := range o.keys { o.idx[k] = i }\<close> on a fresh map.\<close>

definition build_idx :: "bytes list \<Rightarrow> bytes \<rightharpoonup> nat" where
  "build_idx ks = fold (\<lambda>(i, k) ix. ix(k \<mapsto> i)) (enumerate 0 ks) Map.empty"

definition members_Set :: "bytes \<Rightarrow> 'v \<Rightarrow> 'v members \<Rightarrow> 'v members" where
  "members_Set key v m =
     (case members_find m key of
        Some i \<Rightarrow> m\<lparr>vals := (vals m)[i := v]\<rparr>
      | None \<Rightarrow>
          let m' = m\<lparr>keys := keys m @ [key], vals := vals m @ [v]\<rparr>
          in case idx m of
            Some ix \<Rightarrow> m'\<lparr>idx := Some (ix(key \<mapsto> length (keys m') - 1))\<rparr>
          | None \<Rightarrow> if length (keys m') > smallObject
              then m'\<lparr>idx := Some (build_idx (keys m'))\<rparr> else m')"

definition members_Delete :: "bytes \<Rightarrow> 'v members \<Rightarrow> 'v members" where
  "members_Delete key m =
     (case members_find m key of
        None \<Rightarrow> m
      | Some i \<Rightarrow>
          let m' = m\<lparr>keys := take i (keys m) @ drop (i + 1) (keys m),
                     vals := take i (vals m) @ drop (i + 1) (vals m)\<rparr>
          in case idx m of None \<Rightarrow> m' | Some ix \<Rightarrow> m'\<lparr>idx := Some (build_idx (keys m'))\<rparr>)"

definition members_ok :: "'v members \<Rightarrow> bool" where
  "members_ok m \<longleftrightarrow> length (vals m) = length (keys m) \<and> distinct (keys m) \<and>
     (case idx m of None \<Rightarrow> True | Some ix \<Rightarrow> \<forall>k. ix k = scan_keys k (keys m) 0)"

definition members_entries :: "'v members \<Rightarrow> (bytes \<times> 'v) list" where
  "members_entries m = zip (keys m) (vals m)"

subsection \<open>The contract\<close>

text \<open>
  An ordered map: setting replaces in place or appends, reading finds, deleting keeps the order of
  the rest. The laws are the equations of association lists.
\<close>

locale ordered_map =
  fixes ok :: "'o \<Rightarrow> bool" and entries :: "'o \<Rightarrow> (bytes \<times> 'v) list"
    and empty :: "'o" and get :: "bytes \<Rightarrow> 'o \<Rightarrow> 'v option"
    and set_in :: "bytes \<Rightarrow> 'v \<Rightarrow> 'o \<Rightarrow> 'o" and delete_in :: "bytes \<Rightarrow> 'o \<Rightarrow> 'o"
  assumes empty_ok: "ok empty" and empty_entries: "entries empty = []"
    and set_ok: "ok x \<Longrightarrow> ok (set_in k v x)"
    and set_entries: "ok x \<Longrightarrow> entries (set_in k v x) = AList.update k v (entries x)"
    and delete_ok: "ok x \<Longrightarrow> ok (delete_in k x)"
    and delete_entries: "ok x \<Longrightarrow> entries (delete_in k x) = AList.delete k (entries x)"
    and get_entries: "ok x \<Longrightarrow> get k x = map_of (entries x) k"
    and keys_distinct: "ok x \<Longrightarrow> distinct (map fst (entries x))"
begin

lemma get_set: "ok x \<Longrightarrow> get k' (set_in k v x) = (if k' = k then Some v else get k' x)"
  by (simp add: get_entries set_ok set_entries update_conv)

lemma get_delete: "ok x \<Longrightarrow> get k' (delete_in k x) = (if k' = k then None else get k' x)"
  by (simp add: get_entries delete_ok delete_entries delete_conv)

text \<open>The order of the keys: the first occurrence keeps its place.\<close>

lemma set_keys:
  "ok x \<Longrightarrow> map fst (entries (set_in k v x)) =
     (if k \<in> set (map fst (entries x)) then map fst (entries x) else map fst (entries x) @ [k])"
  by (simp add: set_entries update_keys)

text \<open>The last value set for a key wins.\<close>

lemma get_fold_set:
  "ok x \<Longrightarrow> ok (fold (\<lambda>(k, v). set_in k v) ps x) \<and>
     get k (fold (\<lambda>(k, v). set_in k v) ps x) = (case map_of (rev ps) k of Some v \<Rightarrow> Some v | None \<Rightarrow> get k x)"
proof (induction ps arbitrary: x)
  case (Cons p ps)
  obtain k' v' where p: "p = (k', v')" by (cases p)
  from Cons.IH [OF set_ok [OF Cons.prems, of k' v']] Cons.prems show ?case
    by (simp add: p get_set map_add_def split: option.splits)
qed simp

lemma entries_fold_set:
  "ok x \<Longrightarrow> entries (fold (\<lambda>(k, v). set_in k v) ps x) = fold (\<lambda>(k, v). AList.update k v) ps (entries x)"
  by (induction ps arbitrary: x) (auto simp: set_ok set_entries)

text \<open>Settings and deletions in any order: the last one of a key decides.\<close>

lemma get_fold_changes:
  "ok x \<Longrightarrow> get k (fold (\<lambda>(k, c). case c of None \<Rightarrow> delete_in k | Some v \<Rightarrow> set_in k v) cs x) =
     (case map_of (rev cs) k of Some r \<Rightarrow> r | None \<Rightarrow> get k x)"
proof (induction cs arbitrary: x)
  case (Cons c cs)
  obtain k' c' where c: "c = (k', c')" by (cases c)
  with Cons.prems Cons.IH [OF set_ok [OF Cons.prems]] Cons.IH [OF delete_ok [OF Cons.prems]] show ?case
    by (cases c') (auto simp: get_set get_delete map_add_def split: option.splits)
qed simp

lemma entries_fold_changes:
  "ok x \<Longrightarrow> entries (fold (\<lambda>(k, c). case c of None \<Rightarrow> delete_in k | Some v \<Rightarrow> set_in k v) cs x) =
     fold (\<lambda>(k, c). case c of None \<Rightarrow> AList.delete k | Some v \<Rightarrow> AList.update k v) cs (entries x)"
proof (induction cs arbitrary: x)
  case (Cons c cs)
  obtain k' c' where "c = (k', c')" by (cases c)
  with Cons show ?case by (cases c') (simp_all add: set_ok set_entries delete_ok delete_entries)
qed simp

end

interpretation amap: ordered_map "\<lambda>ps. distinct (map fst ps)" "\<lambda>ps. ps" "[]" "\<lambda>k ps. map_of ps k"
    AList.update AList.delete
  by unfold_locales (auto simp: distinct_update distinct_delete)

lemma scan_keys_Some:
  "scan_keys key ks i = Some j \<Longrightarrow> i \<le> j \<and> j - i < length ks \<and> ks ! (j - i) = key"
  by (induction key ks i rule: scan_keys.induct) (auto split: if_splits simp: Suc_diff_le nth_Cons')

lemma scan_keys_None: "scan_keys key ks i = None \<longleftrightarrow> key \<notin> set ks"
  by (induction key ks i rule: scan_keys.induct) auto

lemma scan_keys_append:
  "scan_keys key (ks @ ls) i =
     (case scan_keys key ks i of Some j \<Rightarrow> Some j | None \<Rightarrow> scan_keys key ls (i + length ks))"
  by (induction key ks i rule: scan_keys.induct) (auto split: option.splits)

lemma build_idx_snoc: "build_idx (ks @ [k]) = (build_idx ks)(k \<mapsto> length ks)"
  by (simp add: build_idx_def enumerate_append_eq)

lemma build_idx_scan: "distinct ks \<Longrightarrow> build_idx ks k = scan_keys k ks 0"
proof (induction ks rule: rev_induct)
  case (snoc l ks)
  then show ?case
    using scan_keys_None [of k ks 0] scan_keys_Some [of k ks 0]
    by (cases "scan_keys k ks 0") (auto simp: build_idx_snoc scan_keys_append)
qed (simp add: build_idx_def)

lemma members_find_scan: "members_ok m \<Longrightarrow> members_find m key = scan_keys key (keys m) 0"
  by (auto simp: members_ok_def members_find_def split: option.splits)

lemma zip_update_first:
  "scan_keys key ks i = Some j \<Longrightarrow> length vs = length ks \<Longrightarrow>
   AList.update key v (zip ks vs) = zip ks (vs[j - i := v])"
proof (induction ks arbitrary: vs i)
  case (Cons k ks)
  then obtain w ws where vs: "vs = w # ws" by (cases vs) auto
  show ?case
  proof (cases "k = key")
    case False
    with Cons.prems(1) have s: "scan_keys key ks (Suc i) = Some j" by simp
    from scan_keys_Some [OF this] obtain d where "j - i = Suc d" "j - Suc i = d"
      by (metis Suc_diff_le diff_Suc_Suc)
    with Cons.IH [OF s, of ws] Cons.prems(2) False vs show ?thesis by simp
  qed (use Cons.prems vs in auto)
qed simp

lemma zip_delete_first:
  "scan_keys key ks i = Some j \<Longrightarrow> length vs = length ks \<Longrightarrow> distinct ks \<Longrightarrow>
   AList.delete key (zip ks vs) =
     zip (take (j - i) ks @ drop (j - i + 1) ks) (take (j - i) vs @ drop (j - i + 1) vs)"
proof (induction ks arbitrary: vs i)
  case (Cons k ks)
  then obtain w ws where vs: "vs = w # ws" by (cases vs) auto
  show ?case
  proof (cases "k = key")
    case False
    with Cons.prems(1) have s: "scan_keys key ks (Suc i) = Some j" by simp
    from scan_keys_Some [OF this] obtain d where "j - i = Suc d" "j - Suc i = d"
      by (metis Suc_diff_le diff_Suc_Suc)
    with Cons.IH [OF s, of ws] Cons.prems(2,3) False vs show ?thesis by simp
  next
    case True
    with Cons.prems have "key \<notin> fst ` set (zip ks ws)" by (auto dest: set_zip_leftD)
    with True Cons.prems vs show ?thesis by (auto simp: delete_id)
  qed
qed simp

lemma update_fresh: "key \<notin> fst ` set ps \<Longrightarrow> AList.update key v ps = ps @ [(key, v)]"
  by (induction ps) auto

lemma members_Set_ok:
  assumes ok: "members_ok m"
  shows "members_ok (members_Set key v m) \<and>
    members_entries (members_Set key v m) = AList.update key v (members_entries m)"
proof (cases "scan_keys key (keys m) 0")
  case (Some j)
  with ok zip_update_first [of key "keys m" 0 j "vals m" v] show ?thesis
    by (auto simp: members_Set_def members_find_scan [OF ok] members_ok_def members_entries_def split: option.splits)
next
  case None
  then have fresh: "key \<notin> set (keys m)" by (simp add: scan_keys_None)
  then have "key \<notin> fst ` set (zip (keys m) (vals m))" by (auto dest: set_zip_leftD)
  from update_fresh [OF this] ok
  have "AList.update key v (zip (keys m) (vals m)) = zip (keys m @ [key]) (vals m @ [v])"
    by (simp add: members_ok_def)
  with None fresh ok show ?thesis
    by (auto simp: members_Set_def members_find_scan [OF ok] members_ok_def members_entries_def Let_def
        build_idx_scan scan_keys_append split: option.splits)
qed

lemma members_Delete_ok:
  assumes ok: "members_ok m"
  shows "members_ok (members_Delete key m) \<and>
    members_entries (members_Delete key m) = AList.delete key (members_entries m)"
proof (cases "scan_keys key (keys m) 0")
  case (Some j)
  with ok have "distinct (take j (keys m) @ drop (j + 1) (keys m))"
    by (auto simp: members_ok_def dest: set_take_disj_set_drop_if_distinct [of _ j "Suc j"])
  with Some ok zip_delete_first [of key "keys m" 0 j "vals m"] show ?thesis
    by (auto simp: members_Delete_def members_find_scan [OF ok] members_ok_def members_entries_def Let_def
        build_idx_scan split: option.splits)
next
  case None
  then have "key \<notin> fst ` set (members_entries m)"
    by (auto simp: scan_keys_None members_entries_def dest: set_zip_leftD)
  with None ok show ?thesis by (simp add: members_Delete_def members_find_scan [OF ok] delete_id)
qed

lemma map_of_zip_scan:
  "length vs = length ks \<Longrightarrow>
   map_of (zip ks vs) key = (case scan_keys key ks i of None \<Rightarrow> None | Some j \<Rightarrow> Some (vs ! (j - i)))"
proof (induction ks arbitrary: vs i)
  case (Cons k ks)
  then obtain w ws where vs: "vs = w # ws" by (cases vs) auto
  with Cons.IH [of ws "Suc i"] Cons.prems show ?case
    using scan_keys_Some [of key ks "Suc i"] by (auto split: option.splits simp: nth_Cons' Suc_diff_le)
qed simp

text \<open>The Go type keeps the contract, index or no index.\<close>

interpretation gomap: ordered_map members_ok members_entries NewObject members_Get members_Set members_Delete
proof unfold_locales
  show "members_ok NewObject" "members_entries NewObject = []"
    by (simp_all add: members_ok_def members_entries_def NewObject_def)
next
  fix m :: "'a members" and k v assume ok: "members_ok m"
  show "members_ok (members_Set k v m)" "members_entries (members_Set k v m) = AList.update k v (members_entries m)"
    "members_ok (members_Delete k m)" "members_entries (members_Delete k m) = AList.delete k (members_entries m)"
    using members_Set_ok [OF ok] members_Delete_ok [OF ok] by auto
  show "members_Get k m = map_of (members_entries m) k"
    using map_of_zip_scan [of "vals m" "keys m" k 0] ok
    by (auto simp: members_Get_def members_find_scan [OF ok] members_entries_def members_ok_def split: option.splits)
  show "distinct (map fst (members_entries m))"
    using ok by (auto simp: members_ok_def members_entries_def)
qed

subsection \<open>Reading values\<close>

definition IsNull :: "vopt \<Rightarrow> bool" where
  "IsNull v \<longleftrightarrow> (case v of None \<Rightarrow> True | Some j \<Rightarrow> kind_of j = KNull)"

definition is_kind :: "Kind \<Rightarrow> vopt \<Rightarrow> bool" where
  "is_kind k v \<longleftrightarrow> (case v of None \<Rightarrow> False | Some j \<Rightarrow> kind_of j = k)"

definition IsInt :: "vopt \<Rightarrow> bool" where "IsInt = is_kind KInt"
definition IsString :: "vopt \<Rightarrow> bool" where "IsString = is_kind KString"
definition IsObject :: "vopt \<Rightarrow> bool" where "IsObject = is_kind KObject"
definition IsArray :: "vopt \<Rightarrow> bool" where "IsArray = is_kind KArray"

text \<open>\<open>v.Field(key)\<close>, PHP's \<open>$value->key ?? null\<close>.\<close>

fun Field :: "vopt \<Rightarrow> bytes \<Rightarrow> vopt" where
  "Field (Some (JObject ms)) key = map_of ms key"
| "Field _ key = None"

fun Index :: "vopt \<Rightarrow> int \<Rightarrow> vopt" where
  "Index (Some (JArray xs)) i = (if i < 0 \<or> i \<ge> int (length xs) then None else Some (xs ! nat i))"
| "Index _ i = None"

end
