(* ===== verification/Utf8.thy ===== *)
theory Utf8
  imports Prelude
begin

text \<open>
  The parts of Go's \<open>unicode/utf8\<close> the JSON reader uses: \<open>DecodeRune\<close>, \<open>AppendRune\<close> and
  \<open>ValidString\<close>. A rune is its code point. \<open>DecodeRune\<close> returns \<open>(0xFFFD, 1)\<close> on malformed
  input and \<open>(0xFFFD, 0)\<close> on the empty one, as Go does. The lemmas say that decoding inverts
  encoding on scalar values and that every well-formed string is the encoding of its runes.
\<close>

abbreviation RuneError :: nat where "RuneError \<equiv> 65533"

definition within :: "nat \<Rightarrow> nat \<Rightarrow> byte \<Rightarrow> bool" where
  "within lo hi b \<longleftrightarrow> lo \<le> unat b \<and> unat b \<le> hi"

text \<open>The continuation bytes a leading byte asks for: how many, and the range of the first.\<close>

definition lead_info :: "byte \<Rightarrow> (nat \<times> nat \<times> nat) option" where
  "lead_info b =
     (if within 0xC2 0xDF b then Some (1, 0x80, 0xBF)
      else if within 0xE0 0xE0 b then Some (2, 0xA0, 0xBF)
      else if within 0xE1 0xEC b then Some (2, 0x80, 0xBF)
      else if within 0xED 0xED b then Some (2, 0x80, 0x9F)
      else if within 0xEE 0xEF b then Some (2, 0x80, 0xBF)
      else if within 0xF0 0xF0 b then Some (3, 0x90, 0xBF)
      else if within 0xF1 0xF3 b then Some (3, 0x80, 0xBF)
      else if within 0xF4 0xF4 b then Some (3, 0x80, 0x8F)
      else None)"

definition DecodeRune :: "bytes \<Rightarrow> nat \<times> nat" where
  "DecodeRune p = (case p of
     [] \<Rightarrow> (RuneError, 0)
   | b0 # cs \<Rightarrow>
       if unat b0 < 0x80 then (unat b0, 1)
       else case (lead_info b0, cs) of
         (Some (n, lo, hi), b1 # cs1) \<Rightarrow>
           if \<not> within lo hi b1 then (RuneError, 1)
           else if n = 1 then (unat b0 mod 32 * 64 + unat b1 mod 64, 2)
           else (case cs1 of
              b2 # cs2 \<Rightarrow>
                if \<not> within 0x80 0xBF b2 then (RuneError, 1)
                else if n = 2 then ((unat b0 mod 16 * 64 + unat b1 mod 64) * 64 + unat b2 mod 64, 3)
                else (case cs2 of
                   b3 # cs3 \<Rightarrow>
                     if \<not> within 0x80 0xBF b3 then (RuneError, 1)
                     else (((unat b0 mod 8 * 64 + unat b1 mod 64) * 64 + unat b2 mod 64) * 64
                           + unat b3 mod 64, 4)
                 | [] \<Rightarrow> (RuneError, 1))
            | [] \<Rightarrow> (RuneError, 1))
       | _ \<Rightarrow> (RuneError, 1))"

definition scalar :: "nat \<Rightarrow> bool" where
  "scalar r \<longleftrightarrow> r < 0xD800 \<or> 0xE000 \<le> r \<and> r \<le> 0x10FFFF"

definition enc3 :: "nat \<Rightarrow> bytes" where
  "enc3 r = [of_nat (0xE0 + r div 4096), of_nat (0x80 + r div 64 mod 64), of_nat (0x80 + r mod 64)]"

definition EncodeRune :: "nat \<Rightarrow> bytes" where
  "EncodeRune r =
     (if r < 0x80 then [of_nat r]
      else if r < 0x800 then [of_nat (0xC0 + r div 64), of_nat (0x80 + r mod 64)]
      else if \<not> scalar r then enc3 RuneError
      else if r < 0x10000 then enc3 r
      else [of_nat (0xF0 + r div 262144), of_nat (0x80 + r div 4096 mod 64),
            of_nat (0x80 + r div 64 mod 64), of_nat (0x80 + r mod 64)])"

definition AppendRune :: "bytes \<Rightarrow> nat \<Rightarrow> bytes" where
  "AppendRune buf r = buf @ EncodeRune r"

text \<open>The test the readers make after a decoding step.\<close>

definition malformed :: "nat \<times> nat \<Rightarrow> bool" where
  "malformed d \<longleftrightarrow> fst d = RuneError \<and> snd d \<le> 1"

lemma DecodeRune_size: "p \<noteq> [] \<Longrightarrow> 1 \<le> snd (DecodeRune p) \<and> snd (DecodeRune p) \<le> length p"
  by (auto simp: DecodeRune_def split: list.splits option.splits)

lemma DecodeRune_drop_less: "p \<noteq> [] \<Longrightarrow> length (drop (snd (DecodeRune p)) p) < length p"
  using DecodeRune_size [of p] by (cases p) auto

function ValidString :: "bytes \<Rightarrow> bool" where
  "ValidString s \<longleftrightarrow>
     (if s = [] then True
      else if malformed (DecodeRune s) then False
      else ValidString (drop (snd (DecodeRune s)) s))"
  by pat_completeness auto
termination
  by (relation "measure length") (use DecodeRune_drop_less in \<open>auto simp del: length_drop\<close>)

declare ValidString.simps [simp del]

function runes :: "bytes \<Rightarrow> nat list" where
  "runes s = (if s = [] then [] else fst (DecodeRune s) # runes (drop (snd (DecodeRune s)) s))"
  by pat_completeness auto
termination
  by (relation "measure length") (use DecodeRune_drop_less in \<open>auto simp del: length_drop\<close>)

declare runes.simps [simp del]

lemma ValidString_Nil [simp]: "ValidString []"
  by (subst ValidString.simps) simp

lemma runes_Nil [simp]: "runes [] = []"
  by (subst runes.simps) simp

lemma lead_info_2: "unat x = 192 + a \<Longrightarrow> 2 \<le> a \<Longrightarrow> a < 32 \<Longrightarrow> lead_info x = Some (1, 128, 191)"
  by (simp add: lead_info_def within_def)

lemma lead_info_3:
  "unat x = 224 + a \<Longrightarrow> a < 16 \<Longrightarrow>
   lead_info x = Some (2, if a = 0 then 160 else 128, if a = 13 then 159 else 191)"
  by (cases "a = 0"; cases "a = 13"; cases "a < 13") (simp_all add: lead_info_def within_def)

lemma lead_info_4:
  "unat x = 240 + a \<Longrightarrow> a < 5 \<Longrightarrow>
   lead_info x = Some (3, if a = 0 then 144 else 128, if a = 4 then 143 else 191)"
  by (cases "a = 0"; cases "a = 4") (simp_all add: lead_info_def within_def)

lemma byte_mods:
  "a < 32 \<Longrightarrow> (192 + a) mod 32 = (a :: nat)" "a < 16 \<Longrightarrow> (224 + a) mod 16 = (a :: nat)"
  "a < 8 \<Longrightarrow> (240 + a) mod 8 = (a :: nat)" "a < 64 \<Longrightarrow> (128 + a) mod 64 = (a :: nat)"
  using mod_mult_self1 [of a 6 32] mod_mult_self1 [of a 14 16] mod_mult_self1 [of a 30 8]
    mod_mult_self1 [of a 2 64]
  by (simp_all add: add.commute)

lemma DecodeRune_2:
  assumes "unat x = 192 + a" "unat y = 128 + b" "2 \<le> a" "a < 32" "b < 64"
  shows "DecodeRune (x # y # s) = (a * 64 + b, 2)"
  using assms lead_info_2 [OF assms(1,3,4)]
  by (simp add: DecodeRune_def within_def byte_mods)

lemma DecodeRune_3:
  assumes "unat x = 224 + a" "unat y = 128 + b" "unat z = 128 + c"
    "a < 16" "b < 64" "c < 64" "a = 0 \<longrightarrow> 32 \<le> b" "a = 13 \<longrightarrow> b < 32"
  shows "DecodeRune (x # y # z # s) = ((a * 64 + b) * 64 + c, 3)"
  using assms lead_info_3 [OF assms(1,4)]
  by (cases "a = 0"; cases "a = 13") (simp_all add: DecodeRune_def within_def byte_mods)

lemma DecodeRune_4:
  assumes "unat x = 240 + a" "unat y = 128 + b" "unat z = 128 + c" "unat w = 128 + d"
    "a < 5" "b < 64" "c < 64" "d < 64" "a = 0 \<longrightarrow> 16 \<le> b" "a = 4 \<longrightarrow> b < 16"
  shows "DecodeRune (x # y # z # w # s) = (((a * 64 + b) * 64 + c) * 64 + d, 4)"
  using assms lead_info_4 [OF assms(1,5)]
  by (cases "a = 0"; cases "a = 4") (simp_all add: DecodeRune_def within_def byte_mods)

lemma div_mod_64: "(r :: nat) div 4096 = r div 64 div 64" "(r :: nat) div 262144 = r div 64 div 64 div 64"
  by (simp_all add: div_mult2_eq [symmetric])

lemma div_mod_64_eq: "r div 64 * 64 + r mod 64 = (r :: nat)"
  by simp

text \<open>Decoding inverts encoding.\<close>

lemma DecodeRune_EncodeRune:
  assumes "scalar r"
  shows "DecodeRune (EncodeRune r @ s) = (r, length (EncodeRune r))"
proof -
  consider "r < 0x80" | "0x80 \<le> r" "r < 0x800" | "0x800 \<le> r" "r < 0xD800 \<or> 0xE000 \<le> r" "r < 0x10000"
    | "0x10000 \<le> r" "r \<le> 0x10FFFF"
    using assms unfolding scalar_def by linarith
  then show ?thesis
  proof cases
    case 1
    then show ?thesis by (simp add: EncodeRune_def DecodeRune_def unat_of_nat_byte)
  next
    case 2
    then have "2 \<le> r div 64" "r div 64 < 32" "r mod 64 < 64"
      by (simp_all add: less_eq_div_iff_mult_less_eq div_less_iff_less_mult)
    with DecodeRune_2 [OF unat_of_nat_byte unat_of_nat_byte this] 2 show ?thesis
      by (simp del: of_nat_add add: EncodeRune_def div_mod_64_eq)
  next
    case 3
    define a b c where "a = r div 4096" and "b = r div 64 mod 64" and "c = r mod 64"
    have r: "(a * 64 + b) * 64 + c = r"
      by (simp only: a_def b_def c_def div_mod_64 div_mod_64_eq)
    have bc: "b < 64" "c < 64" by (simp_all add: b_def c_def)
    have "a < 16" using 3(3) r by simp
    moreover have "a = 0 \<longrightarrow> 32 \<le> b" by (rule impI) (use 3(1) r bc in \<open>simp add: algebra_simps\<close>)
    moreover have "a = 13 \<longrightarrow> b < 32" by (rule impI) (use 3(2) r bc in \<open>simp add: algebra_simps\<close>)
    moreover note bc
    ultimately have "DecodeRune (enc3 r @ s) = ((a * 64 + b) * 64 + c, 3)"
      using DecodeRune_3 [OF unat_of_nat_byte unat_of_nat_byte unat_of_nat_byte, of a b c s]
      by (simp del: of_nat_add add: enc3_def flip: a_def b_def c_def)
    then show ?thesis using 3 assms r by (simp add: EncodeRune_def) (simp add: enc3_def)
  next
    case 4
    define a b c d where "a = r div 262144" and "b = r div 4096 mod 64" and "c = r div 64 mod 64" and "d = r mod 64"
    have r: "((a * 64 + b) * 64 + c) * 64 + d = r"
      by (simp only: a_def b_def c_def d_def div_mod_64 div_mod_64_eq)
    have bcd: "b < 64" "c < 64" "d < 64" by (simp_all add: b_def c_def d_def)
    have "a < 5" using 4(2) r by simp
    moreover have "a = 0 \<longrightarrow> 16 \<le> b" by (rule impI) (use 4(1) r bcd in \<open>simp add: algebra_simps\<close>)
    moreover have "a = 4 \<longrightarrow> b < 16" by (rule impI) (use 4(2) r bcd in \<open>simp add: algebra_simps\<close>)
    moreover note bcd
    ultimately have "DecodeRune ([of_nat (240 + a), of_nat (128 + b), of_nat (128 + c), of_nat (128 + d)] @ s) =
        (((a * 64 + b) * 64 + c) * 64 + d, 4)"
      using DecodeRune_4 [OF unat_of_nat_byte unat_of_nat_byte unat_of_nat_byte unat_of_nat_byte, of a b c d s]
      by (simp del: of_nat_add)
    moreover have enc: "EncodeRune r = [of_nat (240 + a), of_nat (128 + b), of_nat (128 + c), of_nat (128 + d)]"
      using 4 unfolding EncodeRune_def scalar_def a_def b_def c_def d_def by (simp only: if_False simp_thms) auto
    moreover have "length (EncodeRune r) = 4" by (simp add: enc)
    ultimately show ?thesis by (simp only: enc r)
  qed
qed

text \<open>Encoding inverts decoding of well-formed input.\<close>

lemma EncodeRune_2:
  "2 \<le> a \<Longrightarrow> a < 32 \<Longrightarrow> b < 64 \<Longrightarrow> EncodeRune (a * 64 + b) = [of_nat (192 + a), of_nat (128 + b)]"
  by (simp add: EncodeRune_def)

lemma pack64: "y < 64 \<Longrightarrow> (x * 64 + y) div 64 = x \<and> (x * 64 + y) mod 64 = (y :: nat)"
  by simp

lemma EncodeRune_3:
  assumes "a < 16" "b < 64" "c < 64" "a = 0 \<longrightarrow> 32 \<le> b" "a = 13 \<longrightarrow> b < 32"
  shows "scalar ((a * 64 + b) * 64 + c) \<and>
    EncodeRune ((a * 64 + b) * 64 + c) = [of_nat (224 + a), of_nat (128 + b), of_nat (128 + c)]"
proof -
  define r where "r = (a * 64 + b) * 64 + c"
  have d: "r div 64 = a * 64 + b" "r mod 64 = c" using pack64 [OF assms(3)] unfolding r_def by blast+
  then have dd: "r div 4096 = a" "r div 64 mod 64 = b"
    using assms(2) by (simp_all add: div_mod_64 del: div_mult2_eq)
  have lo: "2048 \<le> r" using assms(4) by (cases "a = 0") (simp_all add: r_def)
  have hi: "r < 65536" using assms(1-3) by (simp add: r_def)
  have sc: "scalar r"
  proof -
    consider "a < 13" | "a = 13" | "13 < a" by linarith
    then show ?thesis using assms by cases (simp_all add: scalar_def r_def)
  qed
  have "EncodeRune r = enc3 r" using lo hi sc by (simp add: EncodeRune_def)
  with sc dd d show ?thesis unfolding r_def [symmetric] by (simp add: enc3_def)
qed

lemma EncodeRune_4:
  assumes "a < 5" "b < 64" "c < 64" "d < 64" "a = 0 \<longrightarrow> 16 \<le> b" "a = 4 \<longrightarrow> b < 16"
  shows "scalar (((a * 64 + b) * 64 + c) * 64 + d) \<and>
    EncodeRune (((a * 64 + b) * 64 + c) * 64 + d) =
      [of_nat (240 + a), of_nat (128 + b), of_nat (128 + c), of_nat (128 + d)]"
proof -
  define r where "r = ((a * 64 + b) * 64 + c) * 64 + d"
  have e: "r div 64 = (a * 64 + b) * 64 + c" "r mod 64 = d" using pack64 [OF assms(4)] unfolding r_def by blast+
  then have ee: "r div 64 div 64 = a * 64 + b" "r div 64 mod 64 = c" using pack64 [OF assms(3)] unfolding e(1) by blast+
  then have eee: "r div 262144 = a" "r div 4096 mod 64 = b"
    using assms(2) by (simp_all add: div_mod_64 del: div_mult2_eq)
  have lo: "65536 \<le> r" using assms(5) by (cases "a = 0") (simp_all add: r_def)
  have hi: "r \<le> 1114111" using assms by (cases "a = 4") (simp_all add: r_def)
  have sc: "scalar r" using lo hi by (simp add: scalar_def)
  with lo e ee eee show ?thesis unfolding r_def [symmetric] by (simp add: EncodeRune_def)
qed

text \<open>The bytes of a well-formed leading sequence.\<close>

lemma lead_info_cases:
  assumes "lead_info x = Some (n, lo, hi)"
  obtains (two) a where "n = 1" "lo = 128" "hi = 191" "unat x = 192 + a" "2 \<le> a" "a < 32"
  | (three) a where "n = 2" "unat x = 224 + a" "a < 16" "lo = (if a = 0 then 160 else 128)"
      "hi = (if a = 13 then 159 else 191)"
  | (four) a where "n = 3" "unat x = 240 + a" "a < 5" "lo = (if a = 0 then 144 else 128)"
      "hi = (if a = 4 then 143 else 191)"
proof -
  consider "192 \<le> unat x" "unat x < 224" | "224 \<le> unat x" "unat x < 240" | "240 \<le> unat x" | "unat x < 192"
    by linarith
  then show thesis
  proof cases
    case 1
    then obtain a where a: "unat x = 192 + a" using le_Suc_ex by blast
    with 1 assms have "2 \<le> a" by (auto simp: lead_info_def within_def split: if_splits)
    with a 1 lead_info_2 [OF a] assms two [OF _ _ _ a] show ?thesis by simp
  next
    case 2
    then obtain a where a: "unat x = 224 + a" using le_Suc_ex by blast
    with 2 lead_info_3 [OF a] assms three [OF _ a] show ?thesis by simp
  next
    case 3
    then obtain a where a: "unat x = 240 + a" using le_Suc_ex by blast
    with 3 assms have "a < 5" by (auto simp: lead_info_def within_def split: if_splits)
    with lead_info_4 [OF a] assms four [OF _ a] show ?thesis by simp
  next
    case 4
    with assms show ?thesis by (simp add: lead_info_def within_def)
  qed
qed

lemma within_cont: "within 128 191 y \<Longrightarrow> \<exists>b < 64. unat y = 128 + b"
  by (auto simp: within_def intro!: exI [of _ "unat y - 128"])

lemma EncodeRune_DecodeRune:
  assumes "s \<noteq> []" "\<not> malformed (DecodeRune s)"
  shows "scalar (fst (DecodeRune s)) \<and>
    EncodeRune (fst (DecodeRune s)) = take (snd (DecodeRune s)) s"
proof -
  obtain x t where s: "s = x # t" using assms(1) by (cases s) auto
  show ?thesis
  proof (cases "unat x < 128")
    case True
    then show ?thesis by (simp add: s DecodeRune_def EncodeRune_def scalar_def)
  next
    case ge: False
    have bad: "DecodeRune s \<noteq> (RuneError, 1)" using assms(2) by (auto simp: malformed_def)
    obtain n lo hi where li: "lead_info x = Some (n, lo, hi)"
      using bad ge s by (cases "lead_info x") (auto simp: DecodeRune_def)
    obtain y u where t: "t = y # u" using bad ge s li by (cases t) (auto simp: DecodeRune_def)
    have y: "within lo hi y" using bad ge s t li by (auto simp: DecodeRune_def split: if_splits)
    from li show ?thesis
    proof (cases rule: lead_info_cases)
      case (two a)
      from y two obtain b where b: "b < 64" "unat y = 128 + b" using within_cont by auto
      from DecodeRune_2 [OF two(4) b(2) two(5,6) b(1), of u] EncodeRune_2 [OF two(5,6) b(1)]
        byte_eq [OF _ two(4)] byte_eq [OF _ b(2)] two b
      show ?thesis by (simp add: s t scalar_def)
    next
      case (three a)
      from y three(4,5) have "within 128 191 y" by (auto simp: within_def split: if_splits)
      then obtain b where b: "b < 64" "unat y = 128 + b" using within_cont by auto
      obtain z v where u: "u = z # v" using bad ge s t li y three by (cases u) (auto simp: DecodeRune_def)
      have "within 128 191 z" using bad ge s t u li y three by (auto simp: DecodeRune_def split: if_splits)
      then obtain c where c: "c < 64" "unat z = 128 + c" using within_cont by auto
      have ab: "a = 0 \<longrightarrow> 32 \<le> b" "a = 13 \<longrightarrow> b < 32" using y three(4,5) b by (auto simp: within_def)
      from DecodeRune_3 [OF three(2) b(2) c(2) three(3) b(1) c(1) ab, of v] EncodeRune_3 [OF three(3) b(1) c(1) ab]
        byte_eq [OF _ three(2)] byte_eq [OF _ b(2)] byte_eq [OF _ c(2)] three(3) b(1) c(1)
      show ?thesis by (simp add: s t u del: of_nat_add)
    next
      case (four a)
      from y four(4,5) have "within 128 191 y" by (auto simp: within_def split: if_splits)
      then obtain b where b: "b < 64" "unat y = 128 + b" using within_cont by auto
      obtain z v where u: "u = z # v" using bad ge s t li y four by (cases u) (auto simp: DecodeRune_def)
      have z: "within 128 191 z" using bad ge s t u li y four by (auto simp: DecodeRune_def split: if_splits)
      then obtain c where c: "c < 64" "unat z = 128 + c" using within_cont by auto
      obtain w q where v: "v = w # q" using bad ge s t u li y z four by (cases v) (auto simp: DecodeRune_def)
      have "within 128 191 w" using bad ge s t u v li y z four by (auto simp: DecodeRune_def split: if_splits)
      then obtain d where d: "d < 64" "unat w = 128 + d" using within_cont by auto
      have ab: "a = 0 \<longrightarrow> 16 \<le> b" "a = 4 \<longrightarrow> b < 16" using y four(4,5) b by (auto simp: within_def)
      from DecodeRune_4 [OF four(2) b(2) c(2) d(2) four(3) b(1) c(1) d(1) ab, of q]
        EncodeRune_4 [OF four(3) b(1) c(1) d(1) ab]
        byte_eq [OF _ four(2)] byte_eq [OF _ b(2)] byte_eq [OF _ c(2)] byte_eq [OF _ d(2)] four(3) b(1) c(1) d(1)
      show ?thesis by (simp add: s t u v del: of_nat_add)
    qed
  qed
qed

lemma ValidString_rec: "s \<noteq> [] \<Longrightarrow> ValidString s \<longleftrightarrow>
    \<not> malformed (DecodeRune s) \<and> ValidString (drop (snd (DecodeRune s)) s)"
  by (subst ValidString.simps) simp

lemma runes_rec: "s \<noteq> [] \<Longrightarrow> runes s = fst (DecodeRune s) # runes (drop (snd (DecodeRune s)) s)"
  by (subst runes.simps) simp

theorem encode_runes:
  "ValidString s \<Longrightarrow> concat (map EncodeRune (runes s)) = s \<and> list_all scalar (runes s)"
proof (induction s rule: ValidString.induct)
  case (1 s)
  show ?case
  proof (cases "s = []")
    case False
    with 1 have "\<not> malformed (DecodeRune s)" "ValidString (drop (snd (DecodeRune s)) s)"
      by (simp_all add: ValidString_rec)
    with 1(1) [OF False] EncodeRune_DecodeRune [OF False] show ?thesis
      by (simp add: runes_rec [OF False])
  qed simp
qed

lemma EncodeRune_not_Nil [simp]: "EncodeRune r \<noteq> []"
  by (simp add: EncodeRune_def enc3_def)

lemma not_malformed_scalar: "scalar r \<Longrightarrow> \<not> malformed (DecodeRune (EncodeRune r @ s))"
  by (auto simp: DecodeRune_EncodeRune malformed_def) (auto simp: EncodeRune_def enc3_def scalar_def split: if_splits)

lemma ValidString_EncodeRune: "scalar r \<Longrightarrow> ValidString (EncodeRune r @ s) \<longleftrightarrow> ValidString s"
  using not_malformed_scalar [of r s] by (simp add: ValidString_rec DecodeRune_EncodeRune)

lemma runes_EncodeRune: "scalar r \<Longrightarrow> runes (EncodeRune r @ s) = r # runes s"
  by (simp add: runes_rec DecodeRune_EncodeRune)

end
