(* ===== verification/Cjson_Canonical.thy ===== *)
theory Cjson_Canonical
  imports Cjson_Value Utf8
begin

text \<open>
  \<open>internal/cjson/canonical.go\<close>: the RFC 8785 encoding restricted to integers. The functions return
  the bytes the source appends to its buffer.
\<close>

datatype canon_error = ErrFloat | ErrIntRange

definition maxExactInt :: int where
  "maxExactInt = 9007199254740991"

subsection \<open>Key order\<close>

record unitReader =
  ur_s :: bytes
  ur_i :: nat
  pending :: nat
  hasPend :: bool

definition ur_new :: "bytes \<Rightarrow> unitReader" where
  "ur_new s = \<lparr>ur_s = s, ur_i = 0, pending = 0, hasPend = False\<rparr>"

definition ur_next :: "unitReader \<Rightarrow> nat option \<times> unitReader" where
  "ur_next r =
     (if hasPend r then (Some (pending r), r\<lparr>hasPend := False\<rparr>)
      else if ur_i r \<ge> length (ur_s r) then (None, r)
      else let (c, size) = DecodeRune (drop (ur_i r) (ur_s r)); r' = r\<lparr>ur_i := ur_i r + size\<rparr>
        in if c \<ge> 0x10000
           then let c' = c - 0x10000
             in (Some (0xD800 + c' div 1024),
                 r'\<lparr>pending := 0xDC00 + c' mod 1024, hasPend := True\<rparr>)
           else (Some c, r'))"

text \<open>What is left to read: two units per byte are more than enough.\<close>

definition ur_left :: "unitReader \<Rightarrow> nat" where
  "ur_left r = 2 * (length (ur_s r) - ur_i r) + (if hasPend r then 1 else 0)"

lemma ur_next_left: "ur_next r = (Some u, r') \<Longrightarrow> ur_left r' < ur_left r"
proof -
  assume a: "ur_next r = (Some u, r')"
  have "drop (ur_i r) (ur_s r) \<noteq> [] \<Longrightarrow> 1 \<le> snd (DecodeRune (drop (ur_i r) (ur_s r)))"
    using DecodeRune_size by blast
  with a show ?thesis
    by (auto simp: ur_next_def ur_left_def Let_def split: if_splits prod.splits)
qed

function compare_loop :: "unitReader \<Rightarrow> unitReader \<Rightarrow> int" where
  "compare_loop ra rb =
     (case ur_next ra of
        (None, ra') \<Rightarrow> (case ur_next rb of (None, rb') \<Rightarrow> 0 | (Some ub, rb') \<Rightarrow> - 1)
      | (Some ua, ra') \<Rightarrow> (case ur_next rb of
            (None, rb') \<Rightarrow> 1
          | (Some ub, rb') \<Rightarrow> if ua < ub then - 1 else if ua > ub then 1 else compare_loop ra' rb'))"
  by pat_completeness auto
termination
  by (relation "measure (\<lambda>(ra, rb). ur_left ra)") (auto intro: ur_next_left [OF sym])

declare compare_loop.simps [simp del]

definition compareUTF16 :: "bytes \<Rightarrow> bytes \<Rightarrow> int" where
  "compareUTF16 a b = compare_loop (ur_new a) (ur_new b)"

text \<open>
  \<open>sort.Slice\<close> with that comparison, as an insertion sort: on keys that the comparison tells apart
  (\<open>sort_keys_unique\<close>) every sort gives the same list.
\<close>

fun insert_key :: "bytes \<times> 'a \<Rightarrow> (bytes \<times> 'a) list \<Rightarrow> (bytes \<times> 'a) list" where
  "insert_key p [] = [p]"
| "insert_key p (q # qs) = (if compareUTF16 (fst p) (fst q) < 0 then p # q # qs else q # insert_key p qs)"

definition sort_keys :: "(bytes \<times> 'a) list \<Rightarrow> (bytes \<times> 'a) list" where
  "sort_keys ps = fold insert_key ps []"

subsection \<open>Encoding\<close>

definition hex_char :: "nat \<Rightarrow> byte" where
  "hex_char n = of_nat (if n < 10 then 48 + n else 87 + n)"

definition canon_byte :: "byte \<Rightarrow> bytes" where
  "canon_byte b =
     (if b = 34 then [92, 34]
      else if b = 92 then [92, 92]
      else if b = 8 then [92, 98]
      else if b = 9 then [92, 116]
      else if b = 10 then [92, 110]
      else if b = 12 then [92, 102]
      else if b = 13 then [92, 114]
      else if unat b < 0x20 then [92, 117, 48, 48, hex_char (unat b div 16), hex_char (unat b mod 16)]
      else [b])"

definition canon_string :: "bytes \<Rightarrow> bytes" where
  "canon_string s = 34 # concat (map canon_byte s) @ [34]"

text \<open>The loop over encoded items, which stops at the first error.\<close>

fun seq_items :: "(canon_error + bytes) list \<Rightarrow> canon_error + bytes list" where
  "seq_items [] = Inr []"
| "seq_items (Inl e # xs) = Inl e"
| "seq_items (Inr b # xs) = (case seq_items xs of Inl e \<Rightarrow> Inl e | Inr bs \<Rightarrow> Inr (b # bs))"

fun commas :: "bytes list \<Rightarrow> bytes" where
  "commas [] = []"
| "commas [b] = b"
| "commas (b # bs) = b @ [44] @ commas bs"

definition canon_member :: "bytes \<times> (canon_error + bytes) \<Rightarrow> canon_error + bytes" where
  "canon_member p = (case snd p of Inl e \<Rightarrow> Inl e | Inr b \<Rightarrow> Inr (canon_string (fst p) @ [58] @ b))"

fun canon :: "json \<Rightarrow> canon_error + bytes" where
  "canon JNull = Inr (lit ''null'')"
| "canon (JBool b) = Inr (if b then lit ''true'' else lit ''false'')"
| "canon (JInt i) = (if i > maxExactInt \<or> i < - maxExactInt then Inl ErrIntRange else Inr (int_text i))"
| "canon (JFloat f) = Inl ErrFloat"
| "canon (JString s) = Inr (canon_string s)"
| "canon (JArray xs) =
     (case seq_items (map canon xs) of Inl e \<Rightarrow> Inl e | Inr bs \<Rightarrow> Inr ([91] @ commas bs @ [93]))"
| "canon (JObject ms) =
     (case seq_items (map canon_member (sort_keys (map (\<lambda>(k, v). (k, canon v)) ms))) of
        Inl e \<Rightarrow> Inl e
      | Inr bs \<Rightarrow> Inr ([123] @ commas bs @ [125]))"

definition Canonical :: "vopt \<Rightarrow> canon_error + bytes" where
  "Canonical v = (case v of None \<Rightarrow> Inr (lit ''null'') | Some j \<Rightarrow> canon j)"

end
