(* ===== verification/Php_Value.thy ===== *)
theory Php_Value
  imports Php_Compat Php_Time Cjson_Canonical
begin

text \<open>
  \<open>verify/phpvalue.go\<close>: decoded JSON values read the way PHP's loose operators read them. A Go
  \<open>*cjson.Value\<close> that may be nil is a \<open>vopt\<close>; \<open>StrOf\<close>, \<open>IntOf\<close> and \<open>ArrOf\<close> are the fields of the
  struct, which hold their zero value for another kind.
\<close>

fun StrOf :: "vopt \<Rightarrow> bytes" where
  "StrOf (Some (JString s)) = s" | "StrOf _ = []"

fun IntOf :: "vopt \<Rightarrow> int" where
  "IntOf (Some (JInt i)) = i" | "IntOf _ = 0"

fun ArrOf :: "vopt \<Rightarrow> json list" where
  "ArrOf (Some (JArray xs)) = xs" | "ArrOf _ = []"

definition nullish :: "vopt \<Rightarrow> bool" where
  "nullish v \<longleftrightarrow> v = None \<or> v = Some JNull"

definition strEq :: "vopt \<Rightarrow> bytes \<Rightarrow> bool" where
  "strEq v s \<longleftrightarrow> IsString v \<and> StrOf v = s"

subsection \<open>Floats as text\<close>

text \<open>
  \<open>strconv.FormatFloat(f, 'G', 14, 64)\<close> of the positive number \<open>n / d\<close>: fourteen significant digits,
  correctly rounded, and the decimal exponent of the first one.
\<close>

definition dec_exp :: "nat \<Rightarrow> nat \<Rightarrow> int" where
  "dec_exp n d =
     (if d \<le> n then int (length (nat_digits (n div d))) - 1
      else - int (length (nat_digits ((d - 1) div n))))"

definition round_digits :: "nat \<Rightarrow> nat \<Rightarrow> nat \<times> int" where
  "round_digits n d =
     (let e = dec_exp n d; s = 13 - e;
          q = (if 0 \<le> s then round_even (n * 10 ^ nat s) d 0 else round_even n (d * 10 ^ nat (- s)) 0)
      in if q = 10 ^ 14 then (10 ^ 13, e + 1) else (q, e))"

definition trim_zeros :: "bytes \<Rightarrow> bytes" where
  "trim_zeros ds = rev (dropWhile (\<lambda>c. c = 48) (rev ds))"

text \<open>
  The two layouts of \<open>'G'\<close>: with an exponent of at least two digits, or plain. \<open>ds\<close> are the
  significant digits and \<open>x\<close> the exponent of the first.
\<close>

definition format_exp :: "bytes \<Rightarrow> int \<Rightarrow> bytes" where
  "format_exp ds x =
     take 1 ds @ (if length ds > 1 then 46 # drop 1 ds else []) @ [69, if x < 0 then 45 else 43] @
     (if \<bar>x\<bar> < 10 then [48] else []) @ nat_digits (nat \<bar>x\<bar>)"

definition format_plain :: "bytes \<Rightarrow> int \<Rightarrow> bytes" where
  "format_plain ds x =
     (if x < 0 then [48, 46] @ replicate (nat (- x) - 1) 48 @ ds
      else if length ds \<le> nat x + 1 then ds @ replicate (nat x + 1 - length ds) 48
      else take (nat x + 1) ds @ 46 # drop (nat x + 1) ds)"

definition format_G14 :: "bool \<Rightarrow> nat \<Rightarrow> int \<Rightarrow> bytes" where
  "format_G14 neg m e =
     (let (q, x) = (if 0 \<le> e then round_digits (m * 2 ^ nat e) 1 else round_digits m (2 ^ nat (- e)));
          ds = trim_zeros (nat_digits q); nd = int (length ds);
          eprec = (if 14 > nd \<and> nd \<ge> x + 1 then nd else 14)
      in (if neg then [45] else []) @ (if x < - 4 \<or> x \<ge> eprec then format_exp ds x else format_plain ds x))"

text \<open>What the source then makes of an exponent.\<close>

definition php_exponent :: "bytes \<Rightarrow> bytes" where
  "php_exponent s =
     (if 69 \<in> set s
      then let mant = takeWhile (\<lambda>c. c \<noteq> 69) s; ex = drop (length mant + 1) s;
               mant' = (if 46 \<in> set mant then mant else mant @ lit ''.0'');
               sign = (if take 1 ex = [45] then [45] else [43 :: byte]);
               ex1 = (if take 1 ex = [45] \<or> take 1 ex = [43] then drop 1 ex else ex);
               ex2 = dropWhile (\<lambda>c. c = 48) ex1
           in mant' @ lit ''E'' @ sign @ (if ex2 = [] then lit ''0'' else ex2)
      else s)"

fun phpFloatString :: "float64 \<Rightarrow> bytes" where
  "phpFloatString FNaN = lit ''NAN''"
| "phpFloatString (FInf neg) = (if neg then lit ''-INF'' else lit ''INF'')"
| "phpFloatString (FFin neg m e) =
     (if m = 0 then (if neg then lit ''-0'' else lit ''0'') else php_exponent (format_G14 neg m e))"

subsection \<open>Casts\<close>

fun text_of :: "vopt \<Rightarrow> bytes" where
  "text_of (Some (JBool b)) = (if b then lit ''1'' else [])"
| "text_of (Some (JInt i)) = int_text i"
| "text_of (Some (JFloat f)) = phpFloatString f"
| "text_of (Some (JString s)) = s"
| "text_of _ = []"

definition textOr :: "vopt \<Rightarrow> bytes \<Rightarrow> bytes" where
  "textOr v def = (if nullish v then def else text_of v)"

fun intCast :: "vopt \<Rightarrow> int" where
  "intCast (Some (JBool b)) = (if b then 1 else 0)"
| "intCast (Some (JInt i)) = i"
| "intCast (Some (JFloat f)) = FloatToInt f"
| "intCast (Some (JString s)) = StringToInt s"
| "intCast (Some (JArray xs)) = (if xs \<noteq> [] then 1 else 0)"
| "intCast (Some (JObject _)) = 1"
| "intCast _ = 0"

text \<open>Go's \<open>==\<close> on floats: NaN differs from itself, the zeros are equal.\<close>

fun float_eq :: "float64 \<Rightarrow> float64 \<Rightarrow> bool" where
  "float_eq (FInf a) (FInf b) = (a = b)"
| "float_eq (FFin s m e) (FFin t n f) =
     (m = 0 \<and> n = 0 \<or> s = t \<and> m * 2 ^ nat (e - min e f) = n * 2 ^ nat (f - min e f))"
| "float_eq _ _ = False"

fun same :: "json \<Rightarrow> json \<Rightarrow> bool" and same_list :: "json list \<Rightarrow> json list \<Rightarrow> bool" where
  "same JNull JNull = True"
| "same (JBool a) (JBool b) = (a = b)"
| "same (JInt a) (JInt b) = (a = b)"
| "same (JFloat a) (JFloat b) = float_eq a b"
| "same (JString a) (JString b) = (a = b)"
| "same (JArray xs) (JArray ys) = same_list xs ys"
| "same _ _ = False"
| "same_list [] [] = True"
| "same_list (x # xs) (y # ys) = (same x y \<and> same_list xs ys)"
| "same_list _ _ = False"

definition strictEqual :: "vopt \<Rightarrow> vopt \<Rightarrow> bool" where
  "strictEqual a b =
     (if nullish a \<or> nullish b then nullish a \<and> nullish b else same (the a) (the b))"

fun iterValues :: "vopt \<Rightarrow> json list" where
  "iterValues (Some (JArray xs)) = xs"
| "iterValues (Some (JObject ms)) = map snd ms"
| "iterValues _ = []"

fun arrayCast :: "vopt \<Rightarrow> json list" where
  "arrayCast None = []"
| "arrayCast (Some JNull) = []"
| "arrayCast (Some (JArray xs)) = iterValues (Some (JArray xs))"
| "arrayCast (Some (JObject ms)) = iterValues (Some (JObject ms))"
| "arrayCast (Some v) = [v]"

subsection \<open>Strings\<close>

definition lower_byte :: "byte \<Rightarrow> byte" where
  "lower_byte c = (if 65 \<le> c \<and> c \<le> 90 then c + 32 else c)"

definition lower :: "bytes \<Rightarrow> bytes" where
  "lower s = map lower_byte s"

definition hexNibble :: "byte \<Rightarrow> byte option" where
  "hexNibble c =
     (if 48 \<le> c \<and> c \<le> 57 then Some (c - 48)
      else if 97 \<le> c \<and> c \<le> 102 then Some (c - 97 + 10)
      else if 65 \<le> c \<and> c \<le> 70 then Some (c - 65 + 10)
      else None)"

fun hexBytes :: "bytes \<Rightarrow> bytes option" where
  "hexBytes [] = Some []"
| "hexBytes (a # b # s) =
     (case (hexNibble a, hexNibble b, hexBytes s) of
        (Some hi, Some lo, Some out) \<Rightarrow> Some ((push_bit 4 hi OR lo) # out)
      | _ \<Rightarrow> None)"
| "hexBytes _ = None"

definition isHex64 :: "bytes \<Rightarrow> bool" where
  "isHex64 s \<longleftrightarrow> length s = 64 \<and> list_all (\<lambda>c. hexNibble c \<noteq> None) s"

text \<open>\<open>hex.EncodeToString\<close>.\<close>

definition hex_text :: "bytes \<Rightarrow> bytes" where
  "hex_text bs = concat (map (\<lambda>b. [hex_char (unat b div 16), hex_char (unat b mod 16)]) bs)"

fun error_text :: "canon_error \<Rightarrow> bytes" where
  "error_text ErrFloat = lit ''non-integer numbers cannot be canonicalised''"
| "error_text ErrIntRange = lit ''integer outside the exactly representable range''"

fun jsonForMessage :: "vopt \<Rightarrow> bytes" where
  "jsonForMessage None = lit ''null''"
| "jsonForMessage (Some (JFloat f)) = phpFloatString f"
| "jsonForMessage v = (case Canonical v of Inr out \<Rightarrow> out | Inl _ \<Rightarrow> text_of v)"

definition phpSubstr :: "bytes \<Rightarrow> nat \<Rightarrow> bytes" where
  "phpSubstr s n = (if length s \<le> n then s else take n s)"

definition parseRFC3339Value :: "vopt \<Rightarrow> time option" where
  "parseRFC3339Value v = (if \<not> IsString v then None else ParseRFC3339 (StrOf v))"

subsection \<open>Facts\<close>

lemma length_hexBytes: "hexBytes s = Some bs \<Longrightarrow> length s = 2 * length bs"
  by (induction s arbitrary: bs rule: hexBytes.induct) (auto split: option.splits)

lemma length_hex_text [simp]: "length (hex_text bs) = 2 * length bs"
  by (induction bs) (simp_all add: hex_text_def)

lemma high_nibble [simp]: "unat (b :: byte) div 16 < 16"
  using unat_byte_lt [of b] by (simp add: div_less_iff_less_mult)

lemma hexNibble_hex_char: "n < 16 \<Longrightarrow> hexNibble (hex_char n) = Some (of_nat n)"
  by (auto simp: hexNibble_def hex_char_def word_le_nat_alt unat_of_nat_byte simp del: of_nat_add) simp_all

lemma nibbles: "push_bit 4 (of_nat (unat b div 16) :: byte) OR of_nat (unat b mod 16) = b"
proof -
  have "unat (drop_bit 4 b) = unat b div 16" "unat (take_bit 4 b) = unat b mod 16"
    by (simp_all add: unsigned_drop_bit_eq unsigned_take_bit_eq drop_bit_nat_def take_bit_nat_def)
  then have "(of_nat (unat b div 16) :: byte) = drop_bit 4 b" "(of_nat (unat b mod 16) :: byte) = take_bit 4 b"
    using high_nibble [of b] by (auto intro!: byte_eq simp del: high_nibble)
  then show ?thesis by (auto intro!: bit_eqI simp: bit_simps)
qed

lemma hexBytes_hex_text: "hexBytes (hex_text bs) = Some bs"
  by (induction bs) (simp_all add: hex_text_def hexNibble_hex_char nibbles)

lemma lower_hex_char: "n < 16 \<Longrightarrow> lower_byte (hex_char n) = hex_char n"
  by (auto simp: lower_byte_def hex_char_def word_le_nat_alt unat_of_nat_byte simp del: of_nat_add)

lemma lower_hex_text [simp]: "lower (hex_text bs) = hex_text bs"
  by (induction bs) (simp_all add: hex_text_def lower_def lower_hex_char)

lemma hex_text_inj: "hex_text a = hex_text b \<Longrightarrow> a = b"
  by (metis hexBytes_hex_text option.inject)

lemma lower_lower [simp]: "lower (lower s) = lower s"
proof -
  have "lower_byte (lower_byte c) = lower_byte c" for c
  proof (cases "65 \<le> c \<and> c \<le> 90")
    case True
    then have c: "65 \<le> unat c" "unat c \<le> 90" by (simp_all add: word_le_nat_alt)
    have "unat (c + 32) = (unat c + 32) mod 256" by (simp add: unat_word_ariths)
    also have "\<dots> = unat c + 32" using c(2) by (intro mod_less) linarith
    finally have "\<not> c + 32 \<le> 90" using c(1) by (simp only: word_le_nat_alt) simp
    with True show ?thesis by (simp only: lower_byte_def) simp
  qed (auto simp: lower_byte_def)
  then show ?thesis by (simp add: lower_def)
qed

lemma strictEqual_string: "strictEqual v (Some (JString s)) \<longleftrightarrow> v = Some (JString s)"
  by (cases v; cases "the v") (auto simp: strictEqual_def nullish_def)

end
