(* ===== verification/Bundle_Read.thy ===== *)
theory Bundle_Read
  imports Float64
begin

text \<open>
  \<open>internal/bundle\<close>: opening a bundle. The zip extraction is replayed over the list of entries in
  central directory order (\<open>zip.go\<close>), names are normalised as PHP does, files are read whole up to
  a cap (\<open>dir.go\<close>) or line by line (\<open>lines.go\<close>). Decompression and the operating system are not
  modelled: an entry carries its inflated bytes, or nothing when it does not inflate, and a
  directory bundle is given as what a path holds. So an error of the operating system in the middle of a
  read has no counterpart, and the messages on a file of a directory name the file where the code names its
  joined path.
\<close>

record hard_error =
  Message :: bytes
  ExitCode :: nat

definition hard :: "bytes \<Rightarrow> nat \<Rightarrow> hard_error" where
  "hard message code = \<lparr>Message = message, ExitCode = code\<rparr>"

definition MaxLineBytes :: nat where "MaxLineBytes = 67108864"
definition MaxWholeFileBytes :: nat where "MaxWholeFileBytes = 536870912"
definition MaxEntryBytes :: nat where "MaxEntryBytes = 68719476736"

definition dot :: bytes where "dot = [46]"
definition dotdot :: bytes where "dotdot = [46, 46]"

subsection \<open>Names of zip entries\<close>

text \<open>The stack of path components, its top first.\<close>

definition zip_component :: "bool \<Rightarrow> bytes \<Rightarrow> bytes list \<Rightarrow> bytes list" where
  "zip_component absolute c stack =
     (if c = [] \<or> c = dot then stack
      else if c = dotdot then
        (if stack \<noteq> [] \<and> hd stack \<noteq> dotdot then tl stack
         else if \<not> absolute then dotdot # stack else stack)
      else c # stack)"

text \<open>The loop down from the end: what follows the rightmost slash after a dot or a colon.\<close>

fun drop_relative :: "bytes \<Rightarrow> nat \<Rightarrow> bytes" where
  "drop_relative p 0 = p"
| "drop_relative p (Suc i) =
     (if Suc i \<ge> 2 \<and> p ! Suc i = 47 \<and> (p ! i = 46 \<or> p ! i = 58) then drop (Suc (Suc i)) p
      else drop_relative p i)"

definition phpZipPath :: "bytes \<Rightarrow> bytes option" where
  "phpZipPath name =
     (let absolute = has_prefix name [47];
          stack = fold (zip_component absolute) (split_byte 47 name) [];
          p = join_byte 47 (rev stack)
      in if p = [] then None
         else let p1 = (if has_suffix name [47] then p @ [47] else p)
           in if absolute then Some p1
              else let p2 = drop_relative p1 (length p1 - 1)
                in if p2 = [] \<or> p2 = [47] \<or> p2 = dotdot then None else Some p2)"

definition lookupName :: "bytes \<Rightarrow> bytes option" where
  "lookupName name =
     (if has_suffix name [47] \<or> has_suffix name [47, 46] then None
      else let parts = filter (\<lambda>c. c \<noteq> [] \<and> c \<noteq> dot) (split_byte 47 name)
        in if parts = [] then None else Some (join_byte 47 parts))"

subsection \<open>Extraction\<close>

record zip_entry =
  ze_name :: bytes
  ze_flags :: nat
  ze_data :: "bytes option"

record extraction =
  ex_dirs :: "bytes set"
  ex_files :: "bytes \<rightharpoonup> zip_entry"

definition entryReadable :: "zip_entry \<Rightarrow> bool" where
  "entryReadable f \<longleftrightarrow>
     (if odd (ze_flags f) then False
      else case ze_data f of None \<Rightarrow> False | Some d \<Rightarrow> length d \<le> MaxEntryBytes)"

fun mkdir_prefixes :: "bytes list \<Rightarrow> extraction \<Rightarrow> extraction option" where
  "mkdir_prefixes [] ex = Some ex"
| "mkdir_prefixes (prefix # ps) ex =
     (if ex_files ex prefix \<noteq> None then None
      else mkdir_prefixes ps (ex\<lparr>ex_dirs := insert prefix (ex_dirs ex)\<rparr>))"

definition path_prefixes :: "bytes \<Rightarrow> bytes list" where
  "path_prefixes dir = map (\<lambda>i. join_byte 47 (take (i + 1) (split_byte 47 dir))) [0..<length (split_byte 47 dir)]"

definition mkdirAll :: "bytes \<Rightarrow> extraction \<Rightarrow> extraction option" where
  "mkdirAll dir ex = (if dir = [] then Some ex else mkdir_prefixes (path_prefixes dir) ex)"

text \<open>\<open>name[:strings.LastIndexByte(name, '/')]\<close>, or nothing without a slash.\<close>

definition dir_of :: "bytes \<Rightarrow> bytes" where
  "dir_of name = (if 47 \<in> set name then rev (drop 1 (dropWhile (\<lambda>b. b \<noteq> 47) (rev name))) else [])"

definition extract_entry :: "zip_entry \<Rightarrow> extraction \<Rightarrow> extraction option" where
  "extract_entry f ex =
     (case phpZipPath (ze_name f) of
        None \<Rightarrow> None
      | Some name \<Rightarrow>
          if has_suffix name [47] then mkdirAll (butlast name) ex
          else case mkdirAll (dir_of name) ex of
            None \<Rightarrow> None
          | Some ex' \<Rightarrow>
              if name \<in> ex_dirs ex' then None
              else if \<not> entryReadable f then None
              else Some (ex'\<lparr>ex_files := (ex_files ex')(name \<mapsto> f)\<rparr>))"

fun extract_all :: "zip_entry list \<Rightarrow> extraction \<Rightarrow> extraction option" where
  "extract_all [] ex = Some ex"
| "extract_all (f # fs) ex = (case extract_entry f ex of None \<Rightarrow> None | Some ex' \<Rightarrow> extract_all fs ex')"

definition extract_zip :: "zip_entry list \<Rightarrow> (bytes \<rightharpoonup> zip_entry) option" where
  "extract_zip entries =
     map_option ex_files (extract_all entries \<lparr>ex_dirs = {}, ex_files = Map.empty\<rparr>)"

subsection \<open>Readers\<close>

text \<open>A reader is what a name holds: the bytes of a regular file, or nothing.\<close>

type_synonym reader = "bytes \<rightharpoonup> bytes"

definition zip_file :: "(bytes \<rightharpoonup> zip_entry) \<Rightarrow> bytes \<Rightarrow> zip_entry option" where
  "zip_file files name = (case lookupName name of None \<Rightarrow> None | Some key \<Rightarrow> files key)"

definition zip_reader :: "(bytes \<rightharpoonup> zip_entry) \<Rightarrow> reader" where
  "zip_reader files name = (case zip_file files name of None \<Rightarrow> None | Some f \<Rightarrow> ze_data f)"

definition openZip :: "bytes \<Rightarrow> zip_entry list option \<Rightarrow> hard_error + reader" where
  "openZip path entries =
     (case entries of
        None \<Rightarrow> Inl (hard (lit ''could not open zip ['' @ path @ lit '']'') 1)
      | Some es \<Rightarrow> (case extract_zip es of
            None \<Rightarrow> Inl (hard (lit ''could not extract zip ['' @ path @ lit '']'') 1)
          | Some files \<Rightarrow> Inr (zip_reader files)))"

text \<open>What the operating system says a path is.\<close>

datatype path_kind = Directory reader | Regular_file "zip_entry list option" | Neither

definition Open_bundle :: "(bytes \<Rightarrow> path_kind) \<Rightarrow> bytes \<Rightarrow> hard_error + reader" where
  "Open_bundle os path =
     (case os path of
        Directory r \<Rightarrow> Inr r
      | Neither \<Rightarrow> Inl (hard (lit ''bundle ['' @ path @ lit ''] does not exist'') 2)
      | Regular_file es \<Rightarrow> openZip path es)"

definition IsFile :: "reader \<Rightarrow> bytes \<Rightarrow> bool" where
  "IsFile r name \<longleftrightarrow> r name \<noteq> None"

definition Open_file :: "reader \<Rightarrow> bytes \<Rightarrow> hard_error + bytes" where
  "Open_file r name =
     (case r name of None \<Rightarrow> Inl (hard (lit ''could not read ['' @ name @ lit '']'') 1) | Some d \<Rightarrow> Inr d)"

definition readCapped :: "bytes \<Rightarrow> bytes option \<Rightarrow> hard_error + bytes" where
  "readCapped label data =
     (case data of
        None \<Rightarrow> Inl (hard (lit ''could not read ['' @ label @ lit '']'') 1)
      | Some d \<Rightarrow>
          if length d > MaxWholeFileBytes
          then Inl (hard (lit ''['' @ label @ lit ''] is larger than the '' @ nat_digits MaxWholeFileBytes @
                 lit '' bytes this verifier reads into memory; nothing was verified'') 2)
          else Inr d)"

definition ReadWhole :: "reader \<Rightarrow> bytes \<Rightarrow> hard_error + bytes" where
  "ReadWhole r name = (if \<not> IsFile r name then Inr [] else readCapped name (r name))"

subsection \<open>Lines\<close>

definition IsBlank :: "bytes \<Rightarrow> bool" where
  "IsBlank line \<longleftrightarrow> list_all (\<lambda>b. b = 32 \<or> b = 9 \<or> b = 10 \<or> b = 13 \<or> b = 0 \<or> b = 11) line"

datatype slice_end = Delim | BufferFull | Eof

definition bufSize :: nat where "bufSize = 65536"

text \<open>\<open>bufio.Reader.ReadSlice\<close> with a newline as delimiter, on what is left of the file.\<close>

definition ReadSlice :: "bytes \<Rightarrow> bytes \<times> slice_end \<times> bytes" where
  "ReadSlice rest =
     (let pre = takeWhile (\<lambda>b. b \<noteq> 10) rest
      in if length pre < length rest \<and> length pre < bufSize
         then (pre @ [10], Delim, drop (length pre + 1) rest)
         else if length rest \<ge> bufSize then (take bufSize rest, BufferFull, drop bufSize rest)
         else (rest, Eof, []))"

datatype line_error = ErrLineTooLong

record lines =
  l_rest :: bytes
  l_line :: bytes
  l_number :: int
  l_err :: "line_error option"
  l_done :: bool

definition NewLines :: "bytes \<Rightarrow> lines" where
  "NewLines content = \<lparr>l_rest = content, l_line = [], l_number = - 1, l_err = None, l_done = False\<rparr>"

definition trim_eol :: "bytes \<Rightarrow> bytes" where
  "trim_eol line = rev (dropWhile (\<lambda>b. b = 10 \<or> b = 13) (rev line))"

definition finish_line :: "bytes \<Rightarrow> lines \<Rightarrow> lines" where
  "finish_line line l = l\<lparr>l_line := trim_eol line, l_number := l_number l + 1\<rparr>"

function next_loop :: "bytes \<Rightarrow> lines \<Rightarrow> bool \<times> lines" where
  "next_loop line l =
     (case ReadSlice (l_rest l) of (chunk, e, rest') \<Rightarrow>
        let l' = l\<lparr>l_rest := rest'\<rparr>
        in if length line + length chunk > MaxLineBytes
           then (False, l'\<lparr>l_err := Some ErrLineTooLong, l_done := True\<rparr>)
           else (case e of
               Delim \<Rightarrow> (True, finish_line (line @ chunk) l')
             | BufferFull \<Rightarrow> next_loop (line @ chunk) l'
             | Eof \<Rightarrow>
                 if line @ chunk = [] then (False, l'\<lparr>l_line := [], l_done := True\<rparr>)
                 else (True, finish_line (line @ chunk) (l'\<lparr>l_done := True\<rparr>))))"
  by pat_completeness auto
termination
  by (relation "measure (\<lambda>(line, l). length (l_rest l))")
    (auto simp: ReadSlice_def Let_def bufSize_def split: if_splits)

declare next_loop.simps [simp del]

definition Lines_Next :: "lines \<Rightarrow> bool \<times> lines" where
  "Lines_Next l = (if l_done l then (False, l) else next_loop [] l)"

end
