(* ===== verification/Bundle_Facts.thy ===== *)
theory Bundle_Facts
  imports Bundle_Read
begin

text \<open>
  What opening a bundle guarantees: a name taken from a zip archive never contains a parent
  component, extraction never lets one path be both file and directory and keeps the last entry of
  a name, and the line reader yields the lines of the file whatever the chunks it reads in.
\<close>

subsection \<open>Splitting and joining\<close>

lemma split_byte_not_Nil [simp]: "split_byte c s \<noteq> []"
  by (induction s) (auto split: list.splits)

lemma split_byte_append: "split_byte c (a @ c # b) = split_byte c a @ split_byte c b"
  by (induction a) (auto split: list.splits simp: append_eq_Cons_conv)

lemma split_byte_no: "c \<notin> set s \<Longrightarrow> split_byte c s = [s]"
  by (induction s) auto

lemma split_byte_parts: "p \<in> set (split_byte c s) \<Longrightarrow> c \<notin> set p"
  by (induction s arbitrary: p) (auto split: list.splits if_splits)

lemma split_join:
  "ps \<noteq> [] \<Longrightarrow> (\<forall>p \<in> set ps. c \<notin> set p) \<Longrightarrow> split_byte c (join_byte c ps) = ps"
  by (induction c ps rule: join_byte.induct) (auto simp: split_byte_no split_byte_append)

lemma join_split: "join_byte c (split_byte c s) = s"
proof (induction s)
  case (Cons b s)
  obtain p ps where ps: "split_byte c s = p # ps" by (cases "split_byte c s") auto
  with Cons show ?case by (cases ps) auto
qed simp

subsection \<open>Names are safe\<close>

definition rel_match :: "bytes \<Rightarrow> nat \<Rightarrow> bool" where
  "rel_match p i \<longleftrightarrow> 2 \<le> i \<and> i < length p \<and> p ! i = 47 \<and> (p ! (i - 1) = 46 \<or> p ! (i - 1) = 58)"

lemma drop_relative_spec:
  assumes "k < length p"
  shows "(\<exists>i \<le> k. rel_match p i \<and> (\<forall>j. i < j \<and> j \<le> k \<longrightarrow> \<not> rel_match p j) \<and> drop_relative p k = drop (i + 1) p) \<or>
    (\<forall>j \<le> k. \<not> rel_match p j) \<and> drop_relative p k = p"
  using assms
proof (induction p k rule: drop_relative.induct)
  case (1 p)
  then show ?case by (auto simp: rel_match_def)
next
  case (2 p i)
  show ?case
  proof (cases "rel_match p (Suc i)")
    case True
    then show ?thesis by (intro disjI1 exI [of _ "Suc i"]) (auto simp: rel_match_def)
  next
    case False
    then have no: "\<not> (Suc i \<ge> 2 \<and> p ! Suc i = 47 \<and> (p ! i = 46 \<or> p ! i = 58))"
      using 2(2) by (simp add: rel_match_def)
    have same: "drop_relative p (Suc i) = drop_relative p i"
      unfolding drop_relative.simps if_not_P [OF no] by (rule refl)
    have "i < length p" using 2(2) by simp
    from 2(1) [OF no this] show ?thesis
      unfolding same using False by (metis le_Suc_eq)
  qed
qed

text \<open>After the drop nothing matches any more, and what is left starts after a slash.\<close>

lemma drop_relative_props:
  assumes "p \<noteq> []"
  defines "q \<equiv> drop_relative p (length p - 1)"
  shows "(\<forall>j. \<not> rel_match q j) \<and> (q = p \<or> (\<exists>a. p = a @ 47 # q))"
proof -
  from assms(1) have "length p - 1 < length p" by (cases p) auto
  from drop_relative_spec [OF this] consider
      (cut) i where "rel_match p i" "\<forall>j. i < j \<and> j \<le> length p - 1 \<longrightarrow> \<not> rel_match p j" "q = drop (i + 1) p"
    | (whole) "\<forall>j \<le> length p - 1. \<not> rel_match p j" "q = p"
    unfolding q_def by blast
  then show ?thesis
  proof cases
    case cut
    then have i: "i < length p" "p ! i = 47" by (auto simp: rel_match_def)
    have "\<not> rel_match q j" for j
    proof
      assume m: "rel_match q j"
      then have "rel_match p (i + 1 + j)" using cut(3) by (auto simp: rel_match_def)
      moreover have "i + 1 + j \<le> length p - 1" using m cut(3) by (auto simp: rel_match_def)
      ultimately show False using cut(2) by simp
    qed
    moreover have "p = take i p @ 47 # q" using id_take_nth_drop [OF i(1)] unfolding i(2) cut(3) by simp
    ultimately show ?thesis by blast
  next
    case whole
    then show ?thesis by (auto simp: rel_match_def)
  qed
qed

lemma hd_split_dotdot:
  assumes "\<forall>j. \<not> rel_match q j" "q \<noteq> dotdot"
  shows "hd (split_byte 47 q) \<noteq> dotdot"
proof
  assume h: "hd (split_byte 47 q) = dotdot"
  obtain ps where ps: "split_byte 47 q = dotdot # ps" using h by (cases "split_byte 47 q") auto
  have "q = join_byte 47 (dotdot # ps)" using join_split [of 47 q] ps by simp
  with assms(2) obtain r where "q = dotdot @ 47 # r" by (cases ps) auto
  then have "rel_match q 2" by (simp add: rel_match_def dotdot_def)
  with assms(1) show False by blast
qed

lemma initial_only:
  assumes "replicate n d @ ws = us @ y # ys" "d \<notin> set ws" "y \<noteq> d"
  shows "d \<notin> set (y # ys)"
proof -
  have "n \<le> length us"
  proof (rule ccontr)
    assume "\<not> n \<le> length us"
    then have "(replicate n d @ ws) ! length us = d" by (simp add: nth_append)
    with assms(1,3) show False by simp
  qed
  then have "y # ys = drop (length us - n) ws" using arg_cong [OF assms(1), of "drop (length us)"] by simp
  with assms(2) show ?thesis by (metis in_set_dropD)
qed

definition stack_ok :: "bool \<Rightarrow> bytes list \<Rightarrow> bool" where
  "stack_ok absolute st \<longleftrightarrow> (\<forall>c \<in> set st. c \<noteq> [] \<and> 47 \<notin> set c) \<and>
     (\<exists>us n. st = us @ replicate n dotdot \<and> dotdot \<notin> set us \<and> (absolute \<longrightarrow> n = 0))"

lemma zip_component_ok:
  assumes "stack_ok absolute st" "47 \<notin> set c"
  shows "stack_ok absolute (zip_component absolute c st)"
proof -
  from assms(1) obtain us n where st: "st = us @ replicate n dotdot" "dotdot \<notin> set us" "absolute \<longrightarrow> n = 0"
    by (auto simp: stack_ok_def)
  show ?thesis
  proof (cases "c = dotdot")
    case True
    show ?thesis
    proof (cases us)
      case Nil
      then have st': "st = replicate n dotdot" using st by simp
      then have "zip_component absolute c st = (if absolute then st else replicate (Suc n) dotdot)"
        using True st(3) by (cases n) (auto simp: zip_component_def dotdot_def dot_def)
      then show ?thesis using assms(1) st' st(3)
        by (auto simp: stack_ok_def dotdot_def intro!: exI [of _ "[]"] exI [of _ "Suc n"])
    next
      case (Cons u us')
      then have "zip_component absolute c st = us' @ replicate n dotdot"
        using True st by (auto simp: zip_component_def dotdot_def dot_def)
      with assms(1) st Cons show ?thesis by (auto simp: stack_ok_def)
    qed
  next
    case False
    with assms st show ?thesis
      by (auto simp: zip_component_def stack_ok_def intro!: exI [of _ "c # us"] exI [of _ n])
  qed
qed

lemma zip_stack_ok: "stack_ok absolute (fold (zip_component absolute) (split_byte 47 name) [])"
proof -
  have "stack_ok absolute st \<Longrightarrow> (\<forall>c \<in> set cs. 47 \<notin> set c) \<Longrightarrow>
      stack_ok absolute (fold (zip_component absolute) cs st)" for cs st
    by (induction cs arbitrary: st) (auto simp: zip_component_ok)
  moreover have "stack_ok absolute []" by (auto simp: stack_ok_def)
  ultimately show ?thesis using split_byte_parts by blast
qed

text \<open>No entry name that survives normalisation has a parent component.\<close>

lemma phpZipPath_safe:
  assumes "phpZipPath name = Some p"
  shows "p \<noteq> [] \<and> dotdot \<notin> set (split_byte 47 p)"
proof -
  define absolute where "absolute = has_prefix name [47]"
  define st where "st = fold (zip_component absolute) (split_byte 47 name) []"
  define p0 where "p0 = join_byte 47 (rev st)"
  define tail where "tail = (if has_suffix name [47] then [[]] else [] :: bytes list)"
  define p1 where "p1 = (if has_suffix name [47] then p0 @ [47] else p0)"
  have ok: "stack_ok absolute st" unfolding st_def by (rule zip_stack_ok)
  have eq: "phpZipPath name =
      (if p0 = [] then None else if absolute then Some p1
       else let p2 = drop_relative p1 (length p1 - 1)
         in if p2 = [] \<or> p2 = [47] \<or> p2 = dotdot then None else Some p2)"
    unfolding phpZipPath_def Let_def absolute_def st_def p0_def p1_def by (rule refl)
  with assms have p0: "p0 \<noteq> []" by (auto split: if_splits)
  then have "st \<noteq> []" by (auto simp: p0_def)
  then have s0: "split_byte 47 p0 = rev st" unfolding p0_def using ok by (intro split_join) (auto simp: stack_ok_def)
  have s1: "split_byte 47 p1 = rev st @ tail"
    using split_byte_append [of 47 p0 "[]"] s0 by (simp add: p1_def tail_def)
  from ok obtain us n where us: "st = us @ replicate n dotdot" "dotdot \<notin> set us" "absolute \<longrightarrow> n = 0"
    by (auto simp: stack_ok_def)
  have all: "split_byte 47 p1 = replicate n dotdot @ (rev us @ tail)" "dotdot \<notin> set (rev us @ tail)"
    using s1 us by (simp_all add: tail_def dotdot_def)
  show ?thesis
  proof (cases absolute)
    case True
    with assms p0 eq have "p = p1" by simp
    with all us(3) True p0 show ?thesis by (auto simp: p1_def)
  next
    case False
    with assms p0 eq have p: "p = drop_relative p1 (length p1 - 1)" "p \<noteq> []" "p \<noteq> dotdot"
      by (simp_all add: Let_def split: if_splits)
    have "p1 \<noteq> []" using p0 by (simp add: p1_def)
    from drop_relative_props [OF this] p have nm: "\<forall>j. \<not> rel_match p j" and part: "p = p1 \<or> (\<exists>a. p1 = a @ 47 # p)"
      by auto
    obtain y ys where y: "split_byte 47 p = y # ys" by (cases "split_byte 47 p") auto
    then have "y \<noteq> dotdot" using hd_split_dotdot [OF nm p(3)] by simp
    from part obtain zs where "split_byte 47 p1 = zs @ y # ys"
      using split_byte_append y by (metis append_Nil)
    with all initial_only [of n dotdot "rev us @ tail" zs y ys] \<open>y \<noteq> dotdot\<close> have "dotdot \<notin> set (y # ys)" by simp
    with y p(2) show ?thesis by simp
  qed
qed

subsection \<open>Extraction\<close>

text \<open>No path is both a file and a directory, and the directories of every file exist.\<close>

definition ex_ok :: "extraction \<Rightarrow> bool" where
  "ex_ok ex \<longleftrightarrow> (\<forall>name f. ex_files ex name = Some f \<longrightarrow>
     name \<notin> ex_dirs ex \<and> entryReadable f \<and> (dir_of name \<noteq> [] \<longrightarrow> set (path_prefixes (dir_of name)) \<subseteq> ex_dirs ex))"

lemma mkdir_prefixes_spec:
  "mkdir_prefixes ps ex = Some ex' \<Longrightarrow>
   ex_files ex' = ex_files ex \<and> ex_dirs ex' = set ps \<union> ex_dirs ex \<and> (\<forall>p \<in> set ps. ex_files ex p = None)"
proof (induction ps arbitrary: ex)
  case (Cons p ps)
  then have "ex_files ex p = None" "mkdir_prefixes ps (ex\<lparr>ex_dirs := insert p (ex_dirs ex)\<rparr>) = Some ex'"
    by (simp_all split: if_splits)
  with Cons.IH [OF this(2)] show ?case by auto
qed simp

lemma mkdirAll_ok:
  assumes "ex_ok ex" "mkdirAll dir ex = Some ex'"
  shows "ex_ok ex' \<and> ex_files ex' = ex_files ex \<and> (dir \<noteq> [] \<longrightarrow> set (path_prefixes dir) \<subseteq> ex_dirs ex')"
  using assms mkdir_prefixes_spec [of "path_prefixes dir" ex ex']
  by (fastforce simp: mkdirAll_def ex_ok_def split: if_splits)

lemma extract_entry_ok:
  assumes "ex_ok ex" "extract_entry f ex = Some ex'"
  shows "ex_ok ex'"
proof -
  obtain name where name: "phpZipPath (ze_name f) = Some name"
    using assms(2) by (auto simp: extract_entry_def split: option.splits)
  show ?thesis
  proof (cases "has_suffix name [47]")
    case True
    with assms name mkdirAll_ok show ?thesis by (auto simp: extract_entry_def)
  next
    case False
    with assms(2) name obtain ex1 where ex1: "mkdirAll (dir_of name) ex = Some ex1"
      by (auto simp: extract_entry_def split: option.splits)
    with assms(2) name False have "name \<notin> ex_dirs ex1" "entryReadable f"
      "ex' = ex1\<lparr>ex_files := (ex_files ex1)(name \<mapsto> f)\<rparr>"
      by (auto simp: extract_entry_def split: if_splits)
    with mkdirAll_ok [OF assms(1) ex1] show ?thesis by (auto simp: ex_ok_def)
  qed
qed

lemma extract_all_ok: "ex_ok ex \<Longrightarrow> extract_all fs ex = Some ex' \<Longrightarrow> ex_ok ex'"
  using extract_entry_ok by (induction fs arbitrary: ex) (auto split: option.splits)

definition entry_key :: "zip_entry \<Rightarrow> bytes option" where
  "entry_key f = (case phpZipPath (ze_name f) of Some n \<Rightarrow> if has_suffix n [47] then None else Some n | None \<Rightarrow> None)"

lemma extract_entry_files:
  assumes "extract_entry f ex = Some ex'"
  shows "ex_files ex' = (case entry_key f of None \<Rightarrow> ex_files ex | Some n \<Rightarrow> (ex_files ex)(n \<mapsto> f))"
proof -
  have "mkdirAll d ex = Some e1 \<Longrightarrow> ex_files e1 = ex_files ex" for d e1
    using mkdir_prefixes_spec by (auto simp: mkdirAll_def split: if_splits)
  with assms show ?thesis by (fastforce simp: extract_entry_def entry_key_def split: option.splits if_splits)
qed

text \<open>The last entry of a name is the one read.\<close>

lemma extract_all_files:
  "extract_all fs ex = Some ex' \<Longrightarrow>
   ex_files ex' name = (case find (\<lambda>f. entry_key f = Some name) (rev fs) of Some f \<Rightarrow> Some f | None \<Rightarrow> ex_files ex name)"
proof (induction fs arbitrary: ex)
  case (Cons f fs)
  then obtain ex1 where e: "extract_entry f ex = Some ex1" "extract_all fs ex1 = Some ex'"
    by (auto split: option.splits)
  have find: "find P (xs @ [f]) = (case find P xs of Some y \<Rightarrow> Some y | None \<Rightarrow> if P f then Some f else None)" for P xs
    by (induction xs) auto
  from Cons.IH [OF e(2)] extract_entry_files [OF e(1)] show ?case
    by (auto simp: find split: option.splits)
qed simp

lemma extract_zip_props:
  assumes "extract_zip es = Some files"
  shows "files name = find (\<lambda>f. entry_key f = Some name) (rev es)"
    and "files name = Some f \<Longrightarrow> entryReadable f \<and> dotdot \<notin> set (split_byte 47 name) \<and>
      (\<forall>p \<in> set (path_prefixes (dir_of name)). dir_of name \<noteq> [] \<longrightarrow> files p = None)"
proof -
  obtain ex where ex: "extract_all es \<lparr>ex_dirs = {}, ex_files = Map.empty\<rparr> = Some ex" "files = ex_files ex"
    using assms by (auto simp: extract_zip_def)
  show last: "files name = find (\<lambda>f. entry_key f = Some name) (rev es)"
    using extract_all_files [OF ex(1), of name] ex(2) by (auto split: option.splits)
  have ok: "ex_ok ex" using extract_all_ok [OF _ ex(1)] by (simp add: ex_ok_def)
  assume f: "files name = Some f"
  then have "entry_key f = Some name" using last by (auto simp: find_Some_iff)
  then have "dotdot \<notin> set (split_byte 47 name)"
    using phpZipPath_safe by (auto simp: entry_key_def split: option.splits if_splits)
  moreover have "files p = None" if "p \<in> ex_dirs ex" for p
    using ok that ex(2) by (cases "files p") (auto simp: ex_ok_def)
  ultimately show "entryReadable f \<and> dotdot \<notin> set (split_byte 47 name) \<and>
      (\<forall>p \<in> set (path_prefixes (dir_of name)). dir_of name \<noteq> [] \<longrightarrow> files p = None)"
    using ok f ex(2) by (auto simp: ex_ok_def)
qed

subsection \<open>Lines\<close>

text \<open>The lines of a file, each with its terminator.\<close>

function phys_lines :: "bytes \<Rightarrow> bytes list" where
  "phys_lines s =
     (if s = [] then []
      else let pre = takeWhile (\<lambda>b. b \<noteq> 10) s
        in if length pre < length s then (pre @ [10]) # phys_lines (drop (length pre + 1) s) else [s])"
  by pat_completeness auto
termination by (relation "measure length") auto

declare phys_lines.simps [simp del]

lemma phys_lines_Nil: "phys_lines s = [] \<longleftrightarrow> s = []"
  by (subst phys_lines.simps) (simp add: Let_def)

lemma phys_lines_empty [simp]: "phys_lines [] = []"
  by (simp add: phys_lines_Nil)

lemma phys_lines_delim: "10 \<notin> set pre \<Longrightarrow> phys_lines (pre @ 10 # s) = (pre @ [10]) # phys_lines s"
proof -
  assume "10 \<notin> set pre"
  then have "takeWhile (\<lambda>b. b \<noteq> 10) (pre @ 10 # s) = pre" by (induction pre) auto
  then show ?thesis by (subst phys_lines.simps) (simp add: Let_def)
qed

lemma phys_lines_last: "10 \<notin> set s \<Longrightarrow> s \<noteq> [] \<Longrightarrow> phys_lines s = [s]"
proof -
  assume "10 \<notin> set s" "s \<noteq> []"
  moreover from this have tw: "takeWhile (\<lambda>b. b \<noteq> 10) s = s" by (auto simp: takeWhile_eq_all_conv)
  ultimately show ?thesis by (subst phys_lines.simps) (simp add: Let_def tw)
qed

definition prepend_line :: "bytes \<Rightarrow> bytes list \<Rightarrow> bytes list" where
  "prepend_line line ls = (case ls of [] \<Rightarrow> if line = [] then [] else [line] | l # ls' \<Rightarrow> (line @ l) # ls')"

lemma prepend_prepend: "prepend_line a (prepend_line b ls) = prepend_line (a @ b) ls"
  by (auto simp: prepend_line_def split: list.splits)

lemma phys_lines_chunk: "10 \<notin> set chunk \<Longrightarrow> phys_lines (chunk @ s) = prepend_line chunk (phys_lines s)"
proof (cases "10 \<in> set s")
  case True
  assume c: "10 \<notin> set chunk"
  from split_list_first [OF True] obtain pre r where s: "s = pre @ 10 # r" "10 \<notin> set pre" by blast
  then show ?thesis
    using phys_lines_delim [of pre r] phys_lines_delim [of "chunk @ pre" r] c by (simp add: prepend_line_def)
next
  case False
  assume c: "10 \<notin> set chunk"
  show ?thesis
  proof (cases "s = []")
    case True
    with c phys_lines_last [of chunk] phys_lines_Nil [of "[]"] show ?thesis
      by (cases "chunk = []") (simp_all add: prepend_line_def)
  next
    case ne: False
    with False c phys_lines_last [of s] phys_lines_last [of "chunk @ s"] show ?thesis
      by (simp add: prepend_line_def)
  qed
qed

lemma ReadSlice_spec:
  assumes "ReadSlice rest = (chunk, e, rest')"
  shows "rest = chunk @ rest' \<and>
    (case e of Delim \<Rightarrow> (\<exists>pre. 10 \<notin> set pre \<and> chunk = pre @ [10])
     | BufferFull \<Rightarrow> 10 \<notin> set chunk \<and> chunk \<noteq> []
     | Eof \<Rightarrow> 10 \<notin> set chunk \<and> rest' = [])"
proof -
  define pre where "pre = takeWhile (\<lambda>b. b \<noteq> 10) rest"
  have pre: "10 \<notin> set pre" unfolding pre_def by (auto dest: set_takeWhileD)
  consider (delim) "length pre < length rest" "length pre < bufSize"
    | (full) "\<not> (length pre < length rest \<and> length pre < bufSize)" "bufSize \<le> length rest"
    | (eof) "\<not> (length pre < length rest \<and> length pre < bufSize)" "length rest < bufSize" by linarith
  then show ?thesis
  proof cases
    case delim
    then have "rest = pre @ rest ! length pre # drop (length pre + 1) rest"
      using takeWhile_eq_take [of "\<lambda>b. b \<noteq> 10" rest] id_take_nth_drop [of "length pre" rest] by (simp add: pre_def)
    moreover have "rest ! length pre = 10" using delim nth_length_takeWhile [of "\<lambda>b. b \<noteq> 10" rest] by (simp add: pre_def)
    ultimately have "rest = (pre @ [10]) @ drop (length pre + 1) rest" by simp
    with delim assms pre show ?thesis
      by (auto simp: ReadSlice_def Let_def simp flip: pre_def)
  next
    case full
    have le: "length pre \<le> length rest" unfolding pre_def by (rule length_takeWhile_le)
    have "pre = take (length pre) rest" unfolding pre_def by (rule takeWhile_eq_take)
    moreover have "bufSize \<le> length pre" using full le by linarith
    ultimately have "take bufSize rest = take bufSize pre" by (metis min.absorb1 take_take)
    then have "10 \<notin> set (take bufSize rest)" using pre by (metis in_set_takeD)
    moreover have "take bufSize rest \<noteq> []" using full(2) by (auto simp: bufSize_def)
    ultimately show ?thesis using full assms by (auto simp: ReadSlice_def Let_def simp flip: pre_def)
  next
    case eof
    have "length pre \<le> length rest" unfolding pre_def by (rule length_takeWhile_le)
    with eof have "length pre = length rest" by linarith
    then have "pre = rest" using takeWhile_eq_take [of "\<lambda>b. b \<noteq> 10" rest] by (simp add: pre_def)
    with eof assms pre show ?thesis by (auto simp: ReadSlice_def Let_def simp flip: pre_def)
  qed
qed

lemma next_loop_spec:
  assumes "\<not> l_done l" "length line \<le> MaxLineBytes"
  shows "case next_loop line l of (b, l') \<Rightarrow>
    (case prepend_line line (phys_lines (l_rest l)) of
       [] \<Rightarrow> \<not> b \<and> l_err l' = l_err l \<and> l_done l'
     | x # xs \<Rightarrow>
         if length x > MaxLineBytes then \<not> b \<and> l_err l' = Some ErrLineTooLong \<and> l_done l'
         else b \<and> l_line l' = trim_eol x \<and> l_number l' = l_number l + 1 \<and> l_err l' = l_err l \<and>
           phys_lines (l_rest l') = xs \<and> (l_done l' \<longrightarrow> xs = []) \<and> (\<not> l_done l' \<longrightarrow> length (l_rest l') < length (l_rest l)))"
  using assms
proof (induction line l rule: next_loop.induct)
  case (1 line l)
  obtain chunk e rest' where rs: "ReadSlice (l_rest l) = (chunk, e, rest')" by (cases "ReadSlice (l_rest l)") auto
  note spec = ReadSlice_spec [OF rs]
  let ?l' = "l\<lparr>l_rest := rest'\<rparr>"
  have full: "prepend_line line (phys_lines (l_rest l)) =
      (case e of Delim \<Rightarrow> (line @ chunk) # phys_lines rest'
       | _ \<Rightarrow> prepend_line (line @ chunk) (phys_lines rest'))"
    using spec phys_lines_delim phys_lines_chunk [of chunk rest']
    by (auto simp: prepend_prepend split: slice_end.splits) (auto simp: prepend_line_def)
  show ?case
  proof (cases "length line + length chunk > MaxLineBytes")
    case True
    then have nl: "next_loop line l = (False, ?l'\<lparr>l_err := Some ErrLineTooLong, l_done := True\<rparr>)"
      by (subst next_loop.simps) (simp add: rs)
    have "line @ chunk \<noteq> []" using True by auto
    then have "\<exists>x xs. prepend_line line (phys_lines (l_rest l)) = x # xs \<and> MaxLineBytes < length x"
      unfolding full using True by (auto simp: prepend_line_def split: slice_end.splits list.splits)
    with nl show ?thesis by auto
  next
    case ok: False
    show ?thesis
    proof (cases e)
      case Delim
      then have nl: "next_loop line l = (True, finish_line (line @ chunk) ?l')"
        using ok by (subst next_loop.simps) (simp add: rs)
      have "length rest' < length (l_rest l)" using spec Delim by auto
      with nl ok full Delim 1(2) show ?thesis by (simp add: finish_line_def)
    next
      case BufferFull
      then have nl: "next_loop line l = next_loop (line @ chunk) ?l'"
        using ok by (subst next_loop.simps) (simp add: rs)
      have lt: "length rest' < length (l_rest l)" using spec BufferFull by auto
      have "case next_loop (line @ chunk) ?l' of (b, l') \<Rightarrow>
        (case prepend_line (line @ chunk) (phys_lines (l_rest ?l')) of
           [] \<Rightarrow> \<not> b \<and> l_err l' = l_err ?l' \<and> l_done l'
         | x # xs \<Rightarrow>
             if length x > MaxLineBytes then \<not> b \<and> l_err l' = Some ErrLineTooLong \<and> l_done l'
             else b \<and> l_line l' = trim_eol x \<and> l_number l' = l_number ?l' + 1 \<and> l_err l' = l_err ?l' \<and>
               phys_lines (l_rest l') = xs \<and> (l_done l' \<longrightarrow> xs = []) \<and> (\<not> l_done l' \<longrightarrow> length (l_rest l') < length (l_rest ?l')))"
        using 1(1) [OF rs [symmetric] refl refl _ BufferFull] ok 1(2) by simp
      with nl full BufferFull lt show ?thesis by (fastforce split: prod.splits list.splits if_splits)
    next
      case Eof
      with spec have r: "rest' = []" by simp
      show ?thesis
      proof (cases "line @ chunk = []")
        case True
        with Eof ok have nl: "next_loop line l = (False, ?l'\<lparr>l_line := [], l_done := True\<rparr>)"
          by (subst next_loop.simps) (simp add: rs)
        have "prepend_line line (phys_lines (l_rest l)) = []"
          unfolding full using Eof r True by (simp add: prepend_line_def)
        with nl show ?thesis by simp
      next
        case False
        with Eof ok have "next_loop line l = (True, finish_line (line @ chunk) (?l'\<lparr>l_done := True\<rparr>))"
          by (subst next_loop.simps) (simp add: rs Let_def)
        moreover have "phys_lines [] = []" by (simp add: phys_lines_Nil)
        ultimately show ?thesis using full Eof r ok False by (simp add: prepend_line_def finish_line_def)
      qed
    qed
  qed
qed

lemma next_loop_number: "next_loop line l = (False, l') \<Longrightarrow> l_number l' = l_number l"
proof (induction line l rule: next_loop.induct)
  case (1 line l)
  obtain chunk e rest' where rs: "ReadSlice (l_rest l) = (chunk, e, rest')" by (cases "ReadSlice (l_rest l)") auto
  from 1(2) 1(1) [OF rs [symmetric] refl refl] show ?case
    by (subst (asm) next_loop.simps) (auto simp: rs finish_line_def Let_def split: if_splits slice_end.splits)
qed

text \<open>Reading a whole file by \<open>Next\<close>, as the verifier's loops do.\<close>

definition lines_left :: "lines \<Rightarrow> nat" where
  "lines_left l = (if l_done l then 0 else Suc (length (l_rest l)))"

lemma Lines_Next_spec:
  assumes "\<not> l_done l"
  shows "case Lines_Next l of (b, l') \<Rightarrow>
    (case phys_lines (l_rest l) of
       [] \<Rightarrow> \<not> b \<and> l_err l' = l_err l \<and> l_done l'
     | x # xs \<Rightarrow>
         if length x > MaxLineBytes then \<not> b \<and> l_err l' = Some ErrLineTooLong \<and> l_done l'
         else b \<and> l_line l' = trim_eol x \<and> l_number l' = l_number l + 1 \<and> l_err l' = l_err l \<and>
           phys_lines (l_rest l') = xs \<and> (l_done l' \<longrightarrow> xs = []) \<and> (\<not> l_done l' \<longrightarrow> length (l_rest l') < length (l_rest l)))"
proof -
  have "prepend_line [] (phys_lines (l_rest l)) = phys_lines (l_rest l)"
    by (simp add: prepend_line_def split: list.splits)
  with next_loop_spec [OF assms, of "[]"] assms show ?thesis by (simp add: Lines_Next_def)
qed

lemma Lines_Next_left: "Lines_Next l = (True, l') \<Longrightarrow> lines_left l' < lines_left l"
  using Lines_Next_spec [of l]
  by (cases "l_done l") (auto simp: Lines_Next_def lines_left_def split: list.splits if_splits)

function all_lines :: "lines \<Rightarrow> bytes list \<times> lines" where
  "all_lines l =
     (case Lines_Next l of
        (False, l') \<Rightarrow> ([], l')
      | (True, l') \<Rightarrow> (case all_lines l' of (ls, l'') \<Rightarrow> (l_line l' # ls, l'')))"
  by pat_completeness auto
termination
  by (relation "measure lines_left") (auto intro: Lines_Next_left [OF sym])

declare all_lines.simps [simp del]

definition short_line :: "bytes \<Rightarrow> bool" where
  "short_line x \<longleftrightarrow> length x \<le> MaxLineBytes"

lemma all_lines_spec:
  assumes "l_err l = None" "l_done l \<longrightarrow> phys_lines (l_rest l) = []"
  shows "fst (all_lines l) = map trim_eol (takeWhile short_line (phys_lines (l_rest l))) \<and>
    (l_err (snd (all_lines l)) = None \<longleftrightarrow> (\<forall>x \<in> set (phys_lines (l_rest l)). short_line x)) \<and>
    l_number (snd (all_lines l)) = l_number l + int (length (fst (all_lines l)))"
  using assms
proof (induction l rule: all_lines.induct)
  case (1 l)
  show ?case
  proof (cases "l_done l")
    case True
    with 1(2,3) show ?thesis by (subst (1 2 3 4) all_lines.simps) (simp add: Lines_Next_def)
  next
    case False
    note spec = Lines_Next_spec [OF False]
    obtain b l' where n: "Lines_Next l = (b, l')" by (cases "Lines_Next l") auto
    show ?thesis
    proof (cases b)
      case True
      with spec n obtain x xs where x: "phys_lines (l_rest l) = x # xs" "short_line x" "l_line l' = trim_eol x"
        "l_number l' = l_number l + 1" "l_err l' = l_err l" "phys_lines (l_rest l') = xs" "l_done l' \<longrightarrow> xs = []"
        by (auto simp: short_line_def split: list.splits if_splits)
      have step: "all_lines l = (l_line l' # fst (all_lines l'), snd (all_lines l'))"
        using n True by (subst all_lines.simps) (simp split: prod.splits)
      have "l_err l' = None" "l_done l' \<longrightarrow> phys_lines (l_rest l') = []" using x 1(2) by simp_all
      from 1(1) [OF n [symmetric] _ this] True x step show ?thesis by simp
    next
      case b: False
      then have step: "all_lines l = ([], l')" using n by (subst all_lines.simps) simp
      have "l_number l' = l_number l"
        using n b False next_loop_number by (auto simp: Lines_Next_def)
      with spec n b 1(2) step show ?thesis
        by (auto simp: short_line_def split: list.splits if_splits)
    qed
  qed
qed

end
