(* ===== verification/Report_Run.thy ===== *)
theory Report_Run
  imports Php_Value Bundle_Facts
begin

text \<open>
  \<open>verify/report.go\<close> (the five results, their states, the exit code) and \<open>verify/run.go\<close> (what a run
  accumulates: \<open>report\<close>, \<open>unconfirmed\<close>, \<open>note\<close>, \<open>info\<close>), with the key set and key sources of
  \<open>verify/keys.go\<close>, which a run holds. Every operation of a run only adds: \<open>grows\<close> is that order, and
  the later theories show that every check stays inside it.
\<close>

subsection \<open>Results\<close>

datatype result_name = ResultContent | ResultIdentity | ResultTimestamps | ResultScope | ResultRedactions

datatype result_state = StatePass | StateNotChecked | StateUnconfirmed | StateFail

fun result_text :: "result_name \<Rightarrow> bytes" where
  "result_text ResultContent = lit ''content_integrity''"
| "result_text ResultIdentity = lit ''signing_identity''"
| "result_text ResultTimestamps = lit ''timestamps''"
| "result_text ResultScope = lit ''scope''"
| "result_text ResultRedactions = lit ''redactions''"

fun state_text :: "result_state \<Rightarrow> bytes" where
  "state_text StatePass = lit ''pass''"
| "state_text StateNotChecked = lit ''not_checked''"
| "state_text StateUnconfirmed = lit ''unconfirmed''"
| "state_text StateFail = lit ''fail''"

definition resultOrder :: "result_name list" where
  "resultOrder = [ResultContent, ResultIdentity, ResultTimestamps, ResultScope, ResultRedactions]"

definition ExitPass :: nat where "ExitPass = 0"
definition ExitFail :: nat where "ExitFail = 1"
definition ExitError :: nat where "ExitError = 2"
definition ExitUnconfirmed :: nat where "ExitUnconfirmed = 3"

fun state_rank :: "result_state \<Rightarrow> nat" where
  "state_rank StatePass = 0" | "state_rank StateNotChecked = 1"
| "state_rank StateUnconfirmed = 2" | "state_rank StateFail = 3"

text \<open>The states in the order of their rank.\<close>

instantiation result_state :: linorder
begin

definition less_eq_result_state :: "result_state \<Rightarrow> result_state \<Rightarrow> bool" where
  "less_eq_result_state s t \<longleftrightarrow> state_rank s \<le> state_rank t"

definition less_result_state :: "result_state \<Rightarrow> result_state \<Rightarrow> bool" where
  "less_result_state s t \<longleftrightarrow> state_rank s < state_rank t"

instance
proof
  fix s t :: result_state
  show "s \<le> t \<Longrightarrow> t \<le> s \<Longrightarrow> s = t"
    by (cases s; cases t) (simp_all add: less_eq_result_state_def)
qed (auto simp: less_eq_result_state_def less_result_state_def)

end

type_synonym results = "result_name \<Rightarrow> result_state"

definition newResults :: results where
  "newResults = (\<lambda>_. StatePass)"

definition demote :: "result_name \<Rightarrow> result_state \<Rightarrow> results \<Rightarrow> results" where
  "demote name s rs = (if state_rank s > state_rank (rs name) then rs(name := s) else rs)"

definition exitCode :: "results \<Rightarrow> nat" where
  "exitCode rs =
     (if list_ex (\<lambda>k. rs k = StateFail) resultOrder then ExitFail
      else if list_ex (\<lambda>k. rs k = StateUnconfirmed) resultOrder then ExitUnconfirmed
      else ExitPass)"

definition VerdictWord :: "nat \<Rightarrow> bytes" where
  "VerdictWord code =
     (if code = ExitPass then lit ''PASS'' else if code = ExitFail then lit ''FAIL''
      else if code = ExitUnconfirmed then lit ''UNCONFIRMED'' else lit ''ERROR'')"

text \<open>Demoting is joining in the order of the states, so the order of the checks does not matter.\<close>

lemma demote_max: "demote name s rs = rs(name := max (rs name) s)"
  by (auto simp: demote_def max_def less_eq_result_state_def fun_eq_iff intro: order.antisym)

lemma demote_commute: "demote n s (demote m t rs) = demote m t (demote n s rs)"
  by (auto simp: demote_max fun_eq_iff ac_simps)

lemma demote_idem: "demote n s (demote n s rs) = demote n s rs"
  by (simp add: demote_max)

lemma exitCode_cases:
  "exitCode rs = ExitPass \<longleftrightarrow> (\<forall>k. rs k \<in> {StatePass, StateNotChecked})"
  "exitCode rs = ExitFail \<longleftrightarrow> (\<exists>k. rs k = StateFail)"
  "exitCode rs \<in> {ExitPass, ExitFail, ExitUnconfirmed}"
proof -
  have ex: "list_ex P resultOrder \<longleftrightarrow> (\<exists>k. P k)" for P
    unfolding resultOrder_def by (auto intro: exI) (metis result_name.exhaust)
  have "s \<in> {StatePass, StateNotChecked} \<longleftrightarrow> s \<noteq> StateFail \<and> s \<noteq> StateUnconfirmed" for s
    by (cases s) auto
  then show "exitCode rs = ExitPass \<longleftrightarrow> (\<forall>k. rs k \<in> {StatePass, StateNotChecked})"
    "exitCode rs = ExitFail \<longleftrightarrow> (\<exists>k. rs k = StateFail)"
    "exitCode rs \<in> {ExitPass, ExitFail, ExitUnconfirmed}"
    by (auto simp: exitCode_def ex ExitPass_def ExitFail_def ExitUnconfirmed_def)
qed

subsection \<open>Key sets and key sources\<close>

record trusted_key =
  publicKey :: bytes
  createdAt :: "bytes option"
  retiredAt :: "bytes option"

record receipt_key =
  rk_publicKey :: bytes
  rk_createdAt :: vopt
  rk_retiredAt :: vopt

record key_sources =
  ks_order :: "bytes list"
  ks_sources :: "bytes \<rightharpoonup> bytes"

definition ks_empty :: key_sources where
  "ks_empty = \<lparr>ks_order = [], ks_sources = Map.empty\<rparr>"

definition ks_set :: "bytes \<Rightarrow> bytes \<Rightarrow> key_sources \<Rightarrow> key_sources" where
  "ks_set fingerprint source k =
     k\<lparr>ks_order := (if ks_sources k fingerprint = None then ks_order k @ [fingerprint] else ks_order k),
       ks_sources := (ks_sources k)(fingerprint \<mapsto> source)\<rparr>"

definition ks_list :: "key_sources \<Rightarrow> (bytes \<times> bytes) list" where
  "ks_list k = map (\<lambda>f. (f, case ks_sources k f of Some s \<Rightarrow> s | None \<Rightarrow> [])) (ks_order k)"

subsection \<open>Runs\<close>

datatype log_kind = Log_fail | Log_unconfirmed | Log_note | Log_info | Log_hard

record run =
  trusted :: "trusted_key list"
  trustedSetSource :: bytes
  tsaRoots :: bytes
  tsaRootsSource :: bytes
  receiptKeys :: "bytes \<rightharpoonup> receipt_key"
  receiptKeysSource :: bytes
  reason :: "bytes option"
  unconfirmedReason :: "bytes option"
  results :: results
  failures :: "bytes list"
  run_notes :: "bytes list"
  log :: "(log_kind \<times> bytes) list"
  keys_used :: key_sources

definition report :: "bytes \<Rightarrow> result_name option \<Rightarrow> run \<Rightarrow> run" where
  "report message result r =
     (let res = (case result of None \<Rightarrow> ResultContent | Some x \<Rightarrow> x)
      in r\<lparr>failures := failures r @ [message], results := demote res StateFail (results r),
           log := log r @ [(Log_fail, message)]\<rparr>)"

definition unconfirmed :: "bytes \<Rightarrow> result_name \<Rightarrow> run \<Rightarrow> run" where
  "unconfirmed message result r =
     r\<lparr>run_notes := run_notes r @ [message], results := demote result StateUnconfirmed (results r),
       log := log r @ [(Log_unconfirmed, message)]\<rparr>"

definition note_msg :: "bytes \<Rightarrow> run \<Rightarrow> run" where
  "note_msg message r = r\<lparr>run_notes := run_notes r @ [message], log := log r @ [(Log_note, message)]\<rparr>"

definition info :: "bytes \<Rightarrow> run \<Rightarrow> run" where
  "info message r = r\<lparr>log := log r @ [(Log_info, message)]\<rparr>"

definition demote_run :: "result_name \<Rightarrow> result_state \<Rightarrow> run \<Rightarrow> run" where
  "demote_run name s r = r\<lparr>results := demote name s (results r)\<rparr>"

definition use_key :: "bytes \<Rightarrow> bytes \<Rightarrow> run \<Rightarrow> run" where
  "use_key fingerprint source r = r\<lparr>keys_used := ks_set fingerprint source (keys_used r)\<rparr>"

text \<open>A failure against content integrity, and one under a condition.\<close>

abbreviation content :: "bytes \<Rightarrow> run \<Rightarrow> run" where
  "content message \<equiv> report message (Some ResultContent)"

definition whenever :: "bool \<Rightarrow> ('a \<Rightarrow> 'a) \<Rightarrow> 'a \<Rightarrow> 'a" where
  "whenever b f x = (if b then f x else x)"

text \<open>Checks made one after the other.\<close>

definition steps :: "('a \<Rightarrow> 'a) list \<Rightarrow> 'a \<Rightarrow> 'a" where
  "steps fs x = fold (\<lambda>f. f) fs x"

lemma steps_simps [simp]: "steps [] x = x" "steps (f # fs) x = steps fs (f x)"
  by (simp_all add: steps_def)

subsection \<open>Growth\<close>

text \<open>
  \<open>grows r r'\<close>: \<open>r'\<close> has everything \<open>r\<close> has recorded, in place, no result is better, a failure leaves a
  failed result, and the trusted sets are the same.
\<close>

definition grows :: "run \<Rightarrow> run \<Rightarrow> bool" where
  "grows r r' \<longleftrightarrow>
     (\<forall>k. results r k \<le> results r' k) \<and> prefix (failures r) (failures r') \<and> prefix (run_notes r) (run_notes r') \<and>
     prefix (log r) (log r') \<and>
     trusted r' = trusted r \<and> trustedSetSource r' = trustedSetSource r \<and> tsaRoots r' = tsaRoots r \<and>
     receiptKeys r' = receiptKeys r \<and>
     (failures r' \<noteq> failures r \<longrightarrow> (\<exists>k. results r' k = StateFail))"

named_theorems grow \<open>the operations that only add to a run\<close>

lemma StateFail_top [simp]: "StateFail \<le> s \<longleftrightarrow> s = StateFail" "s \<le> StateFail"
  by (cases s; simp add: less_eq_result_state_def)+

lemma grows_refl [grow, intro, simp]: "grows r r"
  by (simp add: grows_def)

lemma grows_trans: "grows r r' \<Longrightarrow> grows r' r'' \<Longrightarrow> grows r r''"
proof -
  assume a: "grows r r'" "grows r' r''"
  have "\<exists>k. results r'' k = StateFail" if "failures r'' \<noteq> failures r"
  proof (cases "failures r'' = failures r'")
    case True
    with that a(1) obtain k where "results r' k = StateFail" by (auto simp: grows_def)
    moreover have "results r' k \<le> results r'' k" using a(2) by (simp add: grows_def)
    ultimately show ?thesis by auto
  qed (use a(2) in \<open>auto simp: grows_def\<close>)
  with a show ?thesis by (auto simp: grows_def intro: order.trans prefix_order.trans)
qed

lemma grows_report [simp]: "grows r (report m k r)"
  by (auto simp: grows_def report_def demote_max Let_def)

lemma grows_unconfirmed [simp]: "grows r (unconfirmed m k r)"
  by (auto simp: grows_def unconfirmed_def demote_max)

lemma grows_note [simp]: "grows r (note_msg m r)"
  by (auto simp: grows_def note_msg_def)

lemma grows_info [simp]: "grows r (info m r)"
  by (auto simp: grows_def info_def)

lemma grows_demote [simp]: "grows r (demote_run k s r)"
  by (auto simp: grows_def demote_run_def demote_max)

lemma grows_use_key [simp]: "grows r (use_key f s r)"
  by (auto simp: grows_def use_key_def)

text \<open>The rules that take a composition apart, the last operation first.\<close>

lemmas grows_last [grow] =
  grows_trans [OF _ grows_report] grows_trans [OF _ grows_unconfirmed] grows_trans [OF _ grows_note]
  grows_trans [OF _ grows_info] grows_trans [OF _ grows_demote] grows_trans [OF _ grows_use_key]

lemma grows_whenever [grow]: "grows r x \<Longrightarrow> (\<And>s. grows s (f s)) \<Longrightarrow> grows r (whenever b f x)"
  by (auto simp: whenever_def intro: grows_trans)

lemma grows_fold [grow]: "grows r x \<Longrightarrow> (\<And>y s. grows s (f y s)) \<Longrightarrow> grows r (fold f xs x)"
  by (induction xs arbitrary: x) (simp, simp, meson grows_trans)

lemma grows_steps [grow]: "grows r x \<Longrightarrow> list_all (\<lambda>f. \<forall>s. grows s (f s)) fs \<Longrightarrow> grows r (steps fs x)"
  by (induction fs arbitrary: x) (simp, simp, meson grows_trans)

lemma grows_if [grow]: "(b \<Longrightarrow> grows r x) \<Longrightarrow> (\<not> b \<Longrightarrow> grows r y) \<Longrightarrow> grows r (if b then x else y)"
  by simp

text \<open>A result that has not failed has not failed before, and no failure was reported against it.\<close>

definition sound_for :: "result_name \<Rightarrow> run \<Rightarrow> bool" where
  "sound_for k r \<longleftrightarrow> results r k \<noteq> StateFail"

named_theorems sound \<open>what a result that did not fail says of the steps before\<close>

lemma sound_grows:
  assumes "grows r r'" "sound_for k r'"
  shows "sound_for k r"
proof -
  have "results r k \<le> results r' k" using assms(1) by (simp add: grows_def)
  with assms(2) show ?thesis by (auto simp: sound_for_def)
qed

lemma sound_report [sound, simp]:
  "sound_for k (report m res r) \<longleftrightarrow>
     sound_for k r \<and> k \<noteq> (case res of None \<Rightarrow> ResultContent | Some x \<Rightarrow> x)"
  by (auto simp: sound_for_def report_def Let_def demote_max max_def split: option.splits if_splits)

lemma sound_others [sound, simp]:
  "sound_for k (note_msg m r) = sound_for k r" "sound_for k (info m r) = sound_for k r"
  "sound_for k (use_key f s r) = sound_for k r" "sound_for k (unconfirmed m j r) = sound_for k r"
  by (auto simp: sound_for_def note_msg_def info_def use_key_def unconfirmed_def demote_max max_def
      less_eq_result_state_def)

lemma sound_whenever [sound, simp]:
  "sound_for k (whenever b f r) = (if b then sound_for k (f r) else sound_for k r)"
  by (simp add: whenever_def)

end
