(* ===== verification/Action.thy ===== *)
theory Action
  imports Report_Run
begin

text \<open>
  How the checks of \<open>verify\<close> compose. A check that can stop the run (\<open>hardError\<close>) is an \<open>action\<close>: a function of the run
  to the run it leaves and either the hard error or a value; \<open>None\<close> says it does not return.
\<close>

subsection \<open>Actions\<close>

type_synonym 'a action = "run \<Rightarrow> ((hard_error + 'a) \<times> run) option"

definition return :: "'a \<Rightarrow> 'a action" where
  "return x r = Some (Inr x, r)"

definition stop :: "hard_error \<Rightarrow> 'a action" where
  "stop e r = Some (Inl e, r)"

definition lift :: "hard_error + 'a \<Rightarrow> 'a action" where
  "lift v r = Some (v, r)"

definition perform :: "(run \<Rightarrow> run) \<Rightarrow> unit action" where
  "perform f r = Some (Inr (), f r)"

text \<open>An action that also yields a value of the walk.\<close>

definition compute :: "(run \<Rightarrow> 'a \<times> run) \<Rightarrow> 'a action" where
  "compute f r = (case f r of (x, r') \<Rightarrow> Some (Inr x, r'))"

definition andthen :: "'a action \<Rightarrow> ('a \<Rightarrow> 'b action) \<Rightarrow> 'b action" where
  "andthen m f r = (case m r of
     None \<Rightarrow> None
   | Some (Inl e, r') \<Rightarrow> Some (Inl e, r')
   | Some (Inr x, r') \<Rightarrow> f x r')"

definition require :: "bool \<Rightarrow> bytes \<Rightarrow> nat \<Rightarrow> unit action" where
  "require b message code = (if b then return () else stop (hard message code))"

text \<open>An action only adds to the run.\<close>

definition growing :: "'a action \<Rightarrow> bool" where
  "growing m \<longleftrightarrow> (\<forall>r x r'. m r = Some (x, r') \<longrightarrow> grows r r')"

lemma growingI: "(\<And>r x r'. m r = Some (x, r') \<Longrightarrow> grows r r') \<Longrightarrow> growing m"
  by (simp add: growing_def)

lemma growingD: "growing m \<Longrightarrow> m r = Some (x, r') \<Longrightarrow> grows r r'"
  by (simp add: growing_def)

lemma growing_basic [grow, simp]: "growing (return x)" "growing (stop e)" "growing (lift v)" "growing (require b m c)"
  by (auto simp: growing_def return_def stop_def lift_def require_def)

lemma growing_perform [grow]: "(\<And>r. grows r (f r)) \<Longrightarrow> growing (perform f)"
  by (auto simp: growing_def perform_def)

lemma growing_compute [grow]: "(\<And>r. grows r (snd (f r))) \<Longrightarrow> growing (compute f)"
  by (auto simp: growing_def compute_def split: prod.splits) (metis snd_conv)

lemma growing_andthen [grow]: "growing m \<Longrightarrow> (\<And>x. growing (f x)) \<Longrightarrow> growing (andthen m f)"
  unfolding growing_def andthen_def
  by (auto split: option.splits sum.splits) (meson grows_trans)

lemma growing_if [grow]: "growing m \<Longrightarrow> growing n \<Longrightarrow> growing (if b then m else n)"
  by simp

text \<open>What a composition that ended in a value went through.\<close>

lemma andthen_Inr:
  "andthen m f r = Some (Inr y, r'') \<longleftrightarrow> (\<exists>x r'. m r = Some (Inr x, r') \<and> f x r' = Some (Inr y, r''))"
  by (auto simp: andthen_def split: option.splits sum.splits)

lemma action_Inr:
  "return x r = Some (Inr y, r') \<longleftrightarrow> y = x \<and> r' = r"
  "stop e r = Some (Inr y, r') \<longleftrightarrow> False"
  "lift v r = Some (Inr y, r') \<longleftrightarrow> v = Inr y \<and> r' = r"
  "perform f r = Some (Inr u, r') \<longleftrightarrow> r' = f r"
  "compute g r = Some (Inr y, r') \<longleftrightarrow> g r = (y, r')"
  "require b m c r = Some (Inr u, r') \<longleftrightarrow> b \<and> r' = r"
  by (auto simp: return_def stop_def lift_def perform_def compute_def require_def split: prod.splits)

subsection \<open>Reading lines\<close>

text \<open>A loop over the non-blank lines of a file, and the error that ends it.\<close>

function for_lines :: "(int \<Rightarrow> bytes \<Rightarrow> 's \<Rightarrow> 's) \<Rightarrow> lines \<Rightarrow> 's \<Rightarrow> 's \<times> lines" where
  "for_lines body l s =
     (case Lines_Next l of
        (False, l') \<Rightarrow> (s, l')
      | (True, l') \<Rightarrow>
          for_lines body l' (if IsBlank (l_line l') then s else body (l_number l') (l_line l') s))"
  by pat_completeness auto
termination
  by (relation "measure (\<lambda>(body, l, s). lines_left l)") (auto intro: Lines_Next_left [OF sym])

declare for_lines.simps [simp del]

definition lines_problem :: "bytes \<Rightarrow> lines \<Rightarrow> unit action" where
  "lines_problem name l =
     (case l_err l of
        None \<Rightarrow> return ()
      | Some ErrLineTooLong \<Rightarrow>
          stop (hard (name @ lit '' line '' @ int_text (l_number l + 2) @ lit '' is longer than the '' @
            nat_digits MaxLineBytes @ lit '' bytes this verifier accepts; nothing was verified'') ExitError))"

fun numbered :: "int \<Rightarrow> 'a list \<Rightarrow> (int \<times> 'a) list" where
  "numbered n [] = []"
| "numbered n (x # xs) = (n, x) # numbered (n + 1) xs"

text \<open>The loop is a fold over the non-blank lines with their numbers.\<close>

lemma for_lines_fold:
  "for_lines body l s =
     (fold (\<lambda>(n, x). body n x) (filter (\<lambda>(n, x). \<not> IsBlank x) (numbered (l_number l + 1) (fst (all_lines l)))) s,
      snd (all_lines l))"
proof (induction body l s rule: for_lines.induct)
  case (1 body l s)
  obtain b l' where n: "Lines_Next l = (b, l')" by (cases "Lines_Next l") auto
  show ?case
  proof (cases b)
    case True
    then have "\<not> l_done l" using n by (auto simp: Lines_Next_def)
    with Lines_Next_spec [of l] n True have "l_number l' = l_number l + 1"
      by (auto split: list.splits if_splits)
    moreover have "all_lines l = (l_line l' # fst (all_lines l'), snd (all_lines l'))"
      using n True by (subst all_lines.simps) (simp split: prod.splits)
    moreover note 1 [OF n [symmetric]]
    ultimately show ?thesis using n True by (subst for_lines.simps) simp
  next
    case False
    then have "all_lines l = ([], l')" using n by (subst all_lines.simps) simp
    then show ?thesis using n False by (subst for_lines.simps) simp
  qed
qed

end
