(* ===== verification/Cjson_Parse.thy ===== *)
theory Cjson_Parse
  imports Cjson_Value Utf8
begin

text \<open>
  \<open>internal/cjson/parse.go\<close>: the strict JSON reader. The cursor \<open>p.pos\<close> is the list of bytes left
  to read, so a position is the length of the document less the length of what is left; \<open>p.depth\<close>
  is an argument, since every container that is left restores it. A failure carries the code, the
  message and the number of bytes left, from which \<open>parse\<close> computes the offset.
\<close>

datatype pcode = Syntax | Utf8_err | Utf16_err | Ctrl_char | Depth_err | Property_name

datatype pmsg =
    Empty_document | Unexpected_end | Ctrl_outside | Unexpected_char nat | Malformed_utf8
  | Invalid_literal | Malformed_number | Ctrl_inside | Malformed_utf8_inside | Unterminated_string
  | Unterminated_escape | Malformed_u_escape | Unpaired_surrogate | Invalid_escape
  | Max_depth_exceeded | Key_begins_with_NUL

record parse_error =
  Code :: pcode
  Offset :: nat
  Msg :: pmsg

type_synonym 'a pres = "(pcode \<times> pmsg \<times> nat) + 'a \<times> bytes"

definition maxDepth :: nat where
  "maxDepth = 512"

definition fail :: "pcode \<Rightarrow> pmsg \<Rightarrow> bytes \<Rightarrow> 'a pres" where
  "fail code msg rest = Inl (code, msg, length rest)"

definition is_space :: "byte \<Rightarrow> bool" where
  "is_space b \<longleftrightarrow> b = 32 \<or> b = 9 \<or> b = 10 \<or> b = 13"

definition skipSpace :: "bytes \<Rightarrow> bytes" where
  "skipSpace rest = dropWhile is_space rest"

definition unexpected :: "bytes \<Rightarrow> 'a pres" where
  "unexpected rest = (case rest of
     [] \<Rightarrow> fail Syntax Unexpected_end rest
   | b # _ \<Rightarrow>
       if unat b < 0x20 then fail Ctrl_char Ctrl_outside rest
       else if unat b < 0x80 then fail Syntax (Unexpected_char (unat b)) rest
       else if malformed (DecodeRune rest) then fail Utf8_err Malformed_utf8 rest
       else fail Syntax (Unexpected_char (fst (DecodeRune rest))) rest)"

definition starts :: "byte \<Rightarrow> bytes \<Rightarrow> bool" where
  "starts b rest \<longleftrightarrow> (case rest of [] \<Rightarrow> False | c # _ \<Rightarrow> c = b)"

definition starts_digit :: "bytes \<Rightarrow> bool" where
  "starts_digit rest \<longleftrightarrow> (case rest of [] \<Rightarrow> False | c # _ \<Rightarrow> is_digit c)"

definition literal :: "bytes \<Rightarrow> json \<Rightarrow> bytes \<Rightarrow> json pres" where
  "literal word v rest =
     (if length rest < length word \<or> take (length word) rest \<noteq> word then fail Syntax Invalid_literal rest
      else Inr (v, drop (length word) rest))"

subsection \<open>Numbers\<close>

text \<open>Go compares strings bytewise.\<close>

fun bytes_less :: "bytes \<Rightarrow> bytes \<Rightarrow> bool" where
  "bytes_less _ [] \<longleftrightarrow> False"
| "bytes_less [] (y # ys) \<longleftrightarrow> True"
| "bytes_less (x # xs) (y # ys) \<longleftrightarrow> unat x < unat y \<or> x = y \<and> bytes_less xs ys"

definition minDigits :: bytes where
  "minDigits = lit ''9223372036854775808''"

definition fitsInt64 :: "bytes \<Rightarrow> bool \<Rightarrow> nat \<Rightarrow> bool" where
  "fitsInt64 literal' negative length' =
     (let digits = (if negative then length' - 1 else length')
      in if digits < length minDigits then True
         else if digits > length minDigits then False
         else let body = (if negative then drop 1 literal' else literal')
           in if bytes_less body minDigits then True
              else body = minDigits \<and> negative)"

definition ParseInt :: "bytes \<Rightarrow> int option" where
  "ParseInt s =
     (let (neg, ds) = strip_sign s; v = (if neg then - int (digits_val ds) else int (digits_val ds))
      in if int64_ok v then Some v else None)"

definition floatValue :: "bytes \<Rightarrow> json" where
  "floatValue literal' = JFloat (ParseFloat literal')"

definition number_end :: "bytes \<Rightarrow> bool \<Rightarrow> nat \<Rightarrow> bool \<Rightarrow> bytes \<Rightarrow> json pres" where
  "number_end start negative intLen isFloat rest =
     (let literal' = take (length start - length rest) start
      in if \<not> isFloat \<and> fitsInt64 literal' negative intLen
         then (case ParseInt literal' of
             None \<Rightarrow> Inr (floatValue literal', rest)
           | Some n \<Rightarrow> Inr (JInt n, rest))
         else Inr (floatValue literal', rest))"

definition number_exp :: "bytes \<Rightarrow> bool \<Rightarrow> nat \<Rightarrow> bool \<Rightarrow> bytes \<Rightarrow> json pres" where
  "number_exp start negative intLen isFloat rest =
     (if starts 101 rest \<or> starts 69 rest
      then let r1 = tl rest; r2 = (if starts 43 r1 \<or> starts 45 r1 then tl r1 else r1)
        in if \<not> starts_digit r2 then fail Syntax Malformed_number r2
           else number_end start negative intLen True (dropWhile is_digit r2)
      else number_end start negative intLen isFloat rest)"

definition number :: "bytes \<Rightarrow> json pres" where
  "number start =
     (let negative = starts 45 start; r1 = (if negative then tl start else start)
      in if \<not> starts_digit r1 then fail Syntax Malformed_number r1
         else let r2 = (if starts 48 r1 then tl r1 else dropWhile is_digit r1);
                  intLen = length start - length r2
           in if starts 46 r2
              then if \<not> starts_digit (tl r2) then fail Syntax Malformed_number (tl r2)
                   else number_exp start negative intLen True (dropWhile is_digit (tl r2))
              else number_exp start negative intLen False r2)"

subsection \<open>Strings\<close>

definition hex_digit :: "byte \<Rightarrow> nat option" where
  "hex_digit c =
     (if 48 \<le> unat c \<and> unat c \<le> 57 then Some (unat c - 48)
      else if 97 \<le> unat c \<and> unat c \<le> 102 then Some (unat c - 97 + 10)
      else if 65 \<le> unat c \<and> unat c \<le> 70 then Some (unat c - 65 + 10)
      else None)"

definition hex4 :: "bytes \<Rightarrow> (nat \<times> bytes) option" where
  "hex4 rest = (case rest of
     a # b # c # d # r \<Rightarrow>
       (case (hex_digit a, hex_digit b, hex_digit c, hex_digit d) of
          (Some w, Some x, Some y, Some z) \<Rightarrow> Some (((w * 16 + x) * 16 + y) * 16 + z, r)
        | _ \<Rightarrow> None)
   | _ \<Rightarrow> None)"

definition escape_u :: "bytes \<Rightarrow> bytes \<Rightarrow> bytes pres" where
  "escape_u buf rest = (case hex4 rest of
     None \<Rightarrow> fail Syntax Malformed_u_escape rest
   | Some (unit, r) \<Rightarrow>
       if 0xD800 \<le> unit \<and> unit \<le> 0xDBFF
       then if length r \<ge> 6 \<and> starts 92 r \<and> starts 117 (tl r)
            then (case hex4 (drop 2 r) of
                Some (low, r') \<Rightarrow>
                  if 0xDC00 \<le> low \<and> low \<le> 0xDFFF
                  then Inr (AppendRune buf (0x10000 + (unit - 0xD800) * 1024 + (low - 0xDC00)), r')
                  else fail Utf16_err Unpaired_surrogate r
              | None \<Rightarrow> fail Utf16_err Unpaired_surrogate r)
            else fail Utf16_err Unpaired_surrogate r
       else if 0xDC00 \<le> unit \<and> unit \<le> 0xDFFF then fail Utf16_err Unpaired_surrogate r
       else Inr (AppendRune buf unit, r))"

text \<open>The argument of \<open>escape\<close> is what follows the backslash.\<close>

definition escape :: "bytes \<Rightarrow> bytes \<Rightarrow> bytes pres" where
  "escape buf rest = (case rest of
     [] \<Rightarrow> fail Syntax Unterminated_escape rest
   | c # r \<Rightarrow>
       if c = 34 \<or> c = 92 \<or> c = 47 then Inr (buf @ [c], r)
       else if c = 98 then Inr (buf @ [8], r)
       else if c = 102 then Inr (buf @ [12], r)
       else if c = 110 then Inr (buf @ [10], r)
       else if c = 114 then Inr (buf @ [13], r)
       else if c = 116 then Inr (buf @ [9], r)
       else if c = 117 then escape_u buf r
       else fail Syntax Invalid_escape rest)"

lemma hex4_less: "hex4 rest = Some (u, r) \<Longrightarrow> length r < length rest"
  by (auto simp: hex4_def split: list.splits option.splits)

lemma escape_u_less: "escape_u buf rest = Inr (buf', r) \<Longrightarrow> length r < length rest"
  by (fastforce simp: escape_u_def fail_def split: option.splits if_splits dest!: hex4_less)

lemma escape_less: "escape buf rest = Inr (buf', r) \<Longrightarrow> length r < length rest"
  by (auto simp: escape_def fail_def split: list.splits if_splits dest: escape_u_less)

lemma DecodeRune_drop_Cons: "length (drop (snd (DecodeRune (x # xs))) (x # xs)) < Suc (length xs)"
  using DecodeRune_drop_less [of "x # xs"] by simp

text \<open>The slow path appends to a buffer; the fast path only remembers the run it has passed.\<close>

function strSlow :: "bytes \<Rightarrow> bytes \<Rightarrow> bytes pres" where
  "strSlow buf rest = (case rest of
     [] \<Rightarrow> fail Ctrl_char Unterminated_string rest
   | b # r \<Rightarrow>
       if b = 34 then Inr (buf, r)
       else if b = 92 then (case escape buf r of Inl e \<Rightarrow> Inl e | Inr (buf', r') \<Rightarrow> strSlow buf' r')
       else if unat b < 0x20 then fail Ctrl_char Ctrl_inside rest
       else if unat b < 0x80 then strSlow (buf @ [b]) r
       else if malformed (DecodeRune rest) then fail Utf8_err Malformed_utf8_inside rest
       else strSlow (buf @ take (snd (DecodeRune rest)) rest) (drop (snd (DecodeRune rest)) rest))"
  by pat_completeness auto
termination
  by (relation "measure (\<lambda>(buf, rest). length rest)")
    (use DecodeRune_drop_Cons in \<open>auto simp del: length_drop dest: escape_less\<close>)

function strFast :: "bytes \<Rightarrow> bytes \<Rightarrow> bytes pres" where
  "strFast run rest = (case rest of
     [] \<Rightarrow> fail Ctrl_char Unterminated_string rest
   | b # r \<Rightarrow>
       if b = 34 then Inr (run, r)
       else if b = 92 then strSlow run rest
       else if unat b < 0x20 then fail Ctrl_char Ctrl_inside rest
       else if unat b < 0x80 then strFast (run @ [b]) r
       else if malformed (DecodeRune rest) then fail Utf8_err Malformed_utf8_inside rest
       else strFast (run @ take (snd (DecodeRune rest)) rest) (drop (snd (DecodeRune rest)) rest))"
  by pat_completeness auto
termination
  by (relation "measure (\<lambda>(run, rest). length rest)")
    (use DecodeRune_drop_Cons in \<open>auto simp del: length_drop\<close>)

declare strSlow.simps [simp del] strFast.simps [simp del]

definition str :: "bytes \<Rightarrow> bytes pres" where
  "str rest = strFast [] (tl rest)"

lemma strSlow_Nil: "strSlow buf [] = fail Ctrl_char Unterminated_string []"
  by (subst strSlow.simps) simp

lemma strSlow_Cons:
  "strSlow buf (b # r) =
     (if b = 34 then Inr (buf, r)
      else if b = 92 then (case escape buf r of Inl e \<Rightarrow> Inl e | Inr (buf', r') \<Rightarrow> strSlow buf' r')
      else if unat b < 0x20 then fail Ctrl_char Ctrl_inside (b # r)
      else if unat b < 0x80 then strSlow (buf @ [b]) r
      else if malformed (DecodeRune (b # r)) then fail Utf8_err Malformed_utf8_inside (b # r)
      else strSlow (buf @ take (snd (DecodeRune (b # r))) (b # r)) (drop (snd (DecodeRune (b # r))) (b # r)))"
  by (subst strSlow.simps) simp

lemma strFast_strSlow: "strFast run rest = strSlow run rest"
proof (induction run rest rule: strFast.induct)
  case (1 run rest)
  then show ?case
    by (subst strFast.simps) (auto simp: strSlow_Nil strSlow_Cons split: list.splits)
qed

lemma strSlow_less: "strSlow buf rest = Inr (s, r) \<Longrightarrow> length r < length rest"
proof (induction buf rest rule: strSlow.induct)
  case (1 buf rest)
  show ?case
  proof (cases rest)
    case Nil
    with 1(4) show ?thesis by (simp add: strSlow_Nil fail_def)
  next
    case (Cons b t)
    note step = 1(4) [unfolded Cons strSlow_Cons]
    consider "b = 34" | "b = 92" | "b \<noteq> 34" "b \<noteq> 92" "unat b < 0x20"
      | "b \<noteq> 34" "b \<noteq> 92" "\<not> unat b < 0x20" "unat b < 0x80"
      | "b \<noteq> 34" "b \<noteq> 92" "\<not> unat b < 0x20" "\<not> unat b < 0x80" by blast
    then show ?thesis
    proof cases
      case 2
      then obtain buf' r' where e: "escape buf t = Inr (buf', r')" "strSlow buf' r' = Inr (s, r)"
        using step by (auto split: sum.splits)
      with 1(1) [OF Cons _ 2 e(1) refl] 2 escape_less [OF e(1)] Cons show ?thesis by simp
    next
      case 4
      with 1(2) [OF Cons] step Cons show ?thesis by simp
    next
      case 5
      then have nm: "\<not> malformed (DecodeRune rest)" using step Cons by (auto simp: fail_def split: if_splits)
      with 5 step Cons have "strSlow (buf @ take (snd (DecodeRune rest)) rest) (drop (snd (DecodeRune rest)) rest) = Inr (s, r)"
        by simp
      with 5 nm 1(3) [OF Cons] have "length r < length (drop (snd (DecodeRune rest)) rest)" by blast
      with DecodeRune_drop_less [of rest] Cons show ?thesis by simp
    qed (use step Cons in \<open>auto simp: fail_def split: if_splits\<close>)
  qed
qed

lemma str_less: "rest \<noteq> [] \<Longrightarrow> str rest = Inr (s, r) \<Longrightarrow> length r < length rest"
  using strSlow_less [of "[]" "tl rest" s r] by (cases rest) (auto simp: str_def strFast_strSlow)

lemma skipSpace_le: "length (skipSpace r) \<le> length r"
  by (simp add: skipSpace_def length_dropWhile_le)

subsection \<open>Values\<close>

text \<open>
  The loops of \<open>object\<close> and \<open>array\<close> are \<open>object_loop\<close> and \<open>array_loop\<close>. Each carries a test that
  the value just read used up input; it is never false (\<open>progress\<close> below) and is there because
  termination has to be shown before anything is known of a value's result.
\<close>

lemma tl_skip_less: "starts b r \<Longrightarrow> length (skipSpace (tl r)) < length r"
  using skipSpace_le [of "tl r"] by (cases r) (auto simp: starts_def)

lemma tl_skip_less2: "starts b (skipSpace r) \<Longrightarrow> length (skipSpace (tl (skipSpace r))) < length r"
  using tl_skip_less [of b "skipSpace r"] skipSpace_le [of r] by simp

lemma str_less': "starts 34 rest \<Longrightarrow> str rest = Inr (s, r) \<Longrightarrow> length r < length rest"
  by (rule str_less) (auto simp: starts_def)

definition enter_ok :: "nat \<Rightarrow> bool" where
  "enter_ok d \<longleftrightarrow> d + 1 < maxDepth"

function value_at :: "bool \<Rightarrow> nat \<Rightarrow> bytes \<Rightarrow> json pres"
  and object_loop :: "bool \<Rightarrow> nat \<Rightarrow> (bytes \<times> json) list \<Rightarrow> bytes \<Rightarrow> json pres"
  and array_loop :: "bool \<Rightarrow> nat \<Rightarrow> json list \<Rightarrow> bytes \<Rightarrow> json pres" where
  "value_at assoc d rest = (case rest of
     [] \<Rightarrow> unexpected rest
   | b # bs \<Rightarrow>
       if b = 123 then
         (if \<not> enter_ok d then fail Depth_err Max_depth_exceeded rest
          else if starts 125 (skipSpace bs) then Inr (JObject [], tl (skipSpace bs))
          else object_loop assoc (d + 1) [] (skipSpace bs))
       else if b = 91 then
         (if \<not> enter_ok d then fail Depth_err Max_depth_exceeded rest
          else if starts 93 (skipSpace bs) then Inr (JArray [], tl (skipSpace bs))
          else array_loop assoc (d + 1) [] (skipSpace bs))
       else if b = 34 then
         (case str rest of Inl e \<Rightarrow> Inl e | Inr (s, r) \<Rightarrow> Inr (JString s, r))
       else if b = 116 then literal (lit ''true'') (JBool True) rest
       else if b = 102 then literal (lit ''false'') (JBool False) rest
       else if b = 110 then literal (lit ''null'') JNull rest
       else if b = 45 \<or> is_digit b then number rest
       else unexpected rest)"
| "object_loop assoc d ms rest =
     (if \<not> starts 34 rest then unexpected rest
      else case str rest of
        Inl e \<Rightarrow> Inl e
      | Inr (key, r1) \<Rightarrow>
          if \<not> starts 58 (skipSpace r1) then unexpected (skipSpace r1)
          else case value_at assoc d (skipSpace (tl (skipSpace r1))) of
            Inl e \<Rightarrow> Inl e
          | Inr (val, r2) \<Rightarrow>
              if \<not> assoc \<and> starts 0 key then fail Property_name Key_begins_with_NUL r2
              else if starts 44 (skipSpace r2)
              then (if length r2 < length rest
                    then object_loop assoc d (AList.update key val ms) (skipSpace (tl (skipSpace r2)))
                    else unexpected r2)
              else if starts 125 (skipSpace r2)
              then Inr (JObject (AList.update key val ms), tl (skipSpace r2))
              else unexpected (skipSpace r2))"
| "array_loop assoc d items rest =
     (case value_at assoc d rest of
        Inl e \<Rightarrow> Inl e
      | Inr (val, r1) \<Rightarrow>
          if starts 44 (skipSpace r1)
          then (if length r1 < length rest
                then array_loop assoc d (items @ [val]) (skipSpace (tl (skipSpace r1)))
                else unexpected r1)
          else if starts 93 (skipSpace r1) then Inr (JArray (items @ [val]), tl (skipSpace r1))
          else unexpected (skipSpace r1))"
  by pat_completeness auto
termination
proof (relation "measure (\<lambda>x. case x of Inl (assoc, d, rest) \<Rightarrow> 2 * length rest
     | Inr (Inl (assoc, d, ms, rest)) \<Rightarrow> 2 * length rest + 1
     | Inr (Inr (assoc, d, items, rest)) \<Rightarrow> 2 * length rest + 1)", goal_cases)
  case (2 assoc d rest b bs)
  then show ?case using skipSpace_le [of bs] by simp
next
  case (3 assoc d rest b bs)
  then show ?case using skipSpace_le [of bs] by simp
next
  case (4 assoc d ms rest p key r1)
  then have "length (skipSpace (tl (skipSpace r1))) < length r1" using tl_skip_less2 [of 58 r1] by simp
  moreover have "length r1 < length rest" using 4 str_less' [of rest key r1] by simp
  ultimately show ?case by simp
next
  case (5 assoc d ms rest p key r1 q val r2)
  then show ?case using tl_skip_less2 [of 44 r2] by simp
next
  case (7 assoc d items rest p val r1)
  then show ?case using tl_skip_less2 [of 44 r1] by simp
qed simp_all

declare value_at.simps [simp del] object_loop.simps [simp del] array_loop.simps [simp del]

definition parse :: "bytes \<Rightarrow> bool \<Rightarrow> parse_error + json" where
  "parse data assoc =
     (let err = (\<lambda>(code, msg, left). \<lparr>Code = code, Offset = length data - left, Msg = msg\<rparr>);
          start = skipSpace data
      in if start = [] then Inl \<lparr>Code = Syntax, Offset = length data, Msg = Empty_document\<rparr>
         else case value_at assoc 0 start of
           Inl e \<Rightarrow> Inl (err e)
         | Inr (v, r) \<Rightarrow>
             let rest = skipSpace r
             in if rest \<noteq> []
                then (case unexpected rest :: json pres of Inl e \<Rightarrow> Inl (err e) | Inr x \<Rightarrow> Inr (fst x))
                else Inr v)"

definition Parse :: "bytes \<Rightarrow> parse_error + json" where
  "Parse data = parse data False"

definition ParseAssoc :: "bytes \<Rightarrow> parse_error + json" where
  "ParseAssoc data = parse data True"

end
