(* ===== verification/Edsig.thy ===== *)
theory Edsig
  imports Prelude
begin

text \<open>
  \<open>internal/edsig/edsig.go\<close>: libsodium's checks on the encodings of points before the signature
  equation is looked at. The equation itself (\<open>crypto/ed25519.Verify\<close>) is the argument
  \<open>ed_verify\<close> of \<open>Verify\<close>. The lemmas read the byte tests as what they mean of the number encoded.
\<close>

type_synonym ed_check = "bytes \<Rightarrow> bytes \<Rightarrow> bytes \<Rightarrow> bool"

definition smallOrder :: "bytes list" where
  "smallOrder =
    [replicate 32 0,
     0x01 # replicate 31 0,
     [0x26, 0xe8, 0x95, 0x8f, 0xc2, 0xb2, 0x27, 0xb0, 0x45, 0xc3, 0xf4, 0x89, 0xf2, 0xef,
      0x98, 0xf0, 0xd5, 0xdf, 0xac, 0x05, 0xd3, 0xc6, 0x33, 0x39, 0xb1, 0x38, 0x02, 0x88,
      0x6d, 0x53, 0xfc, 0x05],
     [0xc7, 0x17, 0x6a, 0x70, 0x3d, 0x4d, 0xd8, 0x4f, 0xba, 0x3c, 0x0b, 0x76, 0x0d, 0x10,
      0x67, 0x0f, 0x2a, 0x20, 0x53, 0xfa, 0x2c, 0x39, 0xcc, 0xc6, 0x4e, 0xc7, 0xfd, 0x77,
      0x92, 0xac, 0x03, 0x7a],
     0xec # replicate 30 0xff @ [0x7f],
     0xed # replicate 30 0xff @ [0x7f],
     0xee # replicate 30 0xff @ [0x7f]]"

text \<open>The accumulated difference of one entry: bitwise or of the differences of the bytes.\<close>

definition order_diff :: "bytes \<Rightarrow> bytes \<Rightarrow> byte" where
  "order_diff s b =
     fold (\<lambda>i c. c OR (s ! i XOR b ! i)) [0..<31] 0 OR ((s ! 31 AND 0x7f) XOR b ! 31)"

definition HasSmallOrder :: "bytes \<Rightarrow> bool" where
  "HasSmallOrder s \<longleftrightarrow> (if length s \<noteq> 32 then False else list_ex (\<lambda>b. order_diff s b = 0) smallOrder)"

definition IsCanonical :: "bytes \<Rightarrow> bool" where
  "IsCanonical s \<longleftrightarrow>
     (if length s \<noteq> 32 then False
      else if s ! 31 AND 0x7f \<noteq> 0x7f then True
      else if list_ex (\<lambda>i. s ! i \<noteq> 0xff) [1..<31] then True
      else unat (s ! 0) < 0xed)"

definition Verify :: "ed_check \<Rightarrow> bytes \<Rightarrow> bytes \<Rightarrow> bytes \<Rightarrow> bool" where
  "Verify ed_verify pub message sig \<longleftrightarrow>
     (if length pub \<noteq> 32 \<or> length sig \<noteq> 64 then False
      else if HasSmallOrder (take 32 sig) then False
      else if \<not> IsCanonical pub \<or> HasSmallOrder pub then False
      else ed_verify pub message sig)"

subsection \<open>What the tests mean\<close>

text \<open>The little-endian number of a byte string, and the encoding with its sign bit cleared.\<close>

fun le_val :: "bytes \<Rightarrow> nat" where
  "le_val [] = 0"
| "le_val (b # bs) = unat b + 256 * le_val bs"

definition clear_sign :: "bytes \<Rightarrow> bytes" where
  "clear_sign s = s[31 := s ! 31 AND 0x7f]"

definition field_p :: nat where
  "field_p = 2 ^ 255 - 19"

lemma le_val_append: "le_val (xs @ ys) = le_val xs + 256 ^ length xs * le_val ys"
  by (induction xs) (auto simp: algebra_simps)

lemma le_val_bound: "le_val xs < 256 ^ length xs"
proof (induction xs)
  case (Cons b bs)
  have "unat b \<le> 255" by (rule unat_byte_le)
  moreover have "le_val bs + 1 \<le> 256 ^ length bs" using Cons by simp
  then have "256 * (le_val bs + 1) \<le> 256 * 256 ^ length bs" by (rule mult_left_mono) simp
  ultimately show ?case by simp
qed simp

lemma le_val_max: "le_val xs = 256 ^ length xs - 1 \<longleftrightarrow> xs = replicate (length xs) 0xff"
proof (induction xs)
  case (Cons b bs)
  have b: "unat b \<le> 255" by (rule unat_byte_le)
  have "le_val bs < 256 ^ length bs" by (rule le_val_bound)
  then have "le_val (b # bs) = 256 ^ length (b # bs) - 1 \<longleftrightarrow> unat b = 255 \<and> le_val bs = 256 ^ length bs - 1"
    using b by simp linarith
  also have "unat b = 255 \<longleftrightarrow> b = 0xff" using word_unat_eq_iff [of b "0xff"] by simp
  finally show ?case using Cons by simp
qed simp

lemma split32:
  assumes "length s = 32"
  obtains a m z where "s = a # m @ [z]" "length m = 30" "s ! 0 = a" "s ! 31 = z"
    "\<And>i. i \<in> {1..<31} \<Longrightarrow> s ! i = m ! (i - 1)"
proof -
  obtain a t where s: "s = a # t" "length t = 31" using assms by (cases s) auto
  then obtain m z where t: "t = m @ [z]" by (cases t rule: rev_cases) auto
  with s have m: "length m = 30" by simp
  show thesis
  proof (rule that [of a m z])
    show "s ! 31 = z" using s t m by (simp add: nth_append)
    show "\<And>i. i \<in> {1..<31} \<Longrightarrow> s ! i = m ! (i - 1)" using s t m by (auto simp: nth_append nth_Cons')
  qed (use s t m in auto)
qed

lemma and_127: "unat (z AND 0x7f :: byte) = unat z mod 128"
proof -
  have m: "(0x7f :: byte) = mask 7" by (simp add: mask_eq_exp_minus_1)
  show ?thesis unfolding m take_bit_eq_mask [symmetric]
    by (subst unsigned_take_bit_eq) (simp add: take_bit_eq_mod)
qed

text \<open>Canonical means: the \<open>y\<close> coordinate, the encoding without its sign bit, is below \<open>p\<close>.\<close>

lemma IsCanonical_iff:
  assumes "length s = 32"
  shows "IsCanonical s \<longleftrightarrow> le_val (clear_sign s) < field_p"
proof -
  from split32 [OF assms] obtain a m z where s: "s = a # m @ [z]" "length m = 30" "s ! 0 = a" "s ! 31 = z"
    "\<And>i. i \<in> {1..<31} \<Longrightarrow> s ! i = m ! (i - 1)" by blast
  define z' where "z' = unat (z AND 0x7f)"
  have z': "z' < 128" unfolding z'_def and_127 by simp
  have cs: "clear_sign s = a # m @ [z AND 0x7f]"
    using s(2,4) by (simp add: clear_sign_def s(1) list_update_append)
  have v: "le_val (clear_sign s) = unat a + 256 * le_val m + 256 ^ 31 * z'"
    by (simp add: cs le_val_append s(2) z'_def algebra_simps)
  have m: "le_val m \<le> 256 ^ 30 - 1" using le_val_bound [of m] s(2) by simp
  have ff: "(\<forall>i \<in> {1..<31}. s ! i = 0xff) \<longleftrightarrow> m = replicate 30 0xff"
  proof
    assume a: "\<forall>i \<in> {1..<31}. s ! i = 0xff"
    show "m = replicate 30 0xff"
    proof (intro nth_equalityI)
      fix i assume "i < length m"
      then have "Suc i \<in> {1..<31}" using s(2) by auto
      with a s(5) [of "Suc i"] s(2) \<open>i < length m\<close> show "m ! i = replicate 30 0xff ! i" by simp
    qed (simp add: s(2))
  qed (use s(5) in auto)
  have top: "z AND 0x7f = 0x7f \<longleftrightarrow> z' = 127"
    using word_unat_eq_iff [of "z AND 0x7f" "0x7f"] by (simp add: z'_def)
  have full: "m = replicate 30 0xff \<longleftrightarrow> le_val m = 256 ^ 30 - 1"
    using le_val_max [of m] s(2) by simp
  have "IsCanonical s \<longleftrightarrow> \<not> (z' = 127 \<and> le_val m = 256 ^ 30 - 1 \<and> 0xed \<le> unat a)"
    using assms ff top full by (auto simp: IsCanonical_def s(3,4) list_ex_iff)
  also have "\<dots> \<longleftrightarrow> le_val (clear_sign s) < field_p"
    using m z' unat_byte_le [of a] unfolding v field_p_def by auto
  finally show ?thesis .
qed

lemma or_zero: "x OR y = 0 \<longleftrightarrow> x = 0 \<and> y = (0 :: byte)"
  by (metis or.right_neutral or_eq_0_iff)

lemma fold_or_zero:
  "fold (\<lambda>i c. c OR f i) js c = 0 \<longleftrightarrow> c = (0 :: byte) \<and> (\<forall>i \<in> set js. f i = 0)"
  by (induction js arbitrary: c) (auto simp: or_zero)

lemma xor_zero: "x XOR y = 0 \<longleftrightarrow> x = (y :: byte)"
  by (metis bit.xor_self xor.left_neutral xor.assoc)

lemma order_diff_zero:
  assumes "length s = 32" "length b = 32"
  shows "order_diff s b = 0 \<longleftrightarrow> clear_sign s = b"
proof -
  have "order_diff s b = 0 \<longleftrightarrow> (\<forall>i < 31. s ! i = b ! i) \<and> s ! 31 AND 0x7f = b ! 31"
    by (auto simp: order_diff_def or_zero fold_or_zero xor_zero)
  also have "\<dots> \<longleftrightarrow> (\<forall>i < 32. clear_sign s ! i = b ! i)"
  proof -
    have "i < 32 \<longleftrightarrow> i < 31 \<or> i = 31" for i :: nat by auto
    then show ?thesis using assms(1) by (auto simp: clear_sign_def nth_list_update)
  qed
  also have "\<dots> \<longleftrightarrow> clear_sign s = b"
    using assms by (auto simp: clear_sign_def list_eq_iff_nth_eq)
  finally show ?thesis .
qed

lemma length_smallOrder: "b \<in> set smallOrder \<Longrightarrow> length b = 32"
  by (auto simp: smallOrder_def)

text \<open>The table test is membership of the encoding without its sign bit.\<close>

lemma HasSmallOrder_iff: "HasSmallOrder s \<longleftrightarrow> length s = 32 \<and> clear_sign s \<in> set smallOrder"
  using order_diff_zero length_smallOrder by (auto simp: HasSmallOrder_def list_ex_iff)

text \<open>What an accepted signature satisfies, whatever the curve equation says.\<close>

lemma Verify_guards:
  assumes "Verify ed_verify pub message sig"
  shows "length pub = 32 \<and> length sig = 64 \<and> le_val (clear_sign pub) < field_p \<and>
    clear_sign pub \<notin> set smallOrder \<and> clear_sign (take 32 sig) \<notin> set smallOrder \<and> ed_verify pub message sig"
  using assms IsCanonical_iff [of pub] HasSmallOrder_iff [of pub] HasSmallOrder_iff [of "take 32 sig"]
  by (auto simp: Verify_def split: if_splits)

end
