(* ===== verification/Sha256.thy ===== *)
theory Sha256
  imports Prelude
begin

text \<open>
  SHA-256 (FIPS 180-4), the function the verifier takes from Go's standard library
  (\<open>crypto/sha256\<close>) for every hash it recomputes. It is defined here so that the interfaces below
  are interpreted on the hash the code really uses. The components are written over any hash
  function \<open>H\<close>; what they need of it is the locale \<open>digest\<close>.
\<close>

type_synonym w32 = "32 word"

definition sha_k :: "w32 list" where
  "sha_k =
    [1116352408, 1899447441, 3049323471, 3921009573, 961987163, 1508970993,
     2453635748, 2870763221, 3624381080, 310598401, 607225278, 1426881987,
     1925078388, 2162078206, 2614888103, 3248222580, 3835390401, 4022224774,
     264347078, 604807628, 770255983, 1249150122, 1555081692, 1996064986,
     2554220882, 2821834349, 2952996808, 3210313671, 3336571891, 3584528711,
     113926993, 338241895, 666307205, 773529912, 1294757372, 1396182291,
     1695183700, 1986661051, 2177026350, 2456956037, 2730485921, 2820302411,
     3259730800, 3345764771, 3516065817, 3600352804, 4094571909, 275423344,
     430227734, 506948616, 659060556, 883997877, 958139571, 1322822218,
     1537002063, 1747873779, 1955562222, 2024104815, 2227730452, 2361852424,
     2428436474, 2756734187, 3204031479, 3329325298]"

definition sha_init :: "w32 list" where
  "sha_init =
    [1779033703, 3144134277, 1013904242, 2773480762, 1359893119, 2600822924,
     528734635, 1541459225]"

definition rotr32 :: "nat \<Rightarrow> w32 \<Rightarrow> w32" where
  "rotr32 n x = drop_bit n x OR push_bit (32 - n) x"

definition small_sigma0 :: "w32 \<Rightarrow> w32" where
  "small_sigma0 x = rotr32 7 x XOR rotr32 18 x XOR drop_bit 3 x"

definition small_sigma1 :: "w32 \<Rightarrow> w32" where
  "small_sigma1 x = rotr32 17 x XOR rotr32 19 x XOR drop_bit 10 x"

definition big_sigma0 :: "w32 \<Rightarrow> w32" where
  "big_sigma0 x = rotr32 2 x XOR rotr32 13 x XOR rotr32 22 x"

definition big_sigma1 :: "w32 \<Rightarrow> w32" where
  "big_sigma1 x = rotr32 6 x XOR rotr32 11 x XOR rotr32 25 x"

definition sha_ch :: "w32 \<Rightarrow> w32 \<Rightarrow> w32 \<Rightarrow> w32" where
  "sha_ch x y z = (x AND y) XOR (NOT x AND z)"

definition sha_maj :: "w32 \<Rightarrow> w32 \<Rightarrow> w32 \<Rightarrow> w32" where
  "sha_maj x y z = (x AND y) XOR (x AND z) XOR (y AND z)"

definition be32 :: "bytes \<Rightarrow> w32" where
  "be32 bs = foldl (\<lambda>a b. push_bit 8 a OR ucast b) 0 bs"

definition unbe32 :: "w32 \<Rightarrow> bytes" where
  "unbe32 w = [ucast (drop_bit 24 w), ucast (drop_bit 16 w), ucast (drop_bit 8 w), ucast w]"

fun chunks :: "nat \<Rightarrow> nat \<Rightarrow> 'a list \<Rightarrow> 'a list list" where
  "chunks 0 k xs = []"
| "chunks (Suc n) k xs = take k xs # chunks n k (drop k xs)"

text \<open>The message schedule: the window of the last sixteen words, newest last.\<close>

fun sha_schedule :: "nat \<Rightarrow> w32 list \<Rightarrow> w32 list" where
  "sha_schedule 0 ws = []"
| "sha_schedule (Suc n) ws =
     hd ws # sha_schedule n (tl ws @
       [small_sigma1 (ws ! 14) + ws ! 9 + small_sigma0 (ws ! 1) + ws ! 0])"

fun sha_round :: "w32 list \<Rightarrow> w32 \<times> w32 \<Rightarrow> w32 list" where
  "sha_round [a, b, c, d, e, f, g, h] (k, w) =
     (let t1 = h + big_sigma1 e + sha_ch e f g + k + w;
          t2 = big_sigma0 a + sha_maj a b c
      in [t1 + t2, a, b, c, d + t1, e, f, g])"
| "sha_round st kw = st"

definition sha_compress :: "w32 list \<Rightarrow> bytes \<Rightarrow> w32 list" where
  "sha_compress st block =
     map2 (+) st (foldl sha_round st (zip sha_k (sha_schedule 64 (map be32 (chunks 16 4 block)))))"

definition sha_pad :: "bytes \<Rightarrow> bytes" where
  "sha_pad msg =
     (let n = length msg; z = (119 - n mod 64) mod 64
      in msg @ [0x80] @ replicate z 0 @
         map (\<lambda>i. ucast (drop_bit (8 * i) (word_of_nat (8 * n) :: 64 word))) [7, 6, 5, 4, 3, 2, 1, 0])"

definition sha256 :: "bytes \<Rightarrow> bytes" where
  "sha256 msg =
     (let p = sha_pad msg
      in concat (map unbe32 (foldl sha_compress sha_init (chunks (length p div 64) 64 p))))"

lemma length_sha_round [simp]: "length (sha_round st kw) = length st"
  by (cases "(st, kw)" rule: sha_round.cases) (auto simp: Let_def)

lemma length_foldl_sha_round [simp]: "length (foldl sha_round st kws) = length st"
  by (induction kws arbitrary: st) auto

lemma length_sha_compress [simp]: "length (sha_compress st b) = length st"
  by (simp add: sha_compress_def)

lemma length_foldl_sha_compress [simp]: "length (foldl sha_compress st bs) = length st"
  by (induction bs arbitrary: st) auto

lemma length_unbe32 [simp]: "length (unbe32 w) = 4"
  by (simp add: unbe32_def)

lemma length_concat_unbe32 [simp]: "length (concat (map unbe32 ws)) = 4 * length ws"
  by (induction ws) auto

lemma length_sha256 [simp]: "length (sha256 msg) = 32"
  by (simp add: sha256_def Let_def sha_init_def)

text \<open>
  What the Merkle code needs of a hash: 32 bytes, always. Nothing else is assumed; collision
  freedom is never assumed of \<open>H\<close> as a whole but stated, where a theorem needs it, on the finite
  set of strings one verification hashes.
\<close>

locale digest =
  fixes H :: "bytes \<Rightarrow> bytes"
  assumes length_H: "length (H x) = 32"
begin

lemma H_not_Nil: "H x \<noteq> []"
  using length_H [of x] by auto

lemma H_append_inj:
  assumes "H a @ u = H b @ v"
  shows "H a = H b \<and> u = v"
  using assms length_H append_eq_append_conv by metis

end

text \<open>Two different strings of a given set with the same hash.\<close>

definition collision :: "(bytes \<Rightarrow> bytes) \<Rightarrow> bytes set \<Rightarrow> bool" where
  "collision H U \<longleftrightarrow> (\<exists>p \<in> U. \<exists>q \<in> U. p \<noteq> q \<and> H p = H q)"

lemma collision_iff: "collision H U \<longleftrightarrow> \<not> inj_on H U"
  by (auto simp: collision_def inj_on_def)

interpretation sha: digest sha256
  by unfold_locales simp

end
