(* ===== verification/Keys.thy ===== *)
theory Keys
  imports Report_Run Cjson_Parse Edsig Sha256
begin

text \<open>
  \<open>verify/keys.go\<close>: reading a trusted key set, matching a public key against it, fingerprints, and
  the window in which a key may have sealed a checkpoint. An error of the source is its message.
\<close>

definition sha256Hex :: "bytes \<Rightarrow> bytes" where
  "sha256Hex data = hex_text (sha256 data)"

lemma length_sha256Hex [simp]: "length (sha256Hex data) = 64"
  by (simp add: sha256Hex_def)

subsection \<open>Key sets\<close>

definition string_opt :: "vopt \<Rightarrow> bytes option" where
  "string_opt v = (if IsString v then Some (StrOf v) else None)"

fun key_entries :: "json list \<Rightarrow> bytes + trusted_key list" where
  "key_entries [] = Inr []"
| "key_entries (entry # es) =
     (if \<not> IsObject (Some entry) \<or> \<not> IsString (Field (Some entry) (lit ''public_key''))
      then Inl (lit ''contains an entry without a public_key'')
      else case key_entries es of
        Inl e \<Rightarrow> Inl e
      | Inr ks \<Rightarrow>
          Inr (\<lparr>publicKey = StrOf (Field (Some entry) (lit ''public_key'')),
                createdAt = string_opt (Field (Some entry) (lit ''created_at'')),
                retiredAt = string_opt (Field (Some entry) (lit ''retired_at''))\<rparr> # ks))"

definition parseKeySet :: "bytes \<Rightarrow> bytes + trusted_key list" where
  "parseKeySet data =
     (let decoded = (case ParseAssoc data of Inl _ \<Rightarrow> None | Inr v \<Rightarrow> Some v);
          list = (if IsObject decoded then Field decoded (lit ''keys'') else None)
      in if \<not> IsArray list \<or> ArrOf list = [] then Inl (lit ''has no \"keys\" list'')
         else key_entries (ArrOf list))"

definition LoadKeyFile :: "bytes \<Rightarrow> bytes option \<Rightarrow> bytes + trusted_key list" where
  "LoadKeyFile path file =
     (case file of
        None \<Rightarrow> Inl (lit ''--keys file ['' @ path @ lit ''] does not exist'')
      | Some data \<Rightarrow>
          (case parseKeySet data of
             Inl e \<Rightarrow> Inl (lit ''--keys file ['' @ path @ lit ''] '' @ e)
           | Inr ks \<Rightarrow> Inr ks))"

definition lookup_key :: "trusted_key list \<Rightarrow> bytes \<Rightarrow> trusted_key option" where
  "lookup_key ks publicKeyHex = find (\<lambda>k. lower (publicKey k) = lower publicKeyHex) ks"

definition keyFingerprint :: "bytes \<Rightarrow> bytes" where
  "keyFingerprint publicKeyHex =
     (case hexBytes publicKeyHex of
        None \<Rightarrow> lit ''unreadable''
      | Some raw \<Rightarrow> take 16 (sha256Hex raw))"

definition Fingerprints :: "trusted_key list \<Rightarrow> bytes list" where
  "Fingerprints ks = map (\<lambda>k. keyFingerprint (lower (publicKey k))) ks"

subsection \<open>The window of a key\<close>

definition created_problems :: "vopt \<Rightarrow> bytes \<Rightarrow> time \<Rightarrow> bytes list" where
  "created_problems created sealedAtValue sealedAt =
     (if nullish created then []
      else case parseRFC3339Value created of
        None \<Rightarrow> [lit ''the manifest's created_at for the signing key is unparseable, so the key window cannot be checked'']
      | Some keyCreatedAt \<Rightarrow>
          if Before sealedAt keyCreatedAt
          then [lit ''created_at '' @ sealedAtValue @ lit '' is before the signing key was created ('' @
                text_of created @ lit '') - the key had no authority yet'']
          else [])"

definition retired_problems :: "vopt \<Rightarrow> bytes \<Rightarrow> time \<Rightarrow> bytes list" where
  "retired_problems retired sealedAtValue sealedAt =
     (if nullish retired then []
      else case parseRFC3339Value retired of
        None \<Rightarrow> [lit ''the manifest's retired_at for the signing key is unparseable, so the key window cannot be checked'']
      | Some keyRetiredAt \<Rightarrow>
          if After sealedAt keyRetiredAt
          then [lit ''created_at '' @ sealedAtValue @ lit '' is after the signing key's retired_at '' @
                text_of retired @ lit '' - a retired key signed this checkpoint'']
          else [])"

definition windowProblems :: "vopt \<Rightarrow> vopt \<Rightarrow> bytes \<Rightarrow> bytes list" where
  "windowProblems created retired sealedAtValue =
     (case ParseRFC3339 sealedAtValue of
        None \<Rightarrow> [lit ''created_at ['' @ sealedAtValue @
          lit ''] is not an RFC 3339 timestamp, so the signing key window cannot be checked'']
      | Some sealedAt \<Rightarrow>
          created_problems created sealedAtValue sealedAt @ retired_problems retired sealedAtValue sealedAt)"

definition string_value :: "bytes option \<Rightarrow> vopt" where
  "string_value s = map_option JString s"

definition key_window :: "trusted_key \<Rightarrow> vopt \<times> vopt" where
  "key_window k = (string_value (createdAt k), string_value (retiredAt k))"

text \<open>A seal is inside a window: no bound, or one that reads and is not passed.\<close>

definition in_window :: "vopt \<Rightarrow> vopt \<Rightarrow> bytes \<Rightarrow> bool" where
  "in_window created retired sealed \<longleftrightarrow>
     (\<exists>t. ParseRFC3339 sealed = Some t \<and>
        (nullish created \<or> (\<exists>c. parseRFC3339Value created = Some c \<and> c \<le> t)) \<and>
        (nullish retired \<or> (\<exists>e. parseRFC3339Value retired = Some e \<and> t \<le> e)))"

lemma windowProblems_none: "windowProblems created retired sealed = [] \<longleftrightarrow> in_window created retired sealed"
  by (auto simp: windowProblems_def in_window_def created_problems_def retired_problems_def Before_def After_def
      split: option.splits)

subsection \<open>Options and the new run\<close>

record options =
  opt_Keys :: "trusted_key list option"
  opt_KeysSource :: bytes
  opt_TSARoots :: "bytes option"
  opt_TSARootsSource :: bytes
  opt_ReceiptKeys :: "(bytes \<rightharpoonup> receipt_key) option"
  opt_ReceiptKeysSource :: bytes
  opt_SkipAnchors :: bool
  opt_PrintHashes :: bool

text \<open>The sets compiled into the build are data of the build, not code: a parameter.\<close>

record embedded =
  EmbeddedKeys :: "trusted_key list"
  EmbeddedTSARoots :: bytes
  EmbeddedReceiptKeys :: "bytes \<rightharpoonup> receipt_key"

definition newRun :: "embedded \<Rightarrow> options \<Rightarrow> run" where
  "newRun emb opts =
     \<lparr>trusted = (case opt_Keys opts of Some k \<Rightarrow> k | None \<Rightarrow> EmbeddedKeys emb),
      trustedSetSource = (if opt_Keys opts = None then lit ''built-in trusted set'' else opt_KeysSource opts),
      tsaRoots = (case opt_TSARoots opts of Some t \<Rightarrow> t | None \<Rightarrow> EmbeddedTSARoots emb),
      tsaRootsSource = (if opt_TSARoots opts = None then lit ''built-in trusted set'' else opt_TSARootsSource opts),
      receiptKeys = (case opt_ReceiptKeys opts of Some k \<Rightarrow> k | None \<Rightarrow> EmbeddedReceiptKeys emb),
      receiptKeysSource =
        (if opt_ReceiptKeys opts = None then lit ''built-in trusted set'' else opt_ReceiptKeysSource opts),
      reason = None, unconfirmedReason = None, results = newResults, failures = [], run_notes = [], log = [],
      keys_used = ks_empty\<rparr>"

definition trustedPEMPresent :: "bytes \<Rightarrow> bool" where
  "trustedPEMPresent pem \<longleftrightarrow> pem \<noteq> []"

end
