(* ===== verification/Merkle.thy ===== *)
theory Merkle
  imports Sha256 "HOL-Library.Monad_Syntax"
begin

text \<open>
  \<open>internal/merkle/merkle.go\<close>: leaf and node hashes, the RFC 6962 split point, the recursive root,
  the Certificate Transparency hash stack and the audit-path fold. The split loop is modelled on
  Go's 64-bit \<open>int\<close> (\<open>SplitPoint\<close>, which returns nothing where the doubling overflows and
  the loop never ends) and on the sizes of lists (\<open>split_point\<close>); \<open>SplitPoint_eq\<close>
  relates the two.
\<close>

definition LeafHash :: "(bytes \<Rightarrow> bytes) \<Rightarrow> bytes \<Rightarrow> bytes" where
  "LeafHash H data = H (0x00 # data)"

definition NodeHash :: "(bytes \<Rightarrow> bytes) \<Rightarrow> bytes \<Rightarrow> bytes \<Rightarrow> bytes" where
  "NodeHash H left right = H (0x01 # left @ right)"

subsection \<open>The split point\<close>

partial_function (option) split_loop :: "int \<Rightarrow> int \<Rightarrow> int option" where
  "split_loop n split =
     (if wrap64 (split * 2) < n then split_loop n (wrap64 (split * 2)) else Some split)"

definition SplitPoint :: "int \<Rightarrow> int option" where
  "SplitPoint n = split_loop n 1"

text \<open>The same loop over the length of a slice, which never reaches \<open>2^62\<close>.\<close>

function split_up :: "nat \<Rightarrow> nat \<Rightarrow> nat" where
  "split_up n split = (if 0 < split \<and> split * 2 < n then split_up n (split * 2) else split)"
  by pat_completeness auto
termination
  by (relation "measure (\<lambda>(n, split). n - split)") auto

declare split_up.simps [simp del]

definition split_point :: "nat \<Rightarrow> nat" where
  "split_point n = split_up n 1"

lemma split_up_bounds:
  assumes "0 < s" "s < n"
  shows "s \<le> split_up n s \<and> split_up n s < n \<and> n \<le> 2 * split_up n s"
  using assms
proof (induction n s rule: split_up.induct)
  case (1 n s)
  show ?case
  proof (cases "s * 2 < n")
    case True
    with 1 have "s * 2 \<le> split_up n (s * 2) \<and> split_up n (s * 2) < n \<and> n \<le> 2 * split_up n (s * 2)"
      by simp
    with True 1(2) show ?thesis by (simp add: split_up.simps [of n s])
  next
    case False
    with 1(2,3) show ?thesis by (simp add: split_up.simps [of n s])
  qed
qed

lemma split_point_bounds:
  assumes "1 < n"
  shows "0 < split_point n" "split_point n < n" "n \<le> 2 * split_point n"
  using split_up_bounds [of 1 n] assms by (auto simp: split_point_def)

lemma split_up_power: "\<exists>k. split_up n s = s * 2 ^ k"
proof (induction n s rule: split_up.induct)
  case (1 n s)
  show ?case
  proof (cases "0 < s \<and> s * 2 < n")
    case True
    with 1 obtain k where "split_up n (s * 2) = s * 2 * 2 ^ k" by blast
    then have "split_up n (s * 2) = s * 2 ^ Suc k" by simp
    with True show ?thesis by (metis split_up.simps)
  next
    case False
    then have "split_up n s = s * 2 ^ 0" by (subst split_up.simps) auto
    then show ?thesis ..
  qed
qed

lemma split_point_power: "\<exists>k. split_point n = 2 ^ k"
  using split_up_power [of n 1] by (simp add: split_point_def)

lemma power2_between_unique:
  assumes "2 ^ j < n" "n \<le> 2 ^ Suc j" "2 ^ k < n" "n \<le> (2::nat) ^ Suc k"
  shows "j = k"
proof -
  have "(2::nat) ^ j < 2 ^ Suc k" and "(2::nat) ^ k < 2 ^ Suc j"
    using assms by linarith+
  then have "j < Suc k" and "k < Suc j"
    by (simp_all only: power_strict_increasing_iff one_less_numeral_iff semiring_norm)
  then show ?thesis by simp
qed

text \<open>RFC 6962: the largest power of two strictly smaller than \<open>n\<close>.\<close>

lemma split_point_eq:
  assumes "2 ^ k < n" "n \<le> 2 ^ Suc k"
  shows "split_point n = 2 ^ k"
proof -
  have "1 \<le> (2::nat) ^ k" by simp
  with assms have "1 < n" by linarith
  obtain j where j: "split_point n = 2 ^ j" using split_point_power by blast
  have "2 ^ j < n" "n \<le> 2 ^ Suc j"
    using split_point_bounds [OF \<open>1 < n\<close>] by (simp_all add: j)
  with assms j show ?thesis by (metis power2_between_unique)
qed

lemma wrap64_double: "0 \<le> x \<Longrightarrow> x < 2 ^ 62 \<Longrightarrow> wrap64 (x * 2) = x * 2"
  by (rule wrap64_id) (simp add: int64_ok_def)

lemma split_loop_eq:
  assumes "0 < s" "s < n \<or> s = 1" "int n \<le> 2 ^ 62"
  shows "split_loop (int n) (int s) = Some (int (split_up n s))"
  using assms
proof (induction n s rule: split_up.induct)
  case (1 n s)
  have "int s < 2 ^ 62" using 1(3,4) by auto
  then have w: "wrap64 (int s * 2) = int (s * 2)" by (simp add: wrap64_double)
  show ?case
  proof (cases "s * 2 < n")
    case True
    then have "split_loop (int n) (int (s * 2)) = Some (int (split_up n (s * 2)))"
      using 1 by simp
    with True w 1(2) show ?thesis
      by (subst split_loop.simps, subst split_up.simps) (simp del: of_nat_mult add: of_nat_less_iff)
  next
    case False
    with w show ?thesis
      by (subst split_loop.simps, subst split_up.simps) (simp del: of_nat_mult add: of_nat_less_iff)
  qed
qed

text \<open>On the sizes a list can have, the 64-bit loop is the loop on naturals.\<close>

lemma SplitPoint_eq: "int n \<le> 2 ^ 62 \<Longrightarrow> SplitPoint (int n) = Some (int (split_point n))"
  unfolding SplitPoint_def split_point_def using split_loop_eq [of 1 n] by simp

text \<open>Beyond \<open>2^62\<close> the doubling wraps to \<open>-2^63\<close>, then to 0, and the loop never ends.\<close>

lemma split_loop_diverges:
  assumes "2 ^ 62 < n" "n < 2 ^ 63"
    and "s \<in> {- (2 ^ 63), 0} \<union> {2 ^ k | k. k \<le> 62}"
  shows "split_loop n s = None"
proof -
  have step: "wrap64 (s * 2) < n \<and> wrap64 (s * 2) \<in> {- (2 ^ 63), 0} \<union> {2 ^ k | k. k \<le> 62}"
    if s: "s \<in> {- (2 ^ 63), 0} \<union> {2 ^ k | k. k \<le> (62::nat)}" for s :: int
  proof -
    consider "s = - (2 ^ 63)" | "s = 0" | "s = 2 ^ 62" | k where "s = 2 ^ k" "k < 62"
      using s by (auto simp: le_less)
    then show ?thesis
    proof cases
      case 4
      then have "Suc k \<le> 62" by simp
      then have le: "(2::int) ^ Suc k \<le> 2 ^ 62" by (rule power_increasing) simp
      then have "wrap64 (s * 2) = 2 ^ Suc k"
        using \<open>s = 2 ^ k\<close> by (subst wrap64_id) (auto simp: int64_ok_def intro: order_trans [of _ 0])
      with le assms(1) \<open>Suc k \<le> 62\<close> show ?thesis by (auto simp del: power_Suc)
    qed (use assms in \<open>auto simp: wrap64_def\<close>)
  qed
  have "\<nexists>r. split_loop n s = Some r"
  proof
    assume "\<exists>r. split_loop n s = Some r"
    then obtain r where r: "split_loop n s = Some r" ..
    have "m = n \<longrightarrow> t \<in> {- (2 ^ 63), 0} \<union> {2 ^ k | k. k \<le> (62::nat)} \<longrightarrow> False"
      if "split_loop m t = Some r" for m t
    proof (rule split_loop.raw_induct
        [where P = "\<lambda>m t r. m = n \<longrightarrow> t \<in> {- (2 ^ 63), 0} \<union> {2 ^ k | k. k \<le> (62::nat)} \<longrightarrow> False",
          OF _ that])
      fix f m t r
      assume IH: "\<And>m t r. f m t = Some r \<Longrightarrow>
          m = n \<longrightarrow> t \<in> {- (2 ^ 63), 0} \<union> {2 ^ k | k. k \<le> (62::nat)} \<longrightarrow> False"
        and eq: "(if wrap64 (t * 2) < m then f m (wrap64 (t * 2)) else Some t) = Some r"
      show "m = n \<longrightarrow> t \<in> {- (2 ^ 63), 0} \<union> {2 ^ k | k. k \<le> (62::nat)} \<longrightarrow> False"
        using step [of t] eq IH [of m "wrap64 (t * 2)" r] by auto
    qed
    with r assms(3) show False by blast
  qed
  then show ?thesis by (cases "split_loop n s") auto
qed

subsection \<open>The recursive root\<close>

datatype merkle_error = ErrNoLeaves | ErrOldSizeOutOfRange | ErrIncomplete

text \<open>
  The unexported \<open>root\<close> is only ever called on a non-empty slice (an empty one would be out of
  range in Go); the equation for \<open>[]\<close> only makes the function total.
\<close>

function root :: "(bytes \<Rightarrow> bytes) \<Rightarrow> bytes list \<Rightarrow> bytes" where
  "root H [] = []"
| "root H [x] = LeafHash H x"
| "root H (x # y # zs) =
     (let leaves = x # y # zs; split = split_point (length leaves)
      in NodeHash H (root H (take split leaves)) (root H (drop split leaves)))"
  by pat_completeness auto
termination
proof (relation "measure (\<lambda>(H, xs). length xs)", goal_cases)
  case (2 H x y zs leaves split)
  then have "split < length leaves" using split_point_bounds [of "length leaves"] by simp
  with 2 show ?case by simp
next
  case (3 H x y zs leaves split)
  then have "0 < split" using split_point_bounds [of "length leaves"] by simp
  with 3 show ?case by simp
qed simp

declare root.simps(3) [simp del]

definition Root :: "(bytes \<Rightarrow> bytes) \<Rightarrow> bytes list \<Rightarrow> merkle_error + bytes" where
  "Root H leaves = (if length leaves = 0 then Inl ErrNoLeaves else Inr (root H leaves))"

lemma root_split:
  assumes "1 < length xs"
  shows "root H xs = NodeHash H (root H (take (split_point (length xs)) xs))
                               (root H (drop (split_point (length xs)) xs))"
proof -
  obtain x y zs where "xs = x # y # zs"
    using assms by (cases xs; cases "tl xs") auto
  then show ?thesis by (simp add: root.simps(3) Let_def)
qed

lemma root_pow_split:
  assumes "2 ^ k < length xs" "length xs \<le> 2 ^ Suc k"
  shows "root H xs = NodeHash H (root H (take (2 ^ k) xs)) (root H (drop (2 ^ k) xs))"
proof -
  have "1 < length xs" using assms(1) by (metis less_one linorder_neqE_nat not_less_zero one_le_numeral one_le_power order_le_less_trans)
  with root_split [OF this] split_point_eq [OF assms] show ?thesis by simp
qed

subsection \<open>The hash stack\<close>

record stack_entry =
  se_size :: nat
  se_hash :: bytes

text \<open>\<open>entries\<close> is kept with its last element, the top of the stack, first.\<close>

record mstack =
  entries :: "stack_entry list"
  scount :: nat

definition new_stack :: mstack where
  "new_stack = \<lparr>entries = [], scount = 0\<rparr>"

fun merge_top :: "(bytes \<Rightarrow> bytes) \<Rightarrow> stack_entry list \<Rightarrow> stack_entry list" where
  "merge_top H (topmost # below # es) =
     (if se_size below = se_size topmost
      then merge_top H (\<lparr>se_size = se_size topmost * 2,
                         se_hash = NodeHash H (se_hash below) (se_hash topmost)\<rparr> # es)
      else topmost # below # es)"
| "merge_top H es = es"

definition Stack_Append :: "(bytes \<Rightarrow> bytes) \<Rightarrow> bytes \<Rightarrow> mstack \<Rightarrow> mstack" where
  "Stack_Append H leafData s =
     \<lparr>entries = merge_top H (\<lparr>se_size = 1, se_hash = LeafHash H leafData\<rparr> # entries s),
      scount = scount s + 1\<rparr>"

definition Stack_Len :: "mstack \<Rightarrow> nat" where
  "Stack_Len s = scount s"

text \<open>
  The fold from the top down. Go starts from a nil slice and tests \<open>hash == nil\<close>; a copy of an empty
  slice is nil again, so the test is emptiness.
\<close>

definition root_step :: "(bytes \<Rightarrow> bytes) \<Rightarrow> bytes \<Rightarrow> stack_entry \<Rightarrow> bytes" where
  "root_step H hash e = (if hash = [] then se_hash e else NodeHash H (se_hash e) hash)"

definition Stack_Root :: "(bytes \<Rightarrow> bytes) \<Rightarrow> mstack \<Rightarrow> bytes option" where
  "Stack_Root H s = (if length (entries s) = 0 then None else Some (foldl (root_step H) [] (entries s)))"

definition Stack_Reset :: "mstack \<Rightarrow> mstack" where
  "Stack_Reset s = \<lparr>entries = [], scount = 0\<rparr>"

subsection \<open>The audit path\<close>

record step =
  Sibling :: bytes
  Left :: bool

definition audit_step :: "(bytes \<Rightarrow> bytes) \<Rightarrow> bytes \<Rightarrow> step \<Rightarrow> bytes" where
  "audit_step H computed st =
     (if Left st then NodeHash H (Sibling st) computed else NodeHash H computed (Sibling st))"

definition AuditPath :: "(bytes \<Rightarrow> bytes) \<Rightarrow> bytes \<Rightarrow> step list \<Rightarrow> bytes" where
  "AuditPath H entryHash path = foldl (audit_step H) (LeafHash H entryHash) path"

end
