(* ===== verification/Consistency.thy ===== *)
theory Consistency
  imports Merkle
begin

text \<open>
  \<open>internal/merkle/consistency.go\<close>: generation and verification of RFC 6962 consistency proofs,
  the leaf ranges of the proof nodes, and the collector that builds a proof while the leaves
  stream past, holding one hash stack per range.
\<close>

subsection \<open>Generation\<close>

text \<open>
  The recursion of \<open>subproof\<close>. Its callers keep \<open>1 \<le> oldSize \<le> count\<close>, under which
  \<open>count \<le> 1\<close> already means \<open>oldSize = count\<close>; the second disjunct only makes the recursion
  total on other arguments.
\<close>

function subproof :: "(bytes \<Rightarrow> bytes) \<Rightarrow> nat \<Rightarrow> bytes list \<Rightarrow> bool \<Rightarrow> bytes list" where
  "subproof H oldSize leaves oldTreeComplete =
     (if oldSize = length leaves \<or> length leaves \<le> 1
      then (if oldTreeComplete then [] else [root H leaves])
      else let split = split_point (length leaves)
        in if oldSize \<le> split
           then subproof H oldSize (take split leaves) oldTreeComplete @ [root H (drop split leaves)]
           else subproof H (oldSize - split) (drop split leaves) False @ [root H (take split leaves)])"
  by pat_completeness auto
termination
proof (relation "measure (\<lambda>(H, m, xs, b). length xs)", goal_cases)
  case (2 H m xs b k)
  then have "k < length xs" using split_point_bounds [of "length xs"] by simp
  then show ?case by simp
next
  case (3 H m xs b k)
  then have "0 < k" "\<not> length xs \<le> 1" using split_point_bounds [of "length xs"] by simp_all
  then show ?case by simp
qed simp

declare subproof.simps [simp del]

definition ConsistencyProof ::
  "(bytes \<Rightarrow> bytes) \<Rightarrow> bytes list \<Rightarrow> int \<Rightarrow> merkle_error + bytes list" where
  "ConsistencyProof H leaves oldSize =
     (let newSize = int (length leaves)
      in if oldSize < 1 \<or> oldSize > newSize then Inl ErrOldSizeOutOfRange
         else if oldSize = newSize then Inr []
         else Inr (subproof H (nat oldSize) leaves True))"

subsection \<open>Verification\<close>

text \<open>The three loops of \<open>ConsistencyVerify\<close>; \<open>fn\<close> and \<open>sn\<close> are never negative.\<close>

function strip_ones :: "nat \<Rightarrow> nat \<Rightarrow> nat \<times> nat" where
  "strip_ones fn sn = (if odd fn then strip_ones (fn div 2) (sn div 2) else (fn, sn))"
  by pat_completeness auto
termination
  by (relation "measure fst") (auto elim: oddE)

function skip_zeros :: "nat \<Rightarrow> nat \<Rightarrow> nat \<times> nat" where
  "skip_zeros fn sn = (if fn \<noteq> 0 \<and> even fn then skip_zeros (fn div 2) (sn div 2) else (fn, sn))"
  by pat_completeness auto
termination
  by (relation "measure fst") auto

declare strip_ones.simps [simp del] skip_zeros.simps [simp del]

fun verify_loop ::
  "(bytes \<Rightarrow> bytes) \<Rightarrow> bytes \<Rightarrow> bytes \<Rightarrow> nat \<Rightarrow> nat \<Rightarrow> bytes \<Rightarrow> bytes \<Rightarrow> bytes list \<Rightarrow> bool" where
  "verify_loop H oldRoot newRoot fn sn fr sr [] \<longleftrightarrow> sn = 0 \<and> oldRoot = fr \<and> newRoot = sr"
| "verify_loop H oldRoot newRoot fn sn fr sr (node # nodes) \<longleftrightarrow>
     (if sn = 0 then False
      else if odd fn \<or> fn = sn
      then let (fn', sn') = skip_zeros fn sn
        in verify_loop H oldRoot newRoot (fn' div 2) (sn' div 2)
             (NodeHash H node fr) (NodeHash H node sr) nodes
      else verify_loop H oldRoot newRoot (fn div 2) (sn div 2) fr (NodeHash H sr node) nodes)"

definition ConsistencyVerify ::
  "(bytes \<Rightarrow> bytes) \<Rightarrow> int \<Rightarrow> int \<Rightarrow> bytes \<Rightarrow> bytes \<Rightarrow> bytes list \<Rightarrow> bool" where
  "ConsistencyVerify H oldSize newSize oldRoot newRoot proof' \<longleftrightarrow>
     (if oldSize < 1 \<or> newSize < oldSize then False
      else if oldSize = newSize then length proof' = 0 \<and> oldRoot = newRoot
      else if length proof' = 0 then False
      else let nodes = (if oldSize AND (oldSize - 1) = 0 then [oldRoot] else []) @ proof';
               (fn, sn) = strip_ones (nat (oldSize - 1)) (nat (newSize - 1))
        in verify_loop H oldRoot newRoot fn sn (hd nodes) (hd nodes) (tl nodes))"

subsection \<open>The ranges of the proof nodes\<close>

record rng =
  From :: int
  To :: int

text \<open>
  \<open>ProofRanges\<close> takes sizes a bundle states, not sizes of slices, so the split loop is the one
  over 64-bit integers, and a call that never returns is \<open>None\<close>.
\<close>

partial_function (option) subranges :: "int \<Rightarrow> int \<Rightarrow> int \<Rightarrow> bool \<Rightarrow> rng list option" where
  "subranges oldSize start count oldTreeComplete =
     (if oldSize = count
      then (if oldTreeComplete then Some [] else Some [\<lparr>From = start, To = start + count\<rparr>])
      else Option.bind (SplitPoint count) (\<lambda>split.
        if oldSize \<le> split
        then Option.bind (subranges oldSize start split oldTreeComplete)
               (\<lambda>ranges. Some (ranges @ [\<lparr>From = start + split, To = start + count\<rparr>]))
        else Option.bind (subranges (oldSize - split) (start + split) (count - split) False)
               (\<lambda>ranges. Some (ranges @ [\<lparr>From = start, To = start + split\<rparr>]))))"

definition ProofRanges :: "int \<Rightarrow> int \<Rightarrow> (merkle_error + rng list) option" where
  "ProofRanges oldSize newSize =
     (if oldSize < 1 \<or> oldSize > newSize then Some (Inl ErrOldSizeOutOfRange)
      else if oldSize = newSize then Some (Inr [])
      else Option.bind (subranges oldSize 0 newSize True) (\<lambda>rs. Some (Inr rs)))"

subsection \<open>The streaming collector\<close>

record collector =
  cl_newSize :: int
  cl_ranges :: "rng list"
  cl_stacks :: "mstack list"
  cl_order :: "nat list"
  cl_cursor :: nat
  cl_count :: int

text \<open>The insertion sort of the range indexes by \<open>From\<close>, with the two loops of the source.\<close>

fun sift :: "rng list \<Rightarrow> nat list \<Rightarrow> nat \<Rightarrow> nat list" where
  "sift rs ord 0 = ord"
| "sift rs ord (Suc j) =
     (if From (rs ! (ord ! Suc j)) < From (rs ! (ord ! j))
      then sift rs (ord[Suc j := ord ! j, j := ord ! Suc j]) j
      else ord)"

definition sort_order :: "rng list \<Rightarrow> nat list \<Rightarrow> nat list" where
  "sort_order rs ord = foldl (sift rs) ord [1..<length ord]"

definition NewCollector :: "int \<Rightarrow> int \<Rightarrow> (merkle_error + collector) option" where
  "NewCollector oldSize newSize' =
     Option.bind (ProofRanges oldSize newSize') (\<lambda>r. Some (case r of
        Inl err \<Rightarrow> Inl err
      | Inr rs \<Rightarrow> Inr \<lparr>cl_newSize = newSize', cl_ranges = rs, cl_stacks = replicate (length rs) new_stack,
          cl_order = sort_order rs [0..<length rs], cl_cursor = 0, cl_count = 0\<rparr>))"

text \<open>The cursor loop of \<open>Append\<close>: past every range that ends at or before the leaf.\<close>

function advance :: "rng list \<Rightarrow> nat list \<Rightarrow> int \<Rightarrow> nat \<Rightarrow> nat" where
  "advance rs ord index cur =
     (if cur < length ord \<and> index \<ge> To (rs ! (ord ! cur))
      then advance rs ord index (Suc cur) else cur)"
  by pat_completeness auto
termination
  by (relation "measure (\<lambda>(rs, ord, index, cur). length ord - cur)") auto

declare advance.simps [simp del]

definition Collector_Append :: "(bytes \<Rightarrow> bytes) \<Rightarrow> bytes \<Rightarrow> collector \<Rightarrow> collector" where
  "Collector_Append H leafData c =
     (let index = cl_count c;
          cur = advance (cl_ranges c) (cl_order c) index (cl_cursor c);
          c' = c\<lparr>cl_count := index + 1, cl_cursor := cur\<rparr>
      in if cur \<ge> length (cl_order c) then c'
         else let j = cl_order c ! cur; r = cl_ranges c ! j
           in if index \<ge> From r \<and> index < To r
              then c'\<lparr>cl_stacks := (cl_stacks c)[j := Stack_Append H leafData (cl_stacks c ! j)]\<rparr>
              else c')"

fun collect_roots :: "(bytes \<Rightarrow> bytes) \<Rightarrow> mstack list \<Rightarrow> bytes list option" where
  "collect_roots H [] = Some []"
| "collect_roots H (s # ss) =
     (case Stack_Root H s of None \<Rightarrow> None
      | Some h \<Rightarrow> map_option ((#) h) (collect_roots H ss))"

definition Collector_Nodes :: "(bytes \<Rightarrow> bytes) \<Rightarrow> collector \<Rightarrow> merkle_error + bytes list" where
  "Collector_Nodes H c =
     (if cl_count c < cl_newSize c then Inl ErrIncomplete
      else case collect_roots H (cl_stacks c) of
        None \<Rightarrow> Inl ErrIncomplete
      | Some nodes \<Rightarrow> Inr nodes)"

end
