(* ===== verification/Merkle_Facts.thy ===== *)
theory Merkle_Facts
  imports Merkle
begin

text \<open>
  The Merkle library: the hash stack computes the recursive root (an invariant on the stack entries),
  the strings a root or an audit path hashes, and what an accepted audit path proves.
\<close>

subsection \<open>Strings hashed by a computation\<close>

text \<open>The exact strings handed to the hash function while a root or an audit path is computed.\<close>

function root_calls :: "(bytes \<Rightarrow> bytes) \<Rightarrow> bytes list \<Rightarrow> bytes set" where
  "root_calls H [] = {}"
| "root_calls H [x] = {0x00 # x}"
| "root_calls H (x # y # zs) =
     (let leaves = x # y # zs; split = split_point (length leaves)
      in insert (0x01 # root H (take split leaves) @ root H (drop split leaves))
           (root_calls H (take split leaves) \<union> root_calls H (drop split leaves)))"
  by pat_completeness auto
termination
proof (relation "measure (\<lambda>(H, xs). length xs)", goal_cases)
  case (2 H x y zs leaves split)
  then have "split < length leaves" using split_point_bounds [of "length leaves"] by simp
  with 2 show ?case by simp
next
  case (3 H x y zs leaves split)
  then have "0 < split" using split_point_bounds [of "length leaves"] by simp
  with 3 show ?case by simp
qed simp

declare root_calls.simps(3) [simp del]

lemma root_calls_pow_split:
  assumes "2 ^ k < length xs" "length xs \<le> 2 ^ Suc k"
  shows "root_calls H xs = insert (0x01 # root H (take (2 ^ k) xs) @ root H (drop (2 ^ k) xs))
           (root_calls H (take (2 ^ k) xs) \<union> root_calls H (drop (2 ^ k) xs))"
proof -
  have "1 \<le> (2::nat) ^ k" by simp
  with assms(1) have "1 < length xs" by linarith
  then obtain x y zs where "xs = x # y # zs"
    by (cases xs; cases "tl xs") auto
  with split_point_eq [OF assms] show ?thesis
    by (simp add: root_calls.simps(3) Let_def)
qed

fun audit_calls :: "(bytes \<Rightarrow> bytes) \<Rightarrow> bytes \<Rightarrow> step list \<Rightarrow> bytes set" where
  "audit_calls H c [] = {}"
| "audit_calls H c (st # path) =
     insert (if Left st then 0x01 # Sibling st @ c else 0x01 # c @ Sibling st)
       (audit_calls H (audit_step H c st) path)"

lemma audit_calls_append:
  "audit_calls H c (p @ q) = audit_calls H c p \<union> audit_calls H (foldl (audit_step H) c p) q"
  by (induction p arbitrary: c) auto

text \<open>A list longer than one splits at a power of two, into two non-empty halves.\<close>

lemma list_split_cases [consumes 1, case_names Single Split]:
  assumes "xs \<noteq> []"
  obtains (Single) x where "xs = [x]"
  | (Split) k where "2 ^ k < length xs" "length xs \<le> 2 ^ Suc k"
      "split_point (length xs) = 2 ^ k"
proof (cases "1 < length xs")
  case True
  obtain k where k: "split_point (length xs) = 2 ^ k" using split_point_power by blast
  with True that(2) split_point_bounds [OF True] show thesis by simp
next
  case False
  with assms that(1) show thesis by (cases xs) auto
qed

text \<open>The inclusion path of RFC 6962 section 2.1.1 for the leaf at an index, leaf to root.\<close>

function incl_path :: "(bytes \<Rightarrow> bytes) \<Rightarrow> bytes list \<Rightarrow> nat \<Rightarrow> step list" where
  "incl_path H xs i =
     (if length xs \<le> 1 then []
      else let k = split_point (length xs)
        in if i < k
           then incl_path H (take k xs) i @ [\<lparr>Sibling = root H (drop k xs), Left = False\<rparr>]
           else incl_path H (drop k xs) (i - k) @ [\<lparr>Sibling = root H (take k xs), Left = True\<rparr>])"
  by pat_completeness auto
termination
proof (relation "measure (\<lambda>(H, xs, i). length xs)", goal_cases)
  case (2 H xs i k)
  then have "k < length xs" using split_point_bounds [of "length xs"] by simp
  then show ?case by simp
next
  case (3 H xs i k)
  then have "0 < k" "\<not> length xs \<le> 1" using split_point_bounds [of "length xs"] by simp_all
  then show ?case by simp
qed simp

declare incl_path.simps [simp del]

context digest
begin

lemma length_LeafHash [simp]: "length (LeafHash H x) = 32"
  by (simp add: LeafHash_def length_H)

lemma length_NodeHash [simp]: "length (NodeHash H x y) = 32"
  by (simp add: NodeHash_def length_H)

lemma length_root [simp]: "xs \<noteq> [] \<Longrightarrow> length (root H xs) = 32"
  by (cases "(H, xs)" rule: root.cases) (auto simp: root.simps(3) Let_def)

lemma root_not_Nil [simp]: "xs \<noteq> [] \<Longrightarrow> root H xs \<noteq> []"
  using length_root by fastforce

text \<open>Two 64-byte node preimages with one 32-byte half agreeing in length agree in both halves.\<close>

lemma NodeHash_inj:
  assumes "inj_on H U" "0x01 # a @ b \<in> U" "0x01 # c @ d \<in> U"
    and "NodeHash H a b = NodeHash H c d"
  shows "a @ b = c @ d"
  using assms by (auto simp: NodeHash_def dest: inj_onD)

subsection \<open>The stack computes the root\<close>

lemma foldl_audit_length:
  "length c = 32 \<Longrightarrow> length (foldl (audit_step H) c path) = 32"
  by (induction path arbitrary: c) (auto simp: audit_step_def)

end

text \<open>
  The entries, top first, cover the leaves from the right: sizes are powers of two, strictly
  growing downwards, and each entry holds the root of its own segment.
\<close>

fun stack_inv :: "(bytes \<Rightarrow> bytes) \<Rightarrow> stack_entry list \<Rightarrow> bytes list \<Rightarrow> bool" where
  "stack_inv H [] xs \<longleftrightarrow> xs = []"
| "stack_inv H (e # es) xs \<longleftrightarrow>
     (\<exists>ys zs k. xs = ys @ zs \<and> length zs = 2 ^ k \<and> se_size e = 2 ^ k \<and> se_hash e = root H zs \<and>
        (\<forall>e' \<in> set es. 2 ^ k < se_size e') \<and> stack_inv H es ys)"

lemma stack_inv_pow: "stack_inv H es xs \<Longrightarrow> e \<in> set es \<Longrightarrow> \<exists>k. se_size e = 2 ^ k"
  by (induction es arbitrary: xs) auto

lemma root_append_pow:
  assumes "length ys = 2 ^ k" "0 < length zs" "length zs \<le> 2 ^ k"
  shows "root H (ys @ zs) = NodeHash H (root H ys) (root H zs)"
  using root_pow_split [of k "ys @ zs" H] assms by simp

lemma merge_top_inv:
  assumes "stack_inv H es ys" "length zs = 2 ^ k"
    and "\<forall>e' \<in> set es. 2 ^ k \<le> se_size e'"
  shows "stack_inv H (merge_top H (\<lparr>se_size = 2 ^ k, se_hash = root H zs\<rparr> # es)) (ys @ zs)"
  using assms
proof (induction es arbitrary: ys zs k)
  case Nil
  then show ?case by auto
next
  case (Cons e es)
  from Cons.prems(1) obtain us vs j where ys: "ys = us @ vs" and vs: "length vs = 2 ^ j"
    and e: "se_size e = 2 ^ j" "se_hash e = root H vs"
    and big: "\<forall>e' \<in> set es. 2 ^ j < se_size e'" and inv: "stack_inv H es us"
    by auto
  show ?case
  proof (cases "se_size e = 2 ^ k")
    case True
    with e have [simp]: "j = k" by simp
    have "\<forall>e' \<in> set es. 2 ^ Suc k \<le> se_size e'"
    proof
      fix e' assume e': "e' \<in> set es"
      with inv obtain i where i: "se_size e' = 2 ^ i" using stack_inv_pow by blast
      with big e' have "(2::nat) ^ k < 2 ^ i" by auto
      then have "k < i" by simp
      with i show "2 ^ Suc k \<le> se_size e'" by (simp del: power_Suc add: Suc_leI)
    qed
    with inv Cons.IH [of us "vs @ zs" "Suc k"] vs Cons.prems(2)
    have "stack_inv H (merge_top H (\<lparr>se_size = 2 ^ Suc k, se_hash = root H (vs @ zs)\<rparr> # es)) (us @ vs @ zs)"
      by simp
    moreover have "root H (vs @ zs) = NodeHash H (se_hash e) (root H zs)"
      using root_append_pow [of vs k zs] vs Cons.prems(2) e by simp
    ultimately show ?thesis using True ys by (simp add: mult.commute)
  next
    case False
    with Cons.prems(3) e have lt: "(2::nat) ^ k < 2 ^ j" by (auto simp: le_less)
    have all: "\<forall>e' \<in> set (e # es). 2 ^ k < se_size e'"
      by (metis big e(1) lt order.strict_trans set_ConsD)
    have "stack_inv H (\<lparr>se_size = 2 ^ k, se_hash = root H zs\<rparr> # e # es) (ys @ zs)"
      by (subst stack_inv.simps(2), intro exI [of _ ys] exI [of _ zs] exI [of _ k])
        (use all Cons.prems(1,2) in \<open>simp del: stack_inv.simps\<close>)
    with False show ?thesis by simp
  qed
qed

lemma Stack_Append_inv:
  assumes "stack_inv H (entries s) xs"
  shows "stack_inv H (entries (Stack_Append H x s)) (xs @ [x])"
proof -
  have "\<forall>e \<in> set (entries s). 2 ^ 0 \<le> se_size e"
    using stack_inv_pow [OF assms] by fastforce
  with merge_top_inv [OF assms, of "[x]" 0] show ?thesis
    by (simp add: Stack_Append_def)
qed

lemma fold_Stack_Append:
  "stack_inv H (entries s) xs \<Longrightarrow>
   stack_inv H (entries (fold (Stack_Append H) ys s)) (xs @ ys) \<and>
   scount (fold (Stack_Append H) ys s) = scount s + length ys"
proof (induction ys arbitrary: s xs)
  case (Cons y ys)
  from Cons.IH [OF Stack_Append_inv [OF Cons.prems, of y]] show ?case
    by (simp add: Stack_Append_def)
qed simp

context digest
begin

lemma foldl_root_step:
  assumes "stack_inv H es ys" "0 < length zs" "\<forall>e \<in> set es. length zs \<le> se_size e"
  shows "foldl (root_step H) (root H zs) es = root H (ys @ zs)"
  using assms
proof (induction es arbitrary: ys zs)
  case (Cons e es)
  from Cons.prems(1) obtain us vs j where ys: "ys = us @ vs" and vs: "length vs = 2 ^ j"
    and e: "se_size e = 2 ^ j" "se_hash e = root H vs"
    and big: "\<forall>e' \<in> set es. 2 ^ j < se_size e'" and inv: "stack_inv H es us"
    by auto
  have le: "length zs \<le> 2 ^ j" using Cons.prems(3) e by simp
  have "root_step H (root H zs) e = root H (vs @ zs)"
    using Cons.prems(2) e vs le by (simp add: root_step_def root_append_pow)
  moreover have "\<forall>e' \<in> set es. length (vs @ zs) \<le> se_size e'"
  proof
    fix e' assume e': "e' \<in> set es"
    with inv obtain i where i: "se_size e' = 2 ^ i" using stack_inv_pow by blast
    with big e' have "(2::nat) ^ j < 2 ^ i" by auto
    then have "Suc j \<le> i" by simp
    then have "(2::nat) ^ Suc j \<le> 2 ^ i" by (rule power_increasing) simp
    with i vs le show "length (vs @ zs) \<le> se_size e'" by simp
  qed
  ultimately show ?case
    using Cons.IH [OF inv, of "vs @ zs"] Cons.prems(2) ys by simp
qed auto

lemma Stack_Root_eq:
  assumes "stack_inv H (entries s) xs"
  shows "Stack_Root H s = (if xs = [] then None else Some (root H xs))"
proof (cases "entries s")
  case Nil
  with assms show ?thesis by (simp add: Stack_Root_def)
next
  case (Cons e es)
  with assms obtain ys zs k where "xs = ys @ zs" "length zs = 2 ^ k"
    "se_size e = 2 ^ k" "se_hash e = root H zs"
    "\<forall>e' \<in> set es. 2 ^ k < se_size e'" "stack_inv H es ys"
    by auto
  moreover from this have "0 < length zs" by simp
  ultimately show ?thesis
    using foldl_root_step [of es ys zs] Cons by (auto simp: Stack_Root_def root_step_def less_imp_le)
qed

end

text \<open>
  The contract the checkpoint walk and the consistency collector rely on: something that absorbs
  leaves one at a time and yields a value determined by the leaves absorbed since it was new.
\<close>

locale leaf_accumulator =
  fixes empty :: "'s" and absorb :: "bytes \<Rightarrow> 's \<Rightarrow> 's"
    and result :: "'s \<Rightarrow> bytes option" and reset :: "'s \<Rightarrow> 's"
    and spec :: "bytes list \<Rightarrow> bytes"
  assumes result_fold: "result (fold absorb xs empty) = (if xs = [] then None else Some (spec xs))"
    and reset_empty: "reset s = empty"
begin

lemma result_after_reset:
  "result (fold absorb ys (reset (fold absorb xs empty))) = (if ys = [] then None else Some (spec ys))"
  by (simp add: reset_empty result_fold)

lemma result_snoc: "result (absorb x (fold absorb xs empty)) = Some (spec (xs @ [x]))"
  using result_fold [of "xs @ [x]"] by simp

end

sublocale digest \<subseteq> stk: leaf_accumulator new_stack "Stack_Append H" "Stack_Root H" Stack_Reset "root H"
proof unfold_locales
  fix xs
  have "stack_inv H (entries new_stack) []" by (simp add: new_stack_def)
  from fold_Stack_Append [OF this, of xs]
  show "Stack_Root H (fold (Stack_Append H) xs new_stack) = (if xs = [] then None else Some (root H xs))"
    by (simp add: Stack_Root_eq)
next
  fix s show "Stack_Reset s = new_stack" by (simp add: Stack_Reset_def new_stack_def)
qed

subsection \<open>Audit paths\<close>

context digest
begin

lemma AuditPath_incl_path:
  "i < length xs \<Longrightarrow> AuditPath H (xs ! i) (incl_path H xs i) = root H xs"
proof (induction H xs i rule: incl_path.induct)
  case (1 K xs i)
  show ?case
  proof (cases "length xs \<le> 1")
    case True
    with 1(3) obtain x where "xs = [x]" by (cases xs) auto
    with 1(3) show ?thesis by (simp add: incl_path.simps AuditPath_def)
  next
    case False
    define k where "k = split_point (length xs)"
    note k = split_point_bounds [of "length xs", folded k_def] root_split [of xs K, folded k_def]
    show ?thesis
    proof (cases "i < k")
      case True
      with 1(1) False k have "AuditPath K (take k xs ! i) (incl_path K (take k xs) i) = root K (take k xs)"
        by (simp add: k_def)
      with True False k show ?thesis
        by (subst incl_path.simps) (simp add: AuditPath_def audit_step_def k_def [symmetric])
    next
      case ge: False
      with 1(2,3) False k have "AuditPath K (drop k xs ! (i - k)) (incl_path K (drop k xs) (i - k)) = root K (drop k xs)"
        by (simp add: k_def)
      with ge False k 1(3) show ?thesis
        by (subst incl_path.simps) (simp add: AuditPath_def audit_step_def k_def [symmetric])
    qed
  qed
qed

lemma AuditPath_sound:
  assumes inj: "inj_on H U" and "xs \<noteq> []" "root_calls H xs \<subseteq> U"
    and "insert (0x00 # e) (audit_calls H (LeafHash H e) path) \<subseteq> U"
    and "AuditPath H e path = root H xs"
  shows "\<exists>i < length xs. e = xs ! i \<and> path = incl_path H xs i"
  using assms(2-)
proof (induction path arbitrary: xs rule: rev_induct)
  case Nil
  from Nil(1) show ?case
  proof (cases rule: list_split_cases)
    case (Single x)
    with Nil inj show ?thesis
      by (auto simp: AuditPath_def LeafHash_def incl_path.simps dest: inj_onD)
  next
    case (Split k)
    with root_pow_split [of k xs H] root_calls_pow_split [of k xs H] Nil
    have "H (0x00 # e) = H (0x01 # root H (take (2 ^ k) xs) @ root H (drop (2 ^ k) xs))"
      and "0x01 # root H (take (2 ^ k) xs) @ root H (drop (2 ^ k) xs) \<in> U" "0x00 # e \<in> U"
      by (auto simp: AuditPath_def LeafHash_def NodeHash_def)
    with inj show ?thesis by (auto dest: inj_onD)
  qed
next
  case (snoc st path)
  define c where "c = foldl (audit_step H) (LeafHash H e) path"
  have len: "length c = 32" unfolding c_def by (rule foldl_audit_length) simp
  have pre: "(if Left st then 0x01 # Sibling st @ c else 0x01 # c @ Sibling st) \<in> U"
    using snoc.prems(3) by (auto simp: audit_calls_append c_def)
  have eq: "H (if Left st then 0x01 # Sibling st @ c else 0x01 # c @ Sibling st) = root H xs"
    using snoc.prems(4) by (auto simp: AuditPath_def c_def audit_step_def NodeHash_def)
  from snoc.prems(1) show ?case
  proof (cases rule: list_split_cases)
    case (Single x)
    let ?p = "if Left st then 0x01 # Sibling st @ c else 0x01 # c @ Sibling st"
    have "H ?p = H (0x00 # x)" "0x00 # x \<in> U"
      using eq snoc.prems(2) Single by (simp_all add: LeafHash_def)
    with inj pre have "?p = 0x00 # x" by (blast dest: inj_onD)
    then show ?thesis by (simp split: if_splits)
  next
    case (Split k)
    let ?l = "take (2 ^ k) xs" and ?r = "drop (2 ^ k) xs"
    have ne: "?l \<noteq> []" "?r \<noteq> []" using Split by auto
    have sub: "root_calls H ?l \<subseteq> U" "root_calls H ?r \<subseteq> U" "0x01 # root H ?l @ root H ?r \<in> U"
      using snoc.prems(2) root_calls_pow_split [of k xs H] Split by auto
    from eq root_pow_split [of k xs H] Split
    have "H (if Left st then 0x01 # Sibling st @ c else 0x01 # c @ Sibling st)
        = H (0x01 # root H ?l @ root H ?r)" by (simp add: NodeHash_def)
    then have both: "(if Left st then 0x01 # Sibling st @ c else 0x01 # c @ Sibling st)
        = 0x01 # root H ?l @ root H ?r" using inj pre sub(3) by (blast dest: inj_onD)
    have calls: "insert (0x00 # e) (audit_calls H (LeafHash H e) path) \<subseteq> U"
      using snoc.prems(3) by (auto simp: audit_calls_append)
    show ?thesis
    proof (cases "Left st")
      case True
      with both len ne have st: "Sibling st = root H ?l" and c: "c = root H ?r"
        by (auto simp: append_eq_append_conv)
      have "AuditPath H e path = root H ?r" using c by (simp add: AuditPath_def c_def)
      from snoc.IH [OF ne(2) sub(2) calls this] obtain i
        where i: "i < length ?r" "e = ?r ! i" "path = incl_path H ?r i" by blast
      have "incl_path H xs (2 ^ k + i) = path @ [st]"
        using Split i(3) st True by (subst incl_path.simps) (cases st, simp add: Let_def)
      with i Split show ?thesis by (intro exI [of _ "2 ^ k + i"]) auto
    next
      case False
      with both len ne have st: "Sibling st = root H ?r" and c: "c = root H ?l"
        by (auto simp: append_eq_append_conv)
      have "AuditPath H e path = root H ?l" using c by (simp add: AuditPath_def c_def)
      from snoc.IH [OF ne(1) sub(1) calls this] obtain i
        where i: "i < length ?l" "e = ?l ! i" "path = incl_path H ?l i" by blast
      have "incl_path H xs i = path @ [st]"
        using Split i(1,3) st False by (subst incl_path.simps) (cases st, simp add: Let_def)
      with i Split show ?thesis by (intro exI [of _ i]) auto
    qed
  qed
qed

end

end
