(* ===== verification/Consistency_Facts.thy ===== *)
theory Consistency_Facts
  imports Consistency Merkle_Facts
begin

text \<open>
  Consistency proofs are sound and complete. Both directions rest on the roots of the aligned
  blocks of a leaf list: \<open>block xs L i\<close> is the \<open>i\<close>-th block of \<open>2^L\<close> leaves, and at level
  \<open>L\<close> of its loop \<open>ConsistencyVerify\<close> holds the root of the block of the old and of the new tree
  in which the last old leaf lies.
\<close>

subsection \<open>Aligned blocks\<close>

definition block :: "'a list \<Rightarrow> nat \<Rightarrow> nat \<Rightarrow> 'a list" where
  "block xs L i = take (2 ^ L) (drop (i * 2 ^ L) xs)"

lemma block_nonempty: "i * 2 ^ L < length xs \<Longrightarrow> block xs L i \<noteq> []"
  by (simp add: block_def)

lemma length_block_full: "(i + 1) * 2 ^ L \<le> length xs \<Longrightarrow> length (block xs L i) = 2 ^ L"
  by (simp add: block_def)

lemma block_pair: "block xs (Suc L) i = block xs L (2 * i) @ block xs L (2 * i + 1)"
proof -
  have "take (2 ^ L + 2 ^ L) (drop (i * 2 ^ Suc L) xs)
      = take (2 ^ L) (drop (i * 2 ^ Suc L) xs) @ take (2 ^ L) (drop (2 ^ L) (drop (i * 2 ^ Suc L) xs))"
    by (rule take_add)
  then show ?thesis by (simp add: block_def mult_2 algebra_simps)
qed

lemma block_right_empty:
  "length xs \<le> (2 * i + 1) * 2 ^ L \<Longrightarrow> block xs (Suc L) i = block xs L (2 * i)"
  by (simp add: block_pair) (simp add: block_def)

lemma block_zero: "length xs \<le> 2 ^ L \<Longrightarrow> block xs L 0 = xs"
  by (simp add: block_def)

lemma block_tail: "length xs \<le> (i + 1) * 2 ^ L \<Longrightarrow> block xs L i = drop (i * 2 ^ L) xs"
  by (simp add: block_def algebra_simps)

lemma take_block: "take (i * 2 ^ L) xs @ block xs L i = take ((i + 1) * 2 ^ L) xs"
  by (simp add: block_def flip: take_add) (simp add: add.commute)

lemma block_take: "(i + 1) * 2 ^ L \<le> m \<Longrightarrow> block (take m xs) L i = block xs L i"
  by (simp add: block_def take_drop min_def algebra_simps)

lemma block_drop: "L \<le> K \<Longrightarrow> block (drop (2 ^ K) xs) L i = block xs L (i + 2 ^ (K - L))"
proof -
  assume "L \<le> K"
  then have "(2::nat) ^ (K - L) * 2 ^ L = 2 ^ K" by (simp flip: power_add)
  then show ?thesis by (simp add: block_def algebra_simps)
qed

lemma block_skip:
  assumes "f * 2 ^ (L + j) = fn * 2 ^ L" "length xs \<le> (fn + 1) * 2 ^ L"
  shows "block xs (L + j) f = block xs L fn"
proof -
  have "(2::nat) ^ L \<le> 2 ^ (L + j)" by (rule power_increasing) simp_all
  then have "length xs \<le> (f + 1) * 2 ^ (L + j)"
    using assms by (simp add: add_mult_distrib del: power_increasing_iff)
  with assms show ?thesis by (simp add: block_tail)
qed

lemma div_mult_pred:
  assumes "0 < d" "0 < q"
  shows "(q * d - 1) div d = q - (1::nat)"
proof -
  obtain r where r: "q = Suc r" using assms(2) by (cases q) auto
  have "Suc r * d - 1 = (d - 1) + r * d" using assms(1) by simp
  moreover have "((d - 1) + r * d) div d = r + (d - 1) div d"
    using assms(1) by (intro div_mult_self1) simp
  moreover have "(d - 1) div d = 0" using assms(1) by simp
  ultimately have e: "(Suc r * d - 1) div d = r" by (simp only: add_0_right)
  show ?thesis unfolding r e by simp
qed

lemma root_block_pair:
  assumes "(2 * i + 1) * 2 ^ L < length xs"
  shows "root H (block xs (Suc L) i) = NodeHash H (root H (block xs L (2 * i))) (root H (block xs L (2 * i + 1)))"
proof -
  have "length (block xs L (2 * i)) = 2 ^ L" using assms by (intro length_block_full) simp
  moreover have "0 < length (block xs L (2 * i + 1))"
    using block_nonempty [of "2 * i + 1" L xs] assms by simp
  moreover have "length (block xs L (2 * i + 1)) \<le> 2 ^ L" by (simp add: block_def)
  ultimately show ?thesis by (simp add: block_pair root_append_pow)
qed

lemma root_calls_block_pair:
  assumes "(2 * i + 1) * 2 ^ L < length xs"
  shows "root_calls H (block xs (Suc L) i) =
    insert (0x01 # root H (block xs L (2 * i)) @ root H (block xs L (2 * i + 1)))
      (root_calls H (block xs L (2 * i)) \<union> root_calls H (block xs L (2 * i + 1)))"
proof -
  have l: "length (block xs L (2 * i)) = 2 ^ L" using assms by (intro length_block_full) simp
  moreover have "0 < length (block xs L (2 * i + 1))"
    using block_nonempty [of "2 * i + 1" L xs] assms by simp
  moreover have "length (block xs L (2 * i + 1)) \<le> 2 ^ L" by (simp add: block_def)
  ultimately show ?thesis
    using root_calls_pow_split [of L "block xs (Suc L) i" H] by (simp add: block_pair)
qed

lemma root_calls_block_parent:
  "root_calls H (block xs L i) \<subseteq> root_calls H (block xs (Suc L) (i div 2))"
proof (cases "(2 * (i div 2) + 1) * 2 ^ L < length xs")
  case True
  from root_calls_block_pair [OF this, of H] show ?thesis
    by (cases "even i") auto
next
  case False
  then show ?thesis
    using block_right_empty [of xs "i div 2" L]
    by (cases "even i") (auto simp: block_def)
qed

lemma root_calls_block: "root_calls H (block xs L i) \<subseteq> root_calls H xs"
proof -
  have up: "root_calls H (block xs L i) \<subseteq> root_calls H (block xs (L + d) (i div 2 ^ d))" for d
  proof (induction d)
    case (Suc d)
    with root_calls_block_parent [of H xs "L + d" "i div 2 ^ d"] show ?case
      by (simp add: div_mult2_eq [symmetric] mult.commute)
  qed simp
  obtain d where d: "length xs + i < 2 ^ d"
    using less_exp by blast
  have "(2::nat) ^ d \<le> 2 ^ (L + d)" by (rule power_increasing) simp_all
  with d have "length xs \<le> 2 ^ (L + d)" by linarith
  moreover from d have "i div 2 ^ d = 0" by simp
  ultimately show ?thesis using up [of d] by (simp add: block_zero)
qed

context digest
begin

lemma root_inj:
  assumes "inj_on H U" "root_calls H xs \<subseteq> U" "root_calls H ys \<subseteq> U"
    and "length xs = length ys" "root H xs = root H ys"
  shows "xs = ys"
  using assms(2-)
proof (induction "length xs" arbitrary: xs ys rule: less_induct)
  case less
  show ?case
  proof (cases "xs = []")
    case False
    then show ?thesis
    proof (cases rule: list_split_cases)
      case (Single x)
      with less.prems obtain y where "ys = [y]" by (cases ys) auto
      with Single less.prems assms(1) show ?thesis
        by (auto simp: LeafHash_def dest: inj_onD)
    next
      case (Split k)
      let ?l = "take (2 ^ k)" and ?r = "drop (2 ^ k)"
      note n = Split(1,2) Split(1,2) [unfolded less.prems(3)]
      have ne: "?l xs \<noteq> []" "?r xs \<noteq> []" "?l ys \<noteq> []" "?r ys \<noteq> []" using n by auto
      have "NodeHash H (root H (?l xs)) (root H (?r xs)) = NodeHash H (root H (?l ys)) (root H (?r ys))"
        using less.prems(4) root_pow_split [of k xs H] root_pow_split [of k ys H] n by simp
      moreover have sub: "root_calls H (?l xs) \<subseteq> U" "root_calls H (?r xs) \<subseteq> U"
          "root_calls H (?l ys) \<subseteq> U" "root_calls H (?r ys) \<subseteq> U"
          "0x01 # root H (?l xs) @ root H (?r xs) \<in> U" "0x01 # root H (?l ys) @ root H (?r ys) \<in> U"
        using less.prems(1,2) root_calls_pow_split [of k xs H] root_calls_pow_split [of k ys H] n
        by simp_all
      ultimately have "root H (?l xs) @ root H (?r xs) = root H (?l ys) @ root H (?r ys)"
        by (intro NodeHash_inj [OF assms(1)])
      then have "root H (?l xs) = root H (?l ys)" "root H (?r xs) = root H (?r ys)"
        using ne by simp_all
      then have "?l xs = ?l ys" "?r xs = ?r ys"
        using n sub less.prems(3) by (auto intro!: less.hyps)
      then show ?thesis by (metis append_take_drop_id)
    qed
  qed (use less.prems in simp)
qed

lemma block_inj:
  assumes "inj_on H U" "root_calls H xs \<subseteq> U" "root_calls H ys \<subseteq> U"
    and "(i + 1) * 2 ^ L \<le> length xs" "(i + 1) * 2 ^ L \<le> length ys"
    and "root H (block xs L i) = root H (block ys L i)"
  shows "block xs L i = block ys L i"
proof (rule root_inj [OF assms(1) _ _ _ assms(6)])
  show "root_calls H (block xs L i) \<subseteq> U" "root_calls H (block ys L i) \<subseteq> U"
    using assms(2,3) root_calls_block by blast+
  show "length (block xs L i) = length (block ys L i)"
    using length_block_full [OF assms(4)] length_block_full [OF assms(5)] by simp
qed

text \<open>Reading a node hash as the two child roots when one half has the length of a digest.\<close>

lemma NodeHash_root_parts:
  assumes "inj_on H U" "0x01 # a @ b \<in> U" "root_calls H xs \<subseteq> U"
    and "NodeHash H a b = root H (block xs (Suc L) i)" "(2 * i + 1) * 2 ^ L < length xs"
    and "length a = 32 \<or> length b = 32"
  shows "a = root H (block xs L (2 * i)) \<and> b = root H (block xs L (2 * i + 1))"
proof -
  have ne: "block xs L (2 * i) \<noteq> []" "block xs L (2 * i + 1) \<noteq> []"
    using block_nonempty [of "2 * i" L xs] block_nonempty [of "2 * i + 1" L xs] assms(5)
    by (simp_all add: add_mult_distrib)
  have "0x01 # root H (block xs L (2 * i)) @ root H (block xs L (2 * i + 1)) \<in> U"
    using root_calls_block_pair [OF assms(5), of H] root_calls_block [of H xs "Suc L" i] assms(3) by blast
  with assms(1,2,4) root_block_pair [OF assms(5), of H]
  have "a @ b = root H (block xs L (2 * i)) @ root H (block xs L (2 * i + 1))"
    using NodeHash_inj by metis
  moreover from arg_cong [OF this, of length] ne assms(6) have "length a = 32" by auto
  ultimately show ?thesis using ne by simp
qed

end

subsection \<open>The three loops\<close>

lemma strip_ones_odd: "odd fn \<Longrightarrow> strip_ones fn sn = strip_ones (fn div 2) (sn div 2)"
  and strip_ones_even: "even fn \<Longrightarrow> strip_ones fn sn = (fn, sn)"
  by (simp_all add: strip_ones.simps [of fn sn])

lemma skip_zeros_even: "fn \<noteq> 0 \<Longrightarrow> even fn \<Longrightarrow> skip_zeros fn sn = skip_zeros (fn div 2) (sn div 2)"
  and skip_zeros_stop: "fn = 0 \<or> odd fn \<Longrightarrow> skip_zeros fn sn = (fn, sn)"
  by (auto simp: skip_zeros.simps [of fn sn])

lemma strip_ones_spec:
  "\<exists>L. strip_ones fn sn = (fn div 2 ^ L, sn div 2 ^ L) \<and> even (fn div 2 ^ L) \<and>
     fn + 1 = (fn div 2 ^ L + 1) * 2 ^ L"
proof (induction fn sn rule: strip_ones.induct)
  case (1 fn sn)
  show ?case
  proof (cases "odd fn")
    case True
    with 1 obtain L where L: "strip_ones (fn div 2) (sn div 2) = (fn div 2 div 2 ^ L, sn div 2 div 2 ^ L)"
      "even (fn div 2 div 2 ^ L)" "fn div 2 + 1 = (fn div 2 div 2 ^ L + 1) * 2 ^ L"
      by blast
    from True have "fn + 1 = 2 * (fn div 2 + 1)" by presburger
    with L True show ?thesis
      by (intro exI [of _ "Suc L"]) (simp add: strip_ones_odd div_mult2_eq)
  next
    case False
    then show ?thesis by (intro exI [of _ 0]) (simp add: strip_ones_even)
  qed
qed

lemma skip_zeros_spec:
  "fn \<noteq> 0 \<Longrightarrow> \<exists>j. skip_zeros fn sn = (fn div 2 ^ j, sn div 2 ^ j) \<and> odd (fn div 2 ^ j) \<and>
     fn = fn div 2 ^ j * 2 ^ j"
proof (induction fn sn rule: skip_zeros.induct)
  case (1 fn sn)
  show ?case
  proof (cases "even fn")
    case True
    with 1 have "fn div 2 \<noteq> 0" by auto
    with 1 True obtain j where j: "skip_zeros (fn div 2) (sn div 2) = (fn div 2 div 2 ^ j, sn div 2 div 2 ^ j)"
      "odd (fn div 2 div 2 ^ j)" "fn div 2 = fn div 2 div 2 ^ j * 2 ^ j"
      by blast
    from True have "fn = 2 * (fn div 2)" by simp
    also from j(3) have "\<dots> = fn div 2 ^ Suc j * 2 ^ Suc j"
      by (simp add: div_mult2_eq)
    finally have "fn = fn div 2 ^ Suc j * 2 ^ Suc j" .
    with j(1,2) True 1(2) show ?thesis
      by (intro exI [of _ "Suc j"]) (simp add: skip_zeros_even div_mult2_eq)
  next
    case False
    then show ?thesis by (intro exI [of _ 0]) (simp add: skip_zeros_stop)
  qed
qed

text \<open>The power-of-two test: a size is \<open>(2 a + 1) * 2^L\<close>, and the mask keeps \<open>2 a * 2^L\<close>.\<close>

lemma int_and_pred_even: "(2 * y) AND (2 * y - 1) = 2 * (y AND (y - 1))" for y :: int
proof -
  have "(2 * y - 1) div 2 = y - 1" by presburger
  then show ?thesis by (subst and_rec) simp
qed

lemma int_and_pred: "((2 * a + 1) * 2 ^ L) AND ((2 * a + 1) * 2 ^ L - 1) = 2 * a * 2 ^ L" for a :: int
proof (induction L)
  case 0
  show ?case by (simp add: and_rec [of "2 * a + 1"])
next
  case (Suc L)
  then show ?case
    using int_and_pred_even [of "(2 * a + 1) * 2 ^ L"] by (simp add: algebra_simps)
qed

lemma pow2_test:
  assumes "m = (fn + 1) * 2 ^ L" "even fn"
  shows "int m AND (int m - 1) = 0 \<longleftrightarrow> fn = 0"
proof -
  obtain a where "fn = 2 * a" using assms(2) by (rule evenE)
  with assms(1) have "int m = (2 * int a + 1) * 2 ^ L" by (simp add: algebra_simps)
  with int_and_pred [of "int a" L] \<open>fn = 2 * a\<close> show ?thesis by simp
qed

lemma ConsistencyVerify_loop:
  assumes "0 < m" "m < n" "proof' \<noteq> []"
    and "strip_ones (m - 1) (n - 1) = (fn, sn)"
    and "nodes = (if int m AND (int m - 1) = 0 then [oldRoot] else []) @ proof'"
  shows "ConsistencyVerify H (int m) (int n) oldRoot newRoot proof' \<longleftrightarrow>
    verify_loop H oldRoot newRoot fn sn (hd nodes) (hd nodes) (tl nodes)"
proof -
  have "nat (int m - 1) = m - 1" "nat (int n - 1) = n - 1" by simp_all
  with assms(4) have "strip_ones (nat (int m - 1)) (nat (int n - 1)) = (fn, sn)" by simp
  moreover have "\<not> (int m < 1 \<or> int n < int m)" "int m \<noteq> int n" "length proof' \<noteq> 0"
    using assms(1-3) by simp_all
  ultimately show ?thesis
    unfolding ConsistencyVerify_def Let_def assms(5) [symmetric]
    by (simp only: if_False case_prod_conv)
qed

subsection \<open>Strings hashed by the verification\<close>

fun verify_calls :: "(bytes \<Rightarrow> bytes) \<Rightarrow> nat \<Rightarrow> nat \<Rightarrow> bytes \<Rightarrow> bytes \<Rightarrow> bytes list \<Rightarrow> bytes set" where
  "verify_calls H fn sn fr sr [] = {}"
| "verify_calls H fn sn fr sr (node # nodes) =
     (if sn = 0 then {}
      else if odd fn \<or> fn = sn
      then let (fn', sn') = skip_zeros fn sn
        in {0x01 # node @ fr, 0x01 # node @ sr} \<union>
           verify_calls H (fn' div 2) (sn' div 2) (NodeHash H node fr) (NodeHash H node sr) nodes
      else insert (0x01 # sr @ node)
             (verify_calls H (fn div 2) (sn div 2) fr (NodeHash H sr node) nodes))"

definition consistency_calls ::
  "(bytes \<Rightarrow> bytes) \<Rightarrow> int \<Rightarrow> int \<Rightarrow> bytes \<Rightarrow> bytes list \<Rightarrow> bytes set" where
  "consistency_calls H oldSize newSize oldRoot proof' =
     (let nodes = (if oldSize AND (oldSize - 1) = 0 then [oldRoot] else []) @ proof';
          (fn, sn) = strip_ones (nat (oldSize - 1)) (nat (newSize - 1))
      in verify_calls H fn sn (hd nodes) (hd nodes) (tl nodes))"

subsection \<open>Soundness\<close>

context digest
begin

text \<open>
  One combining iteration, with \<open>f\<close> the odd index the loop skips to: the blocks one level up agree
  with what the iteration hashes, so the two running hashes are the roots of the blocks below.
\<close>

lemma combine_sound:
  assumes inj: "inj_on H U" and subs: "root_calls H xs \<subseteq> U" "root_calls H ys \<subseteq> U"
    and pre: "0x01 # node @ fr \<in> U" "0x01 # node @ sr \<in> U"
    and lens: "length sr = 32" "length xs \<le> length ys"
    and f: "odd f" "f * 2 ^ M < length xs"
    and fr: "NodeHash H node fr = root H (block xs (Suc M) (f div 2))"
    and sr: "NodeHash H node sr = root H (block ys (Suc M) (f div 2))"
    and prefix: "take (f div 2 * 2 ^ Suc M) xs = take (f div 2 * 2 ^ Suc M) ys"
  shows "length fr = 32 \<and> fr = root H (block xs M f) \<and> sr = root H (block ys M f) \<and>
    take (f * 2 ^ M) xs = take (f * 2 ^ M) ys"
proof -
  define g where "g = f div 2"
  have f2: "f = 2 * g + 1" using f(1) by (simp add: g_def)
  have lt: "(2 * g + 1) * 2 ^ M < length xs" "(2 * g + 1) * 2 ^ M < length ys"
    using f(2) lens(2) by (simp_all add: f2)
  have s: "node = root H (block ys M (2 * g)) \<and> sr = root H (block ys M (2 * g + 1))"
    using NodeHash_root_parts [OF inj pre(2) subs(2) sr [folded g_def] lt(2)] lens(1) by simp
  have ne: "block ys M (2 * g) \<noteq> []" "block xs M (2 * g + 1) \<noteq> []"
    using block_nonempty [of "2 * g" M ys] block_nonempty [of "2 * g + 1" M xs] lt
    by (simp_all add: add_mult_distrib)
  have r: "node = root H (block xs M (2 * g)) \<and> fr = root H (block xs M (2 * g + 1))"
    using NodeHash_root_parts [OF inj pre(1) subs(1) fr [folded g_def] lt(1)] s ne(1) by simp
  have "block xs M (2 * g) = block ys M (2 * g)"
    using lt s r by (intro block_inj [OF inj subs]) (simp_all add: add_mult_distrib)
  moreover have "take (2 * g * 2 ^ M) xs = take (2 * g * 2 ^ M) ys"
    using prefix by (simp add: g_def [symmetric] ac_simps)
  ultimately have "take (f * 2 ^ M) xs = take (f * 2 ^ M) ys"
    using take_block [of "2 * g" M xs] take_block [of "2 * g" M ys] by (simp add: f2)
  with r s ne(2) show ?thesis by (simp add: f2)
qed

lemma verify_loop_sound:
  assumes inj: "inj_on H U" and subs: "root_calls H xs \<subseteq> U" "root_calls H ys \<subseteq> U"
    and mn: "xs \<noteq> []" "length xs \<le> length ys"
    and "verify_loop H (root H xs) (root H ys) fn sn fr sr nodes"
    and "verify_calls H fn sn fr sr nodes \<subseteq> U"
    and "fn = (length xs - 1) div 2 ^ L" "sn = (length ys - 1) div 2 ^ L" "length sr = 32"
  shows "length fr = 32 \<and> fr = root H (block xs L fn) \<and> sr = root H (block ys L fn) \<and>
    take (fn * 2 ^ L) xs = take (fn * 2 ^ L) ys"
  using assms(6-)
proof (induction nodes arbitrary: fn sn fr sr L)
  case Nil
  from Nil.prems have sn0: "sn = 0" and r: "fr = root H xs" "sr = root H ys" by simp_all
  with Nil.prems(4) have ny: "length ys \<le> 2 ^ L" by (simp add: div_eq_0_iff)
  then have nx: "length xs \<le> 2 ^ L" using mn(2) by linarith
  moreover have "0 < length xs" using mn(1) by simp
  ultimately have "length xs - 1 < 2 ^ L" by linarith
  then have "fn = 0" using Nil.prems(3) by simp
  with nx ny r mn show ?case by (simp add: block_zero)
next
  case (Cons node nodes)
  have fnle: "fn * 2 ^ L \<le> length xs - 1" using Cons.prems(3) by simp
  have fnlt: "fn * 2 ^ L < length xs" using fnle mn(1) by (cases xs) auto
  have xfit: "length xs \<le> (fn + 1) * 2 ^ L"
    using Cons.prems(3) dividend_less_div_times [of "2 ^ L" "length xs - 1"] by (simp add: algebra_simps)
  have yfit: "length ys \<le> (sn + 1) * 2 ^ L"
    using Cons.prems(4) dividend_less_div_times [of "2 ^ L" "length ys - 1"] by (simp add: algebra_simps)
  have le: "fn \<le> sn" using Cons.prems(3,4) mn(2) by (simp add: div_le_mono)
  have sn0: "sn \<noteq> 0" using Cons.prems(1) by (auto split: if_splits)
  show ?case
  proof (cases "odd fn \<or> fn = sn")
    case True
    with sn0 have "fn \<noteq> 0" by (auto elim: oddE)
    from skip_zeros_spec [OF this, of sn] obtain j where
      j: "skip_zeros fn sn = (fn div 2 ^ j, sn div 2 ^ j)" "odd (fn div 2 ^ j)" "fn = fn div 2 ^ j * 2 ^ j"
      by blast
    define f where "f = fn div 2 ^ j"
    have fM: "f * 2 ^ (L + j) = fn * 2 ^ L" using j(3) by (simp add: f_def power_add)
    have idx: "fn div 2 ^ j div 2 = (length xs - 1) div 2 ^ Suc (L + j)"
      "sn div 2 ^ j div 2 = (length ys - 1) div 2 ^ Suc (L + j)"
      using Cons.prems(3,4) by (simp_all add: div_mult2_eq [symmetric] power_add ac_simps)
    have "NodeHash H node fr = root H (block xs (Suc (L + j)) (f div 2)) \<and>
      NodeHash H node sr = root H (block ys (Suc (L + j)) (f div 2)) \<and>
      take (f div 2 * 2 ^ Suc (L + j)) xs = take (f div 2 * 2 ^ Suc (L + j)) ys"
      using Cons.IH [of "f div 2" "sn div 2 ^ j div 2" "NodeHash H node fr" "NodeHash H node sr" "Suc (L + j)"]
        Cons.prems(1,2) True sn0 j(1) idx by (simp add: f_def)
    then have res: "length fr = 32 \<and> fr = root H (block xs (L + j) f) \<and> sr = root H (block ys (L + j) f) \<and>
      take (f * 2 ^ (L + j)) xs = take (f * 2 ^ (L + j)) ys"
      using Cons.prems(2,5) True sn0 j(1,2) fnlt fM mn(2)
      by (intro combine_sound [OF inj subs, where node = node]) (simp_all add: f_def)
    have "block xs (L + j) f = block xs L fn \<and> block ys (L + j) f = block ys L fn"
    proof (cases "odd fn")
      case True
      then have "j = 0" using j(3) by (cases j) (metis dvd_triv_right even_mult_iff even_numeral power_Suc)+
      then show ?thesis by (simp add: f_def)
    next
      case False
      with \<open>odd fn \<or> fn = sn\<close> have "fn = sn" by simp
      with xfit yfit fM show ?thesis by (simp add: block_skip)
    qed
    with res fM show ?thesis by metis
  next
    case False
    define g where "g = fn div 2"
    have g: "fn = 2 * g" using False by (simp add: g_def)
    have idx: "g = (length xs - 1) div 2 ^ Suc L" "sn div 2 = (length ys - 1) div 2 ^ Suc L"
      using Cons.prems(3,4) by (simp_all add: g_def div_mult2_eq [symmetric] mult.commute)
    have ih: "length fr = 32 \<and> fr = root H (block xs (Suc L) g) \<and>
      NodeHash H sr node = root H (block ys (Suc L) g) \<and> take (g * 2 ^ Suc L) xs = take (g * 2 ^ Suc L) ys"
    proof (rule Cons.IH)
      show "verify_loop H (root H xs) (root H ys) g (sn div 2) fr (NodeHash H sr node) nodes"
        using Cons.prems(1) False sn0 by (simp add: g_def)
      show "verify_calls H g (sn div 2) fr (NodeHash H sr node) nodes \<subseteq> U"
        using Cons.prems(2) False sn0 by (simp add: g_def)
    qed (use idx in simp_all)
    have "(2 * g + 1) * 2 ^ L \<le> sn * 2 ^ L" using False le g by (intro mult_le_mono1) simp
    also have "\<dots> \<le> length ys - 1" using Cons.prems(4) by simp
    finally have lt: "(2 * g + 1) * 2 ^ L < length ys" using mn by (cases ys) auto
    have "0x01 # sr @ node \<in> U" using Cons.prems(2) False sn0 by simp
    with ih have "sr = root H (block ys L (2 * g))"
      using NodeHash_root_parts [OF inj _ subs(2) _ lt] Cons.prems(5) by blast
    moreover have "block xs (Suc L) g = block xs L (2 * g)"
      using xfit g by (intro block_right_empty) simp
    moreover have "g * 2 ^ Suc L = fn * 2 ^ L" by (simp add: g)
    ultimately show ?thesis using ih g by metis
  qed
qed

text \<open>An accepted proof over the sizes and roots of two leaf lists: the old one is a prefix.\<close>

lemma ConsistencyVerify_prefix:
  assumes inj: "inj_on H U" and subs: "root_calls H xs \<subseteq> U" "root_calls H ys \<subseteq> U"
    and calls: "consistency_calls H (int (length xs)) (int (length ys)) (root H xs) proof' \<subseteq> U"
    and acc: "ConsistencyVerify H (int (length xs)) (int (length ys)) (root H xs) (root H ys) proof'"
  shows "xs = take (length xs) ys"
proof (cases "length xs = length ys")
  case True
  with acc have "root H xs = root H ys" by (simp add: ConsistencyVerify_def split: if_splits)
  with root_inj [OF inj subs True] True show ?thesis by simp
next
  case False
  with acc have mn: "xs \<noteq> []" "length xs < length ys"
    by (auto simp: ConsistencyVerify_def split: if_splits)
  define nodes where "nodes = (if int (length xs) AND (int (length xs) - 1) = 0 then [root H xs] else []) @ proof'"
  obtain L where L: "strip_ones (length xs - 1) (length ys - 1) =
      ((length xs - 1) div 2 ^ L, (length ys - 1) div 2 ^ L)"
    "even ((length xs - 1) div 2 ^ L)" "length xs - 1 + 1 = ((length xs - 1) div 2 ^ L + 1) * 2 ^ L"
    using strip_ones_spec by blast
  define fn where "fn = (length xs - 1) div 2 ^ L"
  define sn where "sn = (length ys - 1) div 2 ^ L"
  have "length xs - 1 + 1 = length xs" using mn(1) by (cases xs) simp_all
  with L(3) have m: "length xs = (fn + 1) * 2 ^ L" unfolding fn_def by metis
  have nat_m: "nat (int (length xs) - 1) = length xs - 1" "nat (int (length ys) - 1) = length ys - 1"
    by simp_all
  have ne: "nodes \<noteq> []" using acc False mn
    by (auto simp: ConsistencyVerify_def nodes_def split: if_splits)
  have loop: "verify_loop H (root H xs) (root H ys) fn sn (hd nodes) (hd nodes) (tl nodes)"
    using acc False mn L(1) by (simp add: ConsistencyVerify_def nodes_def Let_def nat_m fn_def sn_def split: if_splits)
  have vcalls: "verify_calls H fn sn (hd nodes) (hd nodes) (tl nodes) \<subseteq> U"
    using calls L(1) by (simp add: consistency_calls_def nodes_def Let_def nat_m fn_def sn_def)
  have "(fn + 1) * 2 ^ L \<le> length ys - 1" using m mn(2) by simp
  then have "fn + 1 \<le> sn" by (simp add: sn_def less_eq_div_iff_mult_less_eq)
  then have lt: "(fn + 1) * 2 ^ L < length ys" "sn \<noteq> 0" "fn \<noteq> sn" using m mn(2) by auto
  have ev: "even fn" using L(2) by (simp add: fn_def)
  obtain x c rest where nodes: "nodes = x # c # rest"
    using ne loop lt(2) by (cases nodes; cases "tl nodes") auto
  define g where "g = fn div 2"
  have g: "fn = 2 * g" using ev by (simp add: g_def)
  have "length x = 32 \<and> x = root H (block xs (Suc L) g) \<and> NodeHash H x c = root H (block ys (Suc L) g) \<and>
      take (g * 2 ^ Suc L) xs = take (g * 2 ^ Suc L) ys"
    using loop vcalls lt ev nodes mn
    by (intro verify_loop_sound [OF inj subs, of "fn div 2" "sn div 2" _ _ rest, folded g_def])
      (simp_all add: g_def fn_def sn_def div_mult2_eq [symmetric] mult.commute)
  moreover have "0x01 # x @ c \<in> U" "(2 * g + 1) * 2 ^ L < length ys"
    using vcalls lt ev nodes g by simp_all
  moreover from calculation have "x = root H (block ys L (2 * g))"
    using NodeHash_root_parts [OF inj _ subs(2)] by blast
  moreover have "block xs (Suc L) g = block xs L (2 * g)"
    using m g by (intro block_right_empty) simp
  ultimately have "block xs L fn = block ys L fn" "take (fn * 2 ^ L) xs = take (fn * 2 ^ L) ys"
    using block_inj [OF inj subs, of fn L] m lt(1) g by (simp_all add: add_mult_distrib ac_simps)
  then have "take ((fn + 1) * 2 ^ L) xs = take ((fn + 1) * 2 ^ L) ys"
    by (metis take_block)
  with m show ?thesis by simp
qed

end

subsection \<open>Completeness\<close>

text \<open>
  The nodes the loop consumes from level \<open>L\<close> up, read off the new tree: the sibling of the block
  holding the last old leaf, on every level where it has one.
\<close>

function cpath :: "(bytes \<Rightarrow> bytes) \<Rightarrow> bytes list \<Rightarrow> nat \<Rightarrow> nat \<Rightarrow> nat \<Rightarrow> bytes list" where
  "cpath H ys L fn sn =
     (if sn = 0 then []
      else if odd fn then root H (block ys L (fn - 1)) # cpath H ys (Suc L) (fn div 2) (sn div 2)
      else if fn = sn then cpath H ys (Suc L) (fn div 2) (sn div 2)
      else root H (block ys L (fn + 1)) # cpath H ys (Suc L) (fn div 2) (sn div 2))"
  by pat_completeness auto
termination
  by (relation "measure (\<lambda>(H, ys, L, fn, sn). sn)") auto

declare cpath.simps [simp del]

lemma cpath_0: "cpath H ys L fn 0 = []"
  and cpath_odd: "sn \<noteq> 0 \<Longrightarrow> odd fn \<Longrightarrow>
    cpath H ys L fn sn = root H (block ys L (fn - 1)) # cpath H ys (Suc L) (fn div 2) (sn div 2)"
  and cpath_skip: "fn \<noteq> 0 \<Longrightarrow> even fn \<Longrightarrow> cpath H ys L fn fn = cpath H ys (Suc L) (fn div 2) (fn div 2)"
  and cpath_even: "sn \<noteq> 0 \<Longrightarrow> even fn \<Longrightarrow> fn \<noteq> sn \<Longrightarrow>
    cpath H ys L fn sn = root H (block ys L (fn + 1)) # cpath H ys (Suc L) (fn div 2) (sn div 2)"
  by (simp_all add: cpath.simps [of H ys L])

lemma cpath_skips: "fn = f * 2 ^ j \<Longrightarrow> f \<noteq> 0 \<Longrightarrow> cpath H ys L fn fn = cpath H ys (L + j) f f"
proof (induction j arbitrary: fn L)
  case (Suc j)
  then have "fn \<noteq> 0" "even fn" "fn div 2 = f * 2 ^ j" by simp_all
  with Suc cpath_skip [of fn H ys L] show ?case by simp
qed simp

lemma complete_loop:
  assumes mn: "xs \<noteq> []" "length xs \<le> length ys" "xs = take (length xs) ys"
    and "fn = (length xs - 1) div 2 ^ L" "sn = (length ys - 1) div 2 ^ L"
  shows "verify_loop H (root H xs) (root H ys) fn sn
    (root H (block xs L fn)) (root H (block ys L fn)) (cpath H ys L fn sn)"
  using assms(4-)
proof (induction sn arbitrary: fn L rule: less_induct)
  case (less sn)
  have fnlt: "fn * 2 ^ L < length xs"
    using less.prems(1) mn(1) by (cases xs) (simp_all add: less_Suc_eq_le)
  have xfit: "length xs \<le> (fn + 1) * 2 ^ L"
    using less.prems(1) dividend_less_div_times [of "2 ^ L" "length xs - 1"] by (simp add: algebra_simps)
  have yfit: "length ys \<le> (sn + 1) * 2 ^ L"
    using less.prems(2) dividend_less_div_times [of "2 ^ L" "length ys - 1"] by (simp add: algebra_simps)
  have le: "fn \<le> sn" using less.prems mn(2) by (simp add: div_le_mono)
  have blk: "block ys M i = block xs M i" if "(i + 1) * 2 ^ M \<le> length xs" for M i
    using block_take [OF that, of ys] mn(3) by simp
  show ?case
  proof (cases "sn = 0")
    case True
    with xfit yfit le show ?thesis by (simp add: cpath_0 block_zero)
  next
    case sn0: False
    show ?thesis
    proof (cases "odd fn \<or> fn = sn")
      case True
      with sn0 have "fn \<noteq> 0" by (auto elim: oddE)
      from skip_zeros_spec [OF this, of sn] obtain j where
        j: "skip_zeros fn sn = (fn div 2 ^ j, sn div 2 ^ j)" "odd (fn div 2 ^ j)" "fn = fn div 2 ^ j * 2 ^ j"
        by blast
      define f where "f = fn div 2 ^ j"
      define s where "s = sn div 2 ^ j"
      define g where "g = f div 2"
      have f2: "f = 2 * g + 1" using j(2) by (simp add: f_def g_def)
      have fM: "f * 2 ^ (L + j) = fn * 2 ^ L" using j(3) by (simp add: f_def power_add)
      have j0: "odd fn \<Longrightarrow> j = 0" using j(3) by (cases j) (metis dvd_triv_right even_mult_iff even_numeral power_Suc)+
      have "s \<noteq> 0" using le j(2) div_le_mono [OF le, of "2 ^ j"] by (auto simp: s_def elim: oddE)
      have path: "cpath H ys L fn sn = root H (block ys (L + j) (2 * g)) # cpath H ys (Suc (L + j)) g (s div 2)"
      proof (cases "odd fn")
        case True
        with j0 sn0 f2 show ?thesis by (simp add: cpath_odd f_def s_def g_def)
      next
        case False
        with \<open>odd fn \<or> fn = sn\<close> have "fn = sn" by simp
        moreover have "cpath H ys L fn fn = cpath H ys (L + j) f f"
          using j(3) f2 by (intro cpath_skips) (simp_all add: f_def)
        ultimately show ?thesis using f2 \<open>s \<noteq> 0\<close> by (simp add: cpath_odd f_def s_def)
      qed
      have same: "block xs (L + j) f = block xs L fn \<and> block ys (L + j) f = block ys L fn"
      proof (cases "odd fn")
        case True
        with j0 show ?thesis by (simp add: f_def)
      next
        case False
        with \<open>odd fn \<or> fn = sn\<close> have "fn = sn" by simp
        with xfit yfit fM show ?thesis by (simp add: block_skip)
      qed
      have lt: "(2 * g + 1) * 2 ^ (L + j) < length xs" using fnlt fM f2 by simp
      then have "block ys (L + j) (2 * g) = block xs (L + j) (2 * g)" by (intro blk) simp
      with lt mn(2) same f2 have step:
        "NodeHash H (root H (block ys (L + j) (2 * g))) (root H (block xs L fn)) = root H (block xs (Suc (L + j)) g)"
        "NodeHash H (root H (block ys (L + j) (2 * g))) (root H (block ys L fn)) = root H (block ys (Suc (L + j)) g)"
        using root_block_pair [of g "L + j" xs H] root_block_pair [of g "L + j" ys H] by simp_all
      have "s \<le> sn" by (simp add: s_def)
      then have "s div 2 < sn" using \<open>s \<noteq> 0\<close> by linarith
      moreover have "g = (length xs - 1) div 2 ^ Suc (L + j)" "s div 2 = (length ys - 1) div 2 ^ Suc (L + j)"
        using less.prems by (simp_all add: g_def f_def s_def div_mult2_eq [symmetric] power_add ac_simps)
      ultimately have "verify_loop H (root H xs) (root H ys) g (s div 2)
        (root H (block xs (Suc (L + j)) g)) (root H (block ys (Suc (L + j)) g)) (cpath H ys (Suc (L + j)) g (s div 2))"
        by (rule less.IH)
      with path step True sn0 j(1) show ?thesis
        by (simp add: f_def [symmetric] s_def [symmetric] g_def [symmetric])
    next
      case False
      define g where "g = fn div 2"
      have g: "fn = 2 * g" using False by (simp add: g_def)
      have "(2 * g + 1) * 2 ^ L \<le> sn * 2 ^ L" using False le g by (intro mult_le_mono1) simp
      also have "\<dots> \<le> length ys - 1" using less.prems(2) by simp
      finally have lt: "(2 * g + 1) * 2 ^ L < length ys" using mn(1,2) by (cases ys) auto
      have "block xs (Suc L) g = block xs L fn" using xfit g by (simp add: block_right_empty)
      moreover have "NodeHash H (root H (block ys L fn)) (root H (block ys L (fn + 1))) = root H (block ys (Suc L) g)"
        using root_block_pair [OF lt, of H] g by simp
      moreover have "verify_loop H (root H xs) (root H ys) g (sn div 2)
        (root H (block xs (Suc L) g)) (root H (block ys (Suc L) g)) (cpath H ys (Suc L) g (sn div 2))"
      proof (rule less.IH)
        show "sn div 2 < sn" using sn0 by simp
      qed (use less.prems in \<open>simp_all add: g_def div_mult2_eq [symmetric] mult.commute\<close>)
      ultimately show ?thesis using False sn0 by (simp add: cpath_even g_def)
    qed
  qed
qed

text \<open>The recursion of \<open>subproof\<close> descends from the root; the next two lemmas extend the path
  of the half it descends into by the root of the other half.\<close>

lemma cpath_left:
  assumes "2 ^ K < length ys" "length ys \<le> 2 ^ Suc K" "L \<le> K" "fn < 2 ^ (K - L)"
  shows "cpath H ys L fn ((length ys - 1) div 2 ^ L) =
    cpath H (take (2 ^ K) ys) L fn ((2 ^ K - 1) div 2 ^ L) @ [root H (drop (2 ^ K) ys)]"
  using assms(3,4)
proof (induction "K - L" arbitrary: L fn)
  case 0
  then have [simp]: "L = K" "fn = 0" by simp_all
  have "(length ys - 1) div 2 ^ K = 1"
    using assms(1,2) by (intro div_nat_eqI) simp_all
  moreover have "block ys K 1 = drop (2 ^ K) ys" using assms(2) by (simp add: block_tail)
  ultimately show ?case by (simp add: cpath_even cpath_0)
next
  case (Suc d)
  then have LK: "L < K" and KL: "K - L = Suc (K - Suc L)" by linarith+
  define sn where "sn = (length ys - 1) div 2 ^ L"
  define sl :: nat where "sl = (2 ^ K - 1) div 2 ^ L"
  have "(2::nat) ^ K = 2 ^ (K - L) * 2 ^ L" using LK by (simp flip: power_add)
  then have pk: "(2::nat) ^ K = 2 * 2 ^ (K - Suc L) * 2 ^ L" using KL by simp
  have sl: "sl = 2 * 2 ^ (K - Suc L) - 1"
    unfolding sl_def pk by (rule div_mult_pred) simp_all
  have "(2 * 2 ^ (K - Suc L)) * 2 ^ L \<le> length ys - 1" using assms(1) pk by simp
  then have sn: "2 * 2 ^ (K - Suc L) \<le> sn" by (simp add: sn_def less_eq_div_iff_mult_less_eq)
  have fn: "fn < 2 * 2 ^ (K - Suc L)" using Suc.prems(2) KL by simp
  have ih: "cpath H ys (Suc L) (fn div 2) (sn div 2) =
      cpath H (take (2 ^ K) ys) (Suc L) (fn div 2) (sl div 2) @ [root H (drop (2 ^ K) ys)]"
    using Suc.hyps(1) [of "Suc L" "fn div 2"] Suc.hyps(2) LK fn
    by (simp add: sn_def sl_def div_mult2_eq [symmetric] mult.commute)
  have odd_sl: "odd sl" unfolding sl by simp
  have "(0::nat) < 2 * 2 ^ (K - Suc L)" by simp
  with sn have "sn \<noteq> 0" by linarith
  with odd_sl have pos: "sl \<noteq> 0" "sn \<noteq> 0" by (auto elim: oddE)
  show ?case
  proof (cases "odd fn")
    case True
    then have "(fn - 1 + 1) * 2 ^ L \<le> 2 ^ K" using fn unfolding pk by (intro mult_le_mono1) (auto elim: oddE)
    with True ih pos show ?thesis
      unfolding sn_def [symmetric] sl_def [symmetric] by (simp add: cpath_odd block_take)
  next
    case False
    then have "fn + 1 < 2 * 2 ^ (K - Suc L)" using fn by presburger
    then have "(fn + 1 + 1) * 2 ^ L \<le> 2 ^ K" unfolding pk by (intro mult_le_mono1) simp
    moreover have "fn \<noteq> sl" "fn \<noteq> sn" using False odd_sl fn sn by auto
    ultimately show ?thesis using False ih pos
      unfolding sn_def [symmetric] sl_def [symmetric] by (simp add: cpath_even block_take)
  qed
qed

lemma cpath_right:
  assumes "2 ^ K < length ys" "length ys \<le> 2 ^ Suc K" "L \<le> K"
    and "fn \<le> (length ys - 2 ^ K - 1) div 2 ^ L"
  shows "cpath H ys L (fn + 2 ^ (K - L)) ((length ys - 1) div 2 ^ L) =
    cpath H (drop (2 ^ K) ys) L fn ((length ys - 2 ^ K - 1) div 2 ^ L) @ [root H (take (2 ^ K) ys)]"
  using assms(3,4)
proof (induction "K - L" arbitrary: L fn)
  case 0
  then have [simp]: "L = K" by simp
  have s1: "(length ys - 1) div 2 ^ K = 1" using assms(1,2) by (intro div_nat_eqI) simp_all
  have s0: "(length ys - 2 ^ K - 1) div 2 ^ K = 0" using assms(1,2) by simp
  with 0 have "fn = 0" by simp
  moreover have "block ys K 0 = take (2 ^ K) ys" by (simp add: block_def)
  ultimately show ?case using s1 s0 by (simp add: cpath_odd cpath_0)
next
  case (Suc d)
  then have LK: "L < K" and KL: "K - L = Suc (K - Suc L)" by linarith+
  define sn where "sn = (length ys - 1) div 2 ^ L"
  define sr where "sr = (length ys - 2 ^ K - 1) div 2 ^ L"
  define p :: nat where "p = 2 ^ (K - L)"
  have pk: "(2::nat) ^ K = p * 2 ^ L" using LK by (simp add: p_def flip: power_add)
  have sn: "sn = sr + p"
  proof -
    have "length ys - 1 = (length ys - 2 ^ K - 1) + p * 2 ^ L" using assms(1) pk by simp
    then show ?thesis by (simp add: sn_def sr_def)
  qed
  have p2: "p = 2 * 2 ^ (K - Suc L)" using KL by (simp add: p_def)
  have fn: "fn \<le> sr" using Suc.prems(2) by (simp add: sr_def)
  have ih: "cpath H ys (Suc L) (fn div 2 + 2 ^ (K - Suc L)) (sn div 2) =
      cpath H (drop (2 ^ K) ys) (Suc L) (fn div 2) (sr div 2) @ [root H (take (2 ^ K) ys)]"
    using Suc.hyps(1) [of "Suc L" "fn div 2"] Suc.hyps(2) LK div_le_mono [OF fn, of 2]
    by (simp add: sn_def sr_def div_mult2_eq [symmetric] mult.commute)
  have half: "(fn + p) div 2 = fn div 2 + 2 ^ (K - Suc L)" "even p" "p \<noteq> 0" by (simp_all add: p2)
  have bd: "block (drop (2 ^ K) ys) L i = block ys L (i + p)" for i
    using LK by (simp add: block_drop p_def)
  show ?case
  proof (cases "odd fn")
    case True
    then have "sr \<noteq> 0" "fn \<noteq> 0" using fn by (auto elim: oddE)
    with True ih half sn show ?thesis
      unfolding sn_def [symmetric] sr_def [symmetric] p_def [symmetric] by (simp add: cpath_odd bd)
  next
    case False
    consider (zero) "sr = 0" | (same) "sr \<noteq> 0" "fn = sr" | (less) "sr \<noteq> 0" "fn \<noteq> sr" by blast
    then show ?thesis
    proof cases
      case zero
      with fn have "fn = 0" by simp
      with zero ih half sn show ?thesis
        unfolding sn_def [symmetric] sr_def [symmetric] p_def [symmetric] by (simp add: cpath_skip cpath_0)
    next
      case same
      with False ih half sn show ?thesis
        unfolding sn_def [symmetric] sr_def [symmetric] p_def [symmetric] by (simp add: cpath_skip)
    next
      case less
      with False ih half sn show ?thesis
        unfolding sn_def [symmetric] sr_def [symmetric] p_def [symmetric] by (simp add: cpath_even bd)
    qed
  qed
qed

text \<open>What \<open>subproof\<close> returns: the block of the last old leaf (unless it is the whole old tree
  and known to the verifier), then the path.\<close>

lemma subproof_cpath:
  assumes "m = (fn + 1) * 2 ^ L" "even fn" "m < length ys \<or> (\<exists>k. length ys = 2 ^ k \<and> m = length ys)"
  shows "subproof H m ys b =
    (if b \<and> fn = 0 then [] else [root H (block ys L fn)]) @ cpath H ys L fn ((length ys - 1) div 2 ^ L)"
  using assms
proof (induction "length ys" arbitrary: m ys b fn rule: less_induct)
  case less
  show ?case
  proof (cases "m = length ys")
    case True
    then obtain k where k: "length ys = 2 ^ k" using less.prems(3) by auto
    then have "(fn + 1) * 2 ^ L = 2 ^ k" using True less.prems(1) by simp
    moreover have "odd (fn + 1)" using less.prems(2) by simp
    ultimately have "fn = 0 \<and> L = k"
    proof -
      have "L \<le> k"
      proof (rule ccontr)
        assume "\<not> L \<le> k"
        then have "(2::nat) ^ k < 2 ^ L" by simp
        with \<open>(fn + 1) * 2 ^ L = 2 ^ k\<close> show False by (metis add.commute add_0 le_add1 le_eq_less_or_eq mult_le_mono1 mult_1 not_le plus_1_eq_Suc)
      qed
      then have "(fn + 1) * 2 ^ L = 2 ^ (k - L) * 2 ^ L"
        using \<open>(fn + 1) * 2 ^ L = 2 ^ k\<close> by (simp flip: power_add)
      then have "fn + 1 = 2 ^ (k - L)" by (simp only: mult_cancel2) simp
      with \<open>odd (fn + 1)\<close> have "k - L = 0" by (metis even_numeral even_power gr0I)
      with \<open>L \<le> k\<close> \<open>fn + 1 = 2 ^ (k - L)\<close> show ?thesis by simp
    qed
    with True k show ?thesis
      by (subst subproof.simps) (simp add: cpath_0 block_zero)
  next
    case False
    with less.prems have lt: "m < length ys" "0 < m" by auto
    then have "1 < length ys" by simp
    then obtain K where K: "2 ^ K < length ys" "length ys \<le> 2 ^ Suc K" "split_point (length ys) = 2 ^ K"
      by (metis list.size(3) list_split_cases One_nat_def length_Cons less_irrefl not_less_zero)
    have sub: "subproof H m ys b = (if m \<le> 2 ^ K
        then subproof H m (take (2 ^ K) ys) b @ [root H (drop (2 ^ K) ys)]
        else subproof H (m - 2 ^ K) (drop (2 ^ K) ys) False @ [root H (take (2 ^ K) ys)])"
      using False \<open>1 < length ys\<close> K by (subst subproof.simps) (simp add: Let_def)
    show ?thesis
    proof (cases "m \<le> 2 ^ K")
      case True
      have "L \<le> K"
      proof (rule ccontr)
        assume "\<not> L \<le> K"
        then have "(2::nat) ^ K < 2 ^ L" by simp
        with True less.prems(1) show False by simp
      qed
      have "(2::nat) ^ K = 2 ^ (K - L) * 2 ^ L" using \<open>L \<le> K\<close> by (simp flip: power_add)
      with True less.prems(1) have "(fn + 1) * 2 ^ L \<le> 2 ^ (K - L) * 2 ^ L" by simp
      then have "fn + 1 \<le> 2 ^ (K - L)" by (simp only: mult_le_cancel2) simp
      then have fn: "fn < 2 ^ (K - L)" by simp
      have len: "length (take (2 ^ K) ys) = 2 ^ K" using K(1) by simp
      have third: "m < length (take (2 ^ K) ys) \<or>
          (\<exists>k. length (take (2 ^ K) ys) = 2 ^ k \<and> m = length (take (2 ^ K) ys))"
        unfolding len using True by (cases "m = 2 ^ K") auto
      have "subproof H m (take (2 ^ K) ys) b =
          (if b \<and> fn = 0 then [] else [root H (block (take (2 ^ K) ys) L fn)]) @
          cpath H (take (2 ^ K) ys) L fn ((2 ^ K - 1) div 2 ^ L)"
        using less.hyps [OF _ less.prems(1,2) third, of b] len K(1) by simp
      moreover have "block (take (2 ^ K) ys) L fn = block ys L fn"
        using True less.prems(1) by (intro block_take) simp
      ultimately show ?thesis
        using sub True cpath_left [OF K(1,2) \<open>L \<le> K\<close> fn, of H] by simp
    next
      case big: False
      have "L < K"
      proof (rule ccontr)
        assume "\<not> L < K"
        then obtain d where "L = K + d" by (metis le_add_diff_inverse not_less)
        then have "m = (fn + 1) * 2 ^ d * 2 ^ K" using less.prems(1) by (simp add: power_add algebra_simps)
        moreover from this big lt K(2) have "1 < (fn + 1) * 2 ^ d" "(fn + 1) * 2 ^ d < 2"
          by (metis mult_1 not_le mult_le_mono1 not_less, metis le_less_trans less_le_trans mult_le_mono1 not_less power_Suc)
        ultimately show False by simp
      qed
      define p :: nat where "p = 2 ^ (K - L)"
      have pk: "2 ^ K = p * 2 ^ L" using \<open>L < K\<close> by (simp add: p_def flip: power_add)
      have "even p" using \<open>L < K\<close> by (simp add: p_def)
      have "p * 2 ^ L < (fn + 1) * 2 ^ L" using big less.prems(1) pk by simp
      then have "p < fn + 1" by (simp only: mult_less_cancel2)
      then have "p \<le> fn" by simp
      then obtain f where f: "fn = f + p" by (metis add.commute le_Suc_ex)
      have m': "m - 2 ^ K = (f + 1) * 2 ^ L" using less.prems(1) pk f by (simp add: algebra_simps)
      have shorter: "length (drop (2 ^ K) ys) < length ys"
        unfolding length_drop using \<open>1 < length ys\<close> by (intro diff_less zero_less_power) linarith+
      have "even f" using less.prems(2) f \<open>even p\<close> by simp
      have "subproof H (m - 2 ^ K) (drop (2 ^ K) ys) False =
          root H (block (drop (2 ^ K) ys) L f) # cpath H (drop (2 ^ K) ys) L f ((length ys - 2 ^ K - 1) div 2 ^ L)"
        using less.hyps [OF shorter m' \<open>even f\<close>, of False] lt big by (simp add: diff_less_mono)
      moreover have "block (drop (2 ^ K) ys) L f = block ys L fn"
        using \<open>L < K\<close> f by (simp add: block_drop p_def)
      moreover have "f \<le> (length ys - 2 ^ K - 1) div 2 ^ L"
      proof -
        have "f * 2 ^ L < m - 2 ^ K" unfolding m' by simp
        then have "f * 2 ^ L \<le> length ys - 2 ^ K - 1" using lt by simp
        then show ?thesis by (simp add: less_eq_div_iff_mult_less_eq)
      qed
      moreover have "fn \<noteq> 0" using f by (simp add: p_def)
      ultimately show ?thesis
        using sub big cpath_right [OF K(1,2), of L f H] \<open>L < K\<close> f by (simp add: p_def)
    qed
  qed
qed

text \<open>The generated proof is accepted.\<close>

lemma ConsistencyVerify_complete:
  assumes "ConsistencyProof H ys (int m) = Inr proof'" "0 < m" "m \<le> length ys"
  shows "ConsistencyVerify H (int m) (int (length ys)) (root H (take m ys)) (root H ys) proof'"
proof (cases "m = length ys")
  case True
  with assms show ?thesis by (simp add: ConsistencyProof_def ConsistencyVerify_def split: if_splits)
next
  case False
  with assms have lt: "m < length ys" and p: "proof' = subproof H m ys True"
    by (auto simp: ConsistencyProof_def Let_def split: if_splits)
  obtain L where L: "strip_ones (m - 1) (length ys - 1) = ((m - 1) div 2 ^ L, (length ys - 1) div 2 ^ L)"
    "even ((m - 1) div 2 ^ L)" "m - 1 + 1 = ((m - 1) div 2 ^ L + 1) * 2 ^ L"
    using strip_ones_spec by blast
  define fn where "fn = (m - 1) div 2 ^ L"
  define sn where "sn = (length ys - 1) div 2 ^ L"
  have m: "m = (fn + 1) * 2 ^ L" using L(3) assms(2) unfolding fn_def by (metis Suc_pred' add.commute plus_1_eq_Suc)
  have ev: "even fn" using L(2) by (simp add: fn_def)
  have sub: "proof' = (if fn = 0 then [] else [root H (block ys L fn)]) @ cpath H ys L fn sn"
    using subproof_cpath [OF m ev, of ys H True] lt p by (simp add: sn_def)
  have "(fn + 1) * 2 ^ L \<le> length ys - 1" using m lt by simp
  then have "fn + 1 \<le> sn" by (simp add: sn_def less_eq_div_iff_mult_less_eq)
  then have sn: "sn \<noteq> 0" "fn \<noteq> sn" by auto
  have path: "cpath H ys L fn sn \<noteq> []" using cpath_even [OF sn(1) ev sn(2), of H ys L] by simp
  have blk: "block (take m ys) L fn = block ys L fn" by (rule block_take) (simp add: m)
  have whole: "fn = 0 \<Longrightarrow> block ys L fn = take m ys" by (simp add: block_def m)
  have nodes: "(if int m AND (int m - 1) = 0 then [root H (take m ys)] else []) @ proof' =
      root H (block ys L fn) # cpath H ys L fn sn"
    using pow2_test [OF m ev] sub whole by simp
  have "verify_loop H (root H (take m ys)) (root H ys) fn sn
      (root H (block ys L fn)) (root H (block ys L fn)) (cpath H ys L fn sn)"
    using complete_loop [where xs = "take m ys" and ys = ys and fn = fn and L = L and sn = sn and H = H]
      lt assms(2) blk by (cases ys) (simp_all add: fn_def sn_def)
  moreover have "proof' \<noteq> []" using sub path by simp
  ultimately show ?thesis
    using ConsistencyVerify_loop [OF assms(2) lt _ L(1) [folded fn_def sn_def] refl,
        where proof' = proof' and oldRoot = "root H (take m ys)" and H = H and newRoot = "root H ys"] nodes
    by simp
qed

end
