(* ===== verification/Collector_Facts.thy ===== *)
theory Collector_Facts
  imports Consistency_Facts "HOL-Library.Multiset"
begin

text \<open>
  The streaming collector of \<open>internal/merkle/consistency.go\<close> builds, from leaves it sees once and
  does not keep, the proof the list-based generator builds: the ranges are disjoint segments of the
  leaves, the index order is sorted, and an invariant gives each stack the leaves of its range. On
  sizes above \<open>2^62\<close> building the collector does not return.
\<close>

subsection \<open>The ranges as segments\<close>

function pranges :: "nat \<Rightarrow> nat \<Rightarrow> nat \<Rightarrow> bool \<Rightarrow> (nat \<times> nat) list" where
  "pranges m s n b =
     (if m = n \<or> n \<le> 1 then (if b then [] else [(s, s + n)])
      else let k = split_point n
        in if m \<le> k then pranges m s k b @ [(s + k, s + n)]
           else pranges (m - k) (s + k) (n - k) False @ [(s, s + k)])"
  by pat_completeness auto
termination
proof (relation "measure (\<lambda>(m, s, n, b). n)", goal_cases)
  case (2 m s n b k)
  then show ?case using split_point_bounds [of n] by simp
next
  case (3 m s n b k)
  then show ?case using split_point_bounds [of n] by simp
qed simp

declare pranges.simps [simp del]

abbreviation to_rng :: "nat \<times> nat \<Rightarrow> rng" where
  "to_rng p \<equiv> \<lparr>From = int (fst p), To = int (snd p)\<rparr>"

abbreviation seg :: "'a list \<Rightarrow> nat \<times> nat \<Rightarrow> 'a list" where
  "seg xs p \<equiv> drop (fst p) (take (snd p) xs)"

lemma subranges_eq:
  assumes "0 < m" "m \<le> n" "int n \<le> 2 ^ 62"
  shows "subranges (int m) (int s) (int n) b = Some (map to_rng (pranges m s n b))"
  using assms
proof (induction m s n b rule: pranges.induct)
  case (1 m s n b)
  show ?case
  proof (cases "m = n")
    case True
    then show ?thesis by (subst subranges.simps, subst pranges.simps) simp
  next
    case False
    with 1(3,4) have n: "\<not> (m = n \<or> n \<le> 1)" by simp
    define k where "k = split_point n"
    from n have k: "k < n" "0 < k" "n \<le> 2 * k" using split_point_bounds [of n] by (simp_all add: k_def)
    have sp: "SplitPoint (int n) = Some (int k)" using 1(5) by (simp add: SplitPoint_eq k_def)
    show ?thesis
    proof (cases "m \<le> k")
      case True
      then have "subranges (int m) (int s) (int k) b = Some (map to_rng (pranges m s k b))"
        using 1(1) [OF n k_def] 1(3,5) k by simp
      with True n k sp show ?thesis
        by (subst subranges.simps, subst pranges.simps) (simp add: k_def [symmetric])
    next
      case ge: False
      then have "subranges (int (m - k)) (int (s + k)) (int (n - k)) False =
          Some (map to_rng (pranges (m - k) (s + k) (n - k) False))"
        using 1(2) [OF n k_def] 1(4,5) k by simp
      with ge n k sp show ?thesis
        by (subst subranges.simps, subst pranges.simps) (simp add: k_def [symmetric] of_nat_diff)
    qed
  qed
qed

lemma pranges_bounds:
  assumes "0 < m" "m \<le> n" "p \<in> set (pranges m s n b)"
  shows "s \<le> fst p \<and> fst p < snd p \<and> snd p \<le> s + n"
  using assms
proof (induction m s n b rule: pranges.induct)
  case (1 m s n b)
  show ?case
  proof (cases "m = n \<or> n \<le> 1")
    case True
    with 1(3-5) show ?thesis by (subst (asm) pranges.simps) (auto split: if_splits)
  next
    case n: False
    define k where "k = split_point n"
    from n have k: "k < n" "0 < k" using split_point_bounds [of n] by (simp_all add: k_def)
    show ?thesis
    proof (cases "m \<le> k")
      case True
      with 1(5) n have "p \<in> set (pranges m s k b) \<or> p = (s + k, s + n)"
        by (subst (asm) pranges.simps) (auto simp: k_def Let_def)
      with 1(1) [OF n k_def True] 1(3) True k show ?thesis by fastforce
    next
      case ge: False
      with 1(5) n have "p \<in> set (pranges (m - k) (s + k) (n - k) False) \<or> p = (s, s + k)"
        by (subst (asm) pranges.simps) (auto simp: k_def Let_def)
      with 1(2) [OF n k_def ge] 1(4) ge k show ?thesis by fastforce
    qed
  qed
qed

definition apart :: "nat \<times> nat \<Rightarrow> nat \<times> nat \<Rightarrow> bool" where
  "apart p q \<longleftrightarrow> snd p \<le> fst q \<or> snd q \<le> fst p"

lemma apartI1: "snd p \<le> fst q \<Longrightarrow> apart p q"
  by (simp add: apart_def)

lemma apartI2: "snd q \<le> fst p \<Longrightarrow> apart p q"
  by (simp add: apart_def)

lemma pranges_apart:
  assumes "0 < m" "m \<le> n"
  shows "sorted_wrt apart (pranges m s n b)"
  using assms
proof (induction m s n b rule: pranges.induct)
  case (1 m s n b)
  show ?case
  proof (cases "m = n \<or> n \<le> 1")
    case True
    then show ?thesis by (subst pranges.simps) simp
  next
    case n: False
    define k where "k = split_point n"
    from n have k: "k < n" "0 < k" using split_point_bounds [of n] by (simp_all add: k_def)
    show ?thesis
    proof (cases "m \<le> k")
      case True
      with 1(1) [OF n k_def True] 1(3) pranges_bounds [of m k _ s b] n show ?thesis
        by (subst pranges.simps) (auto simp: k_def [symmetric] sorted_wrt_append intro!: apartI1)
    next
      case ge: False
      then have m: "0 < m - k" "m - k \<le> n - k" using 1(4) by auto
      with ge n 1(2) [OF n k_def ge m] pranges_bounds [OF m, of _ "s + k" False] show ?thesis
        by (subst pranges.simps) (auto simp: k_def [symmetric] sorted_wrt_append intro!: apartI2)
    qed
  qed
qed

lemma subproof_pranges:
  assumes "0 < m" "m \<le> n" "s + n \<le> length zs"
  shows "subproof H m (take n (drop s zs)) b = map (\<lambda>p. root H (seg zs p)) (pranges m s n b)"
  using assms
proof (induction m s n b rule: pranges.induct)
  case (1 m s n b)
  have len: "length (take n (drop s zs)) = n" using 1(5) by simp
  show ?case
  proof (cases "m = n \<or> n \<le> 1")
    case True
    then show ?thesis
      using len by (subst subproof.simps, subst pranges.simps) (auto simp: drop_take add.commute)
  next
    case n: False
    define k where "k = split_point n"
    from n have k: "k < n" "0 < k" using split_point_bounds [of n] by (simp_all add: k_def)
    have left: "take k (take n (drop s zs)) = take k (drop s zs)"
      and right: "drop k (take n (drop s zs)) = take (n - k) (drop (s + k) zs)"
      using k by (simp_all add: drop_take min_def add.commute)
    show ?thesis
    proof (cases "m \<le> k")
      case True
      then have "subproof H m (take k (drop s zs)) b = map (\<lambda>p. root H (seg zs p)) (pranges m s k b)"
        using 1(1) [OF n k_def] 1(3,5) k by simp
      with True n len left right k show ?thesis
        by (subst subproof.simps, subst pranges.simps) (simp add: k_def [symmetric] drop_take)
    next
      case ge: False
      then have "subproof H (m - k) (take (n - k) (drop (s + k) zs)) False =
          map (\<lambda>p. root H (seg zs p)) (pranges (m - k) (s + k) (n - k) False)"
        using 1(2) [OF n k_def] 1(4,5) k by simp
      with ge n len left right show ?thesis
        by (subst subproof.simps, subst pranges.simps) (simp add: k_def [symmetric] drop_take)
    qed
  qed
qed

subsection \<open>The order of the ranges\<close>

abbreviation from_le :: "rng list \<Rightarrow> nat \<Rightarrow> nat \<Rightarrow> bool" where
  "from_le rs p q \<equiv> From (rs ! p) \<le> From (rs ! q)"

lemma sift_insert:
  "\<exists>B. sift rs (A @ x # C) (length A) = B @ C \<and> mset B = mset (A @ [x]) \<and>
       (sorted_wrt (from_le rs) A \<longrightarrow> sorted_wrt (from_le rs) B)"
proof (induction A arbitrary: C rule: rev_induct)
  case (snoc y A)
  show ?case
  proof (cases "From (rs ! x) < From (rs ! y)")
    case True
    obtain B where B: "sift rs (A @ x # y # C) (length A) = B @ y # C" "mset B = mset (A @ [x])"
      "sorted_wrt (from_le rs) A \<longrightarrow> sorted_wrt (from_le rs) B"
      using snoc [of "y # C"] by auto
    have "set B = insert x (set A)" using B(2) by (metis set_mset_mset set_append list.simps(15) list.set(1) Un_insert_right sup_bot.right_neutral)
    then have "sorted_wrt (from_le rs) (A @ [y]) \<longrightarrow> sorted_wrt (from_le rs) (B @ [y])"
      using B(3) True by (auto simp: sorted_wrt_append)
    moreover have "sift rs ((A @ [y]) @ x # C) (length (A @ [y])) = (B @ [y]) @ C"
      using True B(1) by (simp add: nth_append list_update_append)
    moreover have "mset (B @ [y]) = mset ((A @ [y]) @ [x])" using B(2) by simp
    ultimately show ?thesis by blast
  next
    case False
    then have "sift rs ((A @ [y]) @ x # C) (length (A @ [y])) = (A @ [y, x]) @ C"
      by (simp add: nth_append)
    moreover have "sorted_wrt (from_le rs) (A @ [y]) \<longrightarrow> sorted_wrt (from_le rs) (A @ [y, x])"
      using False by (force simp: sorted_wrt_append)
    ultimately show ?thesis by (intro exI [of _ "A @ [y, x]"]) simp
  qed
qed simp

lemma sort_order_prefix:
  assumes "1 \<le> k" "k \<le> length ord"
  shows "mset (foldl (sift rs) ord [1..<k]) = mset ord \<and>
         sorted_wrt (from_le rs) (take k (foldl (sift rs) ord [1..<k]))"
  using assms
proof (induction k)
  case (Suc k)
  show ?case
  proof (cases "k = 0")
    case True
    with Suc.prems show ?thesis by (cases ord) auto
  next
    case False
    define o' where "o' = foldl (sift rs) ord [1..<k]"
    have IH: "mset o' = mset ord" "sorted_wrt (from_le rs) (take k o')"
      using Suc False by (simp_all add: o'_def)
    then have "k < length o'" using Suc.prems by (metis Suc_le_lessD mset_eq_length)
    then have split: "o' = take k o' @ o' ! k # drop (Suc k) o'" "length (take k o') = k"
      by (simp_all add: id_take_nth_drop)
    obtain B where B: "sift rs o' k = B @ drop (Suc k) o'" "mset B = mset (take k o' @ [o' ! k])"
      "sorted_wrt (from_le rs) B"
      using sift_insert [of rs "take k o'" "o' ! k" "drop (Suc k) o'"] split IH(2) by metis
    have "length B = Suc k" using B(2) split(2) by (metis length_append_singleton mset_eq_length)
    then have "take (Suc k) (sift rs o' k) = B" using B(1) by simp
    moreover have "mset (sift rs o' k) = mset o'"
    proof -
      have "mset o' = mset (take k o' @ [o' ! k]) + mset (drop (Suc k) o')"
        by (subst split(1)) (simp del: take_append)
      with B(1,2) show ?thesis by simp
    qed
    moreover have "foldl (sift rs) ord [1..<Suc k] = sift rs o' k"
      using False by (simp add: o'_def)
    ultimately show ?thesis using B(3) IH(1) by simp
  qed
qed simp

lemma sort_order_sorts:
  "mset (sort_order rs ord) = mset ord \<and> sorted_wrt (from_le rs) (sort_order rs ord)"
proof (cases "ord = []")
  case True
  then show ?thesis by (simp add: sort_order_def)
next
  case False
  then have "1 \<le> length ord" by (cases ord) auto
  from sort_order_prefix [OF this order_refl, of rs] show ?thesis
    by (metis mset_eq_length order_refl sort_order_def take_all)
qed

subsection \<open>The collector's invariant\<close>

abbreviation rseg :: "bytes list \<Rightarrow> rng \<Rightarrow> bytes list" where
  "rseg xs r \<equiv> drop (nat (From r)) (take (nat (To r)) xs)"

text \<open>What \<open>NewCollector\<close> fixes for the whole run: an order over disjoint, non-empty ranges.\<close>

definition plan_ok :: "rng list \<Rightarrow> nat list \<Rightarrow> bool" where
  "plan_ok rs ord \<longleftrightarrow> mset ord = mset [0..<length rs] \<and> (\<forall>r \<in> set rs. 0 \<le> From r \<and> From r < To r) \<and>
     (\<forall>q < length ord. \<forall>p < q. To (rs ! (ord ! p)) \<le> From (rs ! (ord ! q)))"

definition coll_inv :: "(bytes \<Rightarrow> bytes) \<Rightarrow> collector \<Rightarrow> bytes list \<Rightarrow> bool" where
  "coll_inv H c xs \<longleftrightarrow> plan_ok (cl_ranges c) (cl_order c) \<and> cl_count c = int (length xs) \<and>
     length (cl_stacks c) = length (cl_ranges c) \<and> cl_cursor c \<le> length (cl_order c) \<and>
     (\<forall>p < cl_cursor c. To (cl_ranges c ! (cl_order c ! p)) \<le> cl_count c) \<and>
     (\<forall>j < length (cl_ranges c).
        cl_stacks c ! j = fold (Stack_Append H) (rseg xs (cl_ranges c ! j)) new_stack)"

lemma plan_ok_sorted:
  assumes "mset ord = mset [0..<length rs]" "sorted_wrt (from_le rs) ord"
    and "\<forall>r \<in> set rs. 0 \<le> From r \<and> From r < To r"
    and "sorted_wrt (\<lambda>r s. To r \<le> From s \<or> To s \<le> From r) rs"
  shows "plan_ok rs ord"
proof -
  have set: "set ord = {0..<length rs}" and dist: "distinct ord"
    using assms(1) by (metis set_mset_mset set_upt, metis distinct_upt mset_eq_imp_distinct_iff)
  have "To (rs ! (ord ! p)) \<le> From (rs ! (ord ! q))" if "q < length ord" "p < q" for p q
  proof -
    let ?a = "ord ! p" let ?b = "ord ! q"
    have ab: "?a < length rs" "?b < length rs" using that set nth_mem [of p ord] nth_mem [of q ord] by auto
    have ne: "?a \<noteq> ?b" using that dist by (simp add: nth_eq_iff_index_eq)
    have le: "From (rs ! ?a) \<le> From (rs ! ?b)" using that assms(2) by (simp add: sorted_wrt_iff_nth_less)
    have "To (rs ! ?a) \<le> From (rs ! ?b) \<or> To (rs ! ?b) \<le> From (rs ! ?a)"
      using assms(4) ab ne unfolding sorted_wrt_iff_nth_less by (metis linorder_neqE_nat)
    with le assms(3) ab show ?thesis using nth_mem by fastforce
  qed
  with assms(1,3) show ?thesis by (simp add: plan_ok_def)
qed

lemma advance_spec:
  "cur \<le> length ord \<Longrightarrow>
   cur \<le> advance rs ord index cur \<and> advance rs ord index cur \<le> length ord \<and>
   (\<forall>p < advance rs ord index cur. cur \<le> p \<longrightarrow> To (rs ! (ord ! p)) \<le> index) \<and>
   (advance rs ord index cur < length ord \<longrightarrow> index < To (rs ! (ord ! advance rs ord index cur)))"
proof (induction rs ord index cur rule: advance.induct)
  case (1 rs ord index cur)
  show ?case
  proof (cases "cur < length ord \<and> index \<ge> To (rs ! (ord ! cur))")
    case True
    with 1 have "Suc cur \<le> advance rs ord index (Suc cur) \<and> advance rs ord index (Suc cur) \<le> length ord \<and>
       (\<forall>p < advance rs ord index (Suc cur). Suc cur \<le> p \<longrightarrow> To (rs ! (ord ! p)) \<le> index) \<and>
       (advance rs ord index (Suc cur) < length ord \<longrightarrow>
          index < To (rs ! (ord ! advance rs ord index (Suc cur))))"
      by simp
    moreover have "advance rs ord index cur = advance rs ord index (Suc cur)"
      using True by (subst advance.simps) simp
    ultimately show ?thesis using True by (metis Suc_leD Suc_leI le_less)
  next
    case False
    then have "advance rs ord index cur = cur" by (subst advance.simps) (simp only: if_False)
    with False 1(2) show ?thesis by auto
  qed
qed

lemma rseg_snoc:
  assumes "0 \<le> From r" "From r < To r"
  shows "rseg (xs @ [x]) r =
    (if From r \<le> int (length xs) \<and> int (length xs) < To r then rseg xs r @ [x] else rseg xs r)"
proof -
  consider "int (length xs) < From r" | "From r \<le> int (length xs)" "int (length xs) < To r"
    | "To r \<le> int (length xs)" by linarith
  then show ?thesis
  proof cases
    case 1
    then have "length xs < nat (From r)" "nat (From r) < nat (To r)" using assms by linarith+
    with 1 show ?thesis by simp
  next
    case 2
    then have "length xs < nat (To r)" "nat (From r) \<le> length xs" using assms by linarith+
    with 2 show ?thesis by simp
  next
    case 3
    then have "nat (To r) \<le> length xs" by linarith
    with 3 show ?thesis by simp
  qed
qed

text \<open>Which leaf a step gives to which stack.\<close>

lemma Collector_Append_stacks:
  assumes inv: "coll_inv H c xs" and j: "j < length (cl_ranges c)"
  shows "cl_stacks (Collector_Append H x c) ! j =
    (if From (cl_ranges c ! j) \<le> cl_count c \<and> cl_count c < To (cl_ranges c ! j)
     then Stack_Append H x (cl_stacks c ! j) else cl_stacks c ! j)"
proof -
  let ?rs = "cl_ranges c" let ?ord = "cl_order c" let ?ix = "cl_count c"
  define cur where "cur = advance ?rs ?ord ?ix (cl_cursor c)"
  from inv have plan: "plan_ok ?rs ?ord" and len: "length (cl_stacks c) = length ?rs"
    and cc: "cl_cursor c \<le> length ?ord" and old: "\<forall>p < cl_cursor c. To (?rs ! (?ord ! p)) \<le> ?ix"
    by (auto simp: coll_inv_def)
  note adv = advance_spec [OF cc, of ?rs ?ix, folded cur_def]
  have past: "To (?rs ! (?ord ! p)) \<le> ?ix" if "p < cur" for p
    using that old adv by (cases "p < cl_cursor c") auto
  have "set ?ord = {0..<length ?rs}" using plan by (metis plan_ok_def set_mset_mset set_upt)
  with j obtain p where p: "p < length ?ord" "?ord ! p = j" by (metis atLeast0LessThan in_set_conv_nth lessThan_iff)
  consider "p < cur" | "p = cur" | "cur < p" by linarith
  then show ?thesis
  proof cases
    case 1
    have "j \<noteq> ?ord ! cur" if "cur < length ?ord" using past [OF 1] adv that p by auto
    with past [OF 1] p show ?thesis
      by (auto simp: Collector_Append_def Let_def cur_def [symmetric])
  next
    case 2
    with p j len show ?thesis
      by (auto simp: Collector_Append_def Let_def cur_def [symmetric])
  next
    case 3
    with plan p have "To (?rs ! (?ord ! cur)) \<le> From (?rs ! j)" by (auto simp: plan_ok_def)
    moreover have "cur < length ?ord" using 3 p by simp
    ultimately have "?ix < From (?rs ! j)" "j \<noteq> ?ord ! cur"
      using adv plan j unfolding plan_ok_def by (auto dest: nth_mem) (meson not_le nth_mem)+
    with \<open>cur < length ?ord\<close> show ?thesis
      by (auto simp: Collector_Append_def Let_def cur_def [symmetric])
  qed
qed

lemma Collector_Append_frame [simp]:
  "cl_ranges (Collector_Append H x c) = cl_ranges c"
  "cl_order (Collector_Append H x c) = cl_order c"
  "cl_count (Collector_Append H x c) = cl_count c + 1"
  "cl_newSize (Collector_Append H x c) = cl_newSize c"
  "length (cl_stacks (Collector_Append H x c)) = length (cl_stacks c)"
  "cl_cursor (Collector_Append H x c) = advance (cl_ranges c) (cl_order c) (cl_count c) (cl_cursor c)"
  by (simp_all add: Collector_Append_def Let_def)

lemma Collector_Append_inv:
  assumes inv: "coll_inv H c xs"
  shows "coll_inv H (Collector_Append H x c) (xs @ [x])"
proof -
  from inv have plan: "plan_ok (cl_ranges c) (cl_order c)" and cnt: "cl_count c = int (length xs)"
    and cc: "cl_cursor c \<le> length (cl_order c)"
    and old: "\<forall>p < cl_cursor c. To (cl_ranges c ! (cl_order c ! p)) \<le> cl_count c"
    by (auto simp: coll_inv_def)
  have "\<forall>j < length (cl_ranges c). cl_stacks (Collector_Append H x c) ! j =
      fold (Stack_Append H) (rseg (xs @ [x]) (cl_ranges c ! j)) new_stack"
  proof (intro allI impI)
    fix j assume j: "j < length (cl_ranges c)"
    then have "0 \<le> From (cl_ranges c ! j)" "From (cl_ranges c ! j) < To (cl_ranges c ! j)"
      using plan by (auto simp: plan_ok_def)
    from rseg_snoc [OF this, of xs x] j inv Collector_Append_stacks [OF inv j, of x] cnt
    show "cl_stacks (Collector_Append H x c) ! j =
      fold (Stack_Append H) (rseg (xs @ [x]) (cl_ranges c ! j)) new_stack"
      by (auto simp: coll_inv_def)
  qed
  moreover have "\<forall>p < cl_cursor (Collector_Append H x c). To (cl_ranges c ! (cl_order c ! p)) \<le> cl_count c + 1"
    using advance_spec [OF cc, of "cl_ranges c" "cl_count c"] old by (metis Collector_Append_frame(6) linorder_not_less add_increasing2 order_trans zero_le_one)
  ultimately show ?thesis
    using inv advance_spec [OF cc, of "cl_ranges c" "cl_count c"] by (simp add: coll_inv_def)
qed

lemma fold_Collector_Append_inv:
  "coll_inv H c xs \<Longrightarrow> coll_inv H (fold (Collector_Append H) ys c) (xs @ ys)"
  using Collector_Append_inv by (induction ys arbitrary: c xs) fastforce+

lemma fold_Collector_Append_frame [simp]:
  "cl_ranges (fold (Collector_Append H) ys c) = cl_ranges c"
  "cl_newSize (fold (Collector_Append H) ys c) = cl_newSize c"
  by (induction ys arbitrary: c) auto

subsection \<open>The collector against the generator\<close>

lemma NewCollector_Some:
  assumes "0 < m" "m < n" "int n \<le> 2 ^ 62"
  obtains c where "NewCollector (int m) (int n) = Some (Inr c)" "coll_inv H c []"
    "cl_ranges c = map to_rng (pranges m 0 n True)" "cl_newSize c = int n"
proof -
  define rs where "rs = map to_rng (pranges m 0 n True)"
  define ord where "ord = sort_order rs [0..<length rs]"
  define c where "c = \<lparr>cl_newSize = int n, cl_ranges = rs, cl_stacks = replicate (length rs) new_stack,
     cl_order = ord, cl_cursor = 0, cl_count = 0\<rparr>"
  have "subranges (int m) 0 (int n) True = Some rs"
    using subranges_eq [of m n 0 True] assms by (simp add: rs_def)
  then have new: "NewCollector (int m) (int n) = Some (Inr c)"
    using assms by (simp add: NewCollector_def ProofRanges_def c_def ord_def)
  have "plan_ok rs ord"
  proof (rule plan_ok_sorted)
    show "mset ord = mset [0..<length rs]" "sorted_wrt (from_le rs) ord"
      using sort_order_sorts [of rs "[0..<length rs]"] by (simp_all add: ord_def)
    show "\<forall>r \<in> set rs. 0 \<le> From r \<and> From r < To r"
      using pranges_bounds [of m n _ 0 True] assms by (fastforce simp: rs_def)
    show "sorted_wrt (\<lambda>r s. To r \<le> From s \<or> To s \<le> From r) rs"
      using pranges_apart [of m n 0 True] assms by (simp add: rs_def sorted_wrt_map apart_def [abs_def])
  qed
  then have "coll_inv H c []" by (simp add: coll_inv_def c_def)
  with new that show thesis by (simp add: c_def rs_def)
qed

lemma NewCollector_equal:
  "0 < n \<Longrightarrow> NewCollector n n =
    Some (Inr \<lparr>cl_newSize = n, cl_ranges = [], cl_stacks = [], cl_order = [], cl_cursor = 0, cl_count = 0\<rparr>)"
  by (simp add: NewCollector_def ProofRanges_def sort_order_def)

lemma collect_roots_map:
  "(\<And>r. r \<in> set rs \<Longrightarrow> Stack_Root H (f r) = Some (g r)) \<Longrightarrow> collect_roots H (map f rs) = Some (map g rs)"
  by (induction rs) auto

context digest
begin

lemma Collector_Nodes_spec:
  assumes inv: "coll_inv H c xs" and full: "cl_newSize c = int (length xs)"
    and within: "\<forall>r \<in> set (cl_ranges c). To r \<le> int (length xs)"
  shows "Collector_Nodes H c = Inr (map (\<lambda>r. root H (rseg xs r)) (cl_ranges c))"
proof -
  have st: "cl_stacks c = map (\<lambda>r. fold (Stack_Append H) (rseg xs r) new_stack) (cl_ranges c)"
    using inv by (intro nth_equalityI) (simp_all add: coll_inv_def)
  have "rseg xs r \<noteq> []" if "r \<in> set (cl_ranges c)" for r
  proof -
    from inv that have "0 \<le> From r" "From r < To r" by (auto simp: coll_inv_def plan_ok_def)
    with within that show ?thesis by fastforce
  qed
  then have "collect_roots H (cl_stacks c) = Some (map (\<lambda>r. root H (rseg xs r)) (cl_ranges c))"
    unfolding st by (intro collect_roots_map) (simp only: stk.result_fold if_False)
  with inv full show ?thesis by (simp add: Collector_Nodes_def coll_inv_def)
qed

lemma Collector_generates:
  assumes "0 < m" "m \<le> length xs" "int (length xs) \<le> 2 ^ 62"
  shows "\<exists>c. NewCollector (int m) (int (length xs)) = Some (Inr c) \<and>
    Collector_Nodes H (fold (Collector_Append H) xs c) = ConsistencyProof H xs (int m)"
proof (cases "m = length xs")
  case True
  define c where "c = \<lparr>cl_newSize = int m, cl_ranges = [], cl_stacks = [], cl_order = [], cl_cursor = 0, cl_count = 0\<rparr>"
  have "coll_inv H c []" by (simp add: coll_inv_def plan_ok_def c_def)
  from fold_Collector_Append_inv [OF this, of xs] Collector_Nodes_spec True
  have "Collector_Nodes H (fold (Collector_Append H) xs c) = Inr []" by (simp add: c_def)
  moreover have "NewCollector (int m) (int (length xs)) = Some (Inr c)"
    using True assms NewCollector_equal by (simp add: c_def)
  ultimately show ?thesis using True assms by (simp add: ConsistencyProof_def)
next
  case False
  with assms have lt: "m < length xs" by simp
  from NewCollector_Some [OF assms(1) lt assms(3), of H] obtain c
    where c: "NewCollector (int m) (int (length xs)) = Some (Inr c)" "coll_inv H c []"
      "cl_ranges c = map to_rng (pranges m 0 (length xs) True)" "cl_newSize c = int (length xs)" .
  have "\<forall>r \<in> set (cl_ranges c). To r \<le> int (length xs)"
    using pranges_bounds [of m "length xs" _ 0 True] assms by (fastforce simp: c)
  with fold_Collector_Append_inv [OF c(2), of xs] Collector_Nodes_spec [of _ xs]
  have "Collector_Nodes H (fold (Collector_Append H) xs c) =
      Inr (map (\<lambda>p. root H (seg xs p)) (pranges m 0 (length xs) True))"
    by (simp add: c comp_def)
  also have "\<dots> = ConsistencyProof H xs (int m)"
    using subproof_pranges [of m "length xs" 0 xs H True] assms lt by (simp add: ConsistencyProof_def)
  finally show ?thesis using c(1) by blast
qed

end

lemma cl_count_fold: "cl_count (fold (Collector_Append H) ys c) = cl_count c + int (length ys)"
  by (induction ys arbitrary: c) auto

text \<open>Asked too early, the collector says so.\<close>

lemma Collector_Nodes_early:
  assumes "NewCollector m n = Some (Inr c)" "int (length ys) < n"
  shows "Collector_Nodes H (fold (Collector_Append H) ys c) = Inl ErrIncomplete"
proof -
  have "cl_newSize c = n \<and> cl_count c = 0"
    using assms(1) by (cases "ProofRanges m n") (auto simp: NewCollector_def split: sum.splits)
  with assms(2) show ?thesis by (simp add: Collector_Nodes_def cl_count_fold)
qed

text \<open>The sizes for which building the collector does not return.\<close>

lemma SplitPoint_diverges: "2 ^ 62 < n \<Longrightarrow> n < 2 ^ 63 \<Longrightarrow> SplitPoint n = None"
  unfolding SplitPoint_def by (rule split_loop_diverges) (auto intro!: exI [of _ 0])

lemma NewCollector_diverges:
  assumes "1 \<le> m" "m < n" "2 ^ 62 < n" "n < 2 ^ 63"
  shows "NewCollector m n = None"
proof -
  have "subranges m 0 n True = None"
    using assms by (subst subranges.simps) (simp add: SplitPoint_diverges)
  with assms show ?thesis by (simp add: NewCollector_def ProofRanges_def)
qed

end
