(* ===== verification/Walk.thy ===== *)
theory Walk
  imports Action Keys Collector_Facts
begin

text \<open>
  \<open>verify/walk.go\<close>: the walk over a bundle. This theory holds the reading of the manifest, of
  \<open>redactions.json\<close> and of the checkpoint list, the walk over \<open>events.ndjson\<close> and the walk over the
  checkpoints; \<open>verifyBundle\<close> composes them with the sections of the other files of \<open>verify\<close>.
\<close>

subsection \<open>Small helpers\<close>

definition knownFormats :: "bytes list" where
  "knownFormats =
     [lit ''sigilbase-evidence/1'', lit ''sigilbase-evidence/1.1'', lit ''sigilbase-evidence/1.2'',
      lit ''sigilbase-evidence/1.3'', lit ''sigilbase-evidence/1.4'', lit ''sigilbase-evidence/1.5'',
      lit ''sigilbase-evidence/1.6'', lit ''sigilbase-evidence/1.7'']"

definition zeroHash :: bytes where
  "zeroHash = replicate 64 48"

definition join_bytes :: "bytes \<Rightarrow> bytes list \<Rightarrow> bytes" where
  "join_bytes sep ps = (case ps of [] \<Rightarrow> [] | p # qs \<Rightarrow> p @ concat (map (\<lambda>q. sep @ q) qs))"

text \<open>The sequence expectation, which overflows into something no integer equals.\<close>

record counter =
  c_value :: int
  c_overflowed :: bool

definition counter_at :: "int \<Rightarrow> counter" where
  "counter_at v = \<lparr>c_value = v, c_overflowed = False\<rparr>"

definition counter_next :: "int \<Rightarrow> counter" where
  "counter_next v = (if v = max_int64 then \<lparr>c_value = 0, c_overflowed = True\<rparr> else counter_at (v + 1))"

definition counter_equals :: "counter \<Rightarrow> int \<Rightarrow> bool" where
  "counter_equals c v \<longleftrightarrow> \<not> c_overflowed c \<and> c_value c = v"

definition minusOneEquals :: "counter \<Rightarrow> int \<Rightarrow> bool" where
  "minusOneEquals c v \<longleftrightarrow> \<not> c_overflowed c \<and> wrap64 (c_value c - 1) = v"

definition counter_String :: "counter \<Rightarrow> bytes" where
  "counter_String c = (if c_overflowed c then lit ''9.2233720368548E+18'' else int_text (c_value c))"

definition minusOneString :: "counter \<Rightarrow> bytes" where
  "minusOneString c =
     (if c_overflowed c then lit ''9.2233720368548E+18'' else int_text (wrap64 (c_value c - 1)))"

definition readRequired :: "reader \<Rightarrow> bytes \<Rightarrow> hard_error + bytes" where
  "readRequired b name =
     (if \<not> IsFile b name then Inl (hard (lit ''bundle is missing ['' @ name @ lit '']'') 1)
      else ReadWhole b name)"

definition decode :: "bytes \<Rightarrow> vopt" where
  "decode data = (case Parse data of Inr v \<Rightarrow> Some v | Inl _ \<Rightarrow> None)"

definition decodeOptional :: "reader \<Rightarrow> bytes \<Rightarrow> hard_error + vopt" where
  "decodeOptional b name =
     (if \<not> IsFile b name then Inr None
      else case ReadWhole b name of Inl e \<Rightarrow> Inl e | Inr data \<Rightarrow> Inr (decode data))"

definition fieldOrNull :: "vopt \<Rightarrow> bytes \<Rightarrow> json" where
  "fieldOrNull v key = (case Field v key of None \<Rightarrow> JNull | Some f \<Rightarrow> f)"

definition stringValue :: "bytes \<Rightarrow> vopt" where
  "stringValue s = Some (JString s)"

definition entryPreimage :: "json \<Rightarrow> json \<Rightarrow> vopt \<Rightarrow> json" where
  "entryPreimage streamID seq ev =
     JObject ([(lit ''v'', JInt 1), (lit ''stream'', streamID), (lit ''seq'', seq)] @
       map (\<lambda>k. (k, fieldOrNull ev k))
         [lit ''occurred_at'', lit ''received_at'', lit ''actor'', lit ''action'', lit ''resource'',
          lit ''payload_hash''] @
       [(lit ''prev'', fieldOrNull ev (lit ''prev_hash''))])"

definition checkpointPreimage :: "json \<Rightarrow> json \<Rightarrow> json \<Rightarrow> json \<Rightarrow> json \<Rightarrow> json \<Rightarrow> json \<Rightarrow> json" where
  "checkpointPreimage v stream from to root' prev createdAt' =
     JObject [(lit ''v'', v), (lit ''stream'', stream), (lit ''from'', from), (lit ''to'', to),
       (lit ''root'', root'), (lit ''prev_checkpoint'', prev), (lit ''created_at'', createdAt')]"

subsection \<open>The manifest\<close>

record manifest =
  mf_doc :: vopt
  mf_format :: bytes
  mf_stream :: bytes
  mf_from :: int
  mf_to :: int
  mf_keys :: "(bytes \<times> vopt \<times> vopt) list"

definition manifest_format :: "vopt \<Rightarrow> bytes option" where
  "manifest_format doc =
     (let f = Field doc (lit ''format'')
      in if IsObject doc \<and> IsString f \<and> StrOf f \<in> set knownFormats then Some (StrOf f) else None)"

text \<open>A later entry for the same key replaces an earlier one.\<close>

definition manifest_keys :: "vopt \<Rightarrow> (bytes \<times> vopt \<times> vopt) list" where
  "manifest_keys doc =
     fold (\<lambda>key ks.
         let pk = Field (Some key) (lit ''public_key'')
         in if IsString pk
            then AList.update (lower (StrOf pk))
              (Field (Some key) (lit ''created_at''), Field (Some key) (lit ''retired_at'')) ks
            else ks)
       (iterValues (Field doc (lit ''signing_keys''))) []"

definition read_manifest :: "reader \<Rightarrow> manifest action" where
  "read_manifest b =
     andthen (lift (readRequired b (lit ''manifest.json''))) (\<lambda>data.
       let doc = decode data;
           streamID = Field (Field doc (lit ''stream'')) (lit ''id'');
           fromV = Field (Field doc (lit ''range'')) (lit ''from'');
           toV = Field (Field doc (lit ''range'')) (lit ''to'');
           ks = manifest_keys doc
       in case manifest_format doc of
            None \<Rightarrow> stop (hard (lit ''manifest.json is missing or has an unknown format (expected one of: '' @
              join_bytes (lit '', '') knownFormats @ lit '')'') ExitError)
          | Some format \<Rightarrow>
              andthen (require (IsString streamID \<and> IsInt fromV \<and> IsInt toV)
                (lit ''manifest.json is missing stream id or range'') 1) (\<lambda>_.
              andthen (require (ks \<noteq> []) (lit ''manifest.json lists no signing keys'') 1) (\<lambda>_.
              andthen (perform (\<lambda>r.
                info (lit ''Keys:   '' @ int_text (int (length ks)) @ lit '' trusted signing key(s) in manifest'')
                (info (lit ''Range:  '' @ int_text (IntOf fromV) @ lit ''..'' @ int_text (IntOf toV))
                (info (lit ''Stream: '' @ StrOf streamID) r)))) (\<lambda>_.
              return \<lparr>mf_doc = doc, mf_format = format, mf_stream = StrOf streamID, mf_from = IntOf fromV,
                mf_to = IntOf toV, mf_keys = ks\<rparr>))))"

subsection \<open>Redactions and checkpoint ranges\<close>

definition redaction_record ::
    "int \<Rightarrow> int \<Rightarrow> json \<Rightarrow> (int \<rightharpoonup> json) \<times> run \<Rightarrow> (int \<rightharpoonup> json) \<times> run" where
  "redaction_record from to record s =
     (case s of (m, r) \<Rightarrow>
        let declared = Field (Some record) (lit ''sequence'')
        in if \<not> IsInt declared
           then (m, content (lit ''redactions.json contains an entry without an integer sequence'') r)
           else if IntOf declared < from \<or> IntOf declared > to
           then (m, note_msg (lit ''redactions.json declares sequence '' @ int_text (IntOf declared) @
                  lit '', outside this bundle's range'') r)
           else (m(IntOf declared \<mapsto> record), r))"

definition read_redactions :: "reader \<Rightarrow> int \<Rightarrow> int \<Rightarrow> (int \<rightharpoonup> json) action" where
  "read_redactions b from to =
     (if \<not> IsFile b (lit ''redactions.json'') then return Map.empty
      else andthen (lift (decodeOptional b (lit ''redactions.json''))) (\<lambda>doc.
        let records = Field doc (lit ''redactions'')
        in if \<not> IsArray records
           then andthen (perform (content
             (lit ''redactions.json is present but malformed - expected a \"redactions\" list'')))
               (\<lambda>_. return Map.empty)
           else compute (\<lambda>r. fold (redaction_record from to) (ArrOf records) (Map.empty, r))))"

definition read_checkpoints :: "reader \<Rightarrow> json list action" where
  "read_checkpoints b =
     andthen (lift (readRequired b (lit ''checkpoints.json''))) (\<lambda>data.
       let checkpoints = Field (decode data) (lit ''checkpoints'')
       in andthen (require (IsArray checkpoints \<and> ArrOf checkpoints \<noteq> [])
            (lit ''checkpoints.json contains no checkpoints'') 1) (\<lambda>_. return (ArrOf checkpoints)))"

definition cp_range :: "json \<Rightarrow> (int \<times> int) option" where
  "cp_range cp =
     (let fromV = Field (Some cp) (lit ''from''); toV = Field (Some cp) (lit ''to'')
      in if IsInt fromV \<and> IsInt toV then Some (IntOf fromV, IntOf toV) else None)"

definition checkpoint_ranges :: "json list \<Rightarrow> (int \<times> int) list" where
  "checkpoint_ranges cps = List.map_filter cp_range cps"

definition declaration_sequence :: "bytes \<Rightarrow> int \<Rightarrow> int \<Rightarrow> bytes \<Rightarrow> int option" where
  "declaration_sequence stream from to line =
     (let record = decode line; seq = Field record (lit ''seq'')
      in if \<not> IsObject record \<or> \<not> strEq (Field record (lit ''stream'')) stream then None
         else if IsInt seq \<and> from \<le> IntOf seq \<and> IntOf seq \<le> to then Some (IntOf seq) else None)"

definition declarationSequencesInRange :: "reader \<Rightarrow> bytes \<Rightarrow> int \<Rightarrow> int \<Rightarrow> int list action" where
  "declarationSequencesInRange b stream from to =
     (if \<not> IsFile b (lit ''declarations.ndjson'') then return []
      else andthen (lift (Open_file b (lit ''declarations.ndjson''))) (\<lambda>f.
        case for_lines (\<lambda>_ line seqs. case declaration_sequence stream from to line of
            None \<Rightarrow> seqs | Some s \<Rightarrow> List.insert s seqs) (NewLines f) [] of
          (seqs, l) \<Rightarrow> andthen (lines_problem (lit ''declarations.ndjson'') l) (\<lambda>_. return seqs)))"

definition consistencyTreeSizes :: "reader \<Rightarrow> int list action" where
  "consistencyTreeSizes b =
     andthen (lift (decodeOptional b (lit ''consistency.json''))) (\<lambda>doc.
       if \<not> IsObject doc then return []
       else let proof' = Field doc (lit ''proof'');
                ints = (\<lambda>vs. map IntOf (filter IsInt vs))
         in return (ints (map (\<lambda>state. Field (Some state) (lit ''tree_size''))
                (iterValues (Field doc (lit ''checkpoint_states'')))) @
              (if IsObject proof'
               then ints [Field proof' (lit ''from_tree_size''), Field proof' (lit ''to_tree_size'')] else [])))"

subsection \<open>The events\<close>

text \<open>What the walk over the events reads but does not change.\<close>

record walk_ctx =
  cx_stream :: bytes
  cx_from :: int
  cx_to :: int
  cx_redactions :: "int \<rightharpoonup> json"
  cx_retain :: "int list"
  cx_sizes :: "int list"

text \<open>
  What it accumulates. \<open>w_open\<close> are the checkpoint ranges from \<open>checkpointIndex\<close> on; the members of
  \<open>w_absent\<close> are \<open>absentSequences\<close>, in the order of \<open>absentOrder\<close>.
\<close>

record walk =
  w_run :: run
  w_count :: int
  w_expected :: counter
  w_prev :: vopt
  w_hashes :: "int \<rightharpoonup> bytes"
  w_redacted :: int
  w_absent :: "int list"
  w_kinds :: "int \<rightharpoonup> bytes"
  w_cumulative :: mstack
  w_stack :: mstack
  w_roots :: "int \<rightharpoonup> bytes"
  w_rebuilt :: "int \<rightharpoonup> bytes"
  w_leaves :: "int \<rightharpoonup> int"
  w_leaf_count :: int
  w_open :: "(int \<times> int) list"
  w_collector :: "collector option"

definition on_run :: "(run \<Rightarrow> run) \<Rightarrow> walk \<Rightarrow> walk" where
  "on_run f w = w\<lparr>w_run := f (w_run w)\<rparr>"

definition seq_msg :: "int \<Rightarrow> bytes \<Rightarrow> bytes" where
  "seq_msg sequence m = lit ''sequence '' @ int_text sequence @ lit '': '' @ m"

abbreviation seq_fail :: "int \<Rightarrow> bytes \<Rightarrow> run \<Rightarrow> run" where
  "seq_fail sequence m \<equiv> content (seq_msg sequence m)"

definition closeCheckpoint :: "walk \<Rightarrow> walk" where
  "closeCheckpoint w =
     (let closingFrom = fst (hd (w_open w))
      in w\<lparr>w_rebuilt := (w_rebuilt w)(closingFrom \<mapsto>
             (case Stack_Root sha256 (w_stack w) of Some root' \<Rightarrow> hex_text root' | None \<Rightarrow> [])),
           w_leaves := (w_leaves w)(closingFrom \<mapsto> w_leaf_count w),
           w_stack := Stack_Reset (w_stack w), w_leaf_count := 0, w_open := tl (w_open w)\<rparr>)"

text \<open>The loop that closes every range a sequence has passed, and the one that closes the rest.\<close>

function close_passed :: "int \<Rightarrow> walk \<Rightarrow> walk" where
  "close_passed sequence w =
     (if w_open w \<noteq> [] \<and> sequence > snd (hd (w_open w)) then close_passed sequence (closeCheckpoint w) else w)"
  by pat_completeness auto
termination
  by (relation "measure (\<lambda>(_, w). length (w_open w))") (auto simp: closeCheckpoint_def Let_def)

declare close_passed.simps [simp del]

function close_all :: "walk \<Rightarrow> walk" where
  "close_all w = (if w_open w \<noteq> [] then close_all (closeCheckpoint w) else w)"
  by pat_completeness auto
termination
  by (relation "measure (\<lambda>w. length (w_open w))") (auto simp: closeCheckpoint_def Let_def)

declare close_all.simps [simp del]

definition redacted_date :: "json option \<Rightarrow> bytes" where
  "redacted_date declaration =
     (let at = Field declaration (lit ''redacted_at'')
      in if declaration \<noteq> None \<and> IsString at then phpSubstr (StrOf at) 10 else lit ''an undeclared date'')"

text \<open>The payload of an event: present and matching its hash, or absent and marked so.\<close>

definition event_payload :: "walk_ctx \<Rightarrow> int \<Rightarrow> vopt \<Rightarrow> walk \<Rightarrow> walk" where
  "event_payload cx sequence event w =
     (let declared = Field event (lit ''payload_state'');
          payloadState = (if nullish declared then stringValue (lit ''present'') else declared);
          payloadPresent = (\<not> nullish (Field event (lit ''payload'')));
          redacted = strEq payloadState (lit ''redacted'');
          declaration = cx_redactions cx sequence
      in if \<not> strEq payloadState (lit ''present'') \<and> \<not> redacted
         then on_run (seq_fail sequence (lit ''unknown payload_state '' @ jsonForMessage payloadState)) w
         else if redacted \<or> \<not> payloadPresent then
           (if payloadPresent
            then on_run (seq_fail sequence
              (lit ''payload_state says redacted but a payload is present - the bundle contradicts itself'')) w
            else if \<not> redacted
            then on_run (seq_fail sequence
              (lit ''payload is absent but not marked payload_state \"redacted\" - absence must be declared, never implied'')) w
            else on_run (note_msg (seq_msg sequence (lit ''payload redacted '' @ redacted_date declaration @
                lit '', hashes preserved, chain verified from the recorded payload_hash'')))
              (w\<lparr>w_absent := (if sequence \<in> set (w_absent w) then w_absent w else w_absent w @ [sequence]),
                 w_redacted := w_redacted w + 1,
                 w_kinds := (w_kinds w)(sequence \<mapsto>
                   (if strEq (Field event (lit ''absence'')) (lit ''erased'') then lit ''erased''
                    else lit ''redacted''))\<rparr>))
         else on_run (\<lambda>r.
           let r1 = whenever (declaration \<noteq> None) (seq_fail sequence
               (lit ''redactions.json declares this payload redacted but it is present - the bundle contradicts itself'')) r
           in case Canonical (Some (fieldOrNull event (lit ''payload''))) of
                Inl e \<Rightarrow> seq_fail sequence (lit ''payload cannot be canonicalised ('' @ error_text e @ lit '')'') r1
              | Inr canonical \<Rightarrow>
                  whenever (lower (text_of (Field event (lit ''payload_hash''))) \<noteq> sha256Hex canonical)
                    (seq_fail sequence
                      (lit ''payload_hash does not match the payload content - the payload was modified'')) r1) w)"

text \<open>The chain link and the entry hash.\<close>

definition event_hashes :: "walk_ctx \<Rightarrow> int \<Rightarrow> vopt \<Rightarrow> vopt \<Rightarrow> run \<Rightarrow> run" where
  "event_hashes cx sequence event prevHash r =
     (let r1 = whenever (prevHash \<noteq> None \<and> \<not> strictEqual (Field event (lit ''prev_hash'')) prevHash)
            (seq_fail sequence
              (lit ''prev_hash does not match the previous entry hash - the chain is broken here'')) r
      in case Canonical (Some (entryPreimage (JString (cx_stream cx)) (JInt sequence) event)) of
           Inl e \<Rightarrow> seq_fail sequence (lit ''the event's fields cannot be canonicalised ('' @ error_text e @
               lit '') - the entry hash cannot be recomputed'') r1
         | Inr preimage \<Rightarrow>
             whenever (lower (text_of (Field event (lit ''entry_hash''))) \<noteq> sha256Hex preimage)
               (seq_fail sequence
                 (lit ''entry_hash does not recompute from the stored fields - a field was modified'')) r1)"

text \<open>The leaf: into the cumulative tree, the open checkpoint's tree and the collector.\<close>

definition event_leaf :: "walk_ctx \<Rightarrow> int \<Rightarrow> bytes \<Rightarrow> walk \<Rightarrow> walk" where
  "event_leaf cx sequence entryHash w =
     (let w1 = close_passed sequence w;
          w2 = (case hexBytes entryHash of
              Some raw \<Rightarrow>
                if length raw = 32
                then w1\<lparr>w_cumulative := Stack_Append sha256 raw (w_cumulative w1),
                        w_stack := Stack_Append sha256 raw (w_stack w1),
                        w_leaf_count := w_leaf_count w1 + 1,
                        w_collector := map_option (Collector_Append sha256 raw) (w_collector w1)\<rparr>
                else w1
            | None \<Rightarrow> w1)
      in case Stack_Root sha256 (w_cumulative w2) of
           Some root' \<Rightarrow>
             if cx_from cx = 1 \<and> sequence \<in> set (cx_sizes cx)
             then w2\<lparr>w_roots := (w_roots w2)(sequence \<mapsto> hex_text root')\<rparr> else w2
         | None \<Rightarrow> w2)"

definition event_step :: "walk_ctx \<Rightarrow> int \<Rightarrow> bytes \<Rightarrow> walk \<Rightarrow> walk" where
  "event_step cx nr line w =
     (let event = decode line; seqV = Field event (lit ''seq''); sequence = IntOf seqV;
          entryV = Field event (lit ''entry_hash''); entryHash = lower (text_of entryV)
      in if \<not> IsObject event
         then on_run (content (lit ''events.ndjson line '' @ int_text (nr + 1) @ lit '' is not valid JSON'')) w
         else let w0 = w\<lparr>w_count := w_count w + 1\<rparr>
         in if \<not> IsInt seqV then on_run (content (lit ''an event is missing its sequence number'')) w0
         else let w1 = on_run (whenever (\<not> counter_equals (w_expected w0) sequence)
                (seq_fail sequence (lit ''expected sequence '' @ counter_String (w_expected w0) @
                   lit '' here - an event was deleted, inserted, or reordered''))) w0;
              w2 = event_payload cx sequence event w1;
              w3 = on_run (event_hashes cx sequence event (w_prev w2)) w2;
              w4 = (if sequence \<in> set (cx_retain cx)
                    then w3\<lparr>w_hashes := (w_hashes w3)(sequence \<mapsto> entryHash)\<rparr> else w3);
              w5 = event_leaf cx sequence entryHash w4
         in w5\<lparr>w_prev := (if nullish entryV then None else entryV), w_expected := counter_next sequence\<rparr>)"

definition start_walk :: "walk_ctx \<Rightarrow> (int \<times> int) list \<Rightarrow> collector option \<Rightarrow> run \<Rightarrow> walk" where
  "start_walk cx ranges c r =
     \<lparr>w_run = r, w_count = 0, w_expected = counter_at (cx_from cx),
      w_prev = (if cx_from cx = 1 then stringValue zeroHash else None), w_hashes = Map.empty, w_redacted = 0,
      w_absent = [], w_kinds = Map.empty, w_cumulative = new_stack, w_stack = new_stack, w_roots = Map.empty,
      w_rebuilt = Map.empty, w_leaves = Map.empty, w_leaf_count = 0, w_open = ranges, w_collector = c\<rparr>"

text \<open>The end of the walk: the open checkpoints are closed and the range must have been reached.\<close>

definition end_walk :: "walk_ctx \<Rightarrow> walk \<Rightarrow> walk" where
  "end_walk cx w =
     (let w1 = close_all w
      in on_run (whenever (\<not> minusOneEquals (w_expected w1) (cx_to cx))
           (content (lit ''events end at sequence '' @ minusOneString (w_expected w1) @
             lit '' but the manifest declares '' @ int_text (cx_to cx) @ lit '' - trailing events are missing''))) w1)"

text \<open>
  The collector of a consistency proof, made once the file is open; \<open>NewCollector\<close> may not return.
\<close>

definition new_collector :: "int \<Rightarrow> int \<Rightarrow> int \<Rightarrow> collector option action" where
  "new_collector proofFrom from to r =
     (if proofFrom > 0 \<and> from = 1 \<and> proofFrom \<le> to
      then case NewCollector proofFrom to of
          None \<Rightarrow> None
        | Some (Inl _) \<Rightarrow> return None r
        | Some (Inr c) \<Rightarrow> return (Some c) r
      else return None r)"

text \<open>The walk over the content of the file.\<close>

definition run_events :: "walk_ctx \<Rightarrow> (int \<times> int) list \<Rightarrow> bytes \<Rightarrow> collector option \<Rightarrow> run \<Rightarrow> (walk \<times> lines) \<times> run" where
  "run_events cx ranges f c r =
     (case for_lines (event_step cx) (NewLines f) (start_walk cx ranges c r) of (w, l) \<Rightarrow> ((w, l), w_run w))"

definition walk_events :: "reader \<Rightarrow> walk_ctx \<Rightarrow> (int \<times> int) list \<Rightarrow> int \<Rightarrow> walk action" where
  "walk_events b cx ranges proofFrom =
     andthen (perform (info (lit ''Checking events.ndjson (hash chain)...''))) (\<lambda>_.
     andthen (require (IsFile b (lit ''events.ndjson'')) (lit ''bundle is missing [events.ndjson]'') 1) (\<lambda>_.
     andthen (lift (Open_file b (lit ''events.ndjson''))) (\<lambda>f.
     andthen (new_collector proofFrom (cx_from cx) (cx_to cx)) (\<lambda>c.
     andthen (compute (run_events cx ranges f c)) (\<lambda>(w, l).
     andthen (lines_problem (lit ''events.ndjson'') l) (\<lambda>_.
     andthen (compute (\<lambda>r. let w' = end_walk cx (w\<lparr>w_run := r\<rparr>) in (w', w_run w'))) (\<lambda>w'.
     andthen (require (w_count w' \<noteq> 0) (lit ''events.ndjson contains no events'') 1) (\<lambda>_. return w'))))))))"

subsection \<open>The checkpoints\<close>

record cpwalk =
  p_run :: run
  p_prev :: vopt
  p_expected :: counter
  p_hashes :: "bytes list"

definition label_msg :: "bytes \<Rightarrow> bytes \<Rightarrow> bytes" where
  "label_msg label m = label @ lit '': '' @ m"

definition lookup_or :: "'v \<Rightarrow> ('k \<rightharpoonup> 'v) \<Rightarrow> 'k \<Rightarrow> 'v" where
  "lookup_or d m k = (case m k of None \<Rightarrow> d | Some v \<Rightarrow> v)"

text \<open>An Ed25519 signature given in hex, over the bytes a hash spells.\<close>

definition signature_ok :: "ed_check \<Rightarrow> bytes \<Rightarrow> bytes \<Rightarrow> bytes \<Rightarrow> bool" where
  "signature_ok ed publicKeyHex declaredHash signatureHex =
     (case (hexBytes signatureHex, hexBytes declaredHash, hexBytes publicKeyHex) of
        (Some signature, Some message, Some public) \<Rightarrow>
          length signature = 64 \<and> length public = 32 \<and> message \<noteq> [] \<and> Verify ed public message signature
      | _ \<Rightarrow> False)"

text \<open>Whose key it is, and whether it could seal then.\<close>

definition checkpoint_key :: "manifest \<Rightarrow> bytes \<Rightarrow> bytes \<Rightarrow> bytes \<Rightarrow> run \<Rightarrow> run" where
  "checkpoint_key mf label publicKeyHex createdAtText r =
     (let manifestKey = map_of (mf_keys mf) publicKeyHex;
          r1 = whenever (manifestKey = None)
            (content (label_msg label (lit ''signed by a key that is not in the manifest's signing keys''))) r;
          fingerprint = keyFingerprint publicKeyHex
      in case lookup_key (trusted r1) publicKeyHex of
           None \<Rightarrow>
             (let r2 = unconfirmed (label_msg label (lit ''signed by key '' @ fingerprint @
                    lit '', which is not in the '' @ trustedSetSource r1 @
                    lit '' - the bundle is internally consistent, but nothing here establishes that Sigilbase produced it''))
                    ResultIdentity (use_key fingerprint (lit ''bundle only'') r1)
              in case manifestKey of
                   None \<Rightarrow> r2
                 | Some (created, retired) \<Rightarrow>
                     fold (\<lambda>problem. content (label_msg label problem)) (windowProblems created retired createdAtText) r2)
         | Some k \<Rightarrow>
             fold (\<lambda>problem. report (label_msg label problem) (Some ResultIdentity))
               (windowProblems (fst (key_window k)) (snd (key_window k)) createdAtText)
               (use_key fingerprint (trustedSetSource r1) r1))"

text \<open>The Merkle root, against what the events gave.\<close>

definition checkpoint_root :: "walk \<Rightarrow> bytes \<Rightarrow> vopt \<Rightarrow> int \<Rightarrow> int \<Rightarrow> run \<Rightarrow> run" where
  "checkpoint_root w label cp from to r =
     (let rebuiltRoot = lookup_or [] (w_rebuilt w) from; received = lookup_or 0 (w_leaves w) from
      in if received < wrap64 (to - from + 1)
         then content (label_msg label (lit ''event '' @ int_text (wrap64 (from + received)) @
                lit '' is missing from events.ndjson'')) r
         else whenever (lower (text_of (Field cp (lit ''root''))) \<noteq> rebuiltRoot)
           (content (label_msg label (lit ''the Merkle root does not recompute from the events it covers''))) r)"

definition checkpoint_hash_check :: "manifest \<Rightarrow> bytes \<Rightarrow> vopt \<Rightarrow> int \<Rightarrow> int \<Rightarrow> run \<Rightarrow> run" where
  "checkpoint_hash_check mf label cp from to r =
     (case Canonical (Some (checkpointPreimage (JInt 1) (JString (mf_stream mf)) (JInt from) (JInt to)
         (fieldOrNull cp (lit ''root'')) (fieldOrNull cp (lit ''prev_checkpoint''))
         (fieldOrNull cp (lit ''created_at'')))) of
        Inl e \<Rightarrow> content (label_msg label (lit ''the checkpoint's fields cannot be canonicalised ('' @ error_text e @
          lit '') - the checkpoint hash cannot be recomputed'')) r
      | Inr preimage \<Rightarrow>
          whenever (lower (text_of (Field cp (lit ''checkpoint_hash''))) \<noteq> sha256Hex preimage)
            (content (label_msg label
              (lit ''checkpoint_hash does not recompute from its fields - the checkpoint was modified''))) r)"

definition checkpoint_step :: "ed_check \<Rightarrow> manifest \<Rightarrow> walk \<Rightarrow> json \<Rightarrow> cpwalk \<Rightarrow> cpwalk" where
  "checkpoint_step ed mf w cpj p =
     (let cp = Some cpj; fromV = Field cp (lit ''from''); toV = Field cp (lit ''to'')
      in if \<not> IsInt fromV \<or> \<not> IsInt toV
         then p\<lparr>p_run := content (lit ''a checkpoint is missing its range'') (p_run p)\<rparr>
         else let from = IntOf fromV; to = IntOf toV;
                  label = lit ''checkpoint '' @ int_text from @ lit ''..'' @ int_text to;
                  hashV = Field cp (lit ''checkpoint_hash'');
                  declaredHash = lower (text_of hashV);
                  publicKeyHex = lower (text_of (Field cp (lit ''public_key'')));
                  createdAtText = text_of (Field cp (lit ''created_at''));
                  r1 = whenever (\<not> counter_equals (p_expected p) from)
                    (content (label_msg label (lit ''expected the range to start at '' @ counter_String (p_expected p) @
                       lit '' - a checkpoint is missing or reordered''))) (p_run p);
                  r2 = checkpoint_hash_check mf label cp from to r1;
                  r3 = whenever (p_prev p \<noteq> None \<and> \<not> strictEqual (Field cp (lit ''prev_checkpoint'')) (p_prev p))
                    (content (label_msg label
                       (lit ''prev_checkpoint does not match the previous checkpoint hash - a checkpoint was removed or replaced''))) r2;
                  r4 = checkpoint_key mf label publicKeyHex createdAtText r3;
                  r5 = whenever (\<not> signature_ok ed publicKeyHex declaredHash (text_of (Field cp (lit ''signature''))))
                    (content (label_msg label
                       (lit ''the Ed25519 signature does not verify - the signature is forged or the checkpoint was modified''))) r4;
                  r6 = checkpoint_root w label cp from to r5
           in \<lparr>p_run = r6, p_prev = (if nullish hashV then None else hashV), p_expected = counter_next to,
               p_hashes = List.insert declaredHash (p_hashes p)\<rparr>)"

definition walk_checkpoints :: "ed_check \<Rightarrow> manifest \<Rightarrow> json list \<Rightarrow> walk \<Rightarrow> run \<Rightarrow> bytes list \<times> run" where
  "walk_checkpoints ed mf cps w r =
     (let p = fold (checkpoint_step ed mf w) cps
          \<lparr>p_run = info (lit ''Checking checkpoints.json (signed Merkle checkpoints)...'') r,
           p_prev = (if mf_from mf = 1 then stringValue zeroHash else None),
           p_expected = counter_at (mf_from mf), p_hashes = []\<rparr>
      in (p_hashes p,
          whenever (\<not> minusOneEquals (p_expected p) (mf_to mf))
            (report (lit ''checkpoints cover up to sequence '' @ minusOneString (p_expected p) @
               lit '' but the manifest declares '' @ int_text (mf_to mf)) (Some ResultScope)) (p_run p)))"

end
