(* ===== verification/Tst_Der.thy ===== *)
theory Tst_Der
  imports Php_Time
begin

text \<open>
  \<open>internal/tst/der.go\<close>: the DER reader of the timestamp code, with its tolerances (a long-form length
  may have leading zeros), minimal re-encoding, object identifiers and times. An error is its text.
\<close>

type_synonym 'a tst = "bytes + 'a"

record element =
  Class :: nat
  Constructed :: bool
  Number :: nat
  Content :: bytes
  Total :: nat

definition be_val :: "bytes \<Rightarrow> nat" where
  "be_val bs = foldl (\<lambda>a b. 256 * a + unat b) 0 bs"

text \<open>\<open>Read(der, offset)\<close> on what lies from the offset on.\<close>

definition read_length :: "bytes \<Rightarrow> (nat \<times> nat) tst" where
  "read_length der =
     (let lengthByte = unat (der ! 1); n = lengthByte mod 128
      in if lengthByte < 0x80 then Inr (2, lengthByte)
         else if n = 0 \<or> n > 4 \<or> length der < 2 + n then Inl (lit ''unsupported or truncated DER length'')
         else Inr (2 + n, be_val (take n (drop 2 der))))"

definition read_element :: "bytes \<Rightarrow> element tst" where
  "read_element der =
     (if length der < 2 then Inl (lit ''truncated DER element'')
      else let first = unat (der ! 0); number = first mod 32
        in if number = 0x1F then Inl (lit ''unsupported DER tag form'')
           else case read_length der of
               Inl e \<Rightarrow> Inl e
             | Inr (headerLength, contentLength) \<Rightarrow>
                 if length der < headerLength + contentLength then Inl (lit ''truncated DER content'')
                 else Inr \<lparr>Class = first div 64, Constructed = odd (first div 32), Number = number,
                   Content = take contentLength (drop headerLength der), Total = headerLength + contentLength\<rparr>)"

definition Read :: "bytes \<Rightarrow> nat \<Rightarrow> element tst" where
  "Read der offset = read_element (drop offset der)"

lemma read_element_Total:
  "read_element der = Inr e \<Longrightarrow> 2 \<le> Total e \<and> Total e \<le> length der \<and> length (Content e) + 2 \<le> Total e"
  by (auto simp: read_element_def read_length_def Let_def split: if_splits sum.splits)

function Children :: "bytes \<Rightarrow> element list tst" where
  "Children content =
     (if content = [] then Inr []
      else case read_element content of
        Inl e \<Rightarrow> Inl e
      | Inr child \<Rightarrow>
          (case Children (drop (Total child) content) of
             Inl e \<Rightarrow> Inl e
           | Inr cs \<Rightarrow> Inr (child # cs)))"
  by pat_completeness auto
termination
  by (relation "measure length") (auto dest: read_element_Total)

declare Children.simps [simp del]

subsection \<open>Encoding\<close>

function length_bytes :: "nat \<Rightarrow> bytes" where
  "length_bytes n = (if n = 0 then [] else length_bytes (n div 256) @ [of_nat (n mod 256)])"
  by pat_completeness auto
termination by (relation "measure id") auto

declare length_bytes.simps [simp del]

definition element_tag :: "element \<Rightarrow> byte" where
  "element_tag e = of_nat (Class e * 64) OR of_nat (Number e) OR (if Constructed e then 0x20 else 0)"

definition Reencode :: "element \<Rightarrow> bytes" where
  "Reencode e =
     (let tag = element_tag e; n = length (Content e)
      in if n < 0x80 then [tag, of_nat n] @ Content e
         else [tag, 0x80 OR of_nat (length (length_bytes n))] @ length_bytes n @ Content e)"

lemma Children_Content:
  "Children content = Inr cs \<Longrightarrow> c \<in> set cs \<Longrightarrow> length (Content c) < length content"
proof (induction content arbitrary: cs rule: Children.induct)
  case (1 content)
  show ?case
  proof (cases "content = []")
    case True
    with 1(2,3) show ?thesis by (simp add: Children.simps)
  next
    case False
    with 1(2) obtain child ds where c: "read_element content = Inr child"
      "Children (drop (Total child) content) = Inr ds" "cs = child # ds"
      by (subst (asm) Children.simps) (auto split: sum.splits)
    from 1(3) c(3) consider "c = child" | "c \<in> set ds" by auto
    then show ?thesis
    proof cases
      case 1
      with read_element_Total [OF c(1)] show ?thesis by simp
    next
      case 2
      with 1(1) [OF False c(1,2)] show ?thesis by simp
    qed
  qed
qed

text \<open>The recursion descends into contents, which are shorter.\<close>

function ReencodeDeep :: "element \<Rightarrow> bytes" where
  "ReencodeDeep e =
     (if Constructed e
      then case Children (Content e) of
          Inl _ \<Rightarrow> Reencode e
        | Inr children \<Rightarrow>
            Reencode \<lparr>Class = Class e, Constructed = True, Number = Number e,
              Content = concat (map ReencodeDeep children), Total = 0\<rparr>
      else Reencode e)"
  by pat_completeness auto
termination
  by (relation "measure (\<lambda>e. length (Content e))") (auto dest: Children_Content)

declare ReencodeDeep.simps [simp del]

subsection \<open>Object identifiers and times\<close>

fun oid_arcs :: "bytes \<Rightarrow> nat \<Rightarrow> bytes list" where
  "oid_arcs [] val = []"
| "oid_arcs (b # bs) val =
     (let val' = (val * 128 + unat b mod 128) mod 2 ^ 64
      in if unat b < 128 then int_text (wrap64 (int val')) # oid_arcs bs 0 else oid_arcs bs val')"

definition DecodeOID :: "bytes \<Rightarrow> bytes tst" where
  "DecodeOID content =
     (case content of
        [] \<Rightarrow> Inl (lit ''empty OID'')
      | c # cs \<Rightarrow>
          let first = unat c;
              arcs = (if first < 40 then [lit ''0'', nat_digits first]
                else if first < 80 then [lit ''1'', nat_digits (first - 40)]
                else [lit ''2'', nat_digits (first - 80)])
          in Inr (join_byte 46 (arcs @ oid_arcs cs 0)))"

definition generalizedTime :: "bytes \<Rightarrow> int tst" where
  "generalizedTime content =
     (case GeneralizedTime content of
        None \<Rightarrow> Inl (lit ''unsupported GeneralizedTime ['' @ content @ lit '']'')
      | Some t \<Rightarrow> Inr t)"

definition decodeTime :: "element \<Rightarrow> int tst" where
  "decodeTime e =
     (if Class e = 0 \<and> Number e = 0x18 then generalizedTime (Content e)
      else if Class e \<noteq> 0 \<or> Number e \<noteq> 0x17 then Inl (lit ''unsupported X.509 Time encoding'')
      else case UTCTime (Content e) of
          None \<Rightarrow> Inl (lit ''unsupported X.509 Time encoding'')
        | Some t \<Rightarrow> Inr t)"

subsection \<open>Round trip\<close>

text \<open>An element a tag and a four-byte length can express.\<close>

definition encodable :: "element \<Rightarrow> bool" where
  "encodable e \<longleftrightarrow> Class e < 4 \<and> Number e < 31 \<and> length (Content e) < 2 ^ 32"

lemma be_val_snoc: "be_val (bs @ [b]) = 256 * be_val bs + unat b"
  by (simp add: be_val_def)

lemma length_bytes_val: "be_val (length_bytes n) = n"
proof (induction n rule: length_bytes.induct)
  case (1 n)
  have "unat (of_nat (n mod 256) :: byte) = n mod 256" by (rule unat_of_nat_byte) simp
  with 1 show ?case by (subst length_bytes.simps) (auto simp: be_val_snoc be_val_def [of "[]"])
qed

lemma length_length_bytes: "n < 256 ^ k \<Longrightarrow> length (length_bytes n) \<le> k"
proof (induction n arbitrary: k rule: length_bytes.induct)
  case (1 n)
  show ?case
  proof (cases "n = 0")
    case False
    with 1(2) obtain j where k: "k = Suc j" by (cases k) auto
    with 1(2) have "n div 256 < 256 ^ j" by (simp add: div_less_iff_less_mult mult.commute)
    with 1(1) [OF False] k False show ?thesis by (subst length_bytes.simps) simp
  qed (simp add: length_bytes.simps)
qed

lemma or_low: "n < 32 \<Longrightarrow> (32 * k OR n :: nat) = 32 * k + n"
proof -
  assume n: "n < 32"
  have "concat_bit 5 (int n) (int k) = take_bit 5 (int n) + push_bit 5 (int k)" by (rule concat_bit_eq)
  moreover have "concat_bit 5 (int n) (int k) = take_bit 5 (int n) OR push_bit 5 (int k)" by (rule concat_bit_def)
  moreover have "take_bit 5 (int n) = int n" using n by (simp add: take_bit_int_eq_self)
  ultimately have "int n OR int (32 * k) = int n + int (32 * k)" by (simp add: push_bit_eq_mult mult.commute)
  then have "int (n OR 32 * k) = int (n + 32 * k)" by (simp add: of_nat_or_eq)
  then have "n OR 32 * k = n + 32 * k" by (simp only: of_nat_eq_iff)
  then show ?thesis by (simp add: ac_simps)
qed

lemma tag_bits:
  assumes "c < 4" "n < 32"
  shows "unat (of_nat (c * 64) OR of_nat n OR (if b then 0x20 else 0) :: byte) = c * 64 + (if b then 32 else 0) + n"
proof -
  define k where "k = 2 * c + (if b then 1 else 0)"
  have c: "c = 0 \<or> c = 1 \<or> c = 2 \<or> c = 3" using assms(1) by auto
  have "(of_nat (c * 64) OR (if b then 0x20 else 0) :: byte) = of_nat (32 * k)"
    using c by (auto simp: k_def)
  then have "(of_nat (c * 64) OR of_nat n OR (if b then 0x20 else 0) :: byte) = of_nat (32 * k) OR of_nat n"
    by (simp add: ac_simps)
  moreover have "32 * k + n < 256" using c assms(2) by (auto simp: k_def)
  ultimately have "unat (of_nat (c * 64) OR of_nat n OR (if b then 0x20 else 0) :: byte) = 32 * k OR n"
    by (simp add: unsigned_or_eq unsigned_of_nat take_bit_nat_eq_self del: of_nat_mult)
  then show ?thesis by (simp only: or_low [OF assms(2)]) (simp add: k_def)
qed

lemma read_tag:
  assumes "c < 4" "n < 31"
  shows "(c * 64 + (if b then 32 else 0) + n) div 64 = (c :: nat)" "odd ((c * 64 + (if b then 32 else 0) + n) div 32) = b"
    "(c * 64 + (if b then 32 else 0) + n) mod 32 = n"
proof -
  define k where "k = 2 * c + (if b then 1 else 0)"
  have x: "c * 64 + (if b then 32 else 0) + n = 32 * k + n" by (simp add: k_def)
  have d: "(32 * k + n) div 32 = k" "(32 * k + n) mod 32 = n" using assms(2) by simp_all
  have "(32 * k + n) div 64 = (32 * k + n) div 32 div 2" by (simp add: div_mult2_eq [symmetric])
  with d(1) have "(32 * k + n) div 64 = k div 2" by simp
  then show "(c * 64 + (if b then 32 else 0) + n) div 64 = c" unfolding x by (simp add: k_def)
  show "odd ((c * 64 + (if b then 32 else 0) + n) div 32) = b"
    "(c * 64 + (if b then 32 else 0) + n) mod 32 = n"
    unfolding x d by (simp_all add: k_def)
qed

lemma Read_Reencode:
  assumes "encodable e"
  shows "read_element (Reencode e @ rest) = Inr (e\<lparr>Total := length (Reencode e)\<rparr>)"
proof -
  let ?n = "length (Content e)"
  define tag where "tag = element_tag e"
  have tag: "unat tag = Class e * 64 + (if Constructed e then 32 else 0) + Number e"
    unfolding tag_def element_tag_def using assms by (intro tag_bits) (auto simp: encodable_def)
  have t: "unat tag div 64 = Class e" "odd (unat tag div 32) = Constructed e" "unat tag mod 32 = Number e"
    unfolding tag using assms by (intro read_tag; simp add: encodable_def)+
  show ?thesis
  proof (cases "?n < 0x80")
    case True
    then have "unat (of_nat ?n :: byte) = ?n" by (intro unat_of_nat_byte) simp
    with True t assms show ?thesis
      by (simp add: Reencode_def read_element_def read_length_def Let_def encodable_def flip: tag_def)
  next
    case False
    define lb where "lb = length_bytes ?n"
    have len: "length lb \<le> 4" unfolding lb_def using assms by (intro length_length_bytes) (simp add: encodable_def)
    have "lb \<noteq> []" unfolding lb_def using False by (subst length_bytes.simps) auto
    then have "0 < length lb" by simp
    moreover have "unat (0x80 OR of_nat (length lb) :: byte) = 0x80 + length lb"
      using or_low [of "length lb" 4] len by (simp add: unsigned_or_eq unat_of_nat_byte)
    moreover have "be_val lb = ?n" by (simp add: lb_def length_bytes_val)
    ultimately show ?thesis
      using False t assms len
      by (simp add: Reencode_def read_element_def read_length_def Let_def encodable_def flip: tag_def lb_def)
  qed
qed

lemma Reencode_not_Nil [simp]: "Reencode e \<noteq> []"
  by (simp add: Reencode_def Let_def)

lemma Children_Reencode:
  "list_all encodable es \<Longrightarrow>
   Children (concat (map Reencode es)) = Inr (map (\<lambda>e. e\<lparr>Total := length (Reencode e)\<rparr>) es)"
  by (induction es) (subst Children.simps, simp add: Read_Reencode)+

text \<open>Whatever was read is encodable, so re-encoding settles after one round.\<close>

lemma be_val_less: "be_val bs < 256 ^ length bs"
proof (induction bs rule: rev_induct)
  case (snoc b bs)
  then have "256 * be_val bs + unat b < 256 * (be_val bs + 1)" using unat_byte_lt [of b] by simp
  also have "\<dots> \<le> 256 * 256 ^ length bs" using snoc by (intro mult_le_mono2) simp
  finally show ?case by (simp add: be_val_snoc)
qed (simp add: be_val_def)

lemma read_encodable:
  assumes "read_element der = Inr e"
  shows "encodable e"
proof -
  have "length (Content e) < 2 ^ 32"
  proof -
    have "be_val (take n (drop 2 der)) < 2 ^ 32" if "n \<le> 4" for n
    proof -
      have "be_val (take n (drop 2 der)) < 256 ^ length (take n (drop 2 der))" by (rule be_val_less)
      also have "\<dots> \<le> 256 ^ 4" using that by (intro power_increasing) simp_all
      finally show ?thesis by simp
    qed
    then show ?thesis
      using assms by (fastforce simp: read_element_def read_length_def Let_def split: if_splits sum.splits)
  qed
  moreover have "unat (der ! 0) div 64 < 4"
    using unat_byte_lt [of "der ! 0"] by (simp add: div_less_iff_less_mult)
  moreover have "unat (der ! 0) mod 32 < 32" by simp
  ultimately show ?thesis
    using assms by (auto simp: encodable_def read_element_def Let_def split: if_splits sum.splits)
qed

end
