(* ===== verification/Tst_Token.thy ===== *)
theory Tst_Token
  imports Tst_Der
begin

text \<open>
  \<open>internal/tst/token.go\<close>: reading a timestamp token (CMS ContentInfo, SignedData, TSTInfo, the first
  SignerInfo) in the order of the source, so that a malformed token gives the source's error.
\<close>

record tstoken =
  ImprintAlg :: bytes
  Imprint :: bytes
  GenTime :: int
  Certs :: "bytes list"
  SignerIssuer :: bytes
  SignerSerial :: bytes
  SignedAttrsSet :: bytes
  ContentTypeAttr :: bytes
  MessageDigestAttr :: bytes
  DigestAlg :: bytes
  SigAlg :: bytes
  Signature :: bytes
  TSTInfo :: bytes

definition oidSignedData :: bytes where "oidSignedData = lit ''1.2.840.113549.1.7.2''"
definition oidTSTInfo :: bytes where "oidTSTInfo = lit ''1.2.840.113549.1.9.16.1.4''"
definition oidContentType :: bytes where "oidContentType = lit ''1.2.840.113549.1.9.3''"
definition oidMessageDigest :: bytes where "oidMessageDigest = lit ''1.2.840.113549.1.9.4''"
definition oidTimeStamping :: bytes where "oidTimeStamping = lit ''1.3.6.1.5.5.7.3.8''"
definition oidExtendedKeyUse :: bytes where "oidExtendedKeyUse = lit ''2.5.29.37''"

text \<open>An error ends the reading; \<open>demand\<close> is the source's check with an error of its own.\<close>

definition bind_tst :: "'a tst \<Rightarrow> ('a \<Rightarrow> 'b tst) \<Rightarrow> 'b tst" where
  "bind_tst m f = (case m of Inl e \<Rightarrow> Inl e | Inr x \<Rightarrow> f x)"

definition demand :: "bool \<Rightarrow> bytes \<Rightarrow> 'a tst \<Rightarrow> 'a tst" where
  "demand b message m = (if b then m else Inl message)"

lemma bind_tst_Inr: "bind_tst m f = Inr y \<longleftrightarrow> (\<exists>x. m = Inr x \<and> f x = Inr y)"
  by (cases m) (simp_all add: bind_tst_def)

lemma demand_Inr: "demand b e m = Inr y \<longleftrightarrow> b \<and> m = Inr y"
  by (simp add: demand_def)

definition trim_left_zeros :: "bytes \<Rightarrow> bytes" where
  "trim_left_zeros = dropWhile (\<lambda>b. b = 0)"

subsection \<open>The parts\<close>

text \<open>The fields of the SignedData.\<close>

definition token_signed_data :: "bytes \<Rightarrow> element list tst" where
  "token_signed_data der =
     bind_tst (Read der 0) (\<lambda>contentInfo.
     bind_tst (Children (Content contentInfo)) (\<lambda>children.
     demand (length children \<ge> 2) (lit ''token is not CMS SignedData'') (
     bind_tst (DecodeOID (Content (children ! 0))) (\<lambda>oid.
     demand (oid = oidSignedData) (lit ''token is not CMS SignedData'') (
     bind_tst (Read (Content (children ! 1)) 0) (\<lambda>signedData.
     bind_tst (Children (Content signedData)) (\<lambda>fds.
     demand (length fds \<ge> 4) (lit ''SignedData is malformed'') (Inr fds))))))))"

text \<open>The DER of the TSTInfo.\<close>

definition token_econtent :: "element list \<Rightarrow> bytes tst" where
  "token_econtent fds =
     bind_tst (Children (Content (fds ! 2))) (\<lambda>encap.
     demand (encap \<noteq> []) (lit ''eContentType is not id-ct-TSTInfo'') (
     bind_tst (DecodeOID (Content (encap ! 0))) (\<lambda>oid.
     demand (oid = oidTSTInfo) (lit ''eContentType is not id-ct-TSTInfo'') (
     demand (length encap \<ge> 2 \<and> Class (encap ! 1) = 2) (lit ''SignedData carries no eContent'') (
     bind_tst (Read (Content (encap ! 1)) 0) (\<lambda>octets. Inr (Content octets)))))))"

text \<open>The loop over the context-tagged fields: the certificates, and the fields after them.\<close>

fun token_certs :: "element list \<Rightarrow> bytes list \<Rightarrow> (bytes list \<times> element list) tst" where
  "token_certs [] certs = Inr (certs, [])"
| "token_certs (f # fs) certs =
     (if Class f \<noteq> 2 then Inr (certs, f # fs)
      else if Number f = 0
      then bind_tst (Children (Content f)) (\<lambda>cs. token_certs fs (certs @ map Reencode cs))
      else token_certs fs certs)"

text \<open>The fields of the first SignerInfo.\<close>

definition token_signer :: "element list \<Rightarrow> element list tst" where
  "token_signer rest =
     demand (rest \<noteq> [] \<and> Number (hd rest) = 0x11) (lit ''SignedData has no signerInfos'') (
     bind_tst (Children (Content (hd rest))) (\<lambda>signerInfos.
     demand (signerInfos \<noteq> []) (lit ''signerInfos is empty'') (
     bind_tst (Children (Content (hd signerInfos))) (\<lambda>signer.
     demand (length signer \<ge> 5 \<and> Number (signer ! 1) = 0x10 \<and> Class (signer ! 1) = 0)
       (lit ''SignerInfo sid is not issuerAndSerialNumber'') (Inr signer)))))"

text \<open>The signed attributes: the values of the two mandatory ones, the last occurrence winning.\<close>

fun token_attributes :: "element list \<Rightarrow> bytes \<times> bytes \<Rightarrow> (bytes \<times> bytes) tst" where
  "token_attributes [] acc = Inr acc"
| "token_attributes (attribute # as) (contentType, messageDigest) =
     bind_tst (Children (Content attribute)) (\<lambda>parts.
     if length parts < 2 then token_attributes as (contentType, messageDigest)
     else bind_tst (DecodeOID (Content (parts ! 0))) (\<lambda>attrOID.
       bind_tst (Children (Content (parts ! 1))) (\<lambda>values.
       if values = [] then token_attributes as (contentType, messageDigest)
       else bind_tst (if attrOID = oidContentType then DecodeOID (Content (values ! 0)) else Inr contentType) (\<lambda>ct.
         token_attributes as
           (ct, if attrOID = oidMessageDigest then Content (values ! 0) else messageDigest)))))"

definition token_info :: "bytes \<Rightarrow> (element list \<times> element list \<times> element list) tst" where
  "token_info tstInfoDER =
     bind_tst (Read tstInfoDER 0) (\<lambda>sequence.
     bind_tst (Children (Content sequence)) (\<lambda>tstInfo.
     demand (length tstInfo \<ge> 5) (lit ''TSTInfo is malformed'') (
     bind_tst (Children (Content (tstInfo ! 2))) (\<lambda>imprint.
     bind_tst (if imprint \<noteq> [] then Children (Content (imprint ! 0)) else Inr []) (\<lambda>imprintAlg.
     demand (length imprint \<ge> 2 \<and> imprintAlg \<noteq> []) (lit ''TSTInfo messageImprint is malformed'')
       (Inr (tstInfo, imprint, imprintAlg)))))))"

definition ParseToken :: "bytes \<Rightarrow> tstoken tst" where
  "ParseToken der =
     bind_tst (token_signed_data der) (\<lambda>fds.
     bind_tst (token_econtent fds) (\<lambda>tstInfoDER.
     bind_tst (token_certs (drop 3 fds) []) (\<lambda>(certs, rest).
     bind_tst (token_signer rest) (\<lambda>signer.
     bind_tst (Children (Content (signer ! 1))) (\<lambda>sid.
     bind_tst (Children (Content (signer ! 2))) (\<lambda>digestAlg.
     demand (length sid \<ge> 2 \<and> digestAlg \<noteq> []) (lit ''SignerInfo is malformed'') (
     demand (Class (signer ! 3) = 2 \<and> Number (signer ! 3) = 0) (lit ''SignerInfo has no signed attributes'') (
     bind_tst (Children (Content (signer ! 3))) (\<lambda>attributes.
     bind_tst (token_attributes attributes ([], [])) (\<lambda>(contentType, messageDigest).
     demand (contentType \<noteq> [] \<and> messageDigest \<noteq> [])
       (lit ''signed attributes lack contentType or messageDigest'') (
     bind_tst (Children (Content (signer ! 4))) (\<lambda>sigAlg.
     demand (sigAlg \<noteq> [] \<and> length signer \<ge> 6 \<and> Number (signer ! 5) = 0x04)
       (lit ''SignerInfo signature is malformed'') (
     bind_tst (token_info tstInfoDER) (\<lambda>(tstInfo, imprint, imprintAlg).
     bind_tst (DecodeOID (Content (imprintAlg ! 0))) (\<lambda>imprintAlgOID.
     bind_tst (generalizedTime (Content (tstInfo ! 4))) (\<lambda>genTime.
     bind_tst (DecodeOID (Content (digestAlg ! 0))) (\<lambda>digestAlgOID.
     bind_tst (DecodeOID (Content (sigAlg ! 0))) (\<lambda>sigAlgOID.
     Inr \<lparr>ImprintAlg = imprintAlgOID, Imprint = Content (imprint ! 1), GenTime = genTime, Certs = certs,
       SignerIssuer = Reencode (sid ! 0), SignerSerial = trim_left_zeros (Content (sid ! 1)),
       SignedAttrsSet = Reencode \<lparr>Class = 0, Constructed = True, Number = 0x11, Content = Content (signer ! 3),
         Total = 0\<rparr>,
       ContentTypeAttr = contentType, MessageDigestAttr = messageDigest, DigestAlg = digestAlgOID,
       SigAlg = sigAlgOID, Signature = Content (signer ! 5), TSTInfo = tstInfoDER\<rparr>))))))))))))))))))"

subsection \<open>What a token that parses holds\<close>

text \<open>Every embedded certificate is a minimal encoding: reading it back and encoding it gives it again.\<close>

definition minimal_der :: "bytes \<Rightarrow> bool" where
  "minimal_der c \<longleftrightarrow> (\<exists>e. read_element c = Inr e \<and> Reencode e = c)"

lemma Reencode_Total [simp]: "Reencode (e\<lparr>Total := n\<rparr>) = Reencode e"
  by (auto simp: Reencode_def element_tag_def Let_def)

lemma minimal_Reencode: "encodable e \<Longrightarrow> minimal_der (Reencode e)"
  using Read_Reencode [of e "[]"] by (auto simp: minimal_der_def)

lemma Children_encodable: "Children content = Inr cs \<Longrightarrow> list_all encodable cs"
proof (induction content arbitrary: cs rule: Children.induct)
  case (1 content)
  show ?case
  proof (cases "content = []")
    case False
    with 1(2) obtain child ds where "read_element content = Inr child"
      "Children (drop (Total child) content) = Inr ds" "cs = child # ds"
      by (subst (asm) Children.simps) (auto split: sum.splits)
    with 1(1) [OF False this(1,2)] read_encodable show ?thesis by simp
  qed (use 1(2) in \<open>simp add: Children.simps\<close>)
qed

lemma token_certs_minimal:
  "token_certs fs certs = Inr (certs', rest) \<Longrightarrow> list_all minimal_der certs \<Longrightarrow> list_all minimal_der certs'"
proof (induction fs certs rule: token_certs.induct)
  case (2 f fs certs)
  show ?case
  proof (cases "Class f \<noteq> 2 \<or> Number f \<noteq> 0")
    case True
    with 2 show ?thesis by (auto split: if_splits)
  next
    case False
    with 2(3) obtain cs where cs: "Children (Content f) = Inr cs" "token_certs fs (certs @ map Reencode cs) = Inr (certs', rest)"
      by (auto simp: bind_tst_Inr)
    moreover have "list_all minimal_der (certs @ map Reencode cs)"
      using 2(4) Children_encodable [OF cs(1)] minimal_Reencode by (auto simp: list_all_iff)
    ultimately show ?thesis using 2(1) False by auto
  qed
qed simp

lemma ParseToken_props:
  assumes "ParseToken der = Inr t"
  shows "list_all minimal_der (Certs t) \<and> ContentTypeAttr t \<noteq> [] \<and> MessageDigestAttr t \<noteq> []"
  using assms token_certs_minimal [where certs = "[]"]
  by (auto simp: ParseToken_def bind_tst_Inr demand_Inr)

end
