(* ===== verification/Tst_Crypto.thy ===== *)
theory Tst_Crypto
  imports Tst_Token Php_Compat Sha256 Edsig
begin

text \<open>
  \<open>internal/tst/crypto.go\<close>: the public keys, the RSA schemes (PKCS#1 v1.5 and PSS over the modular power)
  and the checks of a certificate's signature. The hash functions other than SHA-256 and the curve
  arithmetic of \<open>crypto/ecdsa\<close> and \<open>crypto/ed25519\<close> are parameters, gathered in a record.
\<close>

datatype hash_func = hashMD5 | hashSHA1 | hashSHA224 | hashSHA256 | hashSHA384 | hashSHA512

datatype curve = P224 | P256 | P384 | P521

record crypto =
  cr_md5 :: "bytes \<Rightarrow> bytes"
  cr_sha1 :: "bytes \<Rightarrow> bytes"
  cr_sha224 :: "bytes \<Rightarrow> bytes"
  cr_sha384 :: "bytes \<Rightarrow> bytes"
  cr_sha512 :: "bytes \<Rightarrow> bytes"
  cr_ec_point :: "curve \<Rightarrow> bytes \<Rightarrow> bool"
  cr_ecdsa :: "curve \<Rightarrow> bytes \<Rightarrow> bytes \<Rightarrow> bytes \<Rightarrow> bool"
  cr_ed :: ed_check

fun h_size :: "hash_func \<Rightarrow> nat" where
  "h_size hashMD5 = 16" | "h_size hashSHA1 = 20" | "h_size hashSHA224 = 28"
| "h_size hashSHA256 = 32" | "h_size hashSHA384 = 48" | "h_size hashSHA512 = 64"

fun h_sum :: "crypto \<Rightarrow> hash_func \<Rightarrow> bytes \<Rightarrow> bytes" where
  "h_sum cr hashMD5 b = cr_md5 cr b" | "h_sum cr hashSHA1 b = cr_sha1 cr b"
| "h_sum cr hashSHA224 b = cr_sha224 cr b" | "h_sum cr hashSHA256 b = sha256 b"
| "h_sum cr hashSHA384 b = cr_sha384 cr b" | "h_sum cr hashSHA512 b = cr_sha512 cr b"

text \<open>The DigestInfo prefixes (in decimal).\<close>

definition sha2_prefix :: "byte \<Rightarrow> byte \<Rightarrow> byte \<Rightarrow> bytes" where
  "sha2_prefix whole alg len =
     [48, whole, 48, 13, 6, 9, 96, 134, 72, 1, 101, 3, 4, 2, alg, 5, 0, 4, len]"

fun h_prefix :: "hash_func \<Rightarrow> bytes" where
  "h_prefix hashMD5 = [48, 32, 48, 12, 6, 8, 42, 134, 72, 134, 247, 13, 2, 5, 5, 0, 4, 16]"
| "h_prefix hashSHA1 = [48, 33, 48, 9, 6, 5, 43, 14, 3, 2, 26, 5, 0, 4, 20]"
| "h_prefix hashSHA224 = sha2_prefix 0x2d 0x04 0x1c"
| "h_prefix hashSHA256 = sha2_prefix 0x31 0x01 0x20"
| "h_prefix hashSHA384 = sha2_prefix 0x41 0x02 0x30"
| "h_prefix hashSHA512 = sha2_prefix 0x51 0x03 0x40"

definition digestOIDs :: "bytes \<Rightarrow> hash_func option" where
  "digestOIDs = map_of
     [(lit ''1.2.840.113549.2.5'', hashMD5), (lit ''1.3.14.3.2.26'', hashSHA1),
      (lit ''2.16.840.1.101.3.4.2.4'', hashSHA224), (lit ''2.16.840.1.101.3.4.2.1'', hashSHA256),
      (lit ''2.16.840.1.101.3.4.2.2'', hashSHA384), (lit ''2.16.840.1.101.3.4.2.3'', hashSHA512)]"

definition oidRSAEncryption :: bytes where "oidRSAEncryption = lit ''1.2.840.113549.1.1.1''"
definition oidRSASSAPSS :: bytes where "oidRSASSAPSS = lit ''1.2.840.113549.1.1.10''"
definition oidMGF1 :: bytes where "oidMGF1 = lit ''1.2.840.113549.1.1.8''"
definition oidECPublicKey :: bytes where "oidECPublicKey = lit ''1.2.840.10045.2.1''"
definition oidEd25519 :: bytes where "oidEd25519 = lit ''1.3.101.112''"

definition curveOIDs :: "bytes \<Rightarrow> curve option" where
  "curveOIDs = map_of
     [(lit ''1.3.132.0.33'', P224), (lit ''1.2.840.10045.3.1.7'', P256),
      (lit ''1.3.132.0.34'', P384), (lit ''1.3.132.0.35'', P521)]"

definition rsaPKCS1SignatureOIDs :: "bytes \<Rightarrow> hash_func option" where
  "rsaPKCS1SignatureOIDs = map_of
     [(lit ''1.2.840.113549.1.1.4'', hashMD5), (lit ''1.2.840.113549.1.1.5'', hashSHA1),
      (lit ''1.2.840.113549.1.1.14'', hashSHA224), (lit ''1.2.840.113549.1.1.11'', hashSHA256),
      (lit ''1.2.840.113549.1.1.12'', hashSHA384), (lit ''1.2.840.113549.1.1.13'', hashSHA512)]"

definition ecdsaSignatureOIDs :: "bytes \<Rightarrow> hash_func option" where
  "ecdsaSignatureOIDs = map_of
     [(lit ''1.2.840.10045.4.1'', hashSHA1), (lit ''1.2.840.10045.4.3.1'', hashSHA224),
      (lit ''1.2.840.10045.4.3.2'', hashSHA256), (lit ''1.2.840.10045.4.3.3'', hashSHA384),
      (lit ''1.2.840.10045.4.3.4'', hashSHA512)]"

datatype public_key = RSA_key nat nat | EC_key curve bytes | Ed25519_key bytes

subsection \<open>Certificates and keys\<close>

record parsed_certificate =
  pc_tbs :: element
  pc_fields :: "element list"
  pc_base :: nat
  pc_sigAlg :: element
  pc_signature :: element

definition tbs_base :: "element list \<Rightarrow> nat" where
  "tbs_base fs = (if fs \<noteq> [] \<and> Class (fs ! 0) = 2 then 1 else 0)"

definition parseCertificate :: "bytes \<Rightarrow> parsed_certificate tst" where
  "parseCertificate der =
     bind_tst (Read der 0) (\<lambda>certificate.
     bind_tst (Children (Content certificate)) (\<lambda>children.
     demand (length children \<ge> 3) (lit ''certificate is malformed'') (
     bind_tst (Children (Content (children ! 0))) (\<lambda>fs.
     demand (length fs \<ge> tbs_base fs + 6) (lit ''tbsCertificate is malformed'')
       (Inr \<lparr>pc_tbs = children ! 0, pc_fields = fs, pc_base = tbs_base fs, pc_sigAlg = children ! 1,
         pc_signature = children ! 2\<rparr>)))))"

definition derInteger :: "element \<Rightarrow> nat tst" where
  "derInteger e =
     (let c = Content e
      in if Number e \<noteq> 0x02 \<or> c = [] then Inl (lit ''not an INTEGER'')
         else if unat (c ! 0) \<ge> 0x80 then Inl (lit ''negative INTEGER'')
         else if length c > 1 \<and> c ! 0 = 0 \<and> unat (c ! 1) < 0x80 then Inl (lit ''INTEGER with illegal padding'')
         else Inr (be_val c))"

definition rsa_spki :: "bytes \<Rightarrow> public_key tst" where
  "rsa_spki keyBytes =
     bind_tst (Read keyBytes 0) (\<lambda>sequence.
     bind_tst (Children (Content sequence)) (\<lambda>integers.
     demand (length integers \<ge> 2) (lit ''RSAPublicKey is malformed'') (
     bind_tst (derInteger (integers ! 0)) (\<lambda>n.
     bind_tst (derInteger (integers ! 1)) (\<lambda>e. Inr (RSA_key n e))))))"

text \<open>The error of \<open>ecdsa.ParseUncompressedPublicKey\<close> is never shown; any text stands for it.\<close>

definition ec_spki :: "crypto \<Rightarrow> element list \<Rightarrow> bytes \<Rightarrow> public_key tst" where
  "ec_spki cr algorithm keyBytes =
     demand (length algorithm \<ge> 2 \<and> Number (algorithm ! 1) = 0x06) (lit ''EC key has no named curve'') (
     bind_tst (DecodeOID (Content (algorithm ! 1))) (\<lambda>curveOID.
     case curveOIDs curveOID of
       None \<Rightarrow> Inl (lit ''unsupported EC curve'')
     | Some c \<Rightarrow> if cr_ec_point cr c keyBytes then Inr (EC_key c keyBytes) else Inl (lit ''ecdsa: invalid point'')))"

definition parseSPKI :: "crypto \<Rightarrow> element \<Rightarrow> public_key tst" where
  "parseSPKI cr spki =
     bind_tst (Children (Content spki)) (\<lambda>fs.
     demand (length fs \<ge> 2 \<and> Number (fs ! 1) = 0x03 \<and> Content (fs ! 1) \<noteq> [])
       (lit ''SubjectPublicKeyInfo is malformed'') (
     bind_tst (Children (Content (fs ! 0))) (\<lambda>algorithm.
     demand (algorithm \<noteq> []) (lit ''SubjectPublicKeyInfo is malformed'') (
     bind_tst (DecodeOID (Content (algorithm ! 0))) (\<lambda>oid.
     let keyBytes = tl (Content (fs ! 1))
     in if oid = oidRSAEncryption \<or> oid = oidRSASSAPSS then rsa_spki keyBytes
        else if oid = oidECPublicKey then ec_spki cr algorithm keyBytes
        else if oid = oidEd25519
        then (if length keyBytes \<noteq> 32 then Inl (lit ''Ed25519 key is not 32 bytes'') else Inr (Ed25519_key keyBytes))
        else Inl (lit ''unsupported public key algorithm''))))))"

definition certificatePublicKey :: "crypto \<Rightarrow> bytes \<Rightarrow> public_key tst" where
  "certificatePublicKey cr der =
     bind_tst (parseCertificate der) (\<lambda>c. parseSPKI cr (pc_fields c ! (pc_base c + 5)))"

subsection \<open>RSA\<close>

text \<open>\<open>big.Int.BitLen\<close>.\<close>

definition bit_len :: "nat \<Rightarrow> nat" where
  "bit_len n = (if n = 0 then 0 else ilog2 n + 1)"

definition rsaPublicOperation :: "nat \<Rightarrow> nat \<Rightarrow> bytes \<Rightarrow> bytes option" where
  "rsaPublicOperation n e signature =
     (let k = (bit_len n + 7) div 8; s = be_val signature
      in if n = 0 \<or> e = 0 \<or> bit_len n > 16384 \<or> n \<le> e then None
         else if bit_len n > 3072 \<and> bit_len e > 64 then None
         else if length signature \<noteq> k then None
         else if s \<ge> n then None
         else Some (be_bytes k (s ^ e mod n)))"

definition verifyRSAPKCS1v15 :: "crypto \<Rightarrow> nat \<Rightarrow> nat \<Rightarrow> hash_func \<Rightarrow> bytes \<Rightarrow> bytes \<Rightarrow> bool" where
  "verifyRSAPKCS1v15 cr n e h data signature =
     (case rsaPublicOperation n e signature of
        None \<Rightarrow> False
      | Some em \<Rightarrow>
          let t = h_prefix h @ h_sum cr h data; k = length em
          in if k < length t + 11 then False
             else em = [0x00, 0x01] @ replicate (k - length t - 3) 0xFF @ [0x00] @ t)"

record pss_params =
  pss_hash :: hash_func
  pss_saltLength :: nat

definition digestFromAlgorithm :: "element \<Rightarrow> hash_func option" where
  "digestFromAlgorithm algorithm =
     (case bind_tst (Children (Content algorithm))
         (\<lambda>fs. demand (fs \<noteq> []) [] (DecodeOID (Content (hd fs)))) of
        Inl _ \<Rightarrow> None
      | Inr oid \<Rightarrow> digestOIDs oid)"

definition mgf_hash :: "element \<Rightarrow> hash_func option" where
  "mgf_hash e =
     (case Children (Content e) of
        Inr (a # b # _) \<Rightarrow> if DecodeOID (Content a) = Inr oidMGF1 then digestFromAlgorithm b else None
      | _ \<Rightarrow> None)"

text \<open>The options, in order: the parameters and the hash of the mask function.\<close>

fun pss_options :: "element list \<Rightarrow> pss_params \<times> hash_func \<Rightarrow> (pss_params \<times> hash_func) option" where
  "pss_options [] acc = Some acc"
| "pss_options (option # os) (params, mgfHash) =
     (if Class option \<noteq> 2 then None
      else case Children (Content option) of
          Inr (inner # _) \<Rightarrow>
            if Number option = 0
            then (case digestFromAlgorithm inner of
                None \<Rightarrow> None | Some h \<Rightarrow> pss_options os (params\<lparr>pss_hash := h\<rparr>, mgfHash))
            else if Number option = 1
            then (case mgf_hash inner of None \<Rightarrow> None | Some h \<Rightarrow> pss_options os (params, h))
            else if Number option = 2
            then (case derInteger inner of
                Inl _ \<Rightarrow> None
              | Inr v \<Rightarrow> if bit_len v > 31 then None else pss_options os (params\<lparr>pss_saltLength := v\<rparr>, mgfHash))
            else if Number option = 3
            then (case derInteger inner of Inr v \<Rightarrow> if v \<noteq> 1 then None else pss_options os (params, mgfHash) | _ \<Rightarrow> None)
            else None
        | _ \<Rightarrow> None)"

definition parsePSSParams :: "element \<Rightarrow> pss_params option" where
  "parsePSSParams algorithm =
     (let start = \<lparr>pss_hash = hashSHA1, pss_saltLength = 20\<rparr>
      in case Children (Content algorithm) of
           Inr [_] \<Rightarrow> Some start
         | Inr (_ # f # _) \<Rightarrow>
             (case Children (Content f) of
                Inl _ \<Rightarrow> None
              | Inr opts \<Rightarrow>
                  (case pss_options opts (start, hashSHA1) of
                     None \<Rightarrow> None
                   | Some (params, mgfHash) \<Rightarrow> if mgfHash \<noteq> pss_hash params then None else Some params))
         | _ \<Rightarrow> None)"

text \<open>The mask of MGF1, blocks of the hash of the seed and a counter.\<close>

definition mgf1_mask :: "crypto \<Rightarrow> hash_func \<Rightarrow> bytes \<Rightarrow> nat \<Rightarrow> bytes" where
  "mgf1_mask cr h seed n =
     take n (concat (map (\<lambda>i. h_sum cr h (seed @ be_bytes 4 i)) [0..<n div h_size h + 1]))"

definition mgf1XOR :: "crypto \<Rightarrow> hash_func \<Rightarrow> bytes \<Rightarrow> bytes \<Rightarrow> bytes" where
  "mgf1XOR cr h out seed = map2 (\<lambda>a b. a XOR b) out (mgf1_mask cr h seed (length out))"

text \<open>The loop that drops leading zero bytes down to a length.\<close>

fun strip_to :: "nat \<Rightarrow> bytes \<Rightarrow> bytes option" where
  "strip_to n [] = Some []"
| "strip_to n (b # bs) = (if Suc (length bs) \<le> n then Some (b # bs) else if b \<noteq> 0 then None else strip_to n bs)"

text \<open>The encoded message against the salt length and the hash, RFC 8017 section 9.1.2.\<close>

definition pss_check :: "crypto \<Rightarrow> hash_func \<Rightarrow> nat \<Rightarrow> nat \<Rightarrow> bytes \<Rightarrow> bytes \<Rightarrow> bool" where
  "pss_check cr h saltLen emBits em data =
     (let emLen = (emBits + 7) div 8; hLen = h_size h; topBits = 8 * emLen - emBits;
          maskedDB = take (emLen - hLen - 1) em; hash = take hLen (drop (emLen - hLen - 1) em);
          db0 = mgf1XOR cr h maskedDB hash;
          db = (if topBits > 0 then db0[0 := (db0 ! 0) AND drop_bit topBits 0xFF] else db0);
          psLen = emLen - hLen - saltLen - 2; salt = drop (psLen + 1) db
      in if emLen < hLen + saltLen + 2 \<or> em ! (emLen - 1) \<noteq> 0xBC then False
         else if topBits > 0 \<and> drop_bit (8 - topBits) (maskedDB ! 0) \<noteq> 0 then False
         else if \<not> list_all (\<lambda>b. b = 0) (take psLen db) then False
         else if db ! psLen \<noteq> 0x01 then False
         else hash = h_sum cr h (replicate 8 0 @ h_sum cr h data @ salt))"

definition verifyRSAPSS :: "crypto \<Rightarrow> nat \<Rightarrow> nat \<Rightarrow> pss_params \<Rightarrow> bytes \<Rightarrow> bytes \<Rightarrow> bool" where
  "verifyRSAPSS cr n e params data signature =
     (case rsaPublicOperation n e signature of
        None \<Rightarrow> False
      | Some em0 \<Rightarrow>
          let emBits = bit_len n - 1
          in case strip_to ((emBits + 7) div 8) em0 of
               None \<Rightarrow> False
             | Some em \<Rightarrow> pss_check cr (pss_hash params) (pss_saltLength params) emBits em data)"

subsection \<open>Checking signatures\<close>

fun verifyWithDigest :: "crypto \<Rightarrow> public_key \<Rightarrow> hash_func \<Rightarrow> bytes \<Rightarrow> bytes \<Rightarrow> bool" where
  "verifyWithDigest cr (RSA_key n e) h data signature = verifyRSAPKCS1v15 cr n e h data signature"
| "verifyWithDigest cr (EC_key c k) h data signature = cr_ecdsa cr c k (h_sum cr h data) signature"
| "verifyWithDigest cr (Ed25519_key k) h data signature = False"

text \<open>The scheme an algorithm names, with a key of its family.\<close>

definition scheme_valid :: "crypto \<Rightarrow> bytes \<Rightarrow> element \<Rightarrow> public_key \<Rightarrow> bytes \<Rightarrow> bytes \<Rightarrow> bool" where
  "scheme_valid cr oid sigAlg key tbs signature =
     (case rsaPKCS1SignatureOIDs oid of
        Some h \<Rightarrow> (case key of RSA_key n e \<Rightarrow> verifyRSAPKCS1v15 cr n e h tbs signature | _ \<Rightarrow> False)
      | None \<Rightarrow>
          (case ecdsaSignatureOIDs oid of
             Some h \<Rightarrow> (case key of EC_key c k \<Rightarrow> cr_ecdsa cr c k (h_sum cr h tbs) signature | _ \<Rightarrow> False)
           | None \<Rightarrow>
               if oid = oidRSASSAPSS
               then (case key of
                   RSA_key n e \<Rightarrow>
                     (case parsePSSParams sigAlg of
                        None \<Rightarrow> False | Some params \<Rightarrow> verifyRSAPSS cr n e params tbs signature)
                 | _ \<Rightarrow> False)
               else if oid = oidEd25519
               then (case key of
                   Ed25519_key k \<Rightarrow> length signature = 64 \<and> cr_ed cr k tbs signature | _ \<Rightarrow> False)
               else False))"

definition certificateSignatureValid :: "crypto \<Rightarrow> bytes \<Rightarrow> public_key \<Rightarrow> bool" where
  "certificateSignatureValid cr der issuerKey =
     (case parseCertificate der of
        Inl _ \<Rightarrow> False
      | Inr c \<Rightarrow>
          let inner = pc_fields c ! (pc_base c + 1); bits = pc_signature c
          in if ReencodeDeep inner \<noteq> ReencodeDeep (pc_sigAlg c) then False
             else if Number bits \<noteq> 0x03 \<or> Content bits = [] \<or> hd (Content bits) \<noteq> 0 then False
             else case Children (Content (pc_sigAlg c)) of
                 Inr (a # _) \<Rightarrow>
                   (case DecodeOID (Content a) of
                      Inl _ \<Rightarrow> False
                    | Inr oid \<Rightarrow>
                        scheme_valid cr oid (pc_sigAlg c) issuerKey (ReencodeDeep (pc_tbs c)) (tl (Content bits)))
               | _ \<Rightarrow> False)"

end
