(* ===== verification/Tst_Validate.thy ===== *)
theory Tst_Validate
  imports Tst_Crypto
begin

text \<open>
  \<open>internal/tst/cert.go\<close> and \<open>internal/tst/validate.go\<close>: the fields and extensions of a certificate, what
  makes it an acceptable issuer, the PEM reader, and the validation of a token. The last part shows
  what a validation without problems establishes: a chain of certificates from the signer to a trusted
  anchor.
\<close>

subsection \<open>Certificates\<close>

record cert_parts =
  Serial :: bytes
  Issuer :: bytes
  Subject :: bytes
  Validity :: element
  Extensions :: "element option"

definition oidBasicConstraints :: bytes where "oidBasicConstraints = lit ''2.5.29.19''"
definition oidKeyUsage :: bytes where "oidKeyUsage = lit ''2.5.29.15''"

definition ParseCertParts :: "bytes \<Rightarrow> cert_parts tst" where
  "ParseCertParts der =
     bind_tst (Read der 0) (\<lambda>certificate.
     bind_tst (Children (Content certificate)) (\<lambda>children.
     demand (children \<noteq> []) (lit ''certificate is malformed'') (
     bind_tst (Children (Content (children ! 0))) (\<lambda>tbs.
     let base = tbs_base tbs
     in demand (length tbs \<ge> base + 6) (lit ''tbsCertificate is malformed'')
       (Inr \<lparr>Serial = trim_left_zeros (Content (tbs ! base)), Issuer = Reencode (tbs ! (base + 2)),
         Subject = Reencode (tbs ! (base + 4)), Validity = tbs ! (base + 3),
         Extensions = find (\<lambda>f. Class f = 2 \<and> Number f = 3) (rev (drop (base + 6) tbs))\<rparr>)))))"

fun cert_extension_list :: "element list \<Rightarrow> (bytes \<rightharpoonup> bytes) \<Rightarrow> (bytes \<rightharpoonup> bytes) tst" where
  "cert_extension_list [] m = Inr m"
| "cert_extension_list (ext # es) m =
     bind_tst (Children (Content ext)) (\<lambda>fs.
     demand (length fs \<ge> 2 \<and> Number (fs ! 0) = 0x06) (lit ''certificate extension is malformed'') (
     demand (Number (last fs) = 0x04) (lit ''certificate extension value is malformed'') (
     bind_tst (DecodeOID (Content (fs ! 0))) (\<lambda>oid.
     cert_extension_list es (m(oid \<mapsto> Content (last fs)))))))"

definition certExtensions :: "element option \<Rightarrow> (bytes \<rightharpoonup> bytes) tst" where
  "certExtensions wrapper =
     (case wrapper of
        None \<Rightarrow> Inr Map.empty
      | Some w \<Rightarrow>
          bind_tst (Read (Content w) 0) (\<lambda>sequence.
          bind_tst (Children (Content sequence)) (\<lambda>es. cert_extension_list es Map.empty)))"

text \<open>The bounds of a validity, and the extensions: what both users of a certificate read.\<close>

definition cert_facts :: "bytes \<Rightarrow> (int \<times> int \<times> (bytes \<rightharpoonup> bytes)) tst" where
  "cert_facts der =
     bind_tst (ParseCertParts der) (\<lambda>parts.
     bind_tst (Children (Content (Validity parts))) (\<lambda>validity.
     demand (length validity \<ge> 2) [] (
     bind_tst (decodeTime (validity ! 0)) (\<lambda>notBefore.
     bind_tst (decodeTime (validity ! 1)) (\<lambda>notAfter.
     bind_tst (certExtensions (Extensions parts)) (\<lambda>es. Inr (notBefore, notAfter, es)))))))"

definition keyUsagePermitsCertSign :: "bytes \<Rightarrow> bool" where
  "keyUsagePermitsCertSign extnValue =
     (case Read extnValue 0 of
        Inl _ \<Rightarrow> False
      | Inr bits \<Rightarrow>
          Class bits = 0 \<and> Number bits = 0x03 \<and> length (Content bits) \<ge> 2 \<and> (Content bits ! 1) AND 0x04 \<noteq> 0)"

text \<open>The fields of a basicConstraints: whether it is a CA, and its path length if it states one.\<close>

definition basic_field :: "element \<Rightarrow> bool \<times> int option \<Rightarrow> bool \<times> int option" where
  "basic_field f acc =
     (case acc of (isCA, pathLength) \<Rightarrow>
        if Class f \<noteq> 0 then (isCA, pathLength)
        else if Number f = 0x01 then (length (Content f) = 1 \<and> Content f ! 0 \<noteq> 0, pathLength)
        else if Number f = 0x02
        then (let trimmed = trim_left_zeros (Content f)
          in (isCA, Some (if length trimmed > 4 then max_int64 else int (be_val trimmed))))
        else (isCA, pathLength))"

definition basic_constraints :: "bytes \<Rightarrow> (bool \<times> int option) option" where
  "basic_constraints val =
     (case Read val 0 of
        Inl _ \<Rightarrow> None
      | Inr sequence \<Rightarrow>
          if Class sequence \<noteq> 0 \<or> Number sequence \<noteq> 0x10 then None
          else case Children (Content sequence) of
              Inl _ \<Rightarrow> None
            | Inr fs \<Rightarrow> Some (fold basic_field fs (False, None)))"

definition key_usage_problems :: "(bytes \<rightharpoonup> bytes) \<Rightarrow> bytes list" where
  "key_usage_problems es =
     (case es oidKeyUsage of
        None \<Rightarrow> []
      | Some usage \<Rightarrow>
          if keyUsagePermitsCertSign usage then []
          else [lit ''an issuer certificate in the chain is not permitted to sign certificates: keyUsage lacks keyCertSign''])"

definition IssuerProblems :: "bytes \<Rightarrow> int \<Rightarrow> nat \<Rightarrow> bytes list" where
  "IssuerProblems issuerDER genTime intermediatesBelow =
     (case cert_facts issuerDER of
        Inl _ \<Rightarrow> [lit ''an issuer certificate in the chain does not parse'']
      | Inr (notBefore, notAfter, es) \<Rightarrow>
          let ps = (if genTime < notBefore \<or> genTime > notAfter
                then [lit ''an issuer certificate in the chain was not valid at genTime''] else [])
          in case es oidBasicConstraints of
               None \<Rightarrow> ps @ [lit ''an issuer certificate in the chain is not a CA: it carries no basicConstraints extension''] @
                 key_usage_problems es
             | Some val \<Rightarrow>
                 (case basic_constraints val of
                    None \<Rightarrow> ps @ [lit ''an issuer certificate in the chain has a malformed basicConstraints extension'']
                  | Some (isCA, pathLength) \<Rightarrow>
                      ps @
                      (if \<not> isCA then [lit ''an issuer certificate in the chain is not a CA: basicConstraints cA is FALSE'']
                       else case pathLength of
                           None \<Rightarrow> []
                         | Some pl \<Rightarrow>
                             if int intermediatesBelow > pl
                             then [lit ''an issuer certificate in the chain has more intermediates beneath it than its pathLenConstraint allows'']
                             else []) @
                      key_usage_problems es))"

subsection \<open>PEM\<close>

fun find_sub :: "bytes \<Rightarrow> bytes \<Rightarrow> nat option" where
  "find_sub pat [] = (if pat = [] then Some 0 else None)"
| "find_sub pat (b # bs) =
     (if take (length pat) (b # bs) = pat then Some 0 else map_option Suc (find_sub pat bs))"

definition pem_begin :: bytes where "pem_begin = lit ''-----BEGIN CERTIFICATE-----''"
definition pem_end :: bytes where "pem_end = lit ''-----END CERTIFICATE-----''"

text \<open>
  The matches of \<open>BEGIN(.+?)END\<close>, leftmost and shortest: the body has at least one byte, and where a
  BEGIN has no END after it no later one has.
\<close>

function pem_blocks :: "bytes \<Rightarrow> bytes list" where
  "pem_blocks s =
     (case find_sub pem_begin s of
        None \<Rightarrow> []
      | Some i \<Rightarrow>
          let rest = drop (i + length pem_begin) s
          in case find_sub pem_end (drop 1 rest) of
               None \<Rightarrow> []
             | Some j \<Rightarrow>
                 if rest = [] then []
                 else take (j + 1) rest # pem_blocks (drop (j + 1 + length pem_end) rest))"
  by pat_completeness auto
termination by (relation "measure length") (auto simp: pem_begin_def)

declare pem_blocks.simps [simp del]

definition is_pem_space :: "byte \<Rightarrow> bool" where
  "is_pem_space b \<longleftrightarrow> b = 32 \<or> b = 9 \<or> b = 10 \<or> b = 11 \<or> b = 12 \<or> b = 13"

definition pem_body :: "bytes \<Rightarrow> bytes option" where
  "pem_body body =
     (case Base64Strict (filter (\<lambda>b. \<not> is_pem_space b) body) of
        Some der \<Rightarrow> if der \<noteq> [] then Some der else None
      | None \<Rightarrow> None)"

definition PEMCertificates :: "bytes \<Rightarrow> bytes list" where
  "PEMCertificates pem = List.map_filter pem_body (pem_blocks pem)"

subsection \<open>Validation\<close>

definition imprintDigests :: "bytes \<Rightarrow> hash_func option" where
  "imprintDigests = map_of
     [(lit ''2.16.840.1.101.3.4.2.1'', hashSHA256), (lit ''2.16.840.1.101.3.4.2.2'', hashSHA384),
      (lit ''2.16.840.1.101.3.4.2.3'', hashSHA512)]"

text \<open>The digest a signature algorithm implies; \<open>rsaEncryption\<close> takes the SignerInfo's.\<close>

definition signature_digest :: "bytes \<Rightarrow> hash_func \<Rightarrow> hash_func option" where
  "signature_digest sigAlg dg = map_of
     [(lit ''1.2.840.113549.1.1.11'', hashSHA256), (lit ''1.2.840.10045.4.3.2'', hashSHA256),
      (lit ''1.2.840.113549.1.1.12'', hashSHA384), (lit ''1.2.840.10045.4.3.3'', hashSHA384),
      (lit ''1.2.840.113549.1.1.13'', hashSHA512), (lit ''1.2.840.10045.4.3.4'', hashSHA512),
      (oidRSAEncryption, dg)] sigAlg"

definition is_signer :: "tstoken \<Rightarrow> bytes \<Rightarrow> bool" where
  "is_signer t der =
     (case ParseCertParts der of
        Inl _ \<Rightarrow> False
      | Inr parts \<Rightarrow> Serial parts = SignerSerial t \<and> Issuer parts = SignerIssuer t)"

definition is_issuer :: "cert_parts \<Rightarrow> bytes \<Rightarrow> bool" where
  "is_issuer parts candidate =
     (case ParseCertParts candidate of Inl _ \<Rightarrow> False | Inr c \<Rightarrow> Subject c = Issuer parts)"

definition key_purposes :: "(bytes \<rightharpoonup> bytes) \<Rightarrow> bytes list" where
  "key_purposes es =
     (case es oidExtendedKeyUse of
        None \<Rightarrow> []
      | Some val \<Rightarrow>
          (case bind_tst (Read val 0) (\<lambda>sequence. Children (Content sequence)) of
             Inl _ \<Rightarrow> []
           | Inr purposes \<Rightarrow> List.map_filter (\<lambda>p. case DecodeOID (Content p) of Inl _ \<Rightarrow> None | Inr oid \<Rightarrow> Some oid) purposes))"

definition signerCertificateFacts :: "bytes \<Rightarrow> (int \<times> int \<times> bytes list) option" where
  "signerCertificateFacts der =
     (case cert_facts der of
        Inl _ \<Rightarrow> None
      | Inr (notBefore, notAfter, es) \<Rightarrow> Some (notBefore, notAfter, key_purposes es))"

definition sha1_of :: "crypto \<Rightarrow> bytes \<Rightarrow> bytes" where
  "sha1_of cr der = h_sum cr hashSHA1 der"

text \<open>
  The walk up the chain: the first argument counts the rounds left, \<open>depth\<close> is the source's loop
  variable.
\<close>

fun chain_walk ::
    "crypto \<Rightarrow> bytes list \<Rightarrow> bytes list \<Rightarrow> int \<Rightarrow> nat \<Rightarrow> nat \<Rightarrow> bytes \<Rightarrow> bytes list \<Rightarrow> bytes list" where
  "chain_walk cr pool anchorSet genTime 0 depth current seen = [lit ''the certificate chain is too deep'']"
| "chain_walk cr pool anchorSet genTime (Suc n) depth current seen =
     (let fingerprint = sha1_of cr current
      in if fingerprint \<in> set seen then [lit ''the certificate chain loops'']
         else case ParseCertParts current of
             Inl _ \<Rightarrow> [lit ''a certificate in the chain does not parse'']
           | Inr parts \<Rightarrow>
               if Issuer parts = Subject parts
               then (if fingerprint \<in> set anchorSet then []
                 else [lit ''the chain terminates at a root that is not in the provided CA''])
               else case find (is_issuer parts) pool of
                   None \<Rightarrow> [lit ''the certificate chain is incomplete: an issuer certificate is missing'']
                 | Some issuer \<Rightarrow>
                     (case certificatePublicKey cr issuer of
                        Inl _ \<Rightarrow> [lit ''a certificate signature in the chain does not verify'']
                      | Inr issuerKey \<Rightarrow>
                          if \<not> certificateSignatureValid cr current issuerKey
                          then [lit ''a certificate signature in the chain does not verify'']
                          else if IssuerProblems issuer genTime depth \<noteq> [] then IssuerProblems issuer genTime depth
                          else chain_walk cr pool anchorSet genTime n (depth + 1) issuer (fingerprint # seen)))"

definition chain_problems :: "crypto \<Rightarrow> tstoken \<Rightarrow> bytes \<Rightarrow> bytes option \<Rightarrow> bytes list" where
  "chain_problems cr t signerCert caPEM =
     (case caPEM of
        None \<Rightarrow> []
      | Some pem \<Rightarrow>
          let anchors = PEMCertificates pem
          in if anchors = [] then [lit ''the provided CA chain contains no certificates'']
             else chain_walk cr (Certs t @ anchors) (map (sha1_of cr) anchors) (GenTime t) 8 0 signerCert [])"

definition signature_problems :: "crypto \<Rightarrow> tstoken \<Rightarrow> hash_func \<Rightarrow> bytes \<Rightarrow> bytes list" where
  "signature_problems cr t algorithm signerCert =
     (case certificatePublicKey cr signerCert of
        Inr k \<Rightarrow>
          if verifyWithDigest cr k algorithm (SignedAttrsSet t) (Signature t) then []
          else [lit ''the CMS signature over the signed attributes does not verify'']
      | Inl _ \<Rightarrow> [lit ''the CMS signature over the signed attributes does not verify''])"

definition signer_problems :: "tstoken \<Rightarrow> bytes \<Rightarrow> bytes list" where
  "signer_problems t signerCert =
     (case signerCertificateFacts signerCert of
        None \<Rightarrow> [lit ''the signer certificate does not parse'']
      | Some (notBefore, notAfter, purposes) \<Rightarrow>
          (if GenTime t < notBefore \<or> GenTime t > notAfter
           then [lit ''the signer certificate was not valid at genTime''] else []) @
          (if oidTimeStamping \<notin> set purposes
           then [lit ''the signer certificate lacks the timestamping extended key usage''] else []))"

definition imprint_problems :: "crypto \<Rightarrow> tstoken \<Rightarrow> bytes \<Rightarrow> bytes list" where
  "imprint_problems cr t message =
     (case imprintDigests (ImprintAlg t) of
        None \<Rightarrow> [lit ''unsupported imprint algorithm ['' @ ImprintAlg t @ lit '']'']
      | Some h \<Rightarrow>
          if h_sum cr h message \<noteq> Imprint t
          then [lit ''the token message imprint does not match the checkpoint hash''] else []) @
     (if ContentTypeAttr t \<noteq> oidTSTInfo
      then [lit ''the signed contentType attribute is not id-ct-TSTInfo''] else [])"

definition Validate :: "crypto \<Rightarrow> tstoken \<Rightarrow> bytes \<Rightarrow> bytes option \<Rightarrow> bytes list" where
  "Validate cr t message caPEM =
     imprint_problems cr t message @
     (case imprintDigests (DigestAlg t) of
        None \<Rightarrow> [lit ''unsupported digest algorithm ['' @ DigestAlg t @ lit '']'']
      | Some dg \<Rightarrow>
          (if h_sum cr dg (TSTInfo t) \<noteq> MessageDigestAttr t
           then [lit ''the messageDigest attribute does not match the TSTInfo content''] else []) @
          (case find (is_signer t) (Certs t) of
             None \<Rightarrow> [lit ''the signer certificate is not embedded in the token'']
           | Some signerCert \<Rightarrow>
               (case signature_digest (SigAlg t) dg of
                  None \<Rightarrow> [lit ''unsupported signature algorithm ['' @ SigAlg t @ lit '']'']
                | Some algorithm \<Rightarrow>
                    signature_problems cr t algorithm signerCert @ signer_problems t signerCert @
                    chain_problems cr t signerCert caPEM)))"

subsection \<open>What a validation without problems establishes\<close>

text \<open>
  A chain from a certificate to a trusted anchor: each link is signed by the key of the next, whose
  subject it names as its issuer and which may issue at that depth; the last is self-issued and has
  the fingerprint of an anchor.
\<close>

fun chain_ok :: "crypto \<Rightarrow> bytes list \<Rightarrow> int \<Rightarrow> nat \<Rightarrow> bytes list \<Rightarrow> bool" where
  "chain_ok cr anchors genTime depth [] = False"
| "chain_ok cr anchors genTime depth [c] =
     (\<exists>parts. ParseCertParts c = Inr parts \<and> Issuer parts = Subject parts \<and>
        sha1_of cr c \<in> set (map (sha1_of cr) anchors))"
| "chain_ok cr anchors genTime depth (c # issuer # cs) =
     ((\<exists>parts key. ParseCertParts c = Inr parts \<and> is_issuer parts issuer \<and>
         certificatePublicKey cr issuer = Inr key \<and> certificateSignatureValid cr c key \<and>
         IssuerProblems issuer genTime depth = []) \<and>
      chain_ok cr anchors genTime (depth + 1) (issuer # cs))"

lemma chain_walk_sound:
  assumes "chain_walk cr pool (map (sha1_of cr) anchors) genTime n depth current seen = []"
  shows "\<exists>cs. length cs < n \<and> set cs \<subseteq> set pool \<and> chain_ok cr anchors genTime depth (current # cs)"
  using assms
proof (induction n arbitrary: depth current seen)
  case (Suc n)
  from Suc.prems obtain parts where parts: "ParseCertParts current = Inr parts"
    by (auto simp: Let_def split: if_splits sum.splits)
  show ?case
  proof (cases "Issuer parts = Subject parts")
    case True
    with Suc.prems parts have "chain_ok cr anchors genTime depth [current]"
      by (auto simp: Let_def split: if_splits)
    then show ?thesis by (intro exI [of _ "[]"]) simp
  next
    case False
    with Suc.prems parts obtain issuer key where i: "find (is_issuer parts) pool = Some issuer"
      "certificatePublicKey cr issuer = Inr key" "certificateSignatureValid cr current key"
      "IssuerProblems issuer genTime depth = []"
      and next_round: "chain_walk cr pool (map (sha1_of cr) anchors) genTime n (depth + 1) issuer (sha1_of cr current # seen) = []"
      by (auto simp: Let_def split: if_splits option.splits sum.splits)
    from Suc.IH [OF next_round] obtain cs where cs: "length cs < n" "set cs \<subseteq> set pool"
      "chain_ok cr anchors genTime (depth + 1) (issuer # cs)" by blast
    moreover have "issuer \<in> set pool" "is_issuer parts issuer" using i(1) by (auto simp: find_Some_iff)
    ultimately show ?thesis using i parts by (intro exI [of _ "issuer # cs"]) auto
  qed
qed simp

definition token_bound :: "crypto \<Rightarrow> tstoken \<Rightarrow> bytes \<Rightarrow> bool" where
  "token_bound cr t message \<longleftrightarrow>
     (\<exists>h d a signer key. imprintDigests (ImprintAlg t) = Some h \<and> h_sum cr h message = Imprint t \<and>
        ContentTypeAttr t = oidTSTInfo \<and> imprintDigests (DigestAlg t) = Some d \<and>
        h_sum cr d (TSTInfo t) = MessageDigestAttr t \<and>
        signer \<in> set (Certs t) \<and> is_signer t signer \<and> signature_digest (SigAlg t) d = Some a \<and>
        certificatePublicKey cr signer = Inr key \<and>
        verifyWithDigest cr key a (SignedAttrsSet t) (Signature t))"

lemma Validate_sound:
  assumes "Validate cr t message caPEM = []"
  shows "token_bound cr t message \<and>
    (\<exists>signer. find (is_signer t) (Certs t) = Some signer \<and> signer_problems t signer = [] \<and>
       (case caPEM of
          None \<Rightarrow> True
        | Some pem \<Rightarrow>
            \<exists>cs. length cs < 8 \<and> set cs \<subseteq> set (Certs t @ PEMCertificates pem) \<and>
              chain_ok cr (PEMCertificates pem) (GenTime t) 0 (signer # cs)))"
proof -
  from assms obtain h d signer a where v: "imprintDigests (ImprintAlg t) = Some h" "h_sum cr h message = Imprint t"
    "ContentTypeAttr t = oidTSTInfo" "imprintDigests (DigestAlg t) = Some d"
    "h_sum cr d (TSTInfo t) = MessageDigestAttr t" "find (is_signer t) (Certs t) = Some signer"
    "signature_digest (SigAlg t) d = Some a" "signature_problems cr t a signer = []"
    "signer_problems t signer = []" "chain_problems cr t signer caPEM = []"
    by (auto simp: Validate_def imprint_problems_def split: if_splits option.splits)
  moreover from v(8) obtain key where "certificatePublicKey cr signer = Inr key"
    "verifyWithDigest cr key a (SignedAttrsSet t) (Signature t)"
    by (auto simp: signature_problems_def split: if_splits sum.splits)
  moreover have "signer \<in> set (Certs t)" "is_signer t signer" using v(6) by (auto simp: find_Some_iff)
  ultimately have "token_bound cr t message" unfolding token_bound_def by blast
  moreover have "\<exists>cs. length cs < 8 \<and> set cs \<subseteq> set (Certs t @ PEMCertificates pem) \<and>
      chain_ok cr (PEMCertificates pem) (GenTime t) 0 (signer # cs)" if "caPEM = Some pem" for pem
    using v(10) that by (intro chain_walk_sound) (auto simp: chain_problems_def Let_def split: if_splits)
  ultimately show ?thesis using v(6,9) by (auto split: option.splits)
qed

end
