(* ===== verification/Anchors.thy ===== *)
theory Anchors
  imports Walk Tst_Validate
begin

text \<open>
  \<open>verify/anchors.go\<close>: the RFC 3161 tokens over the checkpoint hashes, and the certificates of evidence
  that travel with a bundle.
\<close>

definition anchor_list :: "vopt \<Rightarrow> json list" where
  "anchor_list doc = (if IsArray (Field doc (lit ''anchors'')) then ArrOf (Field doc (lit ''anchors'')) else [])"

text \<open>The trust roots: this verifier's, and the bundle's only where it has none.\<close>

definition trusted_pem :: "run \<Rightarrow> bytes option" where
  "trusted_pem r = (if trustedPEMPresent (tsaRoots r) then Some (tsaRoots r) else None)"

definition bundle_pem :: "vopt \<Rightarrow> bytes option" where
  "bundle_pem anchor =
     (let ca = Field anchor (lit ''ca_pem'') in if IsString ca \<and> StrOf ca \<noteq> [] then Some (StrOf ca) else None)"

definition ca_pem :: "run \<Rightarrow> vopt \<Rightarrow> bytes option" where
  "ca_pem r anchor = (case trusted_pem r of Some p \<Rightarrow> Some p | None \<Rightarrow> bundle_pem anchor)"

text \<open>The informational metadata of a qualified authority.\<close>

definition qualified_note :: "bytes \<Rightarrow> vopt \<Rightarrow> run \<Rightarrow> run" where
  "qualified_note label anchor =
     whenever (Field anchor (lit ''qualified'') = Some (JBool True))
       (let pn = Field anchor (lit ''provider_name''); j = Field anchor (lit ''jurisdiction'');
            providerName = (if IsString pn then StrOf pn
              else textOr (Field anchor (lit ''provider'')) (lit ''unknown''));
            jurisdiction = (if IsString j then lit '' ('' @ StrOf j @ lit '')'' else [])
        in note_msg (label_msg label
          (lit ''the exporter recorded this token as issued by a qualified trust service provider - '' @ providerName @
           jurisdiction @ lit ''. Informational: the verdict rests on the cryptographic checks alone'')))"

text \<open>A token that has been read: its problems, and what its roots leave unsettled.\<close>

definition anchor_token ::
    "crypto \<Rightarrow> bytes \<Rightarrow> vopt \<Rightarrow> bytes \<Rightarrow> tstoken \<Rightarrow> int option \<times> run \<Rightarrow> int option \<times> run" where
  "anchor_token cr label anchor checkpointHash t s =
     (case s of (latest, r) \<Rightarrow>
        let message = (case hexBytes checkpointHash of Some m \<Rightarrow> m | None \<Rightarrow> []);
            problems = Validate cr t message (ca_pem r anchor);
            r1 = fold (\<lambda>p. report (label_msg label p) (Some ResultTimestamps)) problems r;
            latest' = (if problems = [] \<and> trusted_pem r \<noteq> None \<and> (latest = None \<or> GenTime t > the latest)
              then Some (GenTime t) else latest);
            r2 = (if trusted_pem r = None \<and> bundle_pem anchor \<noteq> None
              then unconfirmed (label_msg label
                (lit ''the token and its imprint verify, and the signer chains only to a root this bundle supplied - which shows the bundle is self-consistent, not that a timestamp authority you trust issued it. Pass --tsa-roots with the authority's own roots to settle it'')) ResultTimestamps r1
              else if ca_pem r anchor = None
              then unconfirmed (label_msg label
                (lit ''the token and its imprint verify, but no trust roots were available, so the timestamp authority's identity was not established'')) ResultTimestamps r1
              else r1)
        in (latest', qualified_note label anchor r2))"

definition check_anchor ::
    "crypto \<Rightarrow> bytes list \<Rightarrow> int \<times> json \<Rightarrow> int option \<times> run \<Rightarrow> int option \<times> run" where
  "check_anchor cr checkpointHashes e s =
     (case (e, s) of ((index, anchorj), (latest, r)) \<Rightarrow>
        let anchor = Some anchorj;
            label = lit ''anchor #'' @ int_text index @ lit '' ('' @ textOr (Field anchor (lit ''provider'')) (lit ''unknown'') @ lit '')'';
            checkpointHash = lower (text_of (Field anchor (lit ''checkpoint_hash'')));
            bad = (\<lambda>m. (latest, content (label_msg label m) r))
        in if checkpointHash \<notin> set checkpointHashes
           then bad (lit ''anchors a checkpoint hash that is not in this bundle'')
           else case Base64Strict (text_of (Field anchor (lit ''token''))) of
               None \<Rightarrow> bad (lit ''the token is not valid base64'')
             | Some tokenDER \<Rightarrow>
                 if tokenDER = [] then bad (lit ''the token is not valid base64'')
                 else if lower (text_of (Field anchor (lit ''token_hash''))) \<noteq> sha256Hex tokenDER
                 then bad (lit ''the token does not match its recorded token_hash'')
                 else case ParseToken tokenDER of
                     Inl err \<Rightarrow> bad (lit ''the token does not parse ('' @ err @ lit '')'')
                   | Inr t \<Rightarrow> anchor_token cr label anchor checkpointHash t (latest, r))"

definition checkAnchors :: "crypto \<Rightarrow> reader \<Rightarrow> bool \<Rightarrow> bytes list \<Rightarrow> int option action" where
  "checkAnchors cr b skipAnchors checkpointHashes =
     (let notChecked = demote_run ResultTimestamps StateNotChecked
      in if \<not> IsFile b (lit ''anchors.json'') then andthen (perform notChecked) (\<lambda>_. return None)
         else andthen (lift (decodeOptional b (lit ''anchors.json''))) (\<lambda>doc.
           let anchors = anchor_list doc
           in if anchors \<noteq> [] \<and> skipAnchors
              then andthen (perform (\<lambda>r. notChecked (info (lit ''Skipping '' @ int_text (int (length anchors)) @
                lit '' RFC 3161 anchor token(s) (--skip-anchors).'') r))) (\<lambda>_. return None)
              else if anchors = [] then andthen (perform notChecked) (\<lambda>_. return None)
              else andthen (perform (info (lit ''Checking anchors.json (RFC 3161 timestamps)...''))) (\<lambda>_.
                compute (\<lambda>r. fold (check_anchor cr checkpointHashes) (numbered 1 anchors) (None, r)))))"

subsection \<open>Certificates of evidence\<close>

definition contains :: "bytes \<Rightarrow> bytes \<Rightarrow> bool" where
  "contains s sub \<longleftrightarrow> find_sub sub s \<noteq> None"

definition check_certificate :: "reader \<Rightarrow> int \<Rightarrow> json \<Rightarrow> unit action" where
  "check_certificate b index recj =
     (let rec = Some recj; idV = Field rec (lit ''id''); file = Field rec (lit ''file''); name = StrOf file;
          label = lit ''certificate '' @ (if IsString idV then StrOf idV else lit ''#'' @ int_text index)
      in if \<not> IsString file \<or> \<not> has_prefix name (lit ''certificates/'') \<or> contains name (lit ''..'')
         then perform (content (label_msg label (lit ''the manifest entry has a missing or unsafe file path'')))
         else if \<not> IsFile b name
         then perform (content (label_msg label (lit ''listed in the manifest but missing from the bundle'')))
         else andthen (lift (Open_file b name)) (\<lambda>data.
           perform (whenever (lower (text_of (Field rec (lit ''sha256''))) \<noteq> sha256Hex data)
             (content (label_msg label (lit ''the file does not match its manifest sha256''))))))"

fun check_certificate_list :: "reader \<Rightarrow> (int \<times> json) list \<Rightarrow> unit action" where
  "check_certificate_list b [] = return ()"
| "check_certificate_list b ((i, c) # cs) = andthen (check_certificate b i c) (\<lambda>_. check_certificate_list b cs)"

definition checkCertificates :: "reader \<Rightarrow> vopt \<Rightarrow> unit action" where
  "checkCertificates b doc =
     (let records = ArrOf (Field doc (lit ''certificates'')); n = int_text (int (length records))
      in if records = [] then return ()
         else andthen (perform (info (lit ''Checking '' @ n @ lit '' Certificate(s) of Evidence (certificates/)...''))) (\<lambda>_.
           andthen (check_certificate_list b (numbered 1 records)) (\<lambda>_.
           perform (note_msg (n @ lit '' Certificate(s) of Evidence travelled with this bundle. They are documents about the evidence; the cryptographic verification above does not depend on them'')))))"

end
