(* ===== verification/Declarations.thy ===== *)
theory Declarations
  imports Walk
begin

text \<open>
  \<open>verify/declarations.go\<close>: an absent payload is accepted only against a declaration the verifier can
  authenticate and that names the event. \<open>aset\<close> is the source's \<open>authenticatedSet\<close>, an insertion
  ordered map with removals.
\<close>

definition declarationCovers :: "vopt \<Rightarrow> bytes \<Rightarrow> int \<Rightarrow> bool" where
  "declarationCovers payload stream sequence \<longleftrightarrow>
     IsObject payload \<and> IsArray (Field payload (lit ''targets'')) \<and>
     list_ex (\<lambda>target.
         IsObject (Some target) \<and> strEq (Field (Some target) (lit ''stream'')) stream \<and>
         IsArray (Field (Some target) (lit ''runs'')) \<and>
         list_ex (\<lambda>run. case run of
             JArray [JInt from, JInt to] \<Rightarrow> from \<le> sequence \<and> sequence \<le> to
           | _ \<Rightarrow> False) (ArrOf (Field (Some target) (lit ''runs''))))
       (ArrOf (Field payload (lit ''targets'')))"

definition declarationSelfProblems :: "vopt \<Rightarrow> bytes list" where
  "declarationSelfProblems record =
     (let label = lit ''sequence '' @ textOr (Field record (lit ''seq'')) (lit ''?'')
      in (case Canonical (Some (fieldOrNull record (lit ''payload''))) of
            Inl e \<Rightarrow> [label_msg label (lit ''payload cannot be canonicalised ('' @ error_text e @ lit '')'')]
          | Inr canonical \<Rightarrow>
              if lower (text_of (Field record (lit ''payload_hash''))) \<noteq> sha256Hex canonical
              then [label_msg label (lit ''payload_hash does not match the declaration's own payload'')] else []) @
         (case Canonical (Some (entryPreimage (fieldOrNull record (lit ''stream'')) (fieldOrNull record (lit ''seq'')) record)) of
            Inl e \<Rightarrow> [label_msg label (lit ''the declaration's fields cannot be canonicalised ('' @ error_text e @
              lit '') - its entry hash cannot be recomputed'')]
          | Inr preimage \<Rightarrow>
              if lower (text_of (Field record (lit ''entry_hash''))) \<noteq> sha256Hex preimage
              then [label_msg label (lit ''entry_hash does not recompute from the declaration's own fields'')] else []))"

subsection \<open>The authenticated set\<close>

record aset =
  as_order :: "bytes list"
  as_records :: "bytes \<rightharpoonup> json"

definition aset_empty :: aset where
  "aset_empty = \<lparr>as_order = [], as_records = Map.empty\<rparr>"

definition aset_add :: "bytes \<Rightarrow> json \<Rightarrow> aset \<Rightarrow> aset" where
  "aset_add hash rec a =
     a\<lparr>as_order := (if as_records a hash = None then as_order a @ [hash] else as_order a),
       as_records := (as_records a)(hash \<mapsto> rec)\<rparr>"

definition aset_remove :: "bytes \<Rightarrow> aset \<Rightarrow> aset" where
  "aset_remove hash a = a\<lparr>as_records := (as_records a)(hash := None)\<rparr>"

definition aset_get :: "aset \<Rightarrow> bytes \<Rightarrow> json option" where
  "aset_get a hash = as_records a hash"

text \<open>The live records, in insertion order.\<close>

definition aset_live :: "aset \<Rightarrow> (bytes \<times> json) list" where
  "aset_live a = List.map_filter (\<lambda>h. map_option (\<lambda>v. (h, v)) (as_records a h)) (as_order a)"

subsection \<open>Inclusion proofs\<close>

definition proof_entry_hash :: "json \<Rightarrow> bytes option" where
  "proof_entry_hash entry =
     (let eh = Field (Field (Some entry) (lit ''declaration'')) (lit ''entry_hash'')
      in if IsString eh then Some (lower (StrOf eh)) else None)"

definition loadDeclarationProofs :: "reader \<Rightarrow> (bytes \<rightharpoonup> json) action" where
  "loadDeclarationProofs b =
     andthen (lift (decodeOptional b (lit ''declaration_proofs.json''))) (\<lambda>doc.
       if \<not> IsObject doc \<or> \<not> IsArray (Field doc (lit ''proofs'')) then return Map.empty
       else return (fold (\<lambda>entry m. case proof_entry_hash entry of None \<Rightarrow> m | Some h \<Rightarrow> m(h \<mapsto> entry))
         (ArrOf (Field doc (lit ''proofs''))) Map.empty))"

definition audit_step_of :: "json \<Rightarrow> step option" where
  "audit_step_of st =
     (let siblingHex = Field (Some st) (lit ''hash''); side = Field (Some st) (lit ''side'')
      in case (if IsString siblingHex then hexBytes (StrOf siblingHex) else None) of
           None \<Rightarrow> None
         | Some sibling \<Rightarrow>
             if strEq side (lit ''left'') \<or> strEq side (lit ''right'')
             then Some \<lparr>Sibling = sibling, Left = strEq side (lit ''left'')\<rparr> else None)"

fun audit_steps :: "json list \<Rightarrow> step list option" where
  "audit_steps [] = Some []"
| "audit_steps (s # ss) =
     (case audit_step_of s of
        None \<Rightarrow> None
      | Some st \<Rightarrow> map_option (\<lambda>sts. st # sts) (audit_steps ss))"

text \<open>
  The sealing checkpoint of a proof; the problem, if there is one. \<open>signature_ok\<close> also asks that the
  message is not empty, which a hash that recomputed is not.
\<close>

definition seal_problem :: "ed_check \<Rightarrow> trusted_key list \<Rightarrow> bytes \<Rightarrow> vopt \<Rightarrow> bytes option" where
  "seal_problem ed ks where' checkpoint =
     (let vF = Field checkpoint (lit ''v'');
          v = (if nullish vF then JInt 1 else the vF);
          f = (\<lambda>k. fieldOrNull checkpoint k);
          declaredHash = lower (text_of (Field checkpoint (lit ''checkpoint_hash'')));
          publicKeyHex = lower (text_of (Field checkpoint (lit ''public_key'')))
      in case Canonical (Some (checkpointPreimage v (f (lit ''stream'')) (f (lit ''from'')) (f (lit ''to''))
             (f (lit ''root'')) (f (lit ''prev_checkpoint'')) (f (lit ''created_at'')))) of
           Inl e \<Rightarrow> Some (where' @ lit '': its sealing checkpoint's fields cannot be canonicalised ('' @ error_text e @
             lit '') - its hash cannot be recomputed'')
         | Inr preimage \<Rightarrow>
             if declaredHash \<noteq> sha256Hex preimage
             then Some (where' @ lit '': its sealing checkpoint's hash does not recompute from its fields'')
             else if \<not> signature_ok ed publicKeyHex declaredHash (text_of (Field checkpoint (lit ''signature'')))
             then Some (where' @ lit '': its sealing checkpoint's signature does not verify'')
             else case lookup_key ks publicKeyHex of
                 None \<Rightarrow> None
               | Some k \<Rightarrow>
                   (case windowProblems (fst (key_window k)) (snd (key_window k))
                        (text_of (Field checkpoint (lit ''created_at''))) of
                      [] \<Rightarrow> None
                    | p # _ \<Rightarrow> Some (where' @ lit '': its sealing checkpoint '' @ p)))"

definition declarationProofProblem ::
    "ed_check \<Rightarrow> trusted_key list \<Rightarrow> (bytes \<rightharpoonup> json) \<Rightarrow> bytes \<Rightarrow> json \<Rightarrow> bytes option" where
  "declarationProofProblem ed ks proofs entryHash rec =
     (let where' = lit ''declaration '' @ textOr (Field (Some rec) (lit ''stream_slug'')) (lit ''?'') @
            lit '' sequence '' @ textOr (Field (Some rec) (lit ''seq'')) (lit ''?'')
      in case proofs entryHash of
           None \<Rightarrow> Some (where' @
             lit '': sits outside this bundle's range and carries no inclusion proof, so nothing here shows it was ever sealed'')
         | Some proof' \<Rightarrow>
             let checkpoint = Field (Some proof') (lit ''checkpoint''); path = Field (Some proof') (lit ''path'')
             in if \<not> IsObject checkpoint then Some (where' @ lit '': its proof carries no checkpoint'')
                else if \<not> IsArray path then Some (where' @ lit '': its proof is malformed'')
                else case hexBytes entryHash of
                    None \<Rightarrow> Some (where' @ lit '': its entry hash is not hex'')
                  | Some leaf \<Rightarrow>
                      (case audit_steps (ArrOf path) of
                         None \<Rightarrow> Some (where' @ lit '': its audit path is malformed'')
                       | Some sts \<Rightarrow>
                           if lower (text_of (Field checkpoint (lit ''root''))) \<noteq> hex_text (AuditPath sha256 leaf sts)
                           then Some (where' @
                             lit '': its audit path does not rebuild the checkpoint's Merkle root - the proof does not prove this declaration'')
                           else seal_problem ed ks where' checkpoint))"

subsection \<open>The rule\<close>

abbreviation redaction_fail :: "bytes \<Rightarrow> run \<Rightarrow> run" where
  "redaction_fail m \<equiv> report m (Some ResultRedactions)"

definition declaration_line :: "int \<Rightarrow> bytes \<Rightarrow> aset \<times> run \<Rightarrow> aset \<times> run" where
  "declaration_line nr line s =
     (case s of (a, r) \<Rightarrow>
        case decode line of
          Some (JObject ms) \<Rightarrow>
            (let rec = Some (JObject ms); problems = declarationSelfProblems rec;
                 r' = fold (\<lambda>p. redaction_fail (lit ''declaration '' @ p)) problems r
             in if problems = [] then (aset_add (lower (text_of (Field rec (lit ''entry_hash'')))) (JObject ms) a, r')
                else (a, r'))
        | _ \<Rightarrow> (a, redaction_fail (lit ''declarations.ndjson line '' @ int_text (nr + 1) @ lit '' is not valid JSON'') r))"

text \<open>Sealing: inside the range by the walk, outside it by an audit path.\<close>

definition seal_declaration ::
    "ed_check \<Rightarrow> manifest \<Rightarrow> (int \<rightharpoonup> bytes) \<Rightarrow> (bytes \<rightharpoonup> json) \<Rightarrow> bytes \<Rightarrow> aset \<times> run \<Rightarrow> aset \<times> run" where
  "seal_declaration ed mf walked proofs entryHash s =
     (case s of (a, r) \<Rightarrow>
        case aset_get a entryHash of
          None \<Rightarrow> (a, r)
        | Some rec \<Rightarrow>
            let seq = Field (Some rec) (lit ''seq'')
            in if strEq (Field (Some rec) (lit ''stream'')) (mf_stream mf) \<and> IsInt seq \<and>
                  mf_from mf \<le> IntOf seq \<and> IntOf seq \<le> mf_to mf
               then (if walked (IntOf seq) \<noteq> Some entryHash
                 then (aset_remove entryHash a,
                   redaction_fail (lit ''declaration at sequence '' @ int_text (IntOf seq) @
                     lit '': its entry hash is not the one events.ndjson carries at that sequence - the bundle contradicts itself'') r)
                 else (a, r))
               else case declarationProofProblem ed (trusted r) proofs entryHash rec of
                   None \<Rightarrow> (a, r)
                 | Some problem \<Rightarrow> (aset_remove entryHash a, redaction_fail problem r))"

text \<open>The action a declaration stands for: its own, or its original's when it is a supplement.\<close>

definition original_of :: "aset \<Rightarrow> json \<Rightarrow> json option" where
  "original_of a rec =
     (let original = Field (Field (Field (Some rec) (lit ''payload'')) (lit ''declaration'')) (lit ''entry_hash'')
      in if IsString original then aset_get a (lower (StrOf original)) else None)"

fun match_declaration :: "aset \<Rightarrow> bytes \<Rightarrow> bytes \<Rightarrow> int \<Rightarrow> (bytes \<times> json) list \<Rightarrow> run \<Rightarrow> bool \<times> run" where
  "match_declaration a stream wanted sequence [] r = (False, r)"
| "match_declaration a stream wanted sequence ((h, rec) # ds) r =
     (let record = Some rec; action' = Field record (lit ''action'');
          supplement = strEq action' (lit ''declaration.supplemented'');
          act = (if supplement then Field (original_of a rec) (lit ''action'') else action');
          seq = Field record (lit ''seq'')
      in if \<not> declarationCovers (Field record (lit ''payload'')) stream sequence
         then match_declaration a stream wanted sequence ds r
         else if supplement \<and> original_of a rec = None
         then match_declaration a stream wanted sequence ds
           (redaction_fail (seq_msg sequence
             (lit ''a supplementary declaration names this event, but the original declaration it supplements is not in the bundle - a supplement proves nothing alone'')) r)
         else if \<not> strEq act wanted then match_declaration a stream wanted sequence ds r
         else if strEq (Field record (lit ''stream'')) stream \<and> IsInt seq \<and> IntOf seq \<le> sequence
         then match_declaration a stream wanted sequence ds
           (redaction_fail (seq_msg sequence (lit ''the declaration naming it sits at sequence '' @ int_text (IntOf seq) @
             lit '', at or before the event itself - a payload cannot be declared destroyed before it existed'')) r)
         else (True, r))"

definition wanted_action :: "(int \<rightharpoonup> bytes) \<Rightarrow> int \<Rightarrow> bytes" where
  "wanted_action kinds sequence =
     (if kinds sequence = Some (lit ''erased'') then lit ''pii.subject_erased'' else lit ''payload.redacted'')"

definition absent_event :: "aset \<Rightarrow> bytes \<Rightarrow> (int \<rightharpoonup> bytes) \<Rightarrow> int \<Rightarrow> run \<Rightarrow> run" where
  "absent_event a stream kinds sequence r =
     (let wanted = wanted_action kinds sequence
      in case match_declaration a stream wanted sequence (aset_live a) r of
           (matched, r') \<Rightarrow>
             whenever (\<not> matched) (redaction_fail (seq_msg sequence
               (lit ''the payload is absent and no authenticated '' @ wanted @
                lit '' declaration in this bundle names it - absence must be declared, never implied''))) r')"

definition checkDeclarations :: "ed_check \<Rightarrow> reader \<Rightarrow> manifest \<Rightarrow> walk \<Rightarrow> unit action" where
  "checkDeclarations ed b mf w =
     (let absent = w_absent w; count = int_text (int (length absent))
      in andthen (perform (info (lit ''Checking declarations for '' @ count @ lit '' absent payload(s)...''))) (\<lambda>_.
        if mf_format mf \<notin> {lit ''sigilbase-evidence/1.5'', lit ''sigilbase-evidence/1.6'', lit ''sigilbase-evidence/1.7''}
        then perform (redaction_fail (lit ''this bundle is '' @ mf_format mf @ lit '' and carries '' @ count @
          lit '' absent payload(s). Formats before sigilbase-evidence/1.5 do not carry the declarations that destroyed them, so the absences cannot be verified. Export the range again from Sigilbase to get a bundle that can be.''))
        else if \<not> IsFile b (lit ''declarations.ndjson'')
        then perform (redaction_fail
          (lit ''declarations.ndjson is missing, but payloads in this bundle are absent - evidence with pieces deleted must never pass''))
        else andthen (lift (Open_file b (lit ''declarations.ndjson''))) (\<lambda>f.
          andthen (compute (\<lambda>r. case for_lines declaration_line (NewLines f) (aset_empty, r) of
              ((a, r'), l) \<Rightarrow> ((a, l), r'))) (\<lambda>(a, l).
          andthen (lines_problem (lit ''declarations.ndjson'') l) (\<lambda>_.
          andthen (loadDeclarationProofs b) (\<lambda>proofs.
          andthen (compute (\<lambda>r. fold (seal_declaration ed mf (w_hashes w) proofs) (as_order a) (a, r))) (\<lambda>a'.
          perform (fold (absent_event a' (mf_stream mf) (w_kinds w)) absent))))))))"

end
