(* ===== verification/Sigilsign.thy ===== *)
theory Sigilsign
  imports Walk
begin

text \<open>
  \<open>verify/sigilsign.go\<close>: \<open>documents.json\<close>, \<open>signatures.json\<close> and \<open>links.json\<close>, whose stated facts are
  cross-checked against the events they name.
\<close>

text \<open>Every integer a document holds under a key that ends in \<open>sequence\<close>.\<close>

fun collectReferencedSequences :: "json \<Rightarrow> int list" where
  "collectReferencedSequences (JArray xs) = concat (map collectReferencedSequences xs)"
| "collectReferencedSequences (JObject ms) =
     concat (map (\<lambda>(key, val).
       (if IsInt (Some val) \<and> has_suffix key (lit ''sequence'') then [IntOf (Some val)] else []) @
       collectReferencedSequences val) ms)"
| "collectReferencedSequences _ = []"

record sign_events =
  se_bySequence :: "int \<rightharpoonup> json"
  se_byResource :: "bytes \<rightharpoonup> json list"

definition no_events :: sign_events where
  "no_events = \<lparr>se_bySequence = Map.empty, se_byResource = Map.empty\<rparr>"

definition sign_line :: "int list \<Rightarrow> int \<Rightarrow> bytes \<Rightarrow> sign_events \<Rightarrow> sign_events" where
  "sign_line wanted nr line se =
     (case decode line of
        Some (JObject ms) \<Rightarrow>
          (let event = JObject ms; resource = Field (Some event) (lit ''resource''); seq = Field (Some event) (lit ''seq'');
               isSigning = (IsString resource \<and> has_prefix (StrOf resource) (lit ''signing:''))
           in if \<not> isSigning \<and> \<not> (IsInt seq \<and> IntOf seq \<in> set wanted) then se
              else let se1 = (if IsInt seq then se\<lparr>se_bySequence := (se_bySequence se)(IntOf seq \<mapsto> event)\<rparr> else se)
                in if isSigning
                   then se1\<lparr>se_byResource := (se_byResource se1)(StrOf resource \<mapsto>
                     lookup_or [] (se_byResource se1) (StrOf resource) @ [event])\<rparr>
                   else se1)
      | _ \<Rightarrow> se)"

text \<open>A file of the three, as a list of records or nothing when it is malformed.\<close>

definition record_list :: "vopt \<Rightarrow> bytes \<Rightarrow> json list option" where
  "record_list doc name = (let v = Field doc name in if IsArray v then Some (ArrOf v) else None)"

definition sha_of :: "vopt \<Rightarrow> bytes" where
  "sha_of v = lower (text_of (Field v (lit ''sha256'')))"

subsection \<open>Documents\<close>

definition document_version :: "sign_events \<Rightarrow> bytes \<Rightarrow> json \<Rightarrow> int \<times> run \<Rightarrow> int \<times> run" where
  "document_version se slug version s =
     (case s of (checked, r) \<Rightarrow>
        let sequence = Field (Some version) (lit ''published_sequence''); statedSha = sha_of (Some version);
            doc = lit ''documents.json: document '' @ slug; n = int_text (IntOf sequence)
        in if \<not> IsInt sequence
           then (checked, content (doc @ lit '' lists a version without an integer published_sequence'') r)
           else case se_bySequence se (IntOf sequence) of
               None \<Rightarrow> (checked, content (doc @ lit '' points at sequence '' @ n @ lit '', which is not in this bundle'') r)
             | Some published \<Rightarrow>
                 let payload = Field (Some published) (lit ''payload''); ledgeredSha = sha_of payload
                 in if \<not> strEq (Field (Some published) (lit ''action'')) (lit ''document.published'')
                    then (checked, content (doc @ lit '' points at sequence '' @ n @
                      lit '', which is not a document.published event'') r)
                    else if \<not> IsObject payload
                    then (checked, note_msg (doc @ lit '''s publication at sequence '' @ n @
                      lit '' has a redacted payload; the stated hash cannot be cross-checked'') r)
                    else if ledgeredSha \<noteq> statedSha
                    then (checked, content (doc @ lit '' states sha256 '' @ statedSha @
                      lit '' but its document.published event at sequence '' @ n @ lit '' carries '' @ ledgeredSha) r)
                    else (checked + 1, r))"

definition document_record :: "sign_events \<Rightarrow> json \<Rightarrow> int \<times> run \<Rightarrow> int \<times> run" where
  "document_record se record s =
     (let slugV = Field (Some record) (lit ''slug''); slug = (if IsString slugV then StrOf slugV else lit ''(unnamed)'')
      in fold (document_version se slug) (arrayCast (Field (Some record) (lit ''versions''))) s)"

definition check_documents :: "sign_events \<Rightarrow> vopt \<Rightarrow> run \<Rightarrow> run" where
  "check_documents se doc r =
     (case record_list doc (lit ''documents'') of
        None \<Rightarrow> content (lit ''documents.json is present but malformed - expected a \"documents\" list'') r
      | Some records \<Rightarrow>
          (case fold (document_record se) records (0, r) of
             (checked, r') \<Rightarrow> note_msg (lit ''documents.json: '' @ int_text checked @
               lit '' document version hash(es) match their ledgered document.published events'') r'))"

subsection \<open>Signatures\<close>

text \<open>The chain's own story: what each signer saw and signed, in the order of signing.\<close>

record signers =
  sg_viewed :: "bytes \<rightharpoonup> bytes"
  sg_signed :: "(bytes \<times> json) list"

definition signer_event :: "json \<Rightarrow> signers \<Rightarrow> signers" where
  "signer_event ev sg =
     (let payload = Field (Some ev) (lit ''payload''); emailV = Field (Field payload (lit ''signer'')) (lit ''email'');
          email = lower (StrOf emailV); act = Field (Some ev) (lit ''action'')
      in if \<not> IsObject payload \<or> \<not> IsString emailV then sg
         else let sg1 = (if strEq act (lit ''signature.viewed'')
                then sg\<lparr>sg_viewed := (sg_viewed sg)(email \<mapsto> sha_of payload)\<rparr> else sg)
           in if strEq act (lit ''signature.signed'')
              then sg1\<lparr>sg_signed := AList.update email (the payload) (sg_signed sg1)\<rparr> else sg1)"

definition signed_consistent :: "bytes \<Rightarrow> bytes \<Rightarrow> signers \<Rightarrow> bytes \<times> json \<Rightarrow> run \<Rightarrow> run" where
  "signed_consistent label documentSha sg e =
     (case e of (email, payload) \<Rightarrow>
        let signedSha = sha_of (Some payload)
        in steps [
          whenever (documentSha \<noteq> [] \<and> signedSha \<noteq> documentSha) (content (label @
            lit '': the record states document sha256 '' @ documentSha @ lit '' but signer '' @ email @
            lit '''s signature.signed event carries '' @ signedSha)),
          (case sg_viewed sg email of
             None \<Rightarrow> (\<lambda>r. r)
           | Some viewed \<Rightarrow> whenever (viewed \<noteq> signedSha) (content (label @ lit '': signer '' @ email @
               lit '' viewed sha256 '' @ viewed @ lit '' but signed '' @ signedSha @
               lit '' - the viewed and signed versions must be the same'')))])"

definition claimed_signer :: "bytes \<Rightarrow> signers \<Rightarrow> json \<Rightarrow> int \<times> run \<Rightarrow> int \<times> run" where
  "claimed_signer label sg signer s =
     (case s of (checked, r) \<Rightarrow>
        let e = Field (Some signer) (lit ''email''); email = (if IsString e then lower (StrOf e) else []);
            statedMark = lower (text_of (Field (Some signer) (lit ''signature_sha256'')))
        in if \<not> strEq (Field (Some signer) (lit ''status'')) (lit ''signed'') then (checked, r)
           else case map_of (sg_signed sg) email of
               None \<Rightarrow> (checked, content (label @ lit '': the record claims '' @ email @
                 lit '' signed but no signature.signed event in this bundle records it'') r)
             | Some payload \<Rightarrow>
                 let ledgeredMark = lower (text_of (Field (Some payload) (lit ''signature_sha256'')))
                 in (checked + 1,
                     whenever (statedMark \<noteq> [] \<and> ledgeredMark \<noteq> [] \<and> ledgeredMark \<noteq> statedMark) (content (label @
                       lit '': '' @ email @ lit '''s stated signature-mark hash does not match the ledgered event'')) r))"

definition signature_record :: "sign_events \<Rightarrow> json \<Rightarrow> int \<times> run \<Rightarrow> int \<times> run" where
  "signature_record se record s =
     (case s of (checked, r) \<Rightarrow>
        let idV = Field (Some record) (lit ''id''); label = lit ''signatures.json: signing '' @ StrOf idV;
            documentSha = sha_of (Field (Some record) (lit ''document''));
            signingEvents = lookup_or [] (se_byResource se) (lit ''signing:'' @ StrOf idV)
        in if \<not> IsString idV then (checked, content (lit ''signatures.json contains a record without an id'') r)
           else if signingEvents = []
           then (checked, content (label @
             lit '' has no events in this bundle - a stated signing must exist in the chain'') r)
           else let sg = fold signer_event signingEvents \<lparr>sg_viewed = Map.empty, sg_signed = []\<rparr>
             in fold (claimed_signer label sg) (arrayCast (Field (Some record) (lit ''signers'')))
                  (checked, fold (signed_consistent label documentSha sg) (sg_signed sg) r))"

definition check_signatures :: "sign_events \<Rightarrow> vopt \<Rightarrow> run \<Rightarrow> run" where
  "check_signatures se doc r =
     (case record_list doc (lit ''signatures'') of
        None \<Rightarrow> content (lit ''signatures.json is present but malformed - expected a \"signatures\" list'') r
      | Some records \<Rightarrow>
          (case fold (signature_record se) records (0, r) of
             (checked, r') \<Rightarrow> note_msg
               (lit ''signatures.json is informational metadata: its facts are cross-checked against the chain above, and everything else in it - including any claim about legal effect or validity - is ignored and cannot influence the verdict'')
               (note_msg (lit ''signatures.json: '' @ int_text checked @
                  lit '' signature(s) verified against their ledgered events - viewed and signed hashes agree'') r')))"

subsection \<open>Links\<close>

definition link_end :: "sign_events \<Rightarrow> bytes \<Rightarrow> json \<Rightarrow> bytes \<times> bytes \<Rightarrow> bool \<times> run \<Rightarrow> bool \<times> run" where
  "link_end se linkLabel link pair s =
     (case (pair, s) of ((field, expectedAction), (resolved, r)) \<Rightarrow>
        let sequence = Field (Some link) field; linkSha = sha_of (Some link);
            linkEvent = (if IsInt sequence then se_bySequence se (IntOf sequence) else None);
            payload = Field linkEvent (lit ''payload''); eventSha = sha_of payload; n = int_text (IntOf sequence)
        in if nullish sequence
           then (if field = lit ''linked_sequence''
             then (False, content (linkLabel @ lit '' has no linked_sequence - a link must point at its ledgered fact'') r)
             else (resolved, r))
           else if linkEvent = None \<or> \<not> strEq (Field linkEvent (lit ''action'')) expectedAction
           then (False, content (linkLabel @ lit '': '' @ field @ lit '' '' @ text_of sequence @
             lit '' does not resolve to a '' @ expectedAction @ lit '' event in this bundle'') r)
           else if \<not> IsObject payload
           then (resolved, note_msg (linkLabel @ lit '': the '' @ expectedAction @ lit '' event at sequence '' @ n @
             lit '' has a redacted payload; its hash cannot be cross-checked'') r)
           else if linkSha \<noteq> [] \<and> eventSha \<noteq> linkSha
           then (False, content (linkLabel @ lit '': states sha256 '' @ linkSha @ lit '' but the '' @ expectedAction @
             lit '' event at sequence '' @ n @ lit '' carries '' @ eventSha) r)
           else (resolved, r))"

definition link_record :: "sign_events \<Rightarrow> int \<times> json \<Rightarrow> int \<times> run \<Rightarrow> int \<times> run" where
  "link_record se e s =
     (case (e, s) of ((index, link), (resolvedLinks, r)) \<Rightarrow>
        case fold (link_end se (lit ''links.json entry #'' @ int_text index) link)
            [(lit ''linked_sequence'', lit ''document.linked''), (lit ''unlinked_sequence'', lit ''document.unlinked'')]
            (True, r) of
          (resolved, r') \<Rightarrow> (if resolved then resolvedLinks + 1 else resolvedLinks, r'))"

definition check_links :: "sign_events \<Rightarrow> vopt \<Rightarrow> run \<Rightarrow> run" where
  "check_links se doc r =
     (case record_list doc (lit ''links'') of
        None \<Rightarrow> content (lit ''links.json is present but malformed - expected a \"links\" list'') r
      | Some records \<Rightarrow>
          (case fold (link_record se) (numbered 1 records) (0, r) of
             (resolvedLinks, r') \<Rightarrow> note_msg
               (lit ''a link records that the exporting tenant associated a document with these events at a provable time; it asserts nothing about legal effect, which this verifier neither checks nor reports'')
               (note_msg (lit ''links.json: '' @ int_text resolvedLinks @
                  lit '' link fact(s) resolve to their ledgered document.linked/document.unlinked events with matching hashes'') r')))"

subsection \<open>The section\<close>

definition section_of ::
    "reader \<Rightarrow> bytes \<Rightarrow> bytes \<Rightarrow> (vopt \<Rightarrow> run \<Rightarrow> run) \<Rightarrow> unit action" where
  "section_of b name announce check_doc =
     (if \<not> IsFile b name then return ()
      else andthen (perform (info announce)) (\<lambda>_.
        andthen (lift (decodeOptional b name)) (\<lambda>doc. perform (check_doc doc))))"

fun decode_all :: "reader \<Rightarrow> bytes list \<Rightarrow> vopt list action" where
  "decode_all b [] = return []"
| "decode_all b (n # ns) =
     andthen (lift (decodeOptional b n)) (\<lambda>doc. andthen (decode_all b ns) (\<lambda>docs. return (doc # docs)))"

definition wanted_sequences :: "vopt list \<Rightarrow> int list" where
  "wanted_sequences docs =
     concat (map (\<lambda>d. case d of None \<Rightarrow> [] | Some v \<Rightarrow> collectReferencedSequences v) docs)"

definition sign_file_names :: "bytes list" where
  "sign_file_names = [lit ''documents.json'', lit ''signatures.json'', lit ''links.json'']"

definition read_sign_events :: "reader \<Rightarrow> int list \<Rightarrow> sign_events action" where
  "read_sign_events b wanted =
     (if \<not> IsFile b (lit ''events.ndjson'') then return no_events
      else andthen (lift (Open_file b (lit ''events.ndjson''))) (\<lambda>f.
        case for_lines (sign_line wanted) (NewLines f) no_events of
          (se, l) \<Rightarrow> andthen (lines_problem (lit ''events.ndjson'') l) (\<lambda>_. return se)))"

definition checkSigilSign :: "reader \<Rightarrow> unit action" where
  "checkSigilSign b =
     (let present = filter (IsFile b) sign_file_names
      in if present = [] then return ()
         else andthen (decode_all b present) (\<lambda>docs.
           andthen (read_sign_events b (wanted_sequences docs)) (\<lambda>se.
           andthen (section_of b (lit ''documents.json'')
             (lit ''Checking documents.json (document hashes against the chain)...'') (check_documents se)) (\<lambda>_.
           andthen (section_of b (lit ''signatures.json'')
             (lit ''Checking signatures.json (signature records against the chain)...'') (check_signatures se)) (\<lambda>_.
           section_of b (lit ''links.json'')
             (lit ''Checking links.json (document <-> event links against the chain)...'') (check_links se))))))"

end
