(* ===== verification/Collection.thy ===== *)
theory Collection
  imports Walk
begin

text \<open>
  \<open>verify/collection.go\<close>: the collection records of format 1.6, a second pass over the events that keeps,
  for each stream, the head of its receipt chain, the gaps declared and the days settled. The maps of
  the source whose insertion order or size matters are association lists.
\<close>

definition collectionActions :: "bytes list" where
  "collectionActions =
     [lit ''stream.config'', lit ''collection.receipt'', lit ''stream.gap'', lit ''stream.gap_healed'',
      lit ''stream.settled'']"

definition collectionResourcePrefix :: bytes where
  "collectionResourcePrefix = lit ''connection-stream:''"

definition is_low_hex :: "byte \<Rightarrow> bool" where
  "is_low_hex c \<longleftrightarrow> 48 \<le> c \<and> c \<le> 57 \<or> 97 \<le> c \<and> c \<le> 102"

definition hex64 :: "bytes \<Rightarrow> bool" where
  "hex64 s \<longleftrightarrow> length s = 64 \<and> list_all is_low_hex s"

definition dayForm :: "bytes \<Rightarrow> bool" where
  "dayForm s \<longleftrightarrow> length s = 10 \<and> digits_at s 0 4 \<and> byte_at s 4 45 \<and> digits_at s 5 2 \<and> byte_at s 7 45 \<and>
     digits_at s 8 2"

definition collectionHash :: "vopt \<Rightarrow> bytes" where
  "collectionHash v = (let s = lower (text_of v) in if hex64 s then s else [])"

definition collectionSame :: "vopt \<Rightarrow> vopt \<Rightarrow> bool" where
  "collectionSame a b =
     (case (Canonical a, Canonical b) of (Inr ca, Inr cb) \<Rightarrow> ca = cb | _ \<Rightarrow> False)"

definition intIs :: "vopt \<Rightarrow> int \<Rightarrow> bool" where
  "intIs v n \<longleftrightarrow> IsInt v \<and> IntOf v = n"

record collection_gap =
  g_from :: bytes
  g_to :: bytes
  g_reason :: bytes
  g_known :: bool
  g_healed :: bool

record collection_day =
  d_supplement :: int
  d_seq :: int
  d_hash :: bytes

record collection_stream =
  cs_key :: bytes
  cs_configs :: int
  cs_recordsStream :: bytes
  cs_receipts :: int
  cs_lastHash :: bytes
  cs_lastIndex :: int
  cs_indexKnown :: bool
  cs_lastCursor :: vopt
  cs_cursorKnown :: bool
  cs_gaps :: "(bytes \<times> collection_gap) list"
  cs_days :: "bytes \<rightharpoonup> collection_day"
  cs_settlements :: int

record collection_summary =
  sm_Streams :: int
  sm_Receipts :: int
  sm_Gaps :: int
  sm_Settlements :: int
  sm_Records :: int

definition new_stream :: "bytes \<Rightarrow> collection_stream" where
  "new_stream key =
     \<lparr>cs_key = key, cs_configs = 0, cs_recordsStream = [], cs_receipts = 0, cs_lastHash = [], cs_lastIndex = 0,
      cs_indexKnown = False, cs_lastCursor = None, cs_cursorKnown = False, cs_gaps = [], cs_days = Map.empty,
      cs_settlements = 0\<rparr>"

text \<open>The checks of one record report under its label.\<close>

definition check :: "bytes \<Rightarrow> bool \<Rightarrow> bytes \<Rightarrow> run \<Rightarrow> run" where
  "check label ok m = whenever (\<not> ok) (content (label_msg label m))"

definition remark :: "bytes \<Rightarrow> bytes \<Rightarrow> run \<Rightarrow> run" where
  "remark label m = note_msg (label_msg label m)"

subsection \<open>Configurations and receipts\<close>

definition config_record :: "bytes \<Rightarrow> vopt \<Rightarrow> collection_stream \<times> run \<Rightarrow> collection_stream \<times> run" where
  "config_record label payload s =
     (case s of (st, r) \<Rightarrow>
        let v = Field payload (lit ''records_stream'');
            r1 = check label (intIs (Field payload (lit ''config_version'')) 1) (lit ''config_version is not 1'') r;
            st' = st\<lparr>cs_configs := cs_configs st + 1\<rparr>
        in if \<not> IsString v \<or> StrOf v = [] then (st', check label False (lit ''records_stream is missing'') r1)
           else if cs_recordsStream st \<noteq> [] \<and> cs_recordsStream st \<noteq> StrOf v
           then (st', check label False (lit ''the configuration names records stream ['' @ StrOf v @
             lit ''] but an earlier one named ['' @ cs_recordsStream st @ lit '']'') r1)
           else (st'\<lparr>cs_recordsStream := StrOf v\<rparr>, r1))"

definition receipt_records :: "bytes \<Rightarrow> vopt \<Rightarrow> run \<Rightarrow> run" where
  "receipt_records label payload =
     (let countV = Field payload (lit ''record_count''); countKnown = (IsInt countV \<and> IntOf countV \<ge> 0);
          records = Field payload (lit ''records'');
          fromV = Field records (lit ''from_sequence''); toV = Field records (lit ''to_sequence'')
      in steps [
        check label countKnown (lit ''record_count must be a non-negative integer''),
        if nullish records
        then check label (\<not> (countKnown \<and> IntOf countV \<noteq> 0))
          (lit ''record_count is '' @ int_text (IntOf countV) @ lit '' but records is null'')
        else if \<not> IsObject records \<or> \<not> IsInt fromV \<or> \<not> IsInt toV \<or> IntOf fromV > IntOf toV
        then check label False (lit ''records must be an object with from_sequence no greater than to_sequence'')
        else check label (\<not> (countKnown \<and> IntOf countV > wrap64 (IntOf toV - IntOf fromV + 1)))
          (lit ''record_count '' @ int_text (IntOf countV) @ lit '' exceeds the records range'')])"

text \<open>The fields of a receipt, one check each.\<close>

definition receipt_fields :: "bytes \<Rightarrow> vopt \<Rightarrow> run \<Rightarrow> run" where
  "receipt_fields label payload =
     (let f = Field payload; indexV = f (lit ''receipt_index'')
      in steps [
        check label (intIs (f (lit ''receipt_version'')) 1) (lit ''receipt_version is not 1''),
        check label (IsInt indexV \<and> IntOf indexV \<ge> 1) (lit ''receipt_index must be a positive integer''),
        check label (collectionHash (f (lit ''prev_receipt_hash'')) \<noteq> [])
          (lit ''prev_receipt_hash is not a 64-character hex digest''),
        check label (collectionHash (f (lit ''page_hash'')) \<noteq> []) (lit ''page_hash is not a 64-character hex digest''),
        receipt_records label payload,
        check label (IsInt (f (lit ''duplicates_seen'')) \<and> IntOf (f (lit ''duplicates_seen'')) \<ge> 0)
          (lit ''duplicates_seen must be a non-negative integer''),
        check label (strEq (f (lit ''collected_by'')) (lit ''tenant'') \<or> strEq (f (lit ''collected_by'')) (lit ''sigilbase''))
          (lit ''collected_by must be tenant or sigilbase''),
        check label (IsString (f (lit ''method'')) \<and> StrOf (f (lit ''method'')) \<noteq> []) (lit ''method is missing'')])"

text \<open>The chain of receipts of a stream.\<close>

definition receipt_chain :: "bool \<Rightarrow> bytes \<Rightarrow> vopt \<Rightarrow> collection_stream \<Rightarrow> run \<Rightarrow> run" where
  "receipt_chain anchored label payload st =
     (let indexV = Field payload (lit ''receipt_index''); indexKnown = (IsInt indexV \<and> IntOf indexV \<ge> 1);
          index = (if indexKnown then IntOf indexV else 0);
          prev = collectionHash (Field payload (lit ''prev_receipt_hash''))
      in if cs_lastHash st \<noteq> []
         then steps [
           check label (\<not> (prev \<noteq> [] \<and> prev \<noteq> cs_lastHash st))
             (lit ''prev_receipt_hash does not name the previous receipt's entry hash - the receipt chain is broken here''),
           check label (\<not> (indexKnown \<and> cs_indexKnown st \<and> index \<noteq> wrap64 (cs_lastIndex st + 1)))
             (lit ''receipt_index '' @ int_text index @ lit '' follows receipt '' @ int_text (cs_lastIndex st) @
              lit '' - a receipt is missing or repeated''),
           check label (\<not> (cs_cursorKnown st \<and>
               \<not> collectionSame (Some (fieldOrNull payload (lit ''cursor_before''))) (cs_lastCursor st)))
             (lit ''cursor_before does not equal the previous receipt's cursor_after - a collection is missing between them'')]
         else if indexKnown \<and> index = 1
         then check label (\<not> (prev \<noteq> [] \<and> prev \<noteq> zeroHash))
           (lit ''the first receipt of a stream must name the zero hash as prev_receipt_hash'')
         else if indexKnown
         then (if anchored
           then check label False (lit ''receipt '' @ int_text index @
             lit '' is the first for this stream in a bundle that starts at sequence 1 - receipts 1 to '' @
             int_text (index - 1) @ lit '' are missing'')
           else remark label (lit ''the receipt chain enters this range at receipt '' @ int_text index @
             lit ''; its link to receipt '' @ int_text (index - 1) @ lit '' lies before the range and is not checked here''))
         else (\<lambda>r. r))"

definition receipt_record ::
    "bool \<Rightarrow> bytes \<Rightarrow> bytes \<Rightarrow> vopt \<Rightarrow> collection_stream \<times> run \<Rightarrow> collection_stream \<times> run" where
  "receipt_record anchored label entryHash payload s =
     (case s of (st, r) \<Rightarrow>
        let indexV = Field payload (lit ''receipt_index''); indexKnown = (IsInt indexV \<and> IntOf indexV \<ge> 1);
            cursorAfter = Field payload (lit ''cursor_after'')
        in (st\<lparr>cs_receipts := cs_receipts st + 1, cs_lastHash := entryHash,
               cs_lastIndex := (if indexKnown then IntOf indexV else 0), cs_indexKnown := indexKnown,
               cs_lastCursor := cursorAfter, cs_cursorKnown := (cursorAfter \<noteq> None)\<rparr>,
            receipt_chain anchored label payload st (receipt_fields label payload r)))"

subsection \<open>Gaps\<close>

definition gap_record :: "bool \<Rightarrow> bytes \<Rightarrow> vopt \<Rightarrow> collection_stream \<times> run \<Rightarrow> collection_stream \<times> run" where
  "gap_record anchored label payload s =
     (case s of (st, r) \<Rightarrow>
        let f = Field payload; g = f (lit ''gap_id'');
            gapID = (if IsString g then StrOf g else []);
            from = parseRFC3339Value (f (lit ''from'')); to = parseRFC3339Value (f (lit ''to''));
            after = collectionHash (f (lit ''declared_after_receipt_hash''));
            r1 = steps [
              check label (intIs (f (lit ''gap_version'')) 1) (lit ''gap_version is not 1''),
              check label (gapID \<noteq> []) (lit ''gap_id is missing''),
              (case (from, to) of
                 (Some a, Some b) \<Rightarrow> check label (Before a b) (lit ''from must precede to'')
               | _ \<Rightarrow> check label False (lit ''from and to must be RFC 3339 timestamps'')),
              check label (IsString (f (lit ''reason'')) \<and> StrOf (f (lit ''reason'')) \<noteq> []) (lit ''reason is missing''),
              (if after = []
               then check label False (lit ''declared_after_receipt_hash is not a 64-character hex digest'')
               else if cs_lastHash st \<noteq> []
               then check label (after = cs_lastHash st)
                 (lit ''declared_after_receipt_hash does not name the latest receipt before it - the gap is placed wrongly in the chain'')
               else if anchored
               then check label (after = zeroHash)
                 (lit ''no receipt precedes this gap in a bundle that starts at sequence 1, so declared_after_receipt_hash must be the zero hash'')
               else remark label
                 (lit ''the receipt this gap was declared after lies before the range and is not checked here''))] r
        in if gapID = [] then (st, r1)
           else (st\<lparr>cs_gaps := AList.update gapID
                   \<lparr>g_from = text_of (f (lit ''from'')), g_to = text_of (f (lit ''to'')),
                    g_reason = text_of (f (lit ''reason'')), g_known = True, g_healed = False\<rparr> (cs_gaps st)\<rparr>,
                 check label (map_of (cs_gaps st) gapID = None)
                   (lit ''gap ['' @ gapID @ lit ''] is declared twice'') r1))"

definition healed_record :: "bool \<Rightarrow> bytes \<Rightarrow> vopt \<Rightarrow> collection_stream \<times> run \<Rightarrow> collection_stream \<times> run" where
  "healed_record anchored label payload s =
     (case s of (st, r) \<Rightarrow>
        let g = Field payload (lit ''gap_id''); gapID = StrOf g
        in if \<not> IsString g \<or> gapID = [] then (st, check label False (lit ''gap_id is missing'') r)
           else case map_of (cs_gaps st) gapID of
               Some gap \<Rightarrow> (st\<lparr>cs_gaps := AList.update gapID (gap\<lparr>g_healed := True\<rparr>) (cs_gaps st)\<rparr>, r)
             | None \<Rightarrow>
                 if anchored
                 then (st, check label False (lit ''heals gap ['' @ gapID @
                   lit ''], which the chain never declared in a bundle that starts at sequence 1'') r)
                 else (st\<lparr>cs_gaps := AList.update gapID
                     \<lparr>g_from = [], g_to = [], g_reason = [], g_known = False, g_healed = True\<rparr> (cs_gaps st)\<rparr>,
                   remark label (lit ''heals gap ['' @ gapID @ lit ''], declared before the range; not checked here'') r))"

subsection \<open>Settlements\<close>

text \<open>The receipt head and count a settlement names.\<close>

definition settled_receipts :: "bool \<Rightarrow> bytes \<Rightarrow> vopt \<Rightarrow> collection_stream \<Rightarrow> run \<Rightarrow> run" where
  "settled_receipts anchored label payload st =
     (let receipts = Field payload (lit ''receipts''); head = Field receipts (lit ''last_receipt_hash'');
          count = Field receipts (lit ''count'')
      in if \<not> IsObject receipts then check label False (lit ''receipts must be an object'')
         else steps [
           if cs_lastHash st \<noteq> []
           then check label (collectionHash head = cs_lastHash st)
             (lit ''receipts.last_receipt_hash does not name the latest receipt before it'')
           else if anchored
           then check label (nullish head)
             (lit ''no receipt precedes this settlement in a bundle that starts at sequence 1, so receipts.last_receipt_hash must be null'')
           else remark label
             (lit ''the receipt head this settlement names lies before the range and is not checked here''),
           if \<not> IsInt count \<or> IntOf count < 0
           then check label False (lit ''receipts.count must be a non-negative integer'')
           else check label (\<not> (anchored \<and> IntOf count \<noteq> cs_receipts st \<or> \<not> anchored \<and> IntOf count < cs_receipts st))
             (lit ''receipts.count is '' @ int_text (IntOf count) @ lit '' but '' @ int_text (cs_receipts st) @
              lit '' receipt(s) precede it in the chain'')])"

text \<open>One listed gap: whether it counts as unhealed, and the run.\<close>

definition settled_gap :: "bool \<Rightarrow> bytes \<Rightarrow> collection_stream \<Rightarrow> json \<Rightarrow> bool \<times> run \<Rightarrow> bool \<times> run" where
  "settled_gap anchored label st item s =
     (case s of (unhealed, r) \<Rightarrow>
        let it = Some item; itemID = Field it (lit ''gap_id''); gid = StrOf itemID; healedV = Field it (lit ''healed'');
            healed = (healedV = Some (JBool True))
        in if \<not> IsString itemID \<or> gid = [] then (unhealed, check label False (lit ''a listed gap has no gap_id'') r)
           else let r1 = check label (is_kind KBool healedV)
                      (lit ''gap ['' @ gid @ lit ''] is listed without a boolean healed'') r
             in (unhealed \<or> \<not> healed,
                 case map_of (cs_gaps st) gid of
                   None \<Rightarrow>
                     if anchored
                     then check label False (lit ''lists gap ['' @ gid @ lit ''], which the chain never declared'') r1
                     else remark label (lit ''gap ['' @ gid @ lit ''] was declared before the range and is not checked here'') r1
                 | Some known \<Rightarrow>
                     steps [
                       check label (\<not> (g_known known \<and>
                           (text_of (Field it (lit ''from'')) \<noteq> g_from known \<or> text_of (Field it (lit ''to'')) \<noteq> g_to known \<or>
                            text_of (Field it (lit ''reason'')) \<noteq> g_reason known)))
                         (lit ''gap ['' @ gid @ lit ''] is listed with bounds or a reason that differ from its declaration''),
                       check label (g_healed known = healed)
                         (lit ''gap ['' @ gid @ lit ''] is listed as '' @ (if healed then lit ''healed'' else lit ''unhealed'') @
                          lit '' but the chain says otherwise'')] r1))"

text \<open>A supplement chains to the settlement it adds to.\<close>

definition settled_chain :: "int \<Rightarrow> bytes \<Rightarrow> vopt \<Rightarrow> bytes \<Rightarrow> int \<Rightarrow> collection_stream \<Rightarrow> run \<Rightarrow> run" where
  "settled_chain rangeFrom label payload day supplement st =
     (let previous = Field payload (lit ''previous_settlement''); prior = cs_days st day;
          pseq = IntOf (Field previous (lit ''sequence'')); phash = collectionHash (Field previous (lit ''entry_hash''))
      in if supplement = 0
         then steps [
           check label (nullish previous) (lit ''a first settlement must not name a previous one''),
           (case prior of None \<Rightarrow> (\<lambda>r. r) | Some p \<Rightarrow> check label False (lit ''day '' @ day @
             lit '' was already settled at sequence '' @ int_text (d_seq p)))]
         else if \<not> IsObject previous \<or> \<not> IsInt (Field previous (lit ''sequence'')) \<or> phash = []
         then check label False (lit ''a supplement must name the previous settlement by sequence and entry hash'')
         else case prior of
             Some p \<Rightarrow> check label (pseq = d_seq p \<and> phash = d_hash p \<and> supplement = wrap64 (d_supplement p + 1))
               (lit ''supplement '' @ int_text supplement @ lit '' for day '' @ day @
                lit '' does not follow the previous settlement in the chain'')
           | None \<Rightarrow>
               if pseq \<ge> rangeFrom
               then check label False (lit ''names a previous settlement at sequence '' @ int_text pseq @
                 lit '', inside the range, that the chain does not hold for day '' @ day)
               else remark label (lit ''supplement '' @ int_text supplement @ lit '' for day '' @ day @
                 lit '' follows a settlement before the range; not checked here''))"

definition settled_record ::
    "int \<Rightarrow> bytes \<Rightarrow> int \<Rightarrow> bytes \<Rightarrow> vopt \<Rightarrow> collection_stream \<times> run \<Rightarrow> collection_stream \<times> run" where
  "settled_record rangeFrom label sequence entryHash payload s =
     (case s of (st0, r) \<Rightarrow>
        let anchored = (rangeFrom = 1); st = st0\<lparr>cs_settlements := cs_settlements st0 + 1\<rparr>;
            f = Field payload; dV = f (lit ''day''); day = (if IsString dV \<and> dayForm (StrOf dV) then StrOf dV else []);
            sV = f (lit ''state'');
            settledState = (if strEq sV (lit ''settled'') \<or> strEq sV (lit ''gapped'') then StrOf sV else []);
            supplementV = f (lit ''supplement''); supplementKnown = (IsInt supplementV \<and> IntOf supplementV \<ge> 0);
            supplement = IntOf supplementV;
            r1 = steps [
              check label (intIs (f (lit ''settlement_version'')) 1) (lit ''settlement_version is not 1''),
              check label (day \<noteq> []) (lit ''day must be a date of the form YYYY-MM-DD''),
              check label (settledState \<noteq> []) (lit ''state must be settled or gapped''),
              check label supplementKnown (lit ''supplement must be a non-negative integer''),
              settled_receipts anchored label payload st] r;
            (unhealed, r2) = fold (settled_gap anchored label st) (iterValues (f (lit ''gaps''))) (False, r1);
            r3 = check label (\<not> (settledState \<noteq> [] \<and> (settledState = lit ''gapped'') \<noteq> unhealed))
              (lit ''state is '' @ settledState @ lit '' but the listed gaps say '' @
               (if unhealed then lit ''gapped'' else lit ''settled'')) r2
        in if day \<noteq> [] \<and> supplementKnown
           then (st\<lparr>cs_days := (cs_days st)(day \<mapsto> \<lparr>d_supplement = supplement, d_seq = sequence, d_hash = entryHash\<rparr>)\<rparr>,
             settled_chain rangeFrom label payload day supplement st r3)
           else (st, r3))"

subsection \<open>The pass over the events\<close>

record collection =
  co_streams :: "(bytes \<times> collection_stream) list"
  co_summary :: collection_summary
  co_seen :: bool
  co_run :: run

definition count_record :: "bytes \<Rightarrow> collection_summary \<Rightarrow> collection_summary" where
  "count_record act sm =
     (if act = lit ''collection.receipt'' then sm\<lparr>sm_Receipts := sm_Receipts sm + 1\<rparr>
      else if act = lit ''stream.gap'' then sm\<lparr>sm_Gaps := sm_Gaps sm + 1\<rparr>
      else if act = lit ''stream.settled'' then sm\<lparr>sm_Settlements := sm_Settlements sm + 1\<rparr>
      else sm)"

definition one_record ::
    "int \<Rightarrow> bytes \<Rightarrow> bytes \<Rightarrow> int \<Rightarrow> bytes \<Rightarrow> vopt \<Rightarrow> collection_stream \<times> run \<Rightarrow> collection_stream \<times> run" where
  "one_record rangeFrom act label sequence entryHash payload s =
     (let anchored = (rangeFrom = 1);
          s' = (fst s, check label (\<not> (anchored \<and> act \<noteq> lit ''stream.config'' \<and> cs_configs (fst s) = 0))
            (lit ''a collection record precedes the stream's configuration (stream.config) in a bundle that starts at sequence 1'')
            (snd s))
      in if act = lit ''stream.config'' then config_record label payload s'
         else if act = lit ''collection.receipt'' then receipt_record anchored label entryHash payload s'
         else if act = lit ''stream.gap'' then gap_record anchored label payload s'
         else if act = lit ''stream.gap_healed'' then healed_record anchored label payload s'
         else settled_record rangeFrom label sequence entryHash payload s')"

definition redacted_record :: "bytes \<Rightarrow> bytes \<Rightarrow> collection_stream \<Rightarrow> collection_stream" where
  "redacted_record act entryHash st =
     (if act = lit ''collection.receipt''
      then st\<lparr>cs_receipts := cs_receipts st + 1, cs_lastHash := entryHash, cs_indexKnown := False,
              cs_cursorKnown := False\<rparr>
      else st)"

definition seq_label :: "int \<Rightarrow> bytes \<Rightarrow> bytes \<Rightarrow> bytes" where
  "seq_label sequence act key =
     lit ''sequence '' @ int_text sequence @ lit '' ('' @ act @ lit '', stream '' @ key @ lit '')''"

definition collection_line :: "int \<Rightarrow> int \<Rightarrow> bytes \<Rightarrow> collection \<Rightarrow> collection" where
  "collection_line rangeFrom nr line c =
     (let event = decode line; action' = Field event (lit ''action''); resource = Field event (lit ''resource'');
          seqV = Field event (lit ''seq''); act = StrOf action'; res = StrOf resource; sequence = IntOf seqV
      in if \<not> IsObject event \<or> \<not> IsString action' \<or> act \<notin> set collectionActions \<or> \<not> IsString resource \<or>
            \<not> has_prefix res collectionResourcePrefix \<or> \<not> IsInt seqV then c
         else let r = whenever (\<not> co_seen c)
                  (info (lit ''Checking collection records (receipt chains, gaps, settlement)...'')) (co_run c);
                  key = drop (length collectionResourcePrefix) res;
                  st = (case map_of (co_streams c) res of Some st \<Rightarrow> st | None \<Rightarrow> new_stream key);
                  label = seq_label sequence act key;
                  entryHash = collectionHash (Field event (lit ''entry_hash''));
                  payload = Field event (lit ''payload'');
                  sm = (co_summary c)\<lparr>sm_Records := sm_Records (co_summary c) + 1\<rparr>
              in if strEq (Field event (lit ''payload_state'')) (lit ''redacted'') \<or> nullish payload
                 then \<lparr>co_streams = AList.update res (redacted_record act entryHash st) (co_streams c),
                       co_summary = (if act = lit ''collection.receipt'' then count_record act sm else sm), co_seen = True,
                       co_run = remark label
                         (lit ''the payload is redacted, so this record's links cannot be checked; later records chain from its entry hash'') r\<rparr>
                 else if \<not> IsObject payload
                 then \<lparr>co_streams = AList.update res st (co_streams c), co_summary = sm, co_seen = True,
                       co_run = check label False (lit ''the payload is not an object'') r\<rparr>
                 else case one_record rangeFrom act label sequence entryHash payload (st, r) of
                     (st', r') \<Rightarrow> \<lparr>co_streams = AList.update res st' (co_streams c),
                       co_summary = count_record act sm, co_seen = True, co_run = r'\<rparr>)"

subsection \<open>The connection document\<close>

definition listed_streams :: "vopt \<Rightarrow> (bytes \<times> bytes) list" where
  "listed_streams connection =
     fold (\<lambda>item ls.
         let i = Some item; k = Field i (lit ''stream_key''); v = Field i (lit ''stream'')
         in if \<not> IsObject i \<or> \<not> IsString k \<or> \<not> IsString v then ls else AList.update (StrOf k) (StrOf v) ls)
       (iterValues (Field connection (lit ''record_streams''))) []"

definition connection_streams :: "bool \<Rightarrow> vopt \<Rightarrow> (bytes \<times> collection_stream) list \<Rightarrow> run \<Rightarrow> run" where
  "connection_streams anchored connection streams r =
     (let listed = listed_streams connection;
          r1 = fold (\<lambda>(resource, st) r.
              if cs_recordsStream st = [] then r
              else case map_of listed (cs_key st) of
                  None \<Rightarrow> content (lit ''connection.json does not list stream ['' @ cs_key st @
                    lit ''], whose configuration is in the range - the metadata contradicts the chain'') r
                | Some slug \<Rightarrow> whenever (slug \<noteq> cs_recordsStream st)
                    (content (lit ''connection.json names records stream ['' @ slug @ lit ''] for ['' @ cs_key st @
                      lit ''] but the chain's configuration names ['' @ cs_recordsStream st @
                      lit ''] - the metadata contradicts the chain'')) r)
            streams r
      in if anchored
         then fold (\<lambda>(k, _). whenever (map_of streams (collectionResourcePrefix @ k) = None)
             (content (lit ''connection.json lists stream ['' @ k @
               lit ''] but a bundle that starts at sequence 1 holds no configuration for it''))) listed r1
         else r1)"

definition read_connection :: "reader \<Rightarrow> vopt action" where
  "read_connection b =
     (if \<not> IsFile b (lit ''connection.json'') then return None
      else andthen (lift (decodeOptional b (lit ''connection.json''))) (\<lambda>doc.
        let role = Field doc (lit ''role'')
        in if \<not> strEq role (lit ''records'') \<and> \<not> strEq role (lit ''receipts'')
           then andthen (perform (content
             (lit ''connection.json is present but malformed - expected an object whose role is \"records\" or \"receipts\"'')))
             (\<lambda>_. return None)
           else andthen (perform (whenever (strEq role (lit ''records''))
             (note_msg (lit ''connection.json: these records were collected through a Sigilbase connection; the receipts covering them are in stream ['' @
               text_of (Field doc (lit ''receipt_stream'')) @
               lit ''], exported separately. The records verify here as any events do; the receipt chain is checked in that bundle.''))))
             (\<lambda>_. return doc)))"

definition stream_note :: "collection_stream \<Rightarrow> bytes" where
  "stream_note st = lit ''stream '' @ cs_key st @ lit '': '' @ int_text (cs_receipts st) @ lit '' receipt(s) chained, '' @
     int_text (int (length (cs_gaps st))) @ lit '' gap(s) declared, '' @ int_text (cs_settlements st) @
     lit '' settlement record(s)''"

definition checkCollectionRecords :: "reader \<Rightarrow> int \<Rightarrow> collection_summary option action" where
  "checkCollectionRecords b rangeFrom =
     andthen (read_connection b) (\<lambda>connection.
       let receipts = strEq (Field connection (lit ''role'')) (lit ''receipts'')
       in if \<not> IsFile b (lit ''events.ndjson'') then return None
          else andthen (lift (Open_file b (lit ''events.ndjson''))) (\<lambda>f.
            andthen (compute (\<lambda>r.
                case for_lines (collection_line rangeFrom) (NewLines f)
                    \<lparr>co_streams = [],
                     co_summary = \<lparr>sm_Streams = 0, sm_Receipts = 0, sm_Gaps = 0, sm_Settlements = 0, sm_Records = 0\<rparr>,
                     co_seen = False, co_run = r\<rparr> of
                  (c, l) \<Rightarrow> ((c, l), co_run c))) (\<lambda>(c, l).
            andthen (require (l_err l = None) (lit ''could not read [events.ndjson]'') 1) (\<lambda>_.
              if \<not> co_seen c
              then andthen (perform (whenever receipts (content
                (lit ''connection.json says this is a connection's receipt stream, but the range holds no collection record at all''))))
                (\<lambda>_. return None)
              else andthen (perform (\<lambda>r.
                  fold (\<lambda>(_, st). note_msg (stream_note st)) (co_streams c)
                    (if receipts then connection_streams (rangeFrom = 1) connection (co_streams c) r
                     else whenever (connection = None) (note_msg
                       (lit ''connection.json is absent; the collection records were checked from the chain alone'')) r)))
                (\<lambda>_. return (Some ((co_summary c)\<lparr>sm_Streams := int (length (co_streams c))\<rparr>)))))))"

end
