(* ===== verification/Verify.thy ===== *)
theory Verify
  imports Anchors Declarations Sigilsign Collection
begin

text \<open>
  \<open>verify/consistency.go\<close>, the end of \<open>verify/walk.go\<close> (\<open>verifyBundle\<close>) and \<open>verify/verify.go\<close>: the
  recorded tree states of a bundle, the whole verification of a bundle as the composition of its
  sections, and the three modes that end in a report. The environment of a run, what the operating
  system and the build give, is the record \<open>env\<close>. A mode yields \<open>None\<close> where it does not return.
\<close>

subsection \<open>consistency.json\<close>

definition state_check :: "(int \<rightharpoonup> bytes) \<Rightarrow> int \<Rightarrow> json \<Rightarrow> run \<Rightarrow> run" where
  "state_check rootAt rangeTo state =
     (let size = Field (Some state) (lit ''tree_size''); n = IntOf size
      in if \<not> IsInt size \<or> n < 1 \<or> n > rangeTo
         then content (lit ''consistency.json: a checkpoint state has an invalid tree_size'')
         else whenever (rootAt n \<noteq> Some (lower (text_of (Field (Some state) (lit ''root'')))))
           (content (lit ''consistency.json: the recorded root for tree_size '' @ int_text n @ lit '' does not recompute'')))"

definition proof_nodes :: "vopt \<Rightarrow> bytes list" where
  "proof_nodes proof' =
     List.map_filter (\<lambda>h. if IsString (Some h) then hexBytes (StrOf (Some h)) else None)
       (arrayCast (Field proof' (lit ''nodes'')))"

definition hex_or_empty :: "bytes \<Rightarrow> bytes" where
  "hex_or_empty s = (case hexBytes s of Some b \<Rightarrow> b | None \<Rightarrow> [])"

definition recorded_proof_valid :: "(int \<rightharpoonup> bytes) \<Rightarrow> int \<Rightarrow> bytes \<Rightarrow> vopt \<Rightarrow> bool" where
  "recorded_proof_valid rootAt rangeTo finalRoot proof' =
     (let fromSize = intCast (Field proof' (lit ''from_tree_size'')); toSize = intCast (Field proof' (lit ''to_tree_size''))
      in fromSize \<ge> 1 \<and> toSize = rangeTo \<and>
         (case rootAt fromSize of
            None \<Rightarrow> False
          | Some fromRoot \<Rightarrow>
              ConsistencyVerify sha256 fromSize toSize (hex_or_empty fromRoot) (hex_or_empty finalRoot)
                (proof_nodes proof')))"

definition consistency_doc :: "(int \<rightharpoonup> bytes) \<Rightarrow> int \<Rightarrow> bytes \<Rightarrow> vopt \<Rightarrow> run \<Rightarrow> run" where
  "consistency_doc rootAt rangeTo finalRoot doc =
     (let proof' = Field doc (lit ''proof'')
      in steps [
        whenever (lower (text_of (Field doc (lit ''root''))) \<noteq> finalRoot)
          (content (lit ''consistency.json: the cumulative root does not recompute from the events'')),
        fold (state_check rootAt rangeTo) (iterValues (Field doc (lit ''checkpoint_states''))),
        whenever (IsObject proof' \<and> \<not> recorded_proof_valid rootAt rangeTo finalRoot proof')
          (content (lit ''consistency.json: the recorded consistency proof does not verify''))])"

definition checkConsistencyFile :: "reader \<Rightarrow> int \<Rightarrow> int \<Rightarrow> (int \<rightharpoonup> bytes) \<Rightarrow> unit action" where
  "checkConsistencyFile b rangeFrom rangeTo rootAt =
     (if \<not> IsFile b (lit ''consistency.json'') \<or> rangeFrom \<noteq> 1 then return ()
      else andthen (perform (info (lit ''Checking consistency.json (cumulative tree states)...''))) (\<lambda>_.
        andthen (lift (decodeOptional b (lit ''consistency.json''))) (\<lambda>doc.
        case rootAt rangeTo of
          None \<Rightarrow> return ()
        | Some finalRoot \<Rightarrow>
            if \<not> IsObject doc then return () else perform (consistency_doc rootAt rangeTo finalRoot doc))))"

subsection \<open>The whole bundle\<close>

record bundle_result =
  br_stream :: bytes
  br_from :: int
  br_to :: int
  br_eventCount :: int
  br_checkpointCount :: int
  br_redactedCount :: int
  br_latestAnchorAt :: "int option"
  br_collection :: "collection_summary option"
  br_roots :: "int \<rightharpoonup> bytes"
  br_proofNodes :: "bytes list"
  br_proofBuilt :: bool

record walk_options =
  wo_wanted :: "int list"
  wo_proofFrom :: int

definition no_walk_options :: walk_options where
  "no_walk_options = \<lparr>wo_wanted = [], wo_proofFrom = 0\<rparr>"

definition root_sizes :: "manifest \<Rightarrow> (int \<times> int) list \<Rightarrow> walk_options \<Rightarrow> int list \<Rightarrow> int list" where
  "root_sizes mf ranges wopts sizes =
     mf_to mf # map snd ranges @ wo_wanted wopts @
       (if wo_proofFrom wopts > 0 then [wo_proofFrom wopts] else []) @ sizes"

text \<open>What precedes the events: the context of the walk.\<close>

definition prepare_walk :: "reader \<Rightarrow> manifest \<Rightarrow> walk_options \<Rightarrow> (json list \<times> walk_ctx) action" where
  "prepare_walk b mf wopts =
     andthen (read_redactions b (mf_from mf) (mf_to mf)) (\<lambda>redactions.
     andthen (read_checkpoints b) (\<lambda>cps.
     andthen (declarationSequencesInRange b (mf_stream mf) (mf_from mf) (mf_to mf)) (\<lambda>retain.
     andthen (consistencyTreeSizes b) (\<lambda>sizes.
     return (cps, \<lparr>cx_stream = mf_stream mf, cx_from = mf_from mf, cx_to = mf_to mf, cx_redactions = redactions,
       cx_retain = retain, cx_sizes = root_sizes mf (checkpoint_ranges cps) wopts sizes\<rparr>)))))"

text \<open>What follows the checkpoints.\<close>

definition later_sections ::
    "crypto \<Rightarrow> reader \<Rightarrow> bool \<Rightarrow> manifest \<Rightarrow> walk \<Rightarrow> bytes list \<Rightarrow> (int option \<times> collection_summary option) action" where
  "later_sections cr b skipAnchors mf w hashes =
     andthen (if w_absent w \<noteq> [] then checkDeclarations (cr_ed cr) b mf w
       else perform (info (lit ''No payload in this bundle is absent; nothing to declare.''))) (\<lambda>_.
     andthen (checkAnchors cr b skipAnchors hashes) (\<lambda>latest.
     andthen (checkCertificates b (mf_doc mf)) (\<lambda>_.
     andthen (checkSigilSign b) (\<lambda>_.
     andthen (if mf_format mf \<in> {lit ''sigilbase-evidence/1.6'', lit ''sigilbase-evidence/1.7''}
       then checkCollectionRecords b (mf_from mf) else return None) (\<lambda>summary.
     andthen (checkConsistencyFile b (mf_from mf) (mf_to mf) (w_roots w)) (\<lambda>_.
     return (latest, summary)))))))"

definition proof_of :: "walk \<Rightarrow> bytes list option" where
  "proof_of w =
     (case w_collector w of
        None \<Rightarrow> None
      | Some c \<Rightarrow> (case Collector_Nodes sha256 c of Inl _ \<Rightarrow> None | Inr nodes \<Rightarrow> Some nodes))"

definition verify_reader :: "crypto \<Rightarrow> reader \<Rightarrow> bool \<Rightarrow> walk_options \<Rightarrow> bundle_result action" where
  "verify_reader cr b skipAnchors wopts =
     andthen (read_manifest b) (\<lambda>mf.
     andthen (prepare_walk b mf wopts) (\<lambda>(cps, cx).
     andthen (walk_events b cx (checkpoint_ranges cps) (wo_proofFrom wopts)) (\<lambda>w.
     andthen (compute (walk_checkpoints (cr_ed cr) mf cps w)) (\<lambda>hashes.
     andthen (later_sections cr b skipAnchors mf w hashes) (\<lambda>(latest, summary).
     return \<lparr>br_stream = mf_stream mf, br_from = mf_from mf, br_to = mf_to mf, br_eventCount = w_count w,
       br_checkpointCount = int (length cps), br_redactedCount = w_redacted w, br_latestAnchorAt = latest,
       br_collection = summary, br_roots = w_roots w,
       br_proofNodes = (case proof_of w of None \<Rightarrow> [] | Some ns \<Rightarrow> ns), br_proofBuilt = (proof_of w \<noteq> None)\<rparr>)))))"

definition verifyBundle ::
    "crypto \<Rightarrow> (bytes \<Rightarrow> path_kind) \<Rightarrow> bytes \<Rightarrow> bool \<Rightarrow> walk_options \<Rightarrow> bundle_result action" where
  "verifyBundle cr os target skipAnchors wopts =
     andthen (lift (Open_bundle os target)) (\<lambda>b. verify_reader cr b skipAnchors wopts)"

subsection \<open>Reports\<close>

record tree_state =
  ts_size :: int
  ts_root :: bytes

record bundle_info =
  bi_Path :: bytes
  bi_Stream :: bytes
  bi_from :: int
  bi_to :: int
  bi_Events :: int
  bi_Checkpoints :: int
  bi_RedactedEvents :: int
  bi_Collection :: "collection_summary option"
  bi_full :: bool

record consistency_info =
  ci_Old :: tree_state
  ci_New :: tree_state
  ci_ProofNodes :: int

record receipt_summary =
  rs_KeyID :: "bytes option"
  rs_Stream :: "bytes option"
  rs_Outcome :: "bytes option"
  rs_DecisionSeq :: "int option"
  rs_ReceivedAt :: "bytes option"
  rs_SealBy :: "bytes option"
  rs_Subject :: bytes

text \<open>The counts of a decision log, in order of first appearance.\<close>

record reconcile_counts =
  rc_Decisions :: int
  rc_Outcomes :: "(bytes \<times> int) list"
  rc_Credentials :: "(bytes \<times> (bytes \<times> int) list) list"

record verdict =
  vd_VerifierName :: bytes
  vd_VerifierVersion :: bytes
  vd_VerifierSHA256 :: bytes
  vd_Result :: bytes
  vd_ExitCode :: nat
  vd_Hard :: bool
  vd_Message :: bytes
  vd_Results :: results
  vd_SigningKeys :: "(bytes \<times> bytes) list"
  vd_Mode :: bytes
  vd_Bundle :: "bundle_info option"
  vd_ConsistencyState :: "tree_state option"
  vd_Bundles :: "bundle_info list"
  vd_Consistency :: "consistency_info option"
  vd_Recorded :: "tree_state option"
  vd_Receipt :: "receipt_summary option"
  vd_Counts :: "reconcile_counts option"
  vd_ReceiptsChecked :: int
  vd_Reason :: "bytes option"
  vd_ReceiptPath :: bytes
  vd_ReceiptKeysSource :: bytes
  vd_Failures :: "bytes list"
  vd_Notes :: "bytes list"
  vd_PrintHashes :: bool
  vd_BundleSHA256 :: "(bytes \<times> bytes option) list"
  vd_Log :: "(log_kind \<times> bytes) list"

text \<open>
  \<open>env_os\<close> says what a bundle argument is, \<open>env_regular\<close> is the content of a regular file and
  \<open>env_listing\<close> the entries of a directory, each with whether it is a regular file; the others are set
  by the build.
\<close>

record env =
  env_os :: "bytes \<Rightarrow> path_kind"
  env_regular :: "bytes \<Rightarrow> bytes option"
  env_listing :: "bytes \<Rightarrow> (bytes \<times> bool) list option"
  env_crypto :: crypto
  env_embedded :: embedded
  env_Name :: bytes
  env_Version :: bytes
  env_SelfSHA256 :: bytes

definition pathHash :: "env \<Rightarrow> bytes \<Rightarrow> bytes \<times> bytes option" where
  "pathHash e path = (path, map_option sha256Hex (env_regular e path))"

definition newReport :: "env \<Rightarrow> options \<Rightarrow> bytes \<Rightarrow> bytes list \<Rightarrow> verdict" where
  "newReport e opts mode paths =
     \<lparr>vd_VerifierName = env_Name e, vd_VerifierVersion = env_Version e, vd_VerifierSHA256 = env_SelfSHA256 e,
      vd_Result = [], vd_ExitCode = 0, vd_Hard = False, vd_Message = [], vd_Results = newResults, vd_SigningKeys = [],
      vd_Mode = mode, vd_Bundle = None, vd_ConsistencyState = None, vd_Bundles = [], vd_Consistency = None,
      vd_Recorded = None, vd_Receipt = None, vd_Counts = None, vd_ReceiptsChecked = 0, vd_Reason = None,
      vd_ReceiptPath = [], vd_ReceiptKeysSource = [],
      vd_Failures = [], vd_Notes = [], vd_PrintHashes = opt_PrintHashes opts,
      vd_BundleSHA256 = map (pathHash e) paths, vd_Log = []\<rparr>"

definition finish :: "run \<Rightarrow> verdict \<Rightarrow> nat \<Rightarrow> verdict" where
  "finish r rep code =
     rep\<lparr>vd_Result := lower (VerdictWord code), vd_ExitCode := code, vd_Results := results r,
         vd_SigningKeys := ks_list (keys_used r), vd_Failures := failures r, vd_Notes := run_notes r, vd_Log := log r\<rparr>"

definition finishHard :: "run \<Rightarrow> verdict \<Rightarrow> hard_error \<Rightarrow> verdict" where
  "finishHard r rep herr =
     rep\<lparr>vd_Hard := True, vd_Result := lit ''error'', vd_ExitCode := ExitCode herr, vd_Message := Message herr,
         vd_Results := results r, vd_SigningKeys := ks_list (keys_used r), vd_Failures := failures r,
         vd_Notes := run_notes r, vd_Log := log r @ [(Log_hard, Message herr)]\<rparr>"

text \<open>An action run to its report.\<close>

definition conclude :: "verdict \<Rightarrow> run \<Rightarrow> 'a action \<Rightarrow> ('a \<Rightarrow> run \<Rightarrow> verdict) \<Rightarrow> verdict option" where
  "conclude rep r m f =
     map_option (\<lambda>(res, r'). case res of Inl herr \<Rightarrow> finishHard r' rep herr | Inr x \<Rightarrow> f x r') (m r)"

definition short_info :: "bytes \<Rightarrow> bundle_result \<Rightarrow> bundle_info" where
  "short_info path br =
     \<lparr>bi_Path = path, bi_Stream = br_stream br, bi_from = br_from br, bi_to = br_to br, bi_Events = 0,
      bi_Checkpoints = 0, bi_RedactedEvents = 0, bi_Collection = None, bi_full = False\<rparr>"

definition full_info :: "bytes \<Rightarrow> bundle_result \<Rightarrow> bundle_info" where
  "full_info path br =
     (short_info path br)\<lparr>bi_Events := br_eventCount br, bi_Checkpoints := br_checkpointCount br,
       bi_RedactedEvents := br_redactedCount br, bi_Collection := br_collection br, bi_full := True\<rparr>"

definition consistency_state :: "bundle_result \<Rightarrow> nat \<Rightarrow> tree_state option" where
  "consistency_state br code =
     (if code \<noteq> ExitFail \<and> br_from br = 1
      then map_option (\<lambda>rt. \<lparr>ts_size = br_to br, ts_root = rt\<rparr>) (br_roots br (br_to br)) else None)"

definition Bundle :: "env \<Rightarrow> bytes \<Rightarrow> options \<Rightarrow> verdict option" where
  "Bundle e path opts =
     (let rep = newReport e opts (lit ''verify'') [path]
      in conclude rep (newRun (env_embedded e) opts)
           (verifyBundle (env_crypto e) (env_os e) path (opt_SkipAnchors opts) no_walk_options)
           (\<lambda>br r. let code = exitCode (results r)
             in finish r (rep\<lparr>vd_Bundle := Some (full_info path br), vd_ConsistencyState := consistency_state br code\<rparr>) code))"

subsection \<open>The consistency modes\<close>

definition extension_checks :: "bundle_result \<Rightarrow> bundle_result \<Rightarrow> run \<Rightarrow> run" where
  "extension_checks old new =
     steps [
       whenever (br_stream old \<noteq> br_stream new) (content (lit ''the bundles are for different streams'')),
       whenever (br_from old \<noteq> 1 \<or> br_from new \<noteq> 1)
         (content (lit ''consistency requires both bundles to start at sequence 1 (cumulative roots are only computable from the full log)'')),
       whenever (br_to old > br_to new)
         (content (lit ''the old bundle covers more events than the new one - pass the older bundle first''))]"

definition extension_proof :: "bundle_result \<Rightarrow> bundle_result \<Rightarrow> run \<Rightarrow> consistency_info option \<times> run" where
  "extension_proof old new r =
     (case (br_roots old (br_to old), br_roots new (br_to new), br_roots new (br_to old)) of
        (Some oldRoot, Some newRoot, Some prefixRoot) \<Rightarrow>
          if \<not> br_proofBuilt new
          then (None, content (lit ''internal error: the cumulative roots needed for the consistency proof were not captured'') r)
          else if oldRoot \<noteq> prefixRoot
          then (None, content (lit ''the new bundle does NOT extend the old one: its first '' @ int_text (br_to old) @
            lit '' entries hash to a different root - history diverged'') r)
          else if \<not> ConsistencyVerify sha256 (br_to old) (br_to new) (hex_or_empty oldRoot) (hex_or_empty newRoot)
              (br_proofNodes new)
          then (None, content (lit ''internal error: the generated consistency proof does not verify'') r)
          else (Some \<lparr>ci_Old = \<lparr>ts_size = br_to old, ts_root = oldRoot\<rparr>,
                      ci_New = \<lparr>ts_size = br_to new, ts_root = newRoot\<rparr>,
                      ci_ProofNodes = int (length (br_proofNodes new))\<rparr>,
            steps [
              info (lit ''  old  tree_size='' @ int_text (br_to old) @ lit '' root='' @ oldRoot),
              info (lit ''  new  tree_size='' @ int_text (br_to new) @ lit '' root='' @ newRoot),
              info (lit ''  proof '' @ int_text (int (length (br_proofNodes new))) @ lit '' node(s) verified'')] r)
      | _ \<Rightarrow> (None, content (lit ''internal error: the cumulative roots needed for the consistency proof were not captured'') r))"

definition check_extension :: "bundle_result \<Rightarrow> bundle_result \<Rightarrow> run \<Rightarrow> consistency_info option \<times> run" where
  "check_extension old new r =
     (let r1 = extension_checks old new (info (lit ''Checking consistency (RFC 6962)...'') r)
      in if failures r1 = [] then extension_proof old new r1 else (None, r1))"

definition both_bundles ::
    "env \<Rightarrow> bytes \<Rightarrow> bytes \<Rightarrow> bool \<Rightarrow> (bundle_result \<times> bundle_result \<times> consistency_info option) action" where
  "both_bundles e oldPath newPath skipAnchors =
     andthen (perform (\<lambda>r. info (lit ''=== Old bundle: '' @ oldPath @ lit '' ==='')
       (info (lit ''Mode:   consistency between two bundles'') r))) (\<lambda>_.
     andthen (verifyBundle (env_crypto e) (env_os e) oldPath skipAnchors no_walk_options) (\<lambda>old.
     andthen (perform (info (lit ''=== New bundle: '' @ newPath @ lit '' ===''))) (\<lambda>_.
     andthen (verifyBundle (env_crypto e) (env_os e) newPath skipAnchors
       \<lparr>wo_wanted = [br_to old], wo_proofFrom = br_to old\<rparr>) (\<lambda>new.
     andthen (compute (check_extension old new)) (\<lambda>ci. return (old, new, ci))))))"

definition ConsistencyBundles :: "env \<Rightarrow> bytes \<Rightarrow> bytes \<Rightarrow> options \<Rightarrow> verdict option" where
  "ConsistencyBundles e oldPath newPath opts =
     (let rep = newReport e opts (lit ''consistency-bundles'') [oldPath, newPath]
      in conclude rep (newRun (env_embedded e) opts) (both_bundles e oldPath newPath (opt_SkipAnchors opts))
           (\<lambda>(old, new, ci) r.
             finish r (rep\<lparr>vd_Bundles := [short_info oldPath old, short_info newPath new], vd_Consistency := ci\<rparr>)
               (exitCode (results r))))"

definition check_recorded :: "bundle_result \<Rightarrow> int \<Rightarrow> bytes \<Rightarrow> run \<Rightarrow> run" where
  "check_recorded br sz recordedRoot r =
     (let prefixRoot = lookup_or [] (br_roots br) sz
      in if br_from br \<noteq> 1 then content (lit ''consistency requires the bundle to start at sequence 1'') r
         else if sz < 1 \<or> sz > br_to br
         then content (lit ''the recorded size '' @ int_text sz @ lit '' is outside this bundle's range'') r
         else if \<not> isHex64 recordedRoot
         then content (lit ''the recorded root is not a 64-character hex hash'') r
         else if recordedRoot \<noteq> prefixRoot
         then content (lit ''this bundle does NOT extend the recorded state: its first '' @ int_text sz @
           lit '' entries hash to '' @ prefixRoot @ lit '', not the recorded root'') r
         else info (lit ''  recorded tree_size='' @ int_text sz @ lit '' root='' @ recordedRoot @
           lit '' - matches this bundle's prefix'') r)"

definition recorded_bundle :: "env \<Rightarrow> bytes \<Rightarrow> bytes \<Rightarrow> int \<Rightarrow> bool \<Rightarrow> bundle_result action" where
  "recorded_bundle e path recordedRoot sz skipAnchors =
     andthen (perform (\<lambda>r. info (lit ''Bundle: '' @ path)
       (info (lit ''Mode:   consistency against a recorded root'') r))) (\<lambda>_.
     andthen (verifyBundle (env_crypto e) (env_os e) path skipAnchors \<lparr>wo_wanted = [sz], wo_proofFrom = 0\<rparr>) (\<lambda>br.
     andthen (perform (\<lambda>r. check_recorded br sz recordedRoot (info (lit ''Checking consistency (RFC 6962)...'') r)))
       (\<lambda>_. return br)))"

definition ConsistencyRecorded :: "env \<Rightarrow> bytes \<Rightarrow> bytes \<Rightarrow> int \<Rightarrow> options \<Rightarrow> verdict option" where
  "ConsistencyRecorded e path rootText sz opts =
     (let rep = newReport e opts (lit ''consistency-recorded-root'') [path]; recordedRoot = lower rootText
      in conclude rep (newRun (env_embedded e) opts) (recorded_bundle e path recordedRoot sz (opt_SkipAnchors opts))
           (\<lambda>br r. finish r (rep\<lparr>vd_Bundle := Some (short_info path br),
              vd_Recorded := Some \<lparr>ts_size = sz, ts_root = recordedRoot\<rparr>\<rparr>) (exitCode (results r))))"

end
