(* ===== verification/Growth.thy ===== *)
theory Growth
  imports Verify
begin

text \<open>
  Every section of a verification only adds to the run: whatever it reads, a recorded failure stays
  recorded and a demoted result stays demoted.
\<close>

text \<open>Folds and loops over a state that holds the run.\<close>

lemma grows_fold_on: "(\<And>x s. grows (g s) (g (f x s))) \<Longrightarrow> grows (g s) (g (fold f xs s))"
  by (induction xs arbitrary: s) (simp, simp, meson grows_trans)

lemma grows_fold_snd [grow]:
  assumes "grows r (snd s)" "\<And>x s. grows (snd s) (snd (f x s))"
  shows "grows r (snd (fold f xs s))"
  using grows_trans [OF assms(1) grows_fold_on [of snd f, OF assms(2)]] .

lemma grows_for_lines:
  assumes "\<And>n x s. grows (g s) (g (f n x s))"
  shows "grows (g s) (g (fst (for_lines f l s)))"
  unfolding for_lines_fold fst_conv by (rule grows_fold_on) (auto simp: assms)

text \<open>A fold over a pair, seen through the match that takes it apart.\<close>

lemma grows_fold_pair:
  assumes "\<And>x s. grows (snd s) (snd (f x s))" "fold f xs (a, r) = (b, r')"
  shows "grows r r'"
  using grows_fold_on [of snd f, OF assms(1), of "(a, r)" xs] by (simp add: assms(2))

lemma grows_snd_pair [grow]: "grows r x \<Longrightarrow> grows r (snd (a, x))"
  by simp

lemma grows_snd_if [grow]:
  "(b \<Longrightarrow> grows r (snd x)) \<Longrightarrow> (\<not> b \<Longrightarrow> grows r (snd y)) \<Longrightarrow> grows r (snd (if b then x else y))"
  by simp

lemma grows_snd_option [grow]:
  "(x = None \<Longrightarrow> grows r (snd m)) \<Longrightarrow> (\<And>y. x = Some y \<Longrightarrow> grows r (snd (f y))) \<Longrightarrow>
    grows r (snd (case x of None \<Rightarrow> m | Some y \<Rightarrow> f y))"
  by (cases x) auto

lemma growing_option [grow]: "(x = None \<Longrightarrow> growing m) \<Longrightarrow> (\<And>y. growing (f y)) \<Longrightarrow> growing (case x of None \<Rightarrow> m | Some y \<Rightarrow> f y)"
  by (cases x) auto

lemma growing_prod [grow]: "(\<And>a b. growing (f a b)) \<Longrightarrow> growing (case p of (a, b) \<Rightarrow> f a b)"
  by (cases p) auto

lemma growing_let [grow]: "(\<And>x. growing (f x)) \<Longrightarrow> growing (let x = v in f x)"
  by simp

subsection \<open>The walk\<close>

lemma growing_lines_problem [grow]: "growing (lines_problem name l)"
  by (auto simp: lines_problem_def split: option.splits line_error.splits)

lemma growing_read_manifest [grow]: "growing (read_manifest b)"
  unfolding read_manifest_def by (intro grow)

lemma grows_redaction_record: "grows (snd s) (snd (redaction_record from to rec s))"
  by (auto simp: redaction_record_def Let_def split: prod.splits)

lemma growing_read_redactions [grow]: "growing (read_redactions b from to)"
  unfolding read_redactions_def by (intro grow grows_redaction_record)

lemma growing_read_checkpoints [grow]: "growing (read_checkpoints b)"
  unfolding read_checkpoints_def by (intro grow)

lemma growing_declarationSequences [grow]: "growing (declarationSequencesInRange b stream from to)"
  unfolding declarationSequencesInRange_def by (intro grow)

lemma growing_treeSizes [grow]: "growing (consistencyTreeSizes b)"
  unfolding consistencyTreeSizes_def by (intro grow)

lemma w_run_closeCheckpoint [simp]: "w_run (closeCheckpoint w) = w_run w"
  by (simp add: closeCheckpoint_def Let_def)

lemma w_run_close_passed [simp]: "w_run (close_passed s w) = w_run w"
  by (induction s w rule: close_passed.induct) (subst close_passed.simps, simp)

lemma w_run_close_all [simp]: "w_run (close_all w) = w_run w"
  by (induction w rule: close_all.induct) (subst close_all.simps, simp)

lemma w_run_event_leaf [simp]: "w_run (event_leaf cx s h w) = w_run w"
  by (auto simp: event_leaf_def Let_def split: option.splits)

lemma w_run_on_run [simp]: "w_run (on_run f w) = f (w_run w)"
  by (simp add: on_run_def)

lemma grows_event_payload: "grows (w_run w) (w_run (event_payload cx s ev w))"
  by (auto simp: event_payload_def Let_def intro!: grow split: sum.splits)

lemma grows_event_hashes: "grows r (event_hashes cx s ev p r)"
  by (auto simp: event_hashes_def Let_def intro!: grow split: sum.splits)

lemma grows_event_step: "grows (w_run w) (w_run (event_step cx n line w))"
proof -
  have "grows r (event_hashes cx s ev p (w_run (event_payload cx s ev
      (on_run (whenever b (content m)) (w\<lparr>w_count := c\<rparr>)))))" if "r = w_run w" for r s ev p b m c
    by (rule grows_trans [OF grows_trans [OF _ grows_event_payload] grows_event_hashes])
      (auto simp: that intro!: grow)
  then show ?thesis by (auto simp: event_step_def Let_def intro!: grow)
qed

lemma growing_new_collector [grow]: "growing (new_collector p from to)"
  by (auto simp: growing_def new_collector_def return_def split: option.splits sum.splits if_splits)

lemma grows_run_events: "grows r (snd (run_events cx ranges f c r))"
proof -
  have "w_run (start_walk cx ranges c r) = r" by (simp add: start_walk_def)
  with grows_for_lines [of w_run "event_step cx" "start_walk cx ranges c r" "NewLines f", OF grows_event_step]
  show ?thesis by (simp add: run_events_def case_prod_beta)
qed

lemma grows_end_walk: "w_run w = r \<Longrightarrow> grows r (w_run (end_walk cx w))"
  by (auto simp: end_walk_def Let_def intro!: grow)

lemma growing_walk_events [grow]: "growing (walk_events b cx ranges p)"
  unfolding walk_events_def
  by (intro grow grows_run_events) (auto simp: Let_def grows_end_walk)

lemma grows_checkpoint_key: "grows r (checkpoint_key mf label pk at r)"
  by (auto simp: checkpoint_key_def Let_def intro!: grow split: option.splits prod.splits)

lemma grows_checkpoint_hash: "grows r (checkpoint_hash_check mf label cp from to r)"
  by (auto simp: checkpoint_hash_check_def intro!: grow split: sum.splits)

lemma grows_checkpoint_root: "grows r (checkpoint_root w label cp from to r)"
  by (auto simp: checkpoint_root_def Let_def intro!: grow)

lemma grows_checkpoint_step: "grows (p_run p) (p_run (checkpoint_step ed mf w cp p))"
  by (auto simp: checkpoint_step_def Let_def intro!: grow
      grows_trans [OF _ grows_checkpoint_root] grows_trans [OF _ grows_checkpoint_key]
      grows_trans [OF _ grows_checkpoint_hash])

lemma grows_walk_checkpoints: "grows r (snd (walk_checkpoints ed mf cps w r))"
  by (auto simp: walk_checkpoints_def Let_def intro!: grow
      grows_trans [OF _ grows_fold_on [of p_run, OF grows_checkpoint_step]])

subsection \<open>The other sections\<close>

lemma grows_declaration_line: "grows (snd s) (snd (declaration_line n line s))"
proof (cases s)
  case (Pair a r)
  show ?thesis
  proof (cases "decode line")
    case (Some v)
    with Pair show ?thesis by (cases v) (simp_all add: declaration_line_def Let_def grows_fold)
  qed (simp add: declaration_line_def Pair)
qed

lemma grows_seal_declaration: "grows (snd s) (snd (seal_declaration ed mf walked proofs h s))"
proof (cases s)
  case (Pair a r)
  show ?thesis
  proof (cases "aset_get a h")
    case None then show ?thesis by (simp add: Pair seal_declaration_def)
  next
    case (Some rec)
    show ?thesis
      by (cases "declarationProofProblem ed (trusted r) proofs h rec") (simp_all add: Some Pair seal_declaration_def Let_def)
  qed
qed

lemma grows_match_declaration:
  "grows r0 r \<Longrightarrow> grows r0 (snd (match_declaration a stream wanted sequence ds r))"
proof (induction ds arbitrary: r)
  case (Cons d ds)
  show ?case
    by (cases d) (simp only: match_declaration.simps Let_def, intro grows_snd_if Cons.IH grows_last Cons.prems grows_snd_pair)
qed simp

lemma grows_absent_event: "grows r (absent_event a stream kinds sequence r)"
  using grows_match_declaration [of r r a stream "wanted_action kinds sequence" sequence "aset_live a"]
  by (auto simp: absent_event_def Let_def intro!: grow split: prod.splits)

lemma growing_loadDeclarationProofs [grow]: "growing (loadDeclarationProofs b)"
  unfolding loadDeclarationProofs_def by (intro grow)

lemma grows_declaration_lines:
  "grows r (snd (case for_lines declaration_line l (a, r) of ((a, r'), l) \<Rightarrow> ((a, l), r')))"
  using grows_for_lines [of snd declaration_line "(a, r)" l, OF grows_declaration_line]
  by (simp add: case_prod_beta)

lemma growing_checkDeclarations [grow]: "growing (checkDeclarations ed b mf w)"
  unfolding checkDeclarations_def Let_def
  by (intro grow grows_declaration_lines grows_seal_declaration grows_absent_event)

lemma grows_qualified_note: "grows r (qualified_note label anchor r)"
  by (auto simp: qualified_note_def Let_def intro!: grow)

lemma grows_anchor_token: "grows (snd s) (snd (anchor_token cr label anchor h t s))"
  by (auto simp: anchor_token_def Let_def intro!: grow grows_trans [OF _ grows_qualified_note] split: prod.splits)

lemma grows_check_anchor: "grows (snd s) (snd (check_anchor cr hs e s))"
proof (cases s; cases e)
  fix latest r index anchorj assume s: "s = (latest, r)" "e = (index, anchorj)"
  have t: "grows r (snd (anchor_token cr l a h t (latest, r)))" for l a h t
    using grows_anchor_token [of "(latest, r)"] by simp
  show ?thesis
    by (auto simp: s check_anchor_def Let_def t split: option.splits sum.splits)
qed

lemma growing_checkAnchors [grow]: "growing (checkAnchors cr b skip hs)"
  unfolding checkAnchors_def Let_def by (intro grow grows_check_anchor)

lemma growing_check_certificate [grow]: "growing (check_certificate b i c)"
  unfolding check_certificate_def Let_def by (intro grow)

lemma growing_check_certificate_list [grow]: "growing (check_certificate_list b cs)"
  by (induction b cs rule: check_certificate_list.induct) (auto intro: grow)

lemma growing_checkCertificates [grow]: "growing (checkCertificates b doc)"
  unfolding checkCertificates_def Let_def by (intro grow)

subsection \<open>Collection records\<close>

lemma grows_check [simp]: "grows r (check label ok m r)"
  by (auto simp: check_def intro!: grow)

lemma grows_remark [simp]: "grows r (remark label m r)"
  by (simp add: remark_def)

lemmas grows_checks [grow] = grows_trans [OF _ grows_check] grows_trans [OF _ grows_remark]

lemma grows_config_record: "grows (snd s) (snd (config_record label payload s))"
  by (cases s) (auto simp: config_record_def Let_def intro!: grow)

lemma grows_receipt_records [simp]: "grows r (receipt_records label payload r)"
  by (auto simp: receipt_records_def Let_def intro!: grow)

lemma grows_receipt_fields: "grows r (receipt_fields label payload r)"
  by (auto simp: receipt_fields_def Let_def intro!: grow grows_trans [OF _ grows_receipt_records])

lemma grows_receipt_chain: "grows r (receipt_chain anchored label payload st r)"
  by (auto simp: receipt_chain_def Let_def intro!: grow)

lemma grows_receipt_record: "grows (snd s) (snd (receipt_record anchored label h payload s))"
  by (cases s) (auto simp: receipt_record_def Let_def
      intro!: grow grows_trans [OF _ grows_receipt_chain] grows_trans [OF _ grows_receipt_fields])

lemma grows_gap_record: "grows (snd s) (snd (gap_record anchored label payload s))"
  by (cases s) (auto simp: gap_record_def Let_def intro!: grow split: option.splits)

lemma grows_healed_record: "grows (snd s) (snd (healed_record anchored label payload s))"
  by (cases s) (auto simp: healed_record_def Let_def intro!: grow split: option.splits)

lemma grows_settled_receipts [simp]: "grows r (settled_receipts anchored label payload st r)"
  by (auto simp: settled_receipts_def Let_def intro!: grow)

lemma grows_settled_gap: "grows (snd s) (snd (settled_gap anchored label st item s))"
  by (cases s) (auto simp: settled_gap_def Let_def intro!: grow split: option.splits)

lemma grows_settled_chain: "grows r (settled_chain rf label payload day n st r)"
  by (auto simp: settled_chain_def Let_def intro!: grow split: option.splits)

lemma grows_settled_record: "grows (snd s) (snd (settled_record rf label sequence h payload s))"
proof (cases s)
  case (Pair st r)
  have g: "grows x (snd (fold (settled_gap a label st') items (False, x)))" for x a st' items
    using grows_fold_on [of snd "settled_gap a label st'", OF grows_settled_gap, of "(False, x)"] by simp
  show ?thesis
    unfolding settled_record_def Let_def Pair prod.case case_prod_beta snd_conv
    by (intro grow grows_trans [OF _ grows_settled_chain] grows_trans [OF _ g]) simp_all
qed

lemma grows_one_record: "grows (snd s) (snd (one_record rf act label sequence h payload s))"
proof -
  have "grows (snd s) (snd (f (a, check label ok m (snd s))))" if "\<And>s. grows (snd s) (snd (f s))"
    for f :: "collection_stream \<times> run \<Rightarrow> collection_stream \<times> run" and a ok m
    using grows_trans [OF grows_check that [of "(a, check label ok m (snd s))", unfolded snd_conv]] .
  then show ?thesis
    by (auto simp: one_record_def Let_def grows_config_record grows_receipt_record grows_gap_record
        grows_healed_record grows_settled_record)
qed

lemma grows_collection_line: "grows (co_run c) (co_run (collection_line rf n line c))"
proof -
  have "grows r r'" if "one_record rf act label sequence h payload (st, whenever b (info m) r) = (st', r')"
    for act label sequence h payload st b m st' r r'
    using grows_one_record [of "(st, whenever b (info m) r)" rf act label sequence h payload] that
      grows_whenever [of r r "info m" b] by (auto intro: grows_trans)
  then show ?thesis
    by (auto simp: collection_line_def Let_def intro!: grow split: prod.splits)
qed

lemma grows_connection_streams: "grows r (connection_streams anchored connection streams r)"
  by (auto simp: connection_streams_def Let_def intro!: grow split: option.splits)

lemma growing_read_connection [grow]: "growing (read_connection b)"
  unfolding read_connection_def Let_def by (intro grow)

lemma grows_collection_lines:
  "co_run c = r \<Longrightarrow> grows r (snd (case for_lines (collection_line rf) l c of (c, l) \<Rightarrow> ((c, l), co_run c)))"
  using grows_for_lines [of co_run "collection_line rf" c l, OF grows_collection_line]
  by (simp add: case_prod_beta)

lemma growing_checkCollectionRecords [grow]: "growing (checkCollectionRecords b rf)"
  unfolding checkCollectionRecords_def Let_def
  by (intro grow grows_collection_lines grows_trans [OF _ grows_connection_streams])
    (auto intro!: grow)

subsection \<open>SigilSign\<close>

lemma grows_document_version: "grows (snd s) (snd (document_version se slug v s))"
  by (cases s) (auto simp: document_version_def Let_def split: option.splits)

lemma grows_document_record: "grows (snd s) (snd (document_record se rec s))"
  by (auto simp: document_record_def Let_def intro!: grow grows_document_version)

lemma grows_check_documents [simp]: "grows r (check_documents se doc r)"
  using grows_fold_pair [OF grows_document_record]
  by (auto simp: check_documents_def intro!: grow split: option.splits prod.splits)

lemma grows_signed_consistent: "grows r (signed_consistent label sha sg e r)"
  by (cases e) (auto simp: signed_consistent_def Let_def intro!: grow split: option.splits)

lemma grows_claimed_signer: "grows (snd s) (snd (claimed_signer label sg v s))"
  by (cases s) (auto simp: claimed_signer_def Let_def intro!: grow split: option.splits)

lemma grows_signature_record: "grows (snd s) (snd (signature_record se rec s))"
  by (cases s) (auto simp: signature_record_def Let_def intro!: grow grows_claimed_signer grows_signed_consistent)

lemma grows_check_signatures [simp]: "grows r (check_signatures se doc r)"
  using grows_fold_pair [OF grows_signature_record]
  by (auto simp: check_signatures_def intro!: grow split: option.splits prod.splits)

lemma grows_link_end: "grows (snd s) (snd (link_end se label link pair s))"
  by (cases s; cases pair) (auto simp: link_end_def Let_def)

lemma grows_link_record: "grows (snd s) (snd (link_record se e s))"
proof (cases s; cases e)
  fix n r index link assume s: "s = (n, r)" "e = (index, link)"
  have "grows r (snd (fold (link_end se label link) ps (True, r)))" for label ps
    using grows_fold_on [of snd "link_end se label link", OF grows_link_end, of "(True, r)"] by simp
  then show ?thesis unfolding s link_record_def prod.case case_prod_beta snd_conv fst_conv .
qed

lemma grows_check_links [simp]: "grows r (check_links se doc r)"
  using grows_fold_pair [OF grows_link_record]
  by (auto simp: check_links_def intro!: grow split: option.splits prod.splits)

lemma growing_section_of [grow]: "(\<And>doc r. grows r (f doc r)) \<Longrightarrow> growing (section_of b name announce f)"
  unfolding section_of_def by (intro grow) simp

lemma growing_decode_all [grow]: "growing (decode_all b ns)"
  by (induction b ns rule: decode_all.induct) (auto intro: grow)

lemma growing_checkSigilSign [grow]: "growing (checkSigilSign b)"
  unfolding checkSigilSign_def read_sign_events_def Let_def
  by (intro grow grows_check_documents grows_check_signatures grows_check_links)

subsection \<open>The whole verification\<close>

lemma grows_state_check: "grows r (state_check rootAt rangeTo state r)"
  by (auto simp: state_check_def Let_def intro!: grow)

lemma grows_consistency_doc: "grows r (consistency_doc rootAt rangeTo finalRoot doc r)"
  by (auto simp: consistency_doc_def Let_def intro!: grow grows_state_check)

lemma growing_checkConsistencyFile [grow]: "growing (checkConsistencyFile b from to rootAt)"
  unfolding checkConsistencyFile_def by (intro grow grows_consistency_doc)

lemma growing_prepare_walk [grow]: "growing (prepare_walk b mf wopts)"
  unfolding prepare_walk_def by (intro grow)

lemma growing_later_sections [grow]: "growing (later_sections cr b skip mf w hashes)"
  unfolding later_sections_def by (intro grow)

lemma growing_verify_reader [grow]: "growing (verify_reader cr b skip wopts)"
  unfolding verify_reader_def by (intro grow grows_walk_checkpoints)

lemma growing_verifyBundle: "growing (verifyBundle cr os target skip wopts)"
  unfolding verifyBundle_def by (intro grow)

end
