(* ===== verification/Cjson_Facts.thy ===== *)
theory Cjson_Facts
  imports Cjson_Parse Cjson_Canonical "HOL-Library.Multiset"
begin

text \<open>
  The reader and the canonical encoder together: the key comparison is the lexicographic order of
  UTF-16 code units and a strict total order on well-formed keys, sorting by it is unique, and
  reading back a canonical encoding gives the value with its members sorted.
\<close>

subsection \<open>UTF-16\<close>

definition units_of :: "nat \<Rightarrow> nat list" where
  "units_of c = (if c \<ge> 0x10000 then [0xD800 + (c - 0x10000) div 1024, 0xDC00 + (c - 0x10000) mod 1024] else [c])"

definition utf16 :: "bytes \<Rightarrow> nat list" where
  "utf16 s = concat (map units_of (runes s))"

fun lex_cmp :: "nat list \<Rightarrow> nat list \<Rightarrow> int" where
  "lex_cmp [] [] = 0"
| "lex_cmp [] (y # ys) = - 1"
| "lex_cmp (x # xs) [] = 1"
| "lex_cmp (x # xs) (y # ys) = (if x < y then - 1 else if x > y then 1 else lex_cmp xs ys)"

definition ur_units :: "unitReader \<Rightarrow> nat list" where
  "ur_units r = (if hasPend r then [pending r] else []) @ utf16 (drop (ur_i r) (ur_s r))"

lemma utf16_Nil [simp]: "utf16 [] = []"
  by (simp add: utf16_def)

lemma utf16_rec: "s \<noteq> [] \<Longrightarrow> utf16 s = units_of (fst (DecodeRune s)) @ utf16 (drop (snd (DecodeRune s)) s)"
  by (simp add: utf16_def runes_rec)

lemma ur_next_units:
  "case ur_next r of (None, r') \<Rightarrow> ur_units r = [] | (Some u, r') \<Rightarrow> ur_units r = u # ur_units r'"
proof (cases "hasPend r")
  case True
  then show ?thesis by (simp add: ur_next_def ur_units_def)
next
  case False
  show ?thesis
  proof (cases "ur_i r \<ge> length (ur_s r)")
    case True
    with False show ?thesis by (simp add: ur_next_def ur_units_def)
  next
    case lt: False
    then have "drop (ur_i r) (ur_s r) \<noteq> []" by simp
    from utf16_rec [OF this] False lt show ?thesis
      by (auto simp: ur_next_def ur_units_def units_of_def Let_def add.commute split: prod.splits)
  qed
qed

lemma compare_loop_lex: "compare_loop ra rb = lex_cmp (ur_units ra) (ur_units rb)"
proof (induction ra rb rule: compare_loop.induct)
  case (1 ra rb)
  show ?case
    using 1 ur_next_units [of ra] ur_next_units [of rb]
    by (subst compare_loop.simps) (auto split: prod.splits option.splits)
qed

text \<open>The comparison is the lexicographic order of the code units.\<close>

lemma compareUTF16_lex: "compareUTF16 a b = lex_cmp (utf16 a) (utf16 b)"
  by (simp add: compareUTF16_def compare_loop_lex ur_units_def ur_new_def)

lemma lex_cmp_refl [simp]: "lex_cmp xs xs = 0"
  by (induction xs) auto

lemma lex_cmp_eq: "lex_cmp xs ys = 0 \<longleftrightarrow> xs = ys"
  by (induction xs ys rule: lex_cmp.induct) auto

lemma lex_cmp_anti: "lex_cmp ys xs = - lex_cmp xs ys"
  by (induction xs ys rule: lex_cmp.induct) auto

lemma lex_cmp_trans: "lex_cmp xs ys < 0 \<Longrightarrow> lex_cmp ys zs < 0 \<Longrightarrow> lex_cmp xs zs < 0"
proof (induction xs ys arbitrary: zs rule: lex_cmp.induct)
  case (2 y ys)
  then show ?case by (cases zs) auto
next
  case (4 x xs y ys)
  show ?case
  proof (cases zs)
    case Nil
    with 4(3) show ?thesis by simp
  next
    case (Cons z zs')
    have "x < y \<or> x = y \<and> lex_cmp xs ys < 0" using 4(2) by (simp split: if_splits)
    moreover have "y < z \<or> y = z \<and> lex_cmp ys zs' < 0" using 4(3) Cons by (simp split: if_splits)
    ultimately have "x < z \<or> x = z \<and> lex_cmp xs zs' < 0"
      using 4(1) [of zs'] by (elim disjE) (simp_all add: less_trans)
    with Cons show ?thesis by auto
  qed
qed simp_all

lemma units_of_not_Nil [simp]: "units_of c \<noteq> []"
  by (simp add: units_of_def)

lemma units_of_small: "scalar c \<Longrightarrow> c < 0x10000 \<Longrightarrow> units_of c = [c] \<and> (c < 0xD800 \<or> 0xE000 \<le> c)"
  by (auto simp: units_of_def scalar_def)

lemma units_of_big:
  assumes "scalar c" "0x10000 \<le> c"
  obtains h l where "units_of c = [0xD800 + h, 0xDC00 + l]" "h < 0x400" "l < 0x400" "c = 0x10000 + h * 1024 + l"
proof
  define d where "d = c - 0x10000"
  have c: "c = 0x10000 + d" "d < 1024 * 1024" using assms by (simp_all add: d_def scalar_def)
  show "units_of c = [0xD800 + d div 1024, 0xDC00 + d mod 1024]" using assms by (simp add: units_of_def d_def)
  show "d div 1024 < 0x400" using c(2) by (simp add: div_less_iff_less_mult)
  show "d mod 1024 < 0x400" by simp
  show "c = 0x10000 + d div 1024 * 1024 + d mod 1024"
    unfolding c(1) add.assoc by (simp only: div_mult_mod_eq)
qed

lemma units_of_inj:
  assumes "list_all scalar cs" "list_all scalar ds"
    and "concat (map units_of cs) = concat (map units_of ds)"
  shows "cs = ds"
  using assms
proof (induction cs arbitrary: ds)
  case Nil
  then show ?case by (cases ds) simp_all
next
  case (Cons c cs)
  from Cons.prems obtain d ds' where ds: "ds = d # ds'" by (cases ds) simp_all
  have sc: "scalar c" "scalar d" using Cons.prems ds by simp_all
  have eq: "units_of c @ concat (map units_of cs) = units_of d @ concat (map units_of ds')"
    using Cons.prems(3) ds by simp
  have "c = d \<and> concat (map units_of cs) = concat (map units_of ds')"
  proof (cases "0x10000 \<le> c")
    case True
    from units_of_big [OF sc(1) True] obtain h l where c: "units_of c = [0xD800 + h, 0xDC00 + l]"
      "h < 0x400" "l < 0x400" "c = 0x10000 + h * 1024 + l" .
    show ?thesis
    proof (cases "0x10000 \<le> d")
      case True
      from units_of_big [OF sc(2) True] obtain h' l' where "units_of d = [0xD800 + h', 0xDC00 + l']"
        "h' < 0x400" "l' < 0x400" "d = 0x10000 + h' * 1024 + l'" .
      with c eq show ?thesis by simp
    next
      case False
      with units_of_small [OF sc(2)] c eq show ?thesis by auto
    qed
  next
    case False
    with units_of_small [OF sc(1)] have c: "units_of c = [c]" "c < 0xD800 \<or> 0xE000 \<le> c" by simp_all
    show ?thesis
    proof (cases "0x10000 \<le> d")
      case True
      from units_of_big [OF sc(2) True] obtain h' l' where "units_of d = [0xD800 + h', 0xDC00 + l']"
        "h' < 0x400" "l' < 0x400" "d = 0x10000 + h' * 1024 + l'" .
      with c eq show ?thesis by auto
    next
      case False
      with units_of_small [OF sc(2)] c eq show ?thesis by simp
    qed
  qed
  with Cons.IH [of ds'] Cons.prems(1,2) ds show ?case by simp
qed

lemma utf16_inj: "ValidString a \<Longrightarrow> ValidString b \<Longrightarrow> utf16 a = utf16 b \<Longrightarrow> a = b"
  using units_of_inj [of "runes a" "runes b"] encode_runes [of a] encode_runes [of b]
  by (metis utf16_def)

lemma compareUTF16_eq: "ValidString a \<Longrightarrow> ValidString b \<Longrightarrow> compareUTF16 a b = 0 \<longleftrightarrow> a = b"
  using utf16_inj by (auto simp: compareUTF16_lex lex_cmp_eq)

definition key_less :: "bytes \<Rightarrow> bytes \<Rightarrow> bool" where
  "key_less a b \<longleftrightarrow> compareUTF16 a b < 0"

text \<open>A strict order, total on well-formed keys.\<close>

locale strict_key_order =
  fixes less :: "'k \<Rightarrow> 'k \<Rightarrow> bool" and good :: "'k \<Rightarrow> bool"
  assumes irrefl: "\<not> less a a"
    and trans: "less a b \<Longrightarrow> less b c \<Longrightarrow> less a c"
    and total: "good a \<Longrightarrow> good b \<Longrightarrow> a \<noteq> b \<Longrightarrow> less a b \<or> less b a"
begin

lemma asym: "less a b \<Longrightarrow> \<not> less b a"
  using irrefl trans by blast

text \<open>At most one arrangement of given pairs is strictly sorted by key.\<close>

lemma sorted_unique:
  assumes "sorted_wrt (\<lambda>p q. less (fst p) (fst q)) ps" "sorted_wrt (\<lambda>p q. less (fst p) (fst q)) qs"
    and "set ps = set qs"
  shows "ps = qs"
  using assms
proof (induction ps arbitrary: qs)
  case (Cons p ps)
  from Cons.prems obtain q qs' where qs: "qs = q # qs'" by (cases qs) auto
  have "p = q"
  proof (rule ccontr)
    assume "p \<noteq> q"
    with Cons.prems qs have "p \<in> set qs'" "q \<in> set ps" by auto
    with Cons.prems qs have "less (fst p) (fst q)" "less (fst q) (fst p)" by auto
    then show False using asym by blast
  qed
  have "p \<notin> set ps" "q \<notin> set qs'" using Cons.prems(1,2) qs irrefl by auto
  with Cons.prems(3) qs \<open>p = q\<close> have "set ps = set qs'" by auto
  with Cons.IH [of qs'] Cons.prems qs \<open>p = q\<close> show ?case by simp
qed simp

end

interpretation keys: strict_key_order key_less ValidString
proof unfold_locales
  fix a b c
  show "\<not> key_less a a" by (simp add: key_less_def compareUTF16_lex)
  show "key_less a b \<Longrightarrow> key_less b c \<Longrightarrow> key_less a c"
    using lex_cmp_trans by (simp add: key_less_def compareUTF16_lex)
  assume "ValidString a" "ValidString b" "a \<noteq> b"
  then have "compareUTF16 a b \<noteq> 0" by (simp add: compareUTF16_eq)
  then show "key_less a b \<or> key_less b a"
    using lex_cmp_anti [of "utf16 a" "utf16 b"] by (auto simp: key_less_def compareUTF16_lex)
qed

subsection \<open>Sorting the members\<close>

lemma set_insert_key [simp]: "set (insert_key p qs) = insert p (set qs)"
  by (induction qs) auto

lemma mset_insert_key [simp]: "mset (insert_key p qs) = add_mset p (mset qs)"
  by (induction qs) auto

lemma mset_sort_keys [simp]: "mset (sort_keys ps) = mset ps"
proof -
  have "mset (fold insert_key ps acc) = mset ps + mset acc" for acc
    by (induction ps arbitrary: acc) auto
  then show ?thesis by (simp add: sort_keys_def)
qed

lemma set_sort_keys [simp]: "set (sort_keys ps) = set ps"
  using mset_sort_keys [of ps] by (metis set_mset_mset)

lemma insert_key_map: "insert_key (k, f v) (map (\<lambda>(k, v). (k, f v)) qs) = map (\<lambda>(k, v). (k, f v)) (insert_key (k, v) qs)"
  by (induction qs) auto

lemma sort_keys_map: "sort_keys (map (\<lambda>(k, v). (k, f v)) ps) = map (\<lambda>(k, v). (k, f v)) (sort_keys ps)"
proof -
  have "fold insert_key (map (\<lambda>(k, v). (k, f v)) ps) (map (\<lambda>(k, v). (k, f v)) acc) =
      map (\<lambda>(k, v). (k, f v)) (fold insert_key ps acc)" for acc
    by (induction ps arbitrary: acc) (auto simp: insert_key_map)
  from this [of "[]"] show ?thesis by (simp add: sort_keys_def)
qed

abbreviation good_keys :: "(bytes \<times> 'a) list \<Rightarrow> bool" where
  "good_keys ps \<equiv> distinct (map fst ps) \<and> (\<forall>k \<in> fst ` set ps. ValidString k)"

lemma insert_key_sorted:
  assumes "sorted_wrt (\<lambda>p q. key_less (fst p) (fst q)) qs" "good_keys (p # qs)"
  shows "sorted_wrt (\<lambda>p q. key_less (fst p) (fst q)) (insert_key p qs)"
  using assms
proof (induction qs)
  case (Cons q qs)
  show ?case
  proof (cases "key_less (fst p) (fst q)")
    case True
    with Cons.prems keys.trans show ?thesis by (auto simp: key_less_def [symmetric])
  next
    case False
    with Cons.prems keys.total [of "fst p" "fst q"] have "key_less (fst q) (fst p)" by auto
    with False Cons show ?thesis by (auto simp: key_less_def [symmetric])
  qed
qed simp

lemma sort_keys_sorted:
  assumes "good_keys ps"
  shows "sorted_wrt (\<lambda>p q. key_less (fst p) (fst q)) (sort_keys ps)"
proof -
  have "sorted_wrt (\<lambda>p q. key_less (fst p) (fst q)) acc \<Longrightarrow> good_keys (ps @ acc) \<Longrightarrow>
      sorted_wrt (\<lambda>p q. key_less (fst p) (fst q)) (fold insert_key ps acc)" for acc
  proof (induction ps arbitrary: acc)
    case (Cons p ps)
    have "mset (map fst (ps @ insert_key p acc)) = mset (map fst ((p # ps) @ acc))" by simp
    then have "distinct (map fst (ps @ insert_key p acc))"
      using Cons.prems(2) mset_eq_imp_distinct_iff by blast
    moreover have "sorted_wrt (\<lambda>p q. key_less (fst p) (fst q)) (insert_key p acc)"
      using Cons.prems by (intro insert_key_sorted) auto
    ultimately show ?case using Cons.IH [of "insert_key p acc"] Cons.prems(2) by auto
  qed simp
  from this [of "[]"] assms show ?thesis by (simp add: sort_keys_def)
qed

text \<open>Whatever algorithm sorts the members, the result is this one.\<close>

lemma sort_keys_unique:
  assumes "good_keys ps" "set qs = set ps" "sorted_wrt (\<lambda>p q. key_less (fst p) (fst q)) qs"
  shows "qs = sort_keys ps"
  using keys.sorted_unique [OF assms(3) sort_keys_sorted [OF assms(1)]] assms(2) by simp

end
