(* ===== verification/Cjson_Roundtrip.thy ===== *)
theory Cjson_Roundtrip
  imports Cjson_Facts
begin

text \<open>
  Reading back a canonical encoding: strings, numbers, then values by induction. With it the
  encoding is injective up to the order of members, which is what lets a hash of canonical bytes
  stand for the value.
\<close>

subsection \<open>Strings\<close>

lemma unat_hex_char: "n < 16 \<Longrightarrow> hex_digit (hex_char n) = Some n"
  using unat_of_nat_byte [of "48 + n"] unat_of_nat_byte [of "87 + n"]
  by (simp add: hex_char_def hex_digit_def del: of_nat_add)

lemma canon_byte_low:
  "unat b < 0x20 \<Longrightarrow> \<exists>t. canon_byte b = 92 # t \<and> escape buf (t @ rest) = Inr (buf @ [b], rest)"
proof -
  assume b: "unat b < 0x20"
  have "hex_digit 48 = Some 0" by (simp add: hex_digit_def)
  moreover have "hex_digit (hex_char (unat b div 16)) = Some (unat b div 16)"
    "hex_digit (hex_char (unat b mod 16)) = Some (unat b mod 16)"
    using b by (simp_all add: unat_hex_char)
  moreover have "unat b div 16 * 16 + unat b mod 16 = unat b" by simp
  ultimately have "hex4 (48 # 48 # hex_char (unat b div 16) # hex_char (unat b mod 16) # rest) = Some (unat b, rest)"
    by (simp add: hex4_def)
  then have "escape buf (117 # 48 # 48 # hex_char (unat b div 16) # hex_char (unat b mod 16) # rest) = Inr (buf @ [b], rest)"
    using b by (simp add: escape_def escape_u_def AppendRune_def EncodeRune_def)
  with b show ?thesis by (auto simp: canon_byte_def escape_def)
qed

lemma canon_byte_high: "0x80 \<le> unat b \<Longrightarrow> canon_byte b = [b]"
  by (auto simp: canon_byte_def)

lemma canon_bytes_high: "\<forall>b \<in> set bs. 0x80 \<le> unat b \<Longrightarrow> concat (map canon_byte bs) = bs"
  by (induction bs) (simp_all add: canon_byte_high)

lemma high_byte: "0x80 \<le> n \<Longrightarrow> n < 0x100 \<Longrightarrow> 0x80 \<le> unat (of_nat n :: byte)"
  using unat_of_nat_byte [of n] by simp

lemma EncodeRune_high: "0x80 \<le> r \<Longrightarrow> scalar r \<Longrightarrow> b \<in> set (EncodeRune r) \<Longrightarrow> 0x80 \<le> unat b"
  by (auto simp del: of_nat_add simp: EncodeRune_def enc3_def scalar_def div_less_iff_less_mult
      intro!: high_byte split: if_splits)

lemma strSlow_canon:
  "list_all scalar cs \<Longrightarrow>
   strSlow buf (concat (map canon_byte (concat (map EncodeRune cs))) @ 34 # rest) =
     Inr (buf @ concat (map EncodeRune cs), rest)"
proof (induction cs arbitrary: buf)
  case Nil
  then show ?case by (simp add: strSlow_Cons)
next
  case (Cons c cs)
  define tail where "tail = concat (map canon_byte (concat (map EncodeRune cs))) @ 34 # rest"
  have IH: "strSlow buf' tail = Inr (buf' @ concat (map EncodeRune cs), rest)" for buf'
    using Cons by (simp add: tail_def)
  have sc: "scalar c" using Cons.prems by simp
  have "strSlow buf (concat (map canon_byte (EncodeRune c)) @ tail) = strSlow (buf @ EncodeRune c) tail"
  proof (cases "c < 0x80")
    case True
    define b :: byte where "b = of_nat c"
    have b: "EncodeRune c = [b]" "unat b = c" using True unat_of_nat_byte [of c] by (simp_all add: EncodeRune_def b_def)
    consider "c < 0x20" | "b = 34" | "b = 92" | "0x20 \<le> c" "b \<noteq> 34" "b \<noteq> 92" by linarith
    then show ?thesis
    proof cases
      case 1
      then obtain t where "canon_byte b = 92 # t" "escape buf (t @ tail) = Inr (buf @ [b], tail)"
        using canon_byte_low [of b buf tail] b by auto
      with b show ?thesis by (simp add: strSlow_Cons)
    next
      case 4
      then have "canon_byte b = [b]" using b by (auto simp: canon_byte_def)
      with 4 True b show ?thesis by (simp add: strSlow_Cons)
    qed (use b in \<open>simp_all add: canon_byte_def strSlow_Cons escape_def\<close>)
  next
    case False
    then have "concat (map canon_byte (EncodeRune c)) = EncodeRune c"
      using EncodeRune_high [of c] sc by (intro canon_bytes_high) auto
    moreover obtain b t where bt: "EncodeRune c = b # t" by (cases "EncodeRune c") auto
    moreover have "0x80 \<le> unat b" using EncodeRune_high [of c b] False sc bt by simp
    moreover note DecodeRune_EncodeRune [OF sc, of tail] not_malformed_scalar [OF sc, of tail]
    ultimately show ?thesis by (auto simp: strSlow_Cons)
  qed
  with IH show ?case by (simp add: tail_def)
qed

lemma str_canon: "ValidString s \<Longrightarrow> str (canon_string s @ rest) = Inr (s, rest)"
  using strSlow_canon [of "runes s" "[]" rest] encode_runes [of s]
  by (simp add: str_def canon_string_def strFast_strSlow)

subsection \<open>Numbers\<close>

definition follow :: "bytes \<Rightarrow> bool" where
  "follow rest \<longleftrightarrow> rest = [] \<or> hd rest \<in> {44, 93, 125}"

lemma follow_not:
  assumes "follow rest"
  shows "\<not> starts_digit rest" "\<not> starts 46 rest" "\<not> starts 101 rest" "\<not> starts 69 rest"
  using assms by (cases rest; auto simp: follow_def starts_digit_def starts_def is_digit_def)+

lemma digit_not_sign: "is_digit c \<Longrightarrow> c \<noteq> 45 \<and> c \<noteq> 43"
  by (auto simp: is_digit_def)

lemma drop_digits:
  "list_all is_digit ds \<Longrightarrow> \<not> starts_digit rest \<Longrightarrow> dropWhile is_digit (ds @ rest) = rest"
  by (induction ds) (auto simp: starts_digit_def split: list.splits)

lemma hd_digit: "list_all is_digit ds \<Longrightarrow> ds \<noteq> [] \<Longrightarrow> starts_digit (ds @ r) \<and> \<not> starts 45 (ds @ r)"
  by (cases ds) (auto simp: starts_digit_def starts_def dest: digit_not_sign)

lemma strip_sign_digits: "list_all is_digit ds \<Longrightarrow> strip_sign ds = (False, ds) \<and> strip_sign (45 # ds) = (True, ds)"
  by (cases ds) (auto simp: strip_sign_def dest: digit_not_sign)

text \<open>What the digits branch leaves, for a number without a leading zero.\<close>

lemma number_int_part:
  assumes "follow rest"
  shows "(if starts 48 (nat_digits n @ rest) then tl (nat_digits n @ rest)
     else dropWhile is_digit (nat_digits n @ rest)) = rest"
proof (cases "starts 48 (nat_digits n @ rest)")
  case True
  then have "n = 0" using nat_digits_props [of n] by (cases "nat_digits n") (auto simp: starts_def)
  then show ?thesis using nat_digits_props [of n] by (auto simp: starts_def)
next
  case False
  then show ?thesis using nat_digits_props [of n] follow_not(1) [OF assms] by (simp add: drop_digits)
qed

lemma number_canon:
  assumes i: "\<bar>i\<bar> \<le> maxExactInt" and f: "follow rest"
  shows "number (int_text i @ rest) = Inr (JInt i, rest)"
proof -
  define n where "n = nat \<bar>i\<bar>"
  define ds where "ds = nat_digits n"
  define neg where "neg = (i < 0)"
  have tx: "int_text i = (if neg then [45] else []) @ ds" by (simp add: int_text_def ds_def n_def neg_def)
  have ds: "ds \<noteq> []" "list_all is_digit ds" "digits_val ds = n" using nat_digits_props [of n] by (auto simp: ds_def)
  have "n < 10 ^ 16" using i by (simp add: n_def maxExactInt_def)
  then have len: "length ds \<le> 16" using length_nat_digits [of 16 n] by (simp add: ds_def)
  let ?lit = "int_text i"
  have neg: "starts 45 (?lit @ rest) = neg" using hd_digit [OF ds(2,1), of rest] by (auto simp: tx starts_def)
  then have r1: "(if starts 45 (?lit @ rest) then tl (?lit @ rest) else ?lit @ rest) = ds @ rest"
    by (simp add: tx)
  have r2: "(if starts 48 (ds @ rest) then tl (ds @ rest) else dropWhile is_digit (ds @ rest)) = rest"
    unfolding ds_def using number_int_part [OF f] by simp
  have fits: "fitsInt64 ?lit neg (length ?lit)"
    using len by (auto simp: fitsInt64_def minDigits_def tx)
  have parsed: "ParseInt ?lit = Some i"
  proof -
    have "int64_ok i" using i by (simp add: int64_ok_def maxExactInt_def abs_le_iff)
    then show ?thesis using strip_sign_digits [OF ds(2)] ds(3)
      by (auto simp: ParseInt_def tx n_def neg_def)
  qed
  have "number_end (?lit @ rest) neg (length ?lit) False rest = Inr (JInt i, rest)"
    using fits parsed by (simp add: number_end_def)
  then have "number_exp (?lit @ rest) neg (length ?lit) False rest = Inr (JInt i, rest)"
    using follow_not [OF f] by (simp add: number_exp_def)
  then show ?thesis
    unfolding number_def Let_def neg r1 [unfolded neg] r2
    using hd_digit [OF ds(2,1), of rest] follow_not [OF f] by simp
qed

subsection \<open>Values\<close>

fun canon_sort :: "json \<Rightarrow> json" where
  "canon_sort (JArray xs) = JArray (map canon_sort xs)"
| "canon_sort (JObject ms) = JObject (sort_keys (map (\<lambda>(k, v). (k, canon_sort v)) ms))"
| "canon_sort v = v"

fun json_ok :: "json \<Rightarrow> bool" where
  "json_ok (JString s) = ValidString s"
| "json_ok (JArray xs) = (\<forall>x \<in> set xs. json_ok x)"
| "json_ok (JObject ms) =
     (distinct (map fst ms) \<and> (\<forall>(k, v) \<in> set ms. ValidString k \<and> \<not> starts 0 k \<and> json_ok v))"
| "json_ok _ = True"

fun json_depth :: "json \<Rightarrow> nat" where
  "json_depth (JArray xs) = Suc (foldr max (map json_depth xs) 0)"
| "json_depth (JObject ms) = Suc (foldr max (map (\<lambda>(k, v). json_depth v) ms) 0)"
| "json_depth _ = 0"

lemma foldr_max_le: "x \<in> set xs \<Longrightarrow> x \<le> foldr max xs (0 :: nat)"
  by (induction xs) auto

text \<open>How an encoded value starts.\<close>

definition token_start :: "bytes \<Rightarrow> bool" where
  "token_start bs \<longleftrightarrow> bs \<noteq> [] \<and> \<not> is_space (hd bs) \<and> hd bs \<noteq> 93 \<and> hd bs \<noteq> 125"

lemma token_start_append: "token_start bs \<Longrightarrow> token_start (bs @ r) \<and> skipSpace (bs @ r) = bs @ r"
  by (cases bs) (auto simp: token_start_def skipSpace_def)

lemma token_start_not: "token_start bs \<Longrightarrow> \<not> starts 93 (bs @ r) \<and> \<not> starts 125 (bs @ r)"
  by (cases bs) (auto simp: token_start_def starts_def)

lemma int_text_start: "\<exists>c t. int_text i = c # t \<and> (c = 45 \<or> is_digit c)"
proof -
  have "\<exists>c t. nat_digits n = c # t \<and> is_digit c" for n
    using nat_digits_props [of n] by (cases "nat_digits n") auto
  then show ?thesis unfolding int_text_def by (metis)
qed

lemma canon_start: "canon v = Inr bs \<Longrightarrow> token_start bs"
proof (cases v)
  case (JInt i)
  obtain c t where "int_text i = c # t" "c = 45 \<or> is_digit c" using int_text_start by blast
  moreover assume "canon v = Inr bs"
  ultimately have "bs = c # t" "c = 45 \<or> is_digit c" using JInt by (simp_all split: if_splits)
  then show ?thesis by (auto simp: token_start_def is_space_def is_digit_def)
qed (auto simp: token_start_def is_space_def canon_string_def lit_simps split: if_splits sum.splits)

lemma follow_append [simp]: "follow (44 # r)" "follow (93 # r)" "follow (125 # r)" "follow []"
  by (simp_all add: follow_def)

lemma skip_follow: "follow r \<Longrightarrow> skipSpace r = r"
  by (cases r) (auto simp: follow_def skipSpace_def is_space_def)

text \<open>Reading back one value, the statement of the induction.\<close>

definition reads_back :: "nat \<Rightarrow> json \<Rightarrow> bool" where
  "reads_back d v \<longleftrightarrow> (\<forall>bs rest. canon v = Inr bs \<longrightarrow> follow rest \<longrightarrow>
     value_at False d (bs @ rest) = Inr (canon_sort v, rest))"

lemma reads_backD:
  "reads_back d v \<Longrightarrow> canon v = Inr bs \<Longrightarrow> follow rest \<Longrightarrow>
   value_at False d (bs @ rest) = Inr (canon_sort v, rest)"
  by (simp add: reads_back_def)

lemma seq_items_Cons:
  "seq_items (x # xs) = Inr bs \<longleftrightarrow> (\<exists>b bs'. x = Inr b \<and> seq_items xs = Inr bs' \<and> bs = b # bs')"
  by (cases x) (auto split: sum.splits)

lemma commas_Cons: "bs \<noteq> [] \<Longrightarrow> commas (b # bs) = b @ 44 # commas bs"
  by (cases bs) auto

lemma seq_items_Nil: "seq_items xs = Inr [] \<longleftrightarrow> xs = []"
  by (induction xs rule: seq_items.induct) (auto split: sum.splits)

lemma array_loop_canon:
  assumes "\<And>x. x \<in> set xs \<Longrightarrow> reads_back d x" "xs \<noteq> []" "seq_items (map canon xs) = Inr bs"
  shows "array_loop False d acc (commas bs @ 93 # rest) = Inr (JArray (acc @ map canon_sort xs), rest)"
  using assms
proof (induction xs arbitrary: bs acc)
  case (Cons x xs)
  from Cons.prems(3) obtain b bs' where x: "canon x = Inr b" and xs: "seq_items (map canon xs) = Inr bs'"
    and bs: "bs = b # bs'" by (auto simp: seq_items_Cons)
  have rb: "value_at False d (b @ r) = Inr (canon_sort x, r)" if "follow r" for r
    using Cons.prems(1) [of x] x that by (auto dest: reads_backD)
  show ?case
  proof (cases "xs = []")
    case True
    with xs bs rb [of "93 # rest"] show ?thesis
      by (subst array_loop.simps) (simp add: skip_follow starts_def)
  next
    case False
    then have "bs' \<noteq> []" using xs seq_items_Nil [of "map canon xs"] by auto
    with bs have inp: "commas bs @ 93 # rest = b @ 44 # commas bs' @ 93 # rest" by (simp add: commas_Cons)
    have "token_start (commas bs')"
    proof -
      obtain y ys where "xs = y # ys" using False by (cases xs) auto
      with xs obtain c cs where "canon y = Inr c" "bs' = c # cs" by (auto simp: seq_items_Cons)
      then show ?thesis using canon_start [of y c] token_start_append by (cases cs) auto
    qed
    then have sk: "skipSpace (commas bs' @ 93 # rest) = commas bs' @ 93 # rest" by (simp add: token_start_append)
    have "b \<noteq> []" using canon_start [OF x] by (simp add: token_start_def)
    then show ?thesis
      using rb [of "44 # commas bs' @ 93 # rest"] Cons.IH [OF _ False xs, of "acc @ [canon_sort x]"] Cons.prems(1) sk
      unfolding inp by (subst array_loop.simps) (simp add: skip_follow starts_def)
  qed
qed simp

lemma canon_member_Inr:
  "canon_member (k, e) = Inr b \<longleftrightarrow> (\<exists>b'. e = Inr b' \<and> b = canon_string k @ 58 # b')"
  by (cases e) (auto simp: canon_member_def)

lemma canon_string_start: "token_start (canon_string k @ r) \<and> starts 34 (canon_string k @ r)"
  by (simp add: token_start_def canon_string_def is_space_def starts_def)

lemma starts_simps: "starts b [] \<longleftrightarrow> False" "starts b (c # r) \<longleftrightarrow> c = b"
  by (simp_all add: starts_def)

lemma skipSpace_colon: "skipSpace (58 # r) = 58 # r"
  by (simp add: skipSpace_def is_space_def)

lemma object_loop_canon:
  assumes "\<And>k v. (k, v) \<in> set ps \<Longrightarrow> reads_back d v \<and> ValidString k \<and> \<not> starts 0 k"
    and "ps \<noteq> []" "distinct (map fst (acc @ ps))"
    and "seq_items (map canon_member (map (\<lambda>(k, v). (k, canon v)) ps)) = Inr bs"
  shows "object_loop False d acc (commas bs @ 125 # rest) =
    Inr (JObject (acc @ map (\<lambda>(k, v). (k, canon_sort v)) ps), rest)"
  using assms
proof (induction ps arbitrary: bs acc)
  case (Cons p ps)
  obtain k v where p: "p = (k, v)" by (cases p)
  from Cons.prems(4) p obtain b bs' where v: "canon v = Inr b" and ps: "seq_items (map canon_member (map (\<lambda>(k, v). (k, canon v)) ps)) = Inr bs'"
    and bs: "bs = (canon_string k @ 58 # b) # bs'"
    by (auto simp: seq_items_Cons canon_member_Inr)
  have k: "ValidString k" "\<not> starts 0 k" and rd: "reads_back d v" using Cons.prems(1) [of k v] p by auto
  have rb: "value_at False d (b @ r) = Inr (canon_sort v, r)" if "follow r" for r
    using rd v that by (rule reads_backD)
  have upd: "AList.update k w acc = acc @ [(k, w)]" for w
    using Cons.prems(3) p by (intro update_fresh) auto
  have b: "skipSpace (b @ r) = b @ r" "b \<noteq> []" for r
    using canon_start [OF v] token_start_append by (auto simp: token_start_def)
  have head: "object_loop False d acc ((canon_string k @ 58 # b) @ r) =
     (if starts 44 r then object_loop False d (acc @ [(k, canon_sort v)]) (skipSpace (tl r))
      else if starts 125 r then Inr (JObject (acc @ [(k, canon_sort v)]), tl r)
      else unexpected r)" if "follow r" for r
    using canon_string_start [of k "58 # b @ r"] str_canon [OF k(1), of "58 # b @ r"] rb [OF that] k(2)
    by (subst object_loop.simps) (simp add: upd b skip_follow [OF that] starts_simps skipSpace_colon)
  show ?case
  proof (cases "ps = []")
    case True
    with ps bs p head [of "125 # rest"] show ?thesis by (simp add: starts_simps)
  next
    case False
    then have "bs' \<noteq> []" using ps seq_items_Nil by fastforce
    with bs have inp: "commas bs @ 125 # rest = (canon_string k @ 58 # b) @ 44 # commas bs' @ 125 # rest"
      by (simp add: commas_Cons)
    have "token_start (commas bs')"
    proof -
      obtain q ys where "ps = q # ys" using False by (cases ps) auto
      with ps obtain c cs where "bs' = c # cs" "\<exists>k r. c = canon_string k @ r"
        by (cases q) (auto simp: seq_items_Cons canon_member_Inr)
      then show ?thesis using canon_string_start by (cases cs) auto
    qed
    then have sk: "skipSpace (commas bs' @ 125 # rest) = commas bs' @ 125 # rest" by (simp add: token_start_append)
    have "object_loop False d (acc @ [(k, canon_sort v)]) (commas bs' @ 125 # rest) =
        Inr (JObject ((acc @ [(k, canon_sort v)]) @ map (\<lambda>(k, v). (k, canon_sort v)) ps), rest)"
      using Cons.prems p by (intro Cons.IH [OF _ False _ ps]) auto
    with head [of "44 # commas bs' @ 125 # rest"] sk p show ?thesis
      unfolding inp by (simp add: starts_simps)
  qed
qed simp

lemma value_at_Cons:
  "value_at assoc d (b # bs) =
     (if b = 123 then
         (if \<not> enter_ok d then fail Depth_err Max_depth_exceeded (b # bs)
          else if starts 125 (skipSpace bs) then Inr (JObject [], tl (skipSpace bs))
          else object_loop assoc (d + 1) [] (skipSpace bs))
       else if b = 91 then
         (if \<not> enter_ok d then fail Depth_err Max_depth_exceeded (b # bs)
          else if starts 93 (skipSpace bs) then Inr (JArray [], tl (skipSpace bs))
          else array_loop assoc (d + 1) [] (skipSpace bs))
       else if b = 34 then
         (case str (b # bs) of Inl e \<Rightarrow> Inl e | Inr (s, r) \<Rightarrow> Inr (JString s, r))
       else if b = 116 then literal (lit ''true'') (JBool True) (b # bs)
       else if b = 102 then literal (lit ''false'') (JBool False) (b # bs)
       else if b = 110 then literal (lit ''null'') JNull (b # bs)
       else if b = 45 \<or> is_digit b then number (b # bs)
       else unexpected (b # bs))"
  by (subst value_at.simps) simp

lemma distinct_sort_keys: "distinct (map fst (sort_keys ps)) \<longleftrightarrow> distinct (map fst ps)"
  by (rule mset_eq_imp_distinct_iff) simp

lemma sort_keys_empty: "sort_keys ps = [] \<longleftrightarrow> ps = []"
  using mset_sort_keys [of ps] by (metis mset_zero_iff)

lemma reads_back_array:
  assumes "\<And>x. x \<in> set xs \<Longrightarrow> reads_back (Suc d) x" "enter_ok d"
  shows "reads_back d (JArray xs)"
  unfolding reads_back_def
proof (intro allI impI)
  fix bs rest assume c: "canon (JArray xs) = Inr bs" and f: "follow rest"
  from c obtain es0 where enc: "seq_items (map canon xs) = Inr es0" "bs = [91] @ commas es0 @ [93]"
    by (auto split: sum.splits)
  show "value_at False d (bs @ rest) = Inr (canon_sort (JArray xs), rest)"
  proof (cases "xs = []")
    case True
    with enc assms(2) show ?thesis by (simp add: value_at_Cons skip_follow starts_simps)
  next
    case False
    then obtain y ys where "xs = y # ys" by (cases xs) auto
    with enc obtain e es where "canon y = Inr e" "es0 = e # es" by (auto simp: seq_items_Cons)
    then have ts: "token_start (commas es0)" using canon_start [of y e] token_start_append by (cases es) auto
    then have "skipSpace (commas es0 @ 93 # rest) = commas es0 @ 93 # rest" "\<not> starts 93 (commas es0 @ 93 # rest)"
      using token_start_append [OF ts] token_start_not [OF ts] by simp_all
    with enc assms array_loop_canon [OF assms(1) False enc(1), of "[]" rest] show ?thesis
      by (simp add: value_at_Cons)
  qed
qed

lemma reads_back_object:
  assumes "\<And>k v. (k, v) \<in> set ms \<Longrightarrow> reads_back (Suc d) v" "enter_ok d" "json_ok (JObject ms)"
  shows "reads_back d (JObject ms)"
  unfolding reads_back_def
proof (intro allI impI)
  fix bs rest assume c: "canon (JObject ms) = Inr bs" and f: "follow rest"
  define ps where "ps = sort_keys ms"
  from c obtain es0 where enc: "seq_items (map canon_member (map (\<lambda>(k, v). (k, canon v)) ps)) = Inr es0"
    "bs = [123] @ commas es0 @ [125]"
    by (auto simp: ps_def sort_keys_map split: sum.splits)
  have ps: "(k, v) \<in> set ps \<Longrightarrow> reads_back (Suc d) v \<and> ValidString k \<and> \<not> starts 0 k" for k v
    using assms(1,3) by (auto simp: ps_def)
  have dist: "distinct (map fst ([] @ ps))" using assms(3) by (simp add: ps_def distinct_sort_keys)
  have sorted: "canon_sort (JObject ms) = JObject (map (\<lambda>(k, v). (k, canon_sort v)) ps)"
    by (simp add: ps_def sort_keys_map)
  show "value_at False d (bs @ rest) = Inr (canon_sort (JObject ms), rest)"
  proof (cases "ps = []")
    case True
    with enc assms(2) show ?thesis unfolding sorted by (simp add: value_at_Cons skip_follow starts_simps)
  next
    case False
    then obtain y ys where "ps = y # ys" by (cases ps) auto
    with enc obtain k r es where "es0 = (canon_string k @ r) # es"
      by (cases y) (auto simp: seq_items_Cons canon_member_Inr)
    then have ts: "token_start (commas es0)" using canon_string_start by (cases es) auto
    then have "skipSpace (commas es0 @ 125 # rest) = commas es0 @ 125 # rest" "\<not> starts 125 (commas es0 @ 125 # rest)"
      using token_start_append [OF ts] token_start_not [OF ts] by simp_all
    with enc assms(2) object_loop_canon [OF ps False dist enc(1), of rest] show ?thesis
      unfolding sorted by (simp add: value_at_Cons)
  qed
qed

lemma reads_back_canon: "json_ok v \<Longrightarrow> d + json_depth v < maxDepth \<Longrightarrow> reads_back d v"
proof (induction v arbitrary: d rule: canon.induct)
  case 1
  show ?case by (simp add: reads_back_def value_at_Cons literal_def lit_simps)
next
  case (2 b)
  show ?case by (simp add: reads_back_def value_at_Cons literal_def lit_simps)
next
  case (3 i)
  show ?case unfolding reads_back_def
  proof (intro allI impI)
    fix bs rest assume "canon (JInt i) = Inr bs" "follow rest"
    then have bs: "bs = int_text i" "number (bs @ rest) = Inr (JInt i, rest)"
      using number_canon [of i rest] by (auto split: if_splits)
    obtain c t where "int_text i = c # t" "c = 45 \<or> is_digit c" using int_text_start by blast
    with bs show "value_at False d (bs @ rest) = Inr (canon_sort (JInt i), rest)"
      by (auto simp: value_at_Cons is_digit_def)
  qed
next
  case (4 f)
  show ?case by (simp add: reads_back_def)
next
  case (5 s)
  then show ?case
    using str_canon [of s] by (auto simp: reads_back_def canon_string_def value_at_Cons)
next
  case (6 xs)
  show ?case
  proof (rule reads_back_array)
    fix x assume x: "x \<in> set xs"
    then have "json_depth x \<le> foldr max (map json_depth xs) 0" by (intro foldr_max_le) auto
    with 6 x show "reads_back (Suc d) x" by simp
  qed (use 6 in \<open>simp add: enter_ok_def\<close>)
next
  case (7 ms)
  show ?case
  proof (rule reads_back_object)
    fix k v assume kv: "(k, v) \<in> set ms"
    then have "json_depth v \<le> foldr max (map (\<lambda>(k, v). json_depth v) ms) 0" by (intro foldr_max_le) force
    with 7(3) have "Suc d + json_depth v < maxDepth" by simp
    with 7(1) [OF kv refl] 7(2) kv show "reads_back (Suc d) v" by auto
  qed (use 7 in \<open>simp_all add: enter_ok_def\<close>)
qed

text \<open>Reading a canonical document back.\<close>

lemma Parse_canon:
  assumes "canon v = Inr bs" "json_ok v" "json_depth v < maxDepth"
  shows "Parse bs = Inr (canon_sort v)"
proof -
  have "value_at False 0 bs = Inr (canon_sort v, [])"
    using reads_backD [OF reads_back_canon [OF assms(2), of 0] assms(1), of "[]"] assms(3) by simp
  moreover have "skipSpace bs = bs" "bs \<noteq> []"
    using token_start_append [OF canon_start [OF assms(1)], of "[]"] canon_start [OF assms(1)]
    by (auto simp: token_start_def)
  ultimately show ?thesis by (simp add: Parse_def parse_def skipSpace_def)
qed

text \<open>Equal encodings come from values that are equal up to the order of members.\<close>

lemma canon_inj:
  assumes "canon v = Inr bs" "canon w = Inr bs" "json_ok v" "json_ok w"
    "json_depth v < maxDepth" "json_depth w < maxDepth"
  shows "canon_sort v = canon_sort w"
  using Parse_canon [OF assms(1,3,5)] Parse_canon [OF assms(2,4,6)] by simp

end
