(* ===== verification/Cjson_Sound.thy ===== *)
theory Cjson_Sound
  imports Cjson_Roundtrip
begin

text \<open>
  What the reader guarantees of a value it returns: every step uses up input (so the progress tests
  of the loops are never false), strings are well-formed UTF-8, keys are distinct, in object mode no
  key begins with NUL, integers fit 64 bits, and containers nest at most 511 deep.
\<close>

lemma number_end_props:
  "number_end start neg n fl rest = Inr (v, r) \<Longrightarrow> r = rest \<and> ((\<exists>i. v = JInt i \<and> int64_ok i) \<or> (\<exists>f. v = JFloat f))"
  by (auto simp: number_end_def floatValue_def ParseInt_def Let_def split: if_splits option.splits prod.splits)

lemma number_exp_props:
  assumes "number_exp start neg n fl rest = Inr (v, r)"
  shows "length r \<le> length rest \<and> ((\<exists>i. v = JInt i \<and> int64_ok i) \<or> (\<exists>f. v = JFloat f))"
proof (cases "starts 101 rest \<or> starts 69 rest")
  case True
  define r2 where "r2 = (if starts 43 (tl rest) \<or> starts 45 (tl rest) then tl (tl rest) else tl rest)"
  have "length r2 \<le> length rest" by (simp add: r2_def)
  moreover have "number_end start neg n True (dropWhile is_digit r2) = Inr (v, r)"
    using assms True by (auto simp: number_exp_def Let_def r2_def fail_def split: if_splits)
  ultimately show ?thesis
    using number_end_props [of start neg n True "dropWhile is_digit r2" v r] length_dropWhile_le [of is_digit r2]
    by auto
next
  case False
  with assms number_end_props [of start neg n fl rest v r] show ?thesis by (simp add: number_exp_def)
qed

lemma starts_digit_drop: "starts_digit r \<Longrightarrow> length (dropWhile is_digit r) < length r"
  using length_dropWhile_le [of is_digit "tl r"] by (cases r) (auto simp: starts_digit_def)

lemma number_props:
  assumes "number start = Inr (v, r)"
  shows "length r < length start \<and> ((\<exists>i. v = JInt i \<and> int64_ok i) \<or> (\<exists>f. v = JFloat f))"
proof -
  define r1 where "r1 = (if starts 45 start then tl start else start)"
  define r2 where "r2 = (if starts 48 r1 then tl r1 else dropWhile is_digit r1)"
  have d: "starts_digit r1" using assms by (auto simp: number_def Let_def r1_def fail_def split: if_splits)
  then have l: "length r2 < length r1" "length r1 \<le> length start"
    using starts_digit_drop [OF d] d by (cases r1; simp add: r2_def starts_digit_def) (simp add: r1_def)
  show ?thesis
  proof (cases "starts 46 r2")
    case True
    then have "number_exp start (starts 45 start) (length start - length r2) True (dropWhile is_digit (tl r2)) = Inr (v, r)"
      using assms d by (auto simp: number_def Let_def r1_def r2_def fail_def split: if_splits)
    from number_exp_props [OF this] l length_dropWhile_le [of is_digit "tl r2"] show ?thesis by auto
  next
    case False
    then have "number_exp start (starts 45 start) (length start - length r2) False r2 = Inr (v, r)"
      using assms d by (auto simp: number_def Let_def r1_def r2_def fail_def split: if_splits)
    from number_exp_props [OF this] l show ?thesis by auto
  qed
qed

lemma literal_props: "word \<noteq> [] \<Longrightarrow> literal word v rest = Inr (w, r) \<Longrightarrow> length r < length rest \<and> w = v"
  by (cases word) (auto simp: literal_def fail_def split: if_splits)

lemma unexpected_Inl: "unexpected r \<noteq> Inr x"
  by (auto simp: unexpected_def fail_def split: list.splits)

lemma fail_Inl: "fail c m r \<noteq> Inr x"
  by (simp add: fail_def)

lemma tl_skip_le: "length (tl (skipSpace r)) \<le> length r"
  using skipSpace_le [of r] by simp

subsection \<open>Progress\<close>

lemma progress:
  "value_at assoc d rest = Inr (v, r) \<Longrightarrow> length r < length rest"
  "object_loop assoc d ms rest = Inr (v, r) \<Longrightarrow> length r < length rest"
  "array_loop assoc d items rest = Inr (v, r) \<Longrightarrow> length r < length rest"
proof (induction assoc d rest and assoc d ms rest and assoc d items rest arbitrary: v r and v r and v r
    rule: value_at_object_loop_array_loop.induct)
  case (1 assoc d rest)
  show ?case
  proof (cases rest)
    case Nil
    with 1(3) show ?thesis by (simp add: value_at.simps unexpected_Inl)
  next
    case (Cons b bs)
    note v = 1(3) [unfolded Cons value_at_Cons]
    have sk: "length (skipSpace bs) < length rest" "length (tl (skipSpace bs)) < length rest"
      using skipSpace_le [of bs] Cons by auto
    have lits: "lit ''true'' \<noteq> []" "lit ''false'' \<noteq> []" "lit ''null'' \<noteq> []" by (simp_all add: lit_simps)
    consider "b = 123" | "b = 91" | "b \<noteq> 123" "b \<noteq> 91" by blast
    then show ?thesis
    proof cases
      case 1
      then show ?thesis using v sk "1.IH"(1) [OF Cons] by (fastforce simp: fail_Inl split: if_splits)
    next
      case 2
      then show ?thesis using v sk "1.IH"(2) [OF Cons] by (fastforce simp: fail_Inl split: if_splits)
    next
      case 3
      then show ?thesis
        using v number_props [of "b # bs"] str_less [of "b # bs"] Cons
        by (auto simp: unexpected_Inl split: if_splits sum.splits
            dest!: literal_props [OF lits(1)] literal_props [OF lits(2)] literal_props [OF lits(3)])
    qed
  qed
next
  case (2 assoc d ms rest)
  note step = 2(3) [unfolded object_loop.simps [of assoc d ms rest]]
  from step have q: "starts 34 rest" by (auto simp: unexpected_Inl split: if_splits)
  with step obtain key r1 where key: "str rest = Inr (key, r1)" by (auto split: sum.splits)
  with step q have colon: "starts 58 (skipSpace r1)" by (auto simp: unexpected_Inl split: if_splits)
  with step q key obtain val r2 where val: "value_at assoc d (skipSpace (tl (skipSpace r1))) = Inr (val, r2)"
    by (auto split: sum.splits)
  have "length r2 < length (skipSpace (tl (skipSpace r1)))" using "2.IH"(1) [OF _ key refl _ val] q colon by simp
  then have r2: "length r2 < length rest"
    using tl_skip_less2 [OF colon] str_less' [OF q key] by simp
  show ?case
  proof (cases "starts 44 (skipSpace r2)")
    case True
    with step q key colon val r2
    have "object_loop assoc d (AList.update key val ms) (skipSpace (tl (skipSpace r2))) = Inr (v, r)"
      by (auto simp: fail_Inl split: if_splits)
    then have "length r < length (skipSpace (tl (skipSpace r2)))"
      using "2.IH"(2) [OF _ key refl _ val refl _ True r2] step q key colon val by (auto simp: fail_Inl split: if_splits)
    with tl_skip_less2 [OF True] r2 show ?thesis by simp
  next
    case False
    with step q key colon val r2 tl_skip_le [of r2] show ?thesis
      by (auto simp: fail_Inl unexpected_Inl split: if_splits)
  qed
next
  case (3 assoc d items rest)
  note step = 3(3) [unfolded array_loop.simps [of assoc d items rest]]
  from step obtain val r1 where val: "value_at assoc d rest = Inr (val, r1)" by (auto split: sum.splits)
  have r1: "length r1 < length rest" using "3.IH"(1) [OF val] .
  show ?case
  proof (cases "starts 44 (skipSpace r1)")
    case True
    with step val r1 have "array_loop assoc d (items @ [val]) (skipSpace (tl (skipSpace r1))) = Inr (v, r)" by simp
    with "3.IH"(2) [OF val refl True r1] tl_skip_less2 [OF True] r1 show ?thesis by fastforce
  next
    case False
    with step val r1 tl_skip_le [of r1] show ?thesis by (auto simp: unexpected_Inl split: if_splits)
  qed
qed

subsection \<open>Well-formed strings\<close>

lemma ValidString_encode: "list_all scalar cs \<Longrightarrow> ValidString (concat (map EncodeRune cs) @ s) \<longleftrightarrow> ValidString s"
  by (induction cs) (auto simp: ValidString_EncodeRune)

lemma ValidString_append: "ValidString a \<Longrightarrow> ValidString b \<Longrightarrow> ValidString (a @ b)"
  using encode_runes [of a] ValidString_encode [of "runes a" b] by simp

lemma ValidString_rune: "scalar c \<Longrightarrow> ValidString (EncodeRune c)"
  using ValidString_EncodeRune [of c "[]"] by simp

lemma ValidString_AppendRune: "ValidString buf \<Longrightarrow> scalar c \<Longrightarrow> ValidString (AppendRune buf c)"
  by (simp add: AppendRune_def ValidString_append ValidString_rune)

lemma ValidString_ascii: "unat b < 0x80 \<Longrightarrow> ValidString [b]"
proof -
  assume b: "unat b < 0x80"
  then have "EncodeRune (unat b) = [b]" "scalar (unat b)" by (simp_all add: EncodeRune_def scalar_def)
  with ValidString_rune [of "unat b"] show ?thesis by simp
qed

lemma hex_digit_lt: "hex_digit c = Some n \<Longrightarrow> n < 16"
  by (auto simp: hex_digit_def split: if_splits)

lemma hex4_lt:
  assumes "hex4 r = Some (u, r')"
  shows "u < 0x10000"
proof -
  from assms obtain a b c d w x y z where "hex_digit a = Some w" "hex_digit b = Some x" "hex_digit c = Some y"
    "hex_digit d = Some z" "u = ((w * 16 + x) * 16 + y) * 16 + z"
    by (auto simp: hex4_def split: list.splits option.splits)
  with hex_digit_lt [of a w] hex_digit_lt [of b x] hex_digit_lt [of c y] hex_digit_lt [of d z]
  show ?thesis by simp
qed

lemma surrogate_scalar:
  assumes "0xD800 \<le> u" "u \<le> 0xDBFF" "0xDC00 \<le> l" "l \<le> 0xDFFF"
  shows "scalar (0x10000 + (u - 0xD800) * 1024 + (l - 0xDC00))"
proof -
  have "u - 0xD800 \<le> 0x3FF" "l - 0xDC00 \<le> 0x3FF" using assms by auto
  then show ?thesis by (simp add: scalar_def)
qed

lemma escape_u_valid:
  assumes "escape_u buf rest = Inr (buf', r)" "ValidString buf"
  shows "ValidString buf'"
proof -
  obtain u r1 where u: "hex4 rest = Some (u, r1)"
    using assms(1) by (cases "hex4 rest") (auto simp: escape_u_def fail_def)
  show ?thesis
  proof (cases "0xD800 \<le> u \<and> u \<le> 0xDBFF")
    case True
    with assms(1) u obtain l r2 where "hex4 (drop 2 r1) = Some (l, r2)" "0xDC00 \<le> l" "l \<le> 0xDFFF"
      "buf' = AppendRune buf (0x10000 + (u - 0xD800) * 1024 + (l - 0xDC00))"
      by (auto simp: escape_u_def fail_def split: if_splits option.splits)
    with True surrogate_scalar [of u l] assms(2) show ?thesis by (simp add: ValidString_AppendRune)
  next
    case False
    with assms(1) u have "\<not> (0xDC00 \<le> u \<and> u \<le> 0xDFFF)" "buf' = AppendRune buf u"
      by (auto simp: escape_u_def fail_def split: if_splits)
    moreover from this False hex4_lt [OF u] have "scalar u" by (auto simp: scalar_def)
    ultimately show ?thesis using assms(2) by (simp add: ValidString_AppendRune)
  qed
qed

lemma escape_valid:
  assumes "escape buf rest = Inr (buf', r)" "ValidString buf"
  shows "ValidString buf'"
proof -
  obtain c t where rest: "rest = c # t" using assms(1) by (cases rest) (auto simp: escape_def fail_def)
  show ?thesis
  proof (cases "c = 117")
    case True
    with assms rest escape_u_valid show ?thesis by (simp add: escape_def)
  next
    case False
    with assms(1) rest obtain b where "buf' = buf @ [b]" "b \<in> {34, 92, 47, 8, 12, 10, 13, 9}"
      by (auto simp: escape_def fail_def split: if_splits)
    moreover from this have "ValidString [b]" by (intro ValidString_ascii) auto
    ultimately show ?thesis using assms(2) by (simp add: ValidString_append)
  qed
qed

lemma strSlow_valid: "strSlow buf rest = Inr (s, r) \<Longrightarrow> ValidString buf \<Longrightarrow> ValidString s"
proof (induction buf rest rule: strSlow.induct)
  case (1 buf rest)
  show ?case
  proof (cases rest)
    case Nil
    with 1(4) show ?thesis by (simp add: strSlow_Nil fail_def)
  next
    case (Cons b t)
    note step = 1(4) [unfolded Cons strSlow_Cons]
    consider "b = 34" | "b = 92" | "b \<noteq> 34" "b \<noteq> 92" "unat b < 0x20"
      | "b \<noteq> 34" "b \<noteq> 92" "\<not> unat b < 0x20" "unat b < 0x80"
      | "b \<noteq> 34" "b \<noteq> 92" "\<not> unat b < 0x20" "\<not> unat b < 0x80" by blast
    then show ?thesis
    proof cases
      case 2
      then obtain buf' r' where e: "escape buf t = Inr (buf', r')" "strSlow buf' r' = Inr (s, r)"
        using step by (auto split: sum.splits)
      with 1(1) [OF Cons _ 2 e(1) refl e(2)] 2 escape_valid [OF e(1) 1(5)] show ?thesis by simp
    next
      case 4
      with 1(2) [OF Cons] 1(5) step show ?thesis by (simp add: ValidString_append ValidString_ascii)
    next
      case 5
      then have nm: "\<not> malformed (DecodeRune rest)" using step Cons by (auto simp: fail_def split: if_splits)
      with 5 step Cons have nxt: "strSlow (buf @ take (snd (DecodeRune rest)) rest) (drop (snd (DecodeRune rest)) rest) = Inr (s, r)"
        by simp
      have "scalar (fst (DecodeRune rest))" "take (snd (DecodeRune rest)) rest = EncodeRune (fst (DecodeRune rest))"
        using EncodeRune_DecodeRune [OF _ nm] Cons by auto
      then have "ValidString (buf @ take (snd (DecodeRune rest)) rest)"
        using 1(5) by (simp add: ValidString_append ValidString_rune)
      with 1(3) [OF Cons _ _ _ _ nm] 5 nxt show ?thesis by blast
    qed (use 1(5) step in \<open>auto simp: fail_def split: if_splits\<close>)
  qed
qed

lemma str_valid: "str rest = Inr (s, r) \<Longrightarrow> ValidString s"
  using strSlow_valid [of "[]" "tl rest" s r] by (simp add: str_def strFast_strSlow)

subsection \<open>Well-formed values\<close>

fun json_int64 :: "json \<Rightarrow> bool" where
  "json_int64 (JInt i) = int64_ok i"
| "json_int64 (JArray xs) = (\<forall>x \<in> set xs. json_int64 x)"
| "json_int64 (JObject ms) = (\<forall>(k, v) \<in> set ms. json_int64 v)"
| "json_int64 _ = True"

definition value_ok :: "nat \<Rightarrow> json \<Rightarrow> bool" where
  "value_ok d v \<longleftrightarrow> json_ok v \<and> json_int64 v \<and> d + json_depth v < maxDepth"

definition members_ok_at :: "nat \<Rightarrow> (bytes \<times> json) list \<Rightarrow> bool" where
  "members_ok_at d ms \<longleftrightarrow> distinct (map fst ms) \<and>
     (\<forall>(k, v) \<in> set ms. ValidString k \<and> \<not> starts 0 k \<and> value_ok d v)"

lemma foldr_max_less: "(\<forall>x \<in> set xs. d + x < n) \<Longrightarrow> d < n \<Longrightarrow> d + foldr max xs (0 :: nat) < n"
  by (induction xs) auto

lemma value_ok_array: "\<forall>x \<in> set xs. value_ok (Suc d) x \<Longrightarrow> Suc d < maxDepth \<Longrightarrow> value_ok d (JArray xs)"
  using foldr_max_less [of "map json_depth xs" "Suc d" maxDepth] by (auto simp: value_ok_def)

lemma value_ok_object: "members_ok_at (Suc d) ms \<Longrightarrow> Suc d < maxDepth \<Longrightarrow> value_ok d (JObject ms)"
  using foldr_max_less [of "map (\<lambda>(k, v). json_depth v) ms" "Suc d" maxDepth]
  by (force simp: value_ok_def members_ok_at_def)

lemma members_ok_update:
  assumes "members_ok_at d ms" "ValidString k" "\<not> starts 0 k" "value_ok d v"
  shows "members_ok_at d (AList.update k v ms)"
proof -
  have "set (AList.update k v ms) \<subseteq> insert (k, v) (set ms)"
    by (induction ms) auto
  with assms show ?thesis by (auto simp: members_ok_at_def distinct_update)
qed

lemma value_ok_leaf:
  "d < maxDepth \<Longrightarrow> (\<exists>i. v = JInt i \<and> int64_ok i) \<or> (\<exists>f. v = JFloat f) \<or> (\<exists>b. v = JBool b) \<or> v = JNull \<or>
     (\<exists>s. v = JString s \<and> ValidString s) \<Longrightarrow> value_ok d v"
  by (auto simp: value_ok_def)

lemma reader_sound:
  "value_at assoc d rest = Inr (v, r) \<Longrightarrow> \<not> assoc \<Longrightarrow> d < maxDepth \<Longrightarrow> value_ok d v"
  "object_loop assoc d ms rest = Inr (v, r) \<Longrightarrow> \<not> assoc \<Longrightarrow> d < maxDepth \<Longrightarrow> members_ok_at d ms \<Longrightarrow>
     \<exists>ms'. v = JObject ms' \<and> members_ok_at d ms'"
  "array_loop assoc d items rest = Inr (v, r) \<Longrightarrow> \<not> assoc \<Longrightarrow> d < maxDepth \<Longrightarrow>
     (\<forall>x \<in> set items. value_ok d x) \<Longrightarrow> \<exists>xs. v = JArray xs \<and> (\<forall>x \<in> set xs. value_ok d x)"
proof (induction assoc d rest and assoc d ms rest and assoc d items rest arbitrary: v r and v r and v r
    rule: value_at_object_loop_array_loop.induct)
  case (1 assoc d rest)
  show ?case
  proof (cases rest)
    case Nil
    with 1(3) show ?thesis by (simp add: value_at.simps unexpected_Inl)
  next
    case (Cons b bs)
    note v = 1(3) [unfolded Cons value_at_Cons]
    have lits: "lit ''true'' \<noteq> []" "lit ''false'' \<noteq> []" "lit ''null'' \<noteq> []" by (simp_all add: lit_simps)
    consider "b = 123" | "b = 91" | "b \<noteq> 123" "b \<noteq> 91" by blast
    then show ?thesis
    proof cases
      case 1
      then have en: "enter_ok d" using v by (auto simp: fail_Inl split: if_splits)
      have none: "members_ok_at (Suc d) []" by (simp add: members_ok_at_def)
      have "\<exists>ms'. v = JObject ms' \<and> members_ok_at (Suc d) ms'"
      proof (cases "starts 125 (skipSpace bs)")
        case True
        with 1 en v none show ?thesis by auto
      next
        case False
        with 1 en v have "object_loop assoc (d + 1) [] (skipSpace bs) = Inr (v, r)" by simp
        from "1.IH"(1) [OF Cons 1 _ False this "1.prems"(2)] en none show ?thesis by (simp add: enter_ok_def)
      qed
      with en value_ok_object show ?thesis by (auto simp: enter_ok_def)
    next
      case 2
      then have en: "enter_ok d" using v by (auto simp: fail_Inl split: if_splits)
      have "\<exists>xs. v = JArray xs \<and> (\<forall>x \<in> set xs. value_ok (Suc d) x)"
      proof (cases "starts 93 (skipSpace bs)")
        case True
        with 2 en v show ?thesis by auto
      next
        case False
        with 2 en v have "array_loop assoc (d + 1) [] (skipSpace bs) = Inr (v, r)" by simp
        from "1.IH"(2) [OF Cons _ 2 _ False this "1.prems"(2)] 2 en show ?thesis by (simp add: enter_ok_def)
      qed
      with en value_ok_array show ?thesis by (auto simp: enter_ok_def)
    next
      case 3
      then show ?thesis
        using v number_props [of "b # bs"] str_valid [of "b # bs"] "1.prems"(3)
        by (intro value_ok_leaf) (auto simp: unexpected_Inl split: if_splits sum.splits
            dest!: literal_props [OF lits(1)] literal_props [OF lits(2)] literal_props [OF lits(3)])
    qed
  qed
next
  case (2 assoc d ms rest)
  note step = 2(3) [unfolded object_loop.simps [of assoc d ms rest]]
  from step have q: "starts 34 rest" by (auto simp: unexpected_Inl split: if_splits)
  with step obtain key r1 where key: "str rest = Inr (key, r1)" by (auto split: sum.splits)
  with step q have colon: "starts 58 (skipSpace r1)" by (auto simp: unexpected_Inl split: if_splits)
  with step q key obtain val r2 where val: "value_at assoc d (skipSpace (tl (skipSpace r1))) = Inr (val, r2)"
    by (auto split: sum.splits)
  have "value_ok d val" using "2.IH"(1) [OF _ key refl _ val] q colon "2.prems" by simp
  moreover have nul: "\<not> starts 0 key" using step q key colon val "2.prems"(2) by (auto simp: fail_Inl split: if_splits)
  ultimately have ms: "members_ok_at d (AList.update key val ms)"
    using "2.prems"(4) str_valid [OF key] by (intro members_ok_update)
  show ?case
  proof (cases "starts 44 (skipSpace r2)")
    case True
    have r2: "length r2 < length rest"
      using progress(1) [OF val] tl_skip_less2 [OF colon] str_less' [OF q key] by simp
    from step q key colon val r2 nul True
    have "object_loop assoc d (AList.update key val ms) (skipSpace (tl (skipSpace r2))) = Inr (v, r)" by simp
    with "2.IH"(2) [OF _ key refl _ val refl _ True r2] q colon nul ms "2.prems" show ?thesis by simp
  next
    case False
    with step q key colon val nul ms show ?thesis by (auto simp: unexpected_Inl split: if_splits)
  qed
next
  case (3 assoc d items rest)
  note step = 3(3) [unfolded array_loop.simps [of assoc d items rest]]
  from step obtain val r1 where val: "value_at assoc d rest = Inr (val, r1)" by (auto split: sum.splits)
  have items: "\<forall>x \<in> set (items @ [val]). value_ok d x" using "3.IH"(1) [OF val] "3.prems" by simp
  show ?case
  proof (cases "starts 44 (skipSpace r1)")
    case True
    have r1: "length r1 < length rest" using progress(1) [OF val] .
    with step val True have "array_loop assoc d (items @ [val]) (skipSpace (tl (skipSpace r1))) = Inr (v, r)" by simp
    with "3.IH"(2) [OF val refl True r1] items "3.prems" show ?thesis by simp
  next
    case False
    with step val items show ?thesis by (auto simp: unexpected_Inl split: if_splits)
  qed
qed

text \<open>What holds of every document the reader accepts.\<close>

lemma Parse_sound:
  assumes "Parse data = Inr v"
  shows "json_ok v \<and> json_int64 v \<and> json_depth v < maxDepth"
proof -
  obtain r where "value_at False 0 (skipSpace data) = Inr (v, r)"
    using assms
    by (auto simp: Parse_def parse_def Let_def unexpected_Inl split: if_splits sum.splits)
  from reader_sound(1) [OF this] show ?thesis by (simp add: value_ok_def maxDepth_def)
qed

text \<open>Reading, encoding and reading again: the same value with its members sorted.\<close>

lemma Parse_Canonical_Parse:
  assumes "Parse data = Inr v" "Canonical (Some v) = Inr bs"
  shows "Parse bs = Inr (canon_sort v)"
  using Parse_sound [OF assms(1)] assms(2) by (intro Parse_canon) (auto simp: Canonical_def)

text \<open>Two documents with the same canonical bytes differ at most in the order of members.\<close>

lemma Canonical_inj_on_documents:
  assumes "Parse data = Inr v" "Parse data' = Inr w"
    and "Canonical (Some v) = Inr bs" "Canonical (Some w) = Inr bs"
  shows "canon_sort v = canon_sort w"
  using Parse_Canonical_Parse [OF assms(1,3)] Parse_Canonical_Parse [OF assms(2,4)] by simp

text \<open>The loops without their progress tests, as the source has them.\<close>

lemma array_loop_source:
  "array_loop assoc d items rest =
     (case value_at assoc d rest of
        Inl e \<Rightarrow> Inl e
      | Inr (val, r1) \<Rightarrow>
          if starts 44 (skipSpace r1) then array_loop assoc d (items @ [val]) (skipSpace (tl (skipSpace r1)))
          else if starts 93 (skipSpace r1) then Inr (JArray (items @ [val]), tl (skipSpace r1))
          else unexpected (skipSpace r1))"
  using progress(1) [of assoc d rest] by (subst array_loop.simps) (auto split: sum.splits)

end
