(* ===== verification/Walk_Facts.thy ===== *)
theory Walk_Facts
  imports Growth Cjson_Sound
begin

text \<open>
  What a walk that reported no content failure says of the bundle. The specification is stated on
  the documents alone: \<open>event_ok\<close> and \<open>chain_ok\<close> for the events, \<open>checkpoint_ok\<close> for a checkpoint.
\<close>

subsection \<open>The specification of the chain\<close>

text \<open>A value whose canonical bytes hash to a digest stated in hex.\<close>

definition hashes_to :: "json \<Rightarrow> vopt \<Rightarrow> bool" where
  "hashes_to v declared \<longleftrightarrow> (\<exists>bs. Canonical (Some v) = Inr bs \<and> lower (text_of declared) = sha256Hex bs)"

definition payload_ok :: "(int \<rightharpoonup> json) \<Rightarrow> int \<Rightarrow> vopt \<Rightarrow> bool" where
  "payload_ok redactions n ev \<longleftrightarrow>
     (let st = Field ev (lit ''payload_state''); payload = Field ev (lit ''payload'')
      in if nullish payload then strEq st (lit ''redacted'')
         else (nullish st \<or> strEq st (lit ''present'')) \<and> redactions n = None \<and>
           hashes_to (fieldOrNull ev (lit ''payload'')) (Field ev (lit ''payload_hash'')))"

definition link_ok :: "bytes \<Rightarrow> vopt \<Rightarrow> vopt \<Rightarrow> bool" where
  "link_ok name prev v \<longleftrightarrow> prev = None \<or> strictEqual (Field v name) prev"

definition event_ok :: "bytes \<Rightarrow> (int \<rightharpoonup> json) \<Rightarrow> int \<Rightarrow> vopt \<Rightarrow> vopt \<Rightarrow> bool" where
  "event_ok stream redactions n prev ev \<longleftrightarrow>
     IsObject ev \<and> Field ev (lit ''seq'') = Some (JInt n) \<and> payload_ok redactions n ev \<and>
     link_ok (lit ''prev_hash'') prev ev \<and>
     hashes_to (entryPreimage (JString stream) (JInt n) ev) (Field ev (lit ''entry_hash''))"

text \<open>Events numbered from \<open>n\<close> on, each linked to the one before.\<close>

fun chain_ok :: "bytes \<Rightarrow> (int \<rightharpoonup> json) \<Rightarrow> int \<Rightarrow> vopt \<Rightarrow> vopt list \<Rightarrow> bool" where
  "chain_ok stream redactions n prev [] = True"
| "chain_ok stream redactions n prev (ev # evs) =
     (event_ok stream redactions n prev ev \<and>
      chain_ok stream redactions (n + 1) (Field ev (lit ''entry_hash'')) evs)"

definition leaf_of :: "vopt \<Rightarrow> bytes" where
  "leaf_of ev = hex_or_empty (lower (text_of (Field ev (lit ''entry_hash''))))"

lemma kind_simps [simp]:
  "IsInt None \<longleftrightarrow> False" "IsInt (Some (JInt i))" "IsString None \<longleftrightarrow> False" "IsString (Some (JString s))"
  "IsString (Some JNull) \<longleftrightarrow> False" "IsObject None \<longleftrightarrow> False" "IsObject (Some (JObject ms))"
  "IsArray None \<longleftrightarrow> False" "IsArray (Some (JArray xs))"
  by (simp_all add: IsInt_def IsString_def IsObject_def IsArray_def is_kind_def)

lemma IsInt_iff: "IsInt v \<longleftrightarrow> (\<exists>n. v = Some (JInt n))"
  by (cases v; cases "the v") (auto simp: IsInt_def is_kind_def)

text \<open>The lines of a file that carry something.\<close>

definition content_lines :: "bytes \<Rightarrow> bytes list" where
  "content_lines f = filter (\<lambda>x. \<not> IsBlank x) (map trim_eol (phys_lines f))"

lemma hashes_to_not_nullish:
  assumes "hashes_to v d"
  shows "\<not> nullish d"
proof -
  from assms obtain bs where h: "lower (text_of d) = sha256Hex bs" by (auto simp: hashes_to_def)
  then have "lower (text_of d) \<noteq> []"
    using length_sha256Hex [of bs] by (metis length_0_conv num.distinct(1) zero_neq_numeral)
  then show ?thesis by (cases d) (auto simp: nullish_def lower_def)
qed

lemma hashes_to_leaf:
  assumes "hashes_to v (Field ev (lit ''entry_hash''))"
  shows "hexBytes (lower (text_of (Field ev (lit ''entry_hash'')))) = Some (leaf_of ev)" "length (leaf_of ev) = 32"
    "\<not> nullish (Field ev (lit ''entry_hash''))"
proof -
  from assms obtain bs where h: "lower (text_of (Field ev (lit ''entry_hash''))) = sha256Hex bs"
    by (auto simp: hashes_to_def)
  then show "hexBytes (lower (text_of (Field ev (lit ''entry_hash'')))) = Some (leaf_of ev)" "length (leaf_of ev) = 32"
    by (simp_all add: leaf_of_def hex_or_empty_def sha256Hex_def hexBytes_hex_text)
  show "\<not> nullish (Field ev (lit ''entry_hash''))" using assms by (rule hashes_to_not_nullish)
qed

subsection \<open>One event\<close>

lemma sound_hash_check:
  "sound_for ResultContent (case Canonical (Some v) of Inl e \<Rightarrow> content (m e) r
      | Inr bs \<Rightarrow> whenever (lower (text_of d) \<noteq> sha256Hex bs) (content m') r) \<longleftrightarrow>
    sound_for ResultContent r \<and> hashes_to v d"
  by (auto simp: hashes_to_def split: sum.splits)

lemma sound_event_hashes:
  "sound_for ResultContent (event_hashes cx n ev prev r) \<longleftrightarrow>
     sound_for ResultContent r \<and> link_ok (lit ''prev_hash'') prev ev \<and>
     hashes_to (entryPreimage (JString (cx_stream cx)) (JInt n) ev) (Field ev (lit ''entry_hash''))"
  unfolding event_hashes_def Let_def sound_hash_check by (auto simp: link_ok_def)

lemma sound_event_payload:
  "sound_for ResultContent (w_run (event_payload cx n ev w)) \<longleftrightarrow>
     sound_for ResultContent (w_run w) \<and> payload_ok (cx_redactions cx) n ev"
proof -
  have "strEq (stringValue s) t \<longleftrightarrow> s = t" for s t by (simp add: strEq_def stringValue_def IsString_def is_kind_def)
  moreover have "strEq v s \<Longrightarrow> strEq v t \<Longrightarrow> s = t" "nullish v \<Longrightarrow> \<not> strEq v s" for v s t
    by (auto simp: strEq_def nullish_def)
  moreover have "lit ''redacted'' \<noteq> lit ''present''" by (simp add: lit_simps)
  ultimately show ?thesis
    unfolding event_payload_def payload_ok_def Let_def
    by (cases "nullish (Field ev (lit ''payload''))"; cases "nullish (Field ev (lit ''payload_state''))";
      cases "strEq (Field ev (lit ''payload_state'')) (lit ''redacted'')")
      (auto simp: sound_hash_check)
qed

lemma sound_event_step:
  "sound_for ResultContent (w_run (event_step cx nr line w)) \<longleftrightarrow>
     sound_for ResultContent (w_run w) \<and>
     (\<exists>n. counter_equals (w_expected w) n \<and>
        event_ok (cx_stream cx) (cx_redactions cx) n (w_prev w) (decode line))"
proof -
  have run: "w_run (v\<lparr>w_prev := p, w_expected := e\<rparr>) = w_run v" "w_prev (event_payload cx s ev v) = w_prev v" for v p e s ev
    by (auto simp: event_payload_def Let_def on_run_def)
  have keep: "w_run (if b then v\<lparr>w_hashes := h\<rparr> else v) = w_run v" for b v h by simp
  show ?thesis
    unfolding event_step_def Let_def
    by (auto simp: run keep sound_event_hashes sound_event_payload event_ok_def IsInt_iff)
      (auto simp: on_run_def)
qed

lemma w_count_frame [simp]:
  "w_count (closeCheckpoint w) = w_count w" "w_count (on_run f w) = w_count w"
  "w_count (event_payload cx n ev w) = w_count w" "w_expected (event_payload cx n ev w) = w_expected w"
  by (simp_all add: closeCheckpoint_def event_payload_def on_run_def Let_def)

subsection \<open>The leaves of the walk\<close>

text \<open>The part of a walk that the trees are built in.\<close>

definition forget :: "run \<Rightarrow> walk \<Rightarrow> walk" where
  "forget r w = w\<lparr>w_run := r, w_count := 0, w_expected := counter_at 0, w_prev := None, w_hashes := Map.empty,
     w_redacted := 0, w_absent := [], w_kinds := Map.empty\<rparr>"

lemma forget_close: "closeCheckpoint (forget r w) = forget r (closeCheckpoint w)"
  by (simp add: closeCheckpoint_def forget_def Let_def)

lemma w_open_forget [simp]: "w_open (forget r w) = w_open w"
  by (simp add: forget_def)

lemma close_passed_stop: "\<not> (w_open w \<noteq> [] \<and> n > snd (hd (w_open w))) \<Longrightarrow> close_passed n w = w"
  by (rule trans [OF close_passed.simps if_not_P])

lemma close_passed_next:
  "w_open w \<noteq> [] \<and> n > snd (hd (w_open w)) \<Longrightarrow> close_passed n w = close_passed n (closeCheckpoint w)"
  by (rule trans [OF close_passed.simps if_P])

lemma close_all_stop: "w_open w = [] \<Longrightarrow> close_all w = w"
  by (rule trans [OF close_all.simps]) simp

lemma close_all_next: "w_open w \<noteq> [] \<Longrightarrow> close_all w = close_all (closeCheckpoint w)"
  by (rule trans [OF close_all.simps]) simp

text \<open>What one closing keeps or commutes with, all of them do.\<close>

lemma close_commute:
  assumes "\<And>w. closeCheckpoint (g w) = g (closeCheckpoint w)" "\<And>w. w_open (g w) = w_open w"
  shows "close_passed n (g w) = g (close_passed n w)" "close_all (g w) = g (close_all w)"
proof -
  show "close_passed n (g w) = g (close_passed n w)"
  proof (induction n w rule: close_passed.induct)
    case (1 n w)
    show ?case
    proof (cases "w_open w \<noteq> [] \<and> n > snd (hd (w_open w))")
      case True
      then have "w_open (g w) \<noteq> [] \<and> n > snd (hd (w_open (g w)))" by (simp only: assms simp_thms)
      from close_passed_next [OF this] 1 [OF True] show ?thesis
        unfolding close_passed_next [OF True] by (simp only: assms)
    next
      case False
      then have "\<not> (w_open (g w) \<noteq> [] \<and> n > snd (hd (w_open (g w))))" by (simp only: assms simp_thms)
      with False show ?thesis by (simp only: close_passed_stop not_False_eq_True)
    qed
  qed
  show "close_all (g w) = g (close_all w)"
  proof (induction w rule: close_all.induct)
    case (1 w)
    show ?case
    proof (cases "w_open w = []")
      case False
      then have "w_open (g w) \<noteq> []" unfolding assms(2) .
      from close_all_next [OF this] 1 [OF False] show ?thesis
        unfolding close_all_next [OF False] by (simp only: assms)
    next
      case True
      then have "w_open (g w) = []" by (simp only: assms)
      with True show ?thesis by (simp only: close_all_stop)
    qed
  qed
qed

lemma close_keep:
  assumes "\<And>w. f (closeCheckpoint w) = f w"
  shows "f (close_passed n w) = f w" "f (close_all w) = f w"
proof -
  show "f (close_passed n w) = f w"
  proof (induction n w rule: close_passed.induct)
    case (1 n w)
    show ?case
    proof (cases "w_open w \<noteq> [] \<and> n > snd (hd (w_open w))")
      case True
      from 1 [OF True] show ?thesis unfolding close_passed_next [OF True] by (simp only: assms)
    qed (simp only: close_passed_stop not_False_eq_True)
  qed
  show "f (close_all w) = f w"
  proof (induction w rule: close_all.induct)
    case (1 w)
    show ?case
    proof (cases "w_open w = []")
      case False
      from 1 [OF False] show ?thesis unfolding close_all_next [OF False] by (simp only: assms)
    qed (simp only: close_all_stop)
  qed
qed

lemma closeCheckpoint_frame [simp]:
  "w_cumulative (closeCheckpoint w) = w_cumulative w" "w_roots (closeCheckpoint w) = w_roots w"
  "w_collector (closeCheckpoint w) = w_collector w" "w_expected (closeCheckpoint w) = w_expected w"
  by (simp_all add: closeCheckpoint_def Let_def)

lemmas close_frame [simp] =
  close_keep [of w_cumulative, OF closeCheckpoint_frame(1)] close_keep [of w_roots, OF closeCheckpoint_frame(2)]
  close_keep [of w_collector, OF closeCheckpoint_frame(3)] close_keep [of w_expected, OF closeCheckpoint_frame(4)]
  close_keep [of w_count, OF w_count_frame(1)]

lemma w_count_event_leaf [simp]: "w_count (event_leaf cx n h w) = w_count w"
  by (auto simp: event_leaf_def Let_def split: option.splits)

lemma event_step_ok:
  assumes "event_ok stream red n prev (decode line)"
  shows "w_expected (event_step cx nr line w) = counter_next n"
    "w_prev (event_step cx nr line w) = Field (decode line) (lit ''entry_hash'')"
    "w_count (event_step cx nr line w) = w_count w + 1"
  using assms hashes_to_leaf(3) by (auto simp: event_step_def Let_def event_ok_def)

lemmas forget_closing = close_commute [of "forget r" for r, OF forget_close w_open_forget]

lemma forget_fields [simp]:
  "w_cumulative (forget r w) = w_cumulative w" "w_stack (forget r w) = w_stack w"
  "w_leaf_count (forget r w) = w_leaf_count w" "w_collector (forget r w) = w_collector w"
  "w_roots (forget r w) = w_roots w"
  by (simp_all add: forget_def)

lemma forget_updates:
  "(forget r w)\<lparr>w_roots := x\<rparr> = forget r (w\<lparr>w_roots := x\<rparr>)"
  "(forget r w)\<lparr>w_cumulative := a, w_stack := b, w_leaf_count := c, w_collector := d\<rparr> =
    forget r (w\<lparr>w_cumulative := a, w_stack := b, w_leaf_count := c, w_collector := d\<rparr>)"
  by (simp_all add: forget_def)

lemma forget_event_leaf: "event_leaf cx n h (forget r w) = forget r (event_leaf cx n h w)"
  unfolding event_leaf_def Let_def forget_closing forget_fields forget_updates
  by (cases "hexBytes h") (simp_all add: forget_updates split: option.split)

lemma forget_frame [simp]:
  "forget r (on_run f w) = forget r w"
  "forget r (w\<lparr>w_count := c\<rparr>) = forget r w" "forget r (w\<lparr>w_hashes := hs\<rparr>) = forget r w"
  "forget r (w\<lparr>w_prev := p, w_expected := e\<rparr>) = forget r w"
  "forget r (w\<lparr>w_absent := ab, w_redacted := rd, w_kinds := ks\<rparr>) = forget r w"
  by (cases w; simp add: forget_def on_run_def)+

lemma forget_if: "forget r x = z \<Longrightarrow> forget r y = z \<Longrightarrow> forget r (if b then x else y) = z"
  by simp

lemma forget_event_payload [simp]: "forget r (event_payload cx n ev w) = forget r w"
  unfolding event_payload_def Let_def by (intro forget_if) (simp_all only: forget_frame)

lemma forget_event_step:
  assumes "event_ok stream red n prev (decode line)"
  shows "forget r (event_step cx nr line w) = event_leaf cx n (hex_text (leaf_of (decode line))) (forget r w)"
proof -
  from assms obtain bs where h: "lower (text_of (Field (decode line) (lit ''entry_hash''))) = sha256Hex bs"
    by (auto simp: event_ok_def hashes_to_def)
  then have "hex_text (leaf_of (decode line)) = sha256Hex bs"
    by (simp add: leaf_of_def hex_or_empty_def sha256Hex_def hexBytes_hex_text)
  with h assms show ?thesis
    by (simp add: event_step_def Let_def event_ok_def forget_event_leaf [symmetric])
qed

text \<open>One leaf, spelled out.\<close>

lemma event_leaf_32:
  assumes "length x = 32"
  shows "event_leaf cx n (hex_text x) w =
    (let w1 = close_passed n w;
         w2 = w1\<lparr>w_cumulative := Stack_Append sha256 x (w_cumulative w1), w_stack := Stack_Append sha256 x (w_stack w1),
           w_leaf_count := w_leaf_count w1 + 1, w_collector := map_option (Collector_Append sha256 x) (w_collector w1)\<rparr>
     in case Stack_Root sha256 (w_cumulative w2) of
          Some rt \<Rightarrow> if cx_from cx = 1 \<and> n \<in> set (cx_sizes cx) then w2\<lparr>w_roots := (w_roots w2)(n \<mapsto> hex_text rt)\<rparr> else w2
        | None \<Rightarrow> w2)"
  using assms by (simp add: event_leaf_def Let_def hexBytes_hex_text)

text \<open>A stack that has absorbed the leaves.\<close>

abbreviation stack_of :: "bytes list \<Rightarrow> mstack" where
  "stack_of xs \<equiv> fold (Stack_Append sha256) xs new_stack"

fun walk_leaves :: "walk_ctx \<Rightarrow> int \<Rightarrow> bytes list \<Rightarrow> walk \<Rightarrow> walk" where
  "walk_leaves cx n [] w = w"
| "walk_leaves cx n (x # xs) w = walk_leaves cx (n + 1) xs (event_leaf cx n (hex_text x) w)"

text \<open>The roots kept of the cumulative tree.\<close>

lemma walk_leaves_roots:
  assumes "\<forall>x \<in> set ys. length x = 32" "w_cumulative w = stack_of xs" "n = 1 + int (length xs)" "cx_from cx = 1"
  shows "w_roots (walk_leaves cx n ys w) =
    (\<lambda>s. if s \<in> set (cx_sizes cx) \<and> n \<le> s \<and> s < n + int (length ys)
        then Some (hex_text (root sha256 (take (nat s) (xs @ ys)))) else w_roots w s)"
  using assms(1-3)
proof (induction ys arbitrary: n w xs)
  case (Cons y ys)
  let ?w = "event_leaf cx n (hex_text y) w"
  have y: "length y = 32" using Cons.prems(1) by simp
  have rt: "Stack_Root sha256 (Stack_Append sha256 y (stack_of xs)) = Some (root sha256 (xs @ [y]))"
    by (rule sha.stk.result_snoc)
  have c: "w_cumulative ?w = stack_of (xs @ [y])"
    using Cons.prems(2) by (auto simp: event_leaf_32 [OF y] Let_def split: option.splits)
  have r: "w_roots ?w = (if n \<in> set (cx_sizes cx) then (w_roots w)(n \<mapsto> hex_text (root sha256 (xs @ [y]))) else w_roots w)"
    using Cons.prems(2) assms(4) by (simp add: event_leaf_32 [OF y] Let_def rt)
  have t: "take (nat n) (xs @ y # ys) = xs @ [y]" using Cons.prems(3) by (simp add: nat_add_distrib)
  have "w_roots (walk_leaves cx (n + 1) ys ?w) =
      (\<lambda>s. if s \<in> set (cx_sizes cx) \<and> n + 1 \<le> s \<and> s < n + 1 + int (length ys)
        then Some (hex_text (root sha256 (take (nat s) ((xs @ [y]) @ ys)))) else w_roots ?w s)"
    by (rule Cons.IH) (use Cons.prems(1,3) c in simp_all)
  note IH = this
  show ?case
  proof (rule ext)
    fix s
    consider "s = n" | "s < n" | "n + 1 \<le> s" by linarith
    then show "w_roots (walk_leaves cx n (y # ys) w) s =
      (if s \<in> set (cx_sizes cx) \<and> n \<le> s \<and> s < n + int (length (y # ys))
        then Some (hex_text (root sha256 (take (nat s) (xs @ y # ys)))) else w_roots w s)"
    proof cases
      case 1
      then show ?thesis by (simp add: IH r t del: take_append)
    qed (simp_all add: IH r)
  qed
qed (auto simp: fun_eq_iff)

subsection \<open>The groups of leaves\<close>

text \<open>The leaves of \<open>L\<close>, numbered from \<open>F\<close>, from \<open>a\<close> up to \<open>b\<close> excluded.\<close>

definition seg :: "int \<Rightarrow> bytes list \<Rightarrow> int \<Rightarrow> int \<Rightarrow> bytes list" where
  "seg F L a b = take (nat (b - a)) (drop (nat (a - F)) L)"

definition group_root :: "bytes list \<Rightarrow> bytes" where
  "group_root xs = (if xs = [] then [] else hex_text (root sha256 xs))"

text \<open>
  Which leaves each checkpoint range gets when the leaves run up to \<open>hi\<close> and \<open>lo\<close> is the first not
  yet in a closed range: the range, the first leaf and the end.
\<close>

fun groups :: "int \<Rightarrow> int \<Rightarrow> (int \<times> int) list \<Rightarrow> (int \<times> int \<times> int) list" where
  "groups hi lo [] = []"
| "groups hi lo ((f, t) # rs) =
     (let m = max lo (min hi (t + 1)) in (f, lo, m) # groups hi m rs)"

definition put_groups :: "(int \<Rightarrow> int \<Rightarrow> 'v) \<Rightarrow> (int \<times> int \<times> int) list \<Rightarrow> (int \<rightharpoonup> 'v) \<Rightarrow> (int \<rightharpoonup> 'v)" where
  "put_groups g gs M = fold (\<lambda>(f, a, m) M. M(f \<mapsto> g a m)) gs M"

lemma put_groups_simps [simp]:
  "put_groups g [] M = M" "put_groups g ((f, a, m) # gs) M = put_groups g gs (M(f \<mapsto> g a m))"
  by (simp_all add: put_groups_def)

lemma seg_empty [simp]: "seg F L n n = []"
  by (simp add: seg_def)

lemma seg_Cons:
  assumes "F \<le> n" "n < F + int (length L)"
  shows "seg F L n (F + int (length L)) = L ! nat (n - F) # seg F L (n + 1) (F + int (length L))"
proof -
  have k: "nat (n - F) < length L" using assms by linarith
  have "seg F L n (F + int (length L)) = drop (nat (n - F)) L"
    unfolding seg_def by (rule take_all) (use assms in simp)
  moreover have "seg F L (n + 1) (F + int (length L)) = drop (nat (n + 1 - F)) L"
    unfolding seg_def by (rule take_all) (use assms in simp)
  moreover have "nat (n + 1 - F) = Suc (nat (n - F))" using assms by linarith
  ultimately show ?thesis using Cons_nth_drop_Suc [OF k] by simp
qed

lemma seg_snoc:
  assumes "F \<le> a" "a \<le> n" "n < F + int (length L)"
  shows "seg F L a (n + 1) = seg F L a n @ [L ! nat (n - F)]"
proof -
  have k: "nat (n - a) < length (drop (nat (a - F)) L)" using assms by simp
  have "nat (n + 1 - a) = Suc (nat (n - a))" using assms by linarith
  then have "seg F L a (n + 1) = seg F L a n @ [drop (nat (a - F)) L ! nat (n - a)]"
    using take_Suc_conv_app_nth [OF k] by (simp add: seg_def)
  moreover have "drop (nat (a - F)) L ! nat (n - a) = L ! nat (n - F)"
  proof -
    have "nat (a - F) + nat (n - a) = nat (n - F)" using assms by linarith
    then show ?thesis using assms by (subst nth_drop) simp_all
  qed
  ultimately show ?thesis by simp
qed

lemma length_seg: "F \<le> a \<Longrightarrow> a \<le> b \<Longrightarrow> b \<le> F + int (length L) \<Longrightarrow> int (length (seg F L a b)) = b - a"
  by (simp add: seg_def)

lemma event_leaf_closing:
  assumes "w_open w \<noteq> [] \<and> n > snd (hd (w_open w))"
  shows "event_leaf cx n h w = event_leaf cx n h (closeCheckpoint w)"
  unfolding event_leaf_def close_passed_next [OF assms] ..

lemma event_leaf_open:
  assumes "length x = 32" "\<not> (w_open w \<noteq> [] \<and> n > snd (hd (w_open w)))"
  shows "w_stack (event_leaf cx n (hex_text x) w) = Stack_Append sha256 x (w_stack w)"
    "w_leaf_count (event_leaf cx n (hex_text x) w) = w_leaf_count w + 1"
    "w_open (event_leaf cx n (hex_text x) w) = w_open w"
    "w_rebuilt (event_leaf cx n (hex_text x) w) = w_rebuilt w"
    "w_leaves (event_leaf cx n (hex_text x) w) = w_leaves w"
  unfolding event_leaf_32 [OF assms(1)] close_passed_stop [OF assms(2)]
  by (simp_all add: Let_def split: option.split)

lemma closeCheckpoint_group:
  assumes "w_open w = (f, t) # rs" "w_stack w = stack_of xs"
  shows "w_open (closeCheckpoint w) = rs" "w_stack (closeCheckpoint w) = new_stack" "w_leaf_count (closeCheckpoint w) = 0"
    "w_rebuilt (closeCheckpoint w) = (w_rebuilt w)(f \<mapsto> group_root xs)"
    "w_leaves (closeCheckpoint w) = (w_leaves w)(f \<mapsto> w_leaf_count w)"
  using assms by (simp_all add: closeCheckpoint_def Let_def group_root_def sha.stk.result_fold sha.stk.reset_empty)

lemma walk_leaves_groups:
  assumes L: "\<forall>x \<in> set L. length x = 32" and hi: "hi = F + int (length L)"
  shows "F \<le> lo \<Longrightarrow> lo \<le> n \<Longrightarrow> n \<le> hi \<Longrightarrow> w_stack w = stack_of (seg F L lo n) \<Longrightarrow> w_leaf_count w = n - lo \<Longrightarrow>
    (lo < n \<and> w_open w \<noteq> [] \<longrightarrow> n - 1 \<le> snd (hd (w_open w))) \<Longrightarrow>
    w_rebuilt (close_all (walk_leaves cx n (seg F L n hi) w)) =
      put_groups (\<lambda>a m. group_root (seg F L a m)) (groups hi lo (w_open w)) (w_rebuilt w) \<and>
    w_leaves (close_all (walk_leaves cx n (seg F L n hi) w)) =
      put_groups (\<lambda>a m. m - a) (groups hi lo (w_open w)) (w_leaves w)"
proof (induction "nat (hi - n) + length (w_open w)" arbitrary: w lo n rule: less_induct)
  case less
  note pre = less.prems
  show ?case
  proof (cases "w_open w = [] \<or> n < hi \<and> n \<le> snd (hd (w_open w))")
    case False
    then obtain f t rs where o: "w_open w = (f, t) # rs" by (cases "w_open w") auto
    have passed: "n = hi \<or> t < n" using False pre(3) o by auto
    have m: "max lo (min hi (t + 1)) = n"
      using passed pre(2,3,6) o by auto
    note c = closeCheckpoint_group [OF o pre(4)]
    have "w_rebuilt (close_all (walk_leaves cx n (seg F L n hi) (closeCheckpoint w))) =
        put_groups (\<lambda>a m. group_root (seg F L a m)) (groups hi n rs) ((w_rebuilt w)(f \<mapsto> group_root (seg F L lo n))) \<and>
      w_leaves (close_all (walk_leaves cx n (seg F L n hi) (closeCheckpoint w))) =
        put_groups (\<lambda>a m. m - a) (groups hi n rs) ((w_leaves w)(f \<mapsto> n - lo))"
      using less.hyps [of n "closeCheckpoint w" n] pre o c by simp
    moreover have "close_all (walk_leaves cx n (seg F L n hi) (closeCheckpoint w)) = close_all (walk_leaves cx n (seg F L n hi) w)"
    proof (cases "n = hi")
      case True
      then show ?thesis using o close_all_next [of w] by simp
    next
      case False
      with passed o have p: "w_open w \<noteq> [] \<and> n > snd (hd (w_open w))" by simp
      from False pre hi have "seg F L n hi = L ! nat (n - F) # seg F L (n + 1) hi" using seg_Cons [of F n L] by simp
      then show ?thesis using event_leaf_closing [OF p] by simp
    qed
    ultimately show ?thesis by (simp add: o m Let_def)
  next
    case True
    show ?thesis
    proof (cases "n = hi")
      case n: True
      with True show ?thesis by (simp add: close_all_stop)
    next
      case False
      let ?x = "L ! nat (n - F)"
      from False pre hi have n: "n < F + int (length L)" "F \<le> n" "n < hi" by auto
      then have k: "nat (n - F) < length L" by linarith
      with L have x: "length ?x = 32" by simp
      have stop: "\<not> (w_open w \<noteq> [] \<and> n > snd (hd (w_open w)))" using True by auto
      note e = event_leaf_open [OF x stop]
      have s: "seg F L n hi = ?x # seg F L (n + 1) hi" using seg_Cons [OF n(2,1)] hi by simp
      have sn: "seg F L lo (n + 1) = seg F L lo n @ [?x]" using seg_snoc [OF pre(1,2) n(1)] .
      show ?thesis
        unfolding s walk_leaves.simps e(3-5) [symmetric, of cx]
        by (rule less.hyps) (use pre n e [of cx] sn True in \<open>auto simp: nat_less_eq_zless\<close>)
    qed
  qed
qed

subsection \<open>The whole walk over the events\<close>

lemma sound_events:
  assumes "sound_for ResultContent (w_run (fold (\<lambda>(k, x). event_step cx k x) ls w))" "w_expected w = counter_at n"
  defines "evs \<equiv> map (\<lambda>(k, x). decode x) ls"
  shows "chain_ok (cx_stream cx) (cx_redactions cx) n (w_prev w) evs \<and>
    w_count (fold (\<lambda>(k, x). event_step cx k x) ls w) = w_count w + int (length evs) \<and>
    w_expected (fold (\<lambda>(k, x). event_step cx k x) ls w) =
      (if evs = [] then counter_at n else counter_next (n + int (length evs) - 1)) \<and>
    forget r (fold (\<lambda>(k, x). event_step cx k x) ls w) = walk_leaves cx n (map leaf_of evs) (forget r w)"
  using assms(1,2) unfolding evs_def
proof (induction ls arbitrary: w n)
  case (Cons l ls)
  obtain k x where l: "l = (k, x)" by (cases l)
  let ?w = "event_step cx k x w" and ?F = "fold (\<lambda>(k, x). event_step cx k x)"
  have grow: "grows (w_run v) (w_run (?F ks v))" for ks v
    by (rule grows_fold_on) (auto simp: grows_event_step)
  have later: "sound_for ResultContent (w_run (?F ls ?w))" using Cons.prems(1) l by simp
  have "sound_for ResultContent (w_run ?w)" using sound_grows [OF grow later] .
  then obtain m where m: "counter_equals (w_expected w) m" "event_ok (cx_stream cx) (cx_redactions cx) m (w_prev w) (decode x)"
    using sound_event_step by blast
  then have "m = n" using Cons.prems(2) by (simp add: counter_equals_def counter_at_def)
  with m have ok: "event_ok (cx_stream cx) (cx_redactions cx) n (w_prev w) (decode x)" by simp
  note step = event_step_ok [OF ok, of cx k w] forget_event_step [OF ok, of r cx k w]
  show ?case
  proof (cases "ls = []")
    case True
    then show ?thesis using l ok step by simp
  next
    case False
    then obtain k' x' ls' where ls: "ls = (k', x') # ls'" by (cases ls) auto
    have "sound_for ResultContent (w_run (event_step cx k' x' ?w))"
      using sound_grows [OF grow [of "event_step cx k' x' ?w" ls']] later ls by simp
    then have "n \<noteq> max_int64" using step(1) by (auto simp: sound_event_step counter_equals_def counter_next_def)
    then have "w_expected ?w = counter_at (n + 1)" using step(1) by (simp add: counter_next_def)
    from Cons.IH [OF later this] False show ?thesis
      using l ok step by (simp add: algebra_simps)
  qed
qed simp

lemma map_snd_numbered: "map snd (filter (\<lambda>(n, x). P x) (numbered k xs)) = filter P xs"
  by (induction xs arbitrary: k) auto

lemma lines_problem_Inr: "lines_problem name l r = Some (Inr u, r') \<longleftrightarrow> l_err l = None \<and> r' = r"
  by (auto simp: lines_problem_def action_Inr split: option.splits line_error.splits)

text \<open>A loop over the lines of a file that ends without an error has seen all of them.\<close>

lemma for_lines_content:
  assumes "for_lines body (NewLines f) s = (s', l)" "l_err l = None"
  obtains ls where "s' = fold (\<lambda>(n, x). body n x) ls s" "map snd ls = content_lines f"
proof -
  have "l_err (NewLines f) = None" "l_done (NewLines f) \<longrightarrow> phys_lines (l_rest (NewLines f)) = []" "l_rest (NewLines f) = f"
    by (simp_all add: NewLines_def)
  note spec = all_lines_spec [OF this(1,2), unfolded this(3)]
  have "snd (all_lines (NewLines f)) = l" using assms(1) by (simp add: for_lines_fold)
  with assms(2) spec have "\<forall>x \<in> set (phys_lines f). short_line x" by simp
  then have "takeWhile short_line (phys_lines f) = phys_lines f" by simp
  with spec have "fst (all_lines (NewLines f)) = map trim_eol (phys_lines f)" by simp
  with assms(1) show ?thesis
    by (intro that [of "filter (\<lambda>(n, x). \<not> IsBlank x) (numbered (l_number (NewLines f) + 1) (map trim_eol (phys_lines f)))"])
      (simp_all add: for_lines_fold map_snd_numbered content_lines_def)
qed

lemma chain_ok_nth:
  "chain_ok stream red n prev evs \<Longrightarrow> i < length evs \<Longrightarrow> Field (evs ! i) (lit ''seq'') = Some (JInt (n + int i)) \<and>
    IsObject (evs ! i) \<and> length (leaf_of (evs ! i)) = 32"
proof (induction stream red n prev evs arbitrary: i rule: chain_ok.induct)
  case (2 stream red n prev ev evs)
  then show ?case
    by (cases i) (auto simp: event_ok_def algebra_simps dest: hashes_to_leaf(2))
qed simp

lemma decode_int64: "Field (decode x) k = Some (JInt n) \<Longrightarrow> int64_ok n"
proof -
  assume f: "Field (decode x) k = Some (JInt n)"
  then obtain v where v: "Parse x = Inr v" "decode x = Some v"
    by (auto simp: decode_def split: sum.splits)
  have "json_int64 v" using Parse_sound [OF v(1)] by simp
  with f v(2) show "int64_ok n" by (cases v) (auto dest!: map_of_SomeD)
qed

text \<open>The tree part of a walk over the leaves \<open>L\<close> from \<open>F\<close> on.\<close>

definition walk_trees :: "walk_ctx \<Rightarrow> (int \<times> int) list \<Rightarrow> bytes list \<Rightarrow> walk \<Rightarrow> bool" where
  "walk_trees cx ranges L w \<longleftrightarrow>
     (let F = cx_from cx; hi = F + int (length L)
      in w_rebuilt w = put_groups (\<lambda>a m. group_root (seg F L a m)) (groups hi F ranges) Map.empty \<and>
         w_leaves w = put_groups (\<lambda>a m. m - a) (groups hi F ranges) Map.empty \<and>
         (F = 1 \<longrightarrow> w_roots w = (\<lambda>s. if s \<in> set (cx_sizes cx) \<and> 1 \<le> s \<and> s \<le> int (length L)
            then Some (hex_text (root sha256 (take (nat s) L))) else None)))"

definition first_prev :: "int \<Rightarrow> vopt" where
  "first_prev from = (if from = 1 then stringValue zeroHash else None)"

lemma walk_leaves_collector:
  "\<forall>x \<in> set xs. length x = 32 \<Longrightarrow>
    w_collector (walk_leaves cx n xs w) = map_option (fold (Collector_Append sha256) xs) (w_collector w)"
proof (induction xs arbitrary: n w)
  case (Cons x xs)
  then have "w_collector (event_leaf cx n (hex_text x) w) = map_option (Collector_Append sha256 x) (w_collector w)"
    by (auto simp: event_leaf_32 Let_def split: option.split)
  with Cons show ?case by (simp add: option.map_comp o_def)
qed (simp add: id_def option.map_ident)

lemma new_collector_run: "new_collector p from to r = Some (Inr c, r') \<Longrightarrow> r' = r"
  by (auto simp: new_collector_def return_def split: if_splits option.splits sum.splits)

lemma run_events_iff:
  "run_events cx ranges f c r = ((w, l), r') \<longleftrightarrow>
    for_lines (event_step cx) (NewLines f) (start_walk cx ranges c r) = (w, l) \<and> r' = w_run w"
  by (auto simp: run_events_def split: prod.splits)

lemma walk_trees_built:
  assumes "chain_ok stream red (cx_from cx) prev evs" "w = end_walk cx w1"
    and "forget (w_run w1) w1 = walk_leaves cx (cx_from cx) (map leaf_of evs) (forget (w_run w1) (start_walk cx ranges c s))"
  shows "walk_trees cx ranges (map leaf_of evs) w"
proof -
  let ?L = "map leaf_of evs"
  have len: "\<forall>x \<in> set ?L. length x = 32"
    using chain_ok_nth [OF assms(1)] by (auto simp: in_set_conv_nth)
  have same: "w_rebuilt w = w_rebuilt (close_all (forget (w_run w1) w1))"
    "w_leaves w = w_leaves (close_all (forget (w_run w1) w1))"
    "w_roots w = w_roots (forget (w_run w1) w1)"
    using assms(2) by (simp_all add: end_walk_def Let_def on_run_def forget_closing) (simp_all add: forget_def)
  define v where "v = forget (w_run w1) (start_walk cx ranges c s)"
  have v: "w_stack v = new_stack" "w_leaf_count v = 0" "w_open v = ranges" "w_rebuilt v = Map.empty"
    "w_leaves v = Map.empty" "w_roots v = Map.empty" "w_cumulative v = new_stack"
    by (simp_all add: start_walk_def forget_def v_def)
  have sg: "seg (cx_from cx) ?L (cx_from cx) (cx_from cx + int (length ?L)) = ?L" by (simp add: seg_def)
  have "w_roots (walk_leaves cx 1 ?L v) = (\<lambda>s. if s \<in> set (cx_sizes cx) \<and> 1 \<le> s \<and> s < 1 + int (length ?L)
      then Some (hex_text (root sha256 (take (nat s) ?L))) else None)" if "cx_from cx = 1"
    using walk_leaves_roots [OF len, where w = v and xs = "[]" and n = 1 and cx = cx, unfolded append_Nil v(6)] that v
    by simp
  moreover have "s < 1 + int (length ?L) \<longleftrightarrow> s \<le> int (length ?L)" for s by linarith
  moreover note walk_leaves_groups [OF len refl, where F = "cx_from cx" and lo = "cx_from cx" and n = "cx_from cx"
      and w = v and cx = cx, unfolded sg v seg_empty]
  ultimately show ?thesis
    unfolding walk_trees_def Let_def same assms(3) v_def [symmetric] by simp
qed

text \<open>
  A walk over the events that ended without a content failure: the lines of the file are exactly the
  events of the range, in order, chained and hashed, and the trees are built over their entry hashes.
\<close>

lemma walk_events_sound:
  assumes "walk_events b cx ranges p r = Some (Inr w, r')" "sound_for ResultContent r'"
  obtains f evs where "Open_file b (lit ''events.ndjson'') = Inr f" "evs = map decode (content_lines f)" "evs \<noteq> []"
    "chain_ok (cx_stream cx) (cx_redactions cx) (cx_from cx) (first_prev (cx_from cx)) evs"
    "cx_to cx = cx_from cx + int (length evs) - 1" "walk_trees cx ranges (map leaf_of evs) w" "w_run w = r'"
proof -
  from assms(1) obtain f c w1 l where f: "Open_file b (lit ''events.ndjson'') = Inr f"
    and run: "for_lines (event_step cx) (NewLines f) (start_walk cx ranges c
        (info (lit ''Checking events.ndjson (hash chain)...'') r)) = (w1, l)"
    and l: "l_err l = None" and w: "w = end_walk cx w1" "r' = w_run w" and count: "w_count w \<noteq> 0"
    by (auto simp: walk_events_def andthen_Inr action_Inr lines_problem_Inr run_events_iff Let_def
        dest!: new_collector_run)
  obtain ls where ls: "w1 = fold (\<lambda>(k, x). event_step cx k x) ls (start_walk cx ranges c
        (info (lit ''Checking events.ndjson (hash chain)...'') r))" "map snd ls = content_lines f"
    using for_lines_content [OF run l] .
  let ?s = "start_walk cx ranges c (info (lit ''Checking events.ndjson (hash chain)...'') r)"
  define evs where "evs = map decode (content_lines f)"
  have evs: "map (\<lambda>(k, x). decode x) ls = evs"
    unfolding evs_def ls(2) [symmetric] by (simp add: case_prod_beta)
  have snd: "sound_for ResultContent (w_run w1)" "minusOneEquals (w_expected w1) (cx_to cx)"
    using assms(2) w by (auto simp: end_walk_def Let_def close_keep [of w_run] on_run_def split: if_splits)
  have chain: "chain_ok (cx_stream cx) (cx_redactions cx) (cx_from cx) (w_prev ?s) evs"
    "w_count w1 = int (length evs)"
    "w_expected w1 = (if evs = [] then counter_at (cx_from cx) else counter_next (cx_from cx + int (length evs) - 1))"
    "forget (w_run w1) w1 = walk_leaves cx (cx_from cx) (map leaf_of evs) (forget (w_run w1) ?s)"
    using sound_events [of cx ls ?s "cx_from cx" "w_run w1"] snd(1) unfolding ls(1) [symmetric] evs
    by (simp_all add: start_walk_def)
  have ne: "evs \<noteq> []" using count w(1) chain(2) by (auto simp: end_walk_def Let_def)
  let ?last = "cx_from cx + int (length evs) - 1"
  have "int64_ok ?last"
  proof -
    have "Field (evs ! (length evs - 1)) (lit ''seq'') = Some (JInt (cx_from cx + int (length evs - 1)))"
      using chain_ok_nth [OF chain(1), of "length evs - 1"] ne by simp
    moreover have "cx_from cx + int (length evs - 1) = ?last" using ne by (cases evs) auto
    moreover have "evs ! (length evs - 1) = decode (content_lines f ! (length evs - 1))"
      using ne by (simp add: evs_def)
    ultimately show ?thesis using decode_int64 by metis
  qed
  then have to: "cx_to cx = ?last"
    using snd(2) chain(3) ne by (auto simp: minusOneEquals_def counter_next_def counter_at_def split: if_splits)
  have trees: "walk_trees cx ranges (map leaf_of evs) w" by (rule walk_trees_built [OF chain(1) w(1) chain(4)])
  have "w_prev ?s = first_prev (cx_from cx)" by (simp add: start_walk_def first_prev_def)
  with that [OF f evs_def ne _ to trees] chain(1) w(2) show thesis by simp
qed

subsection \<open>Checkpoints\<close>

text \<open>What one checkpoint must satisfy, given the walk and the checkpoint before it.\<close>

definition root_ok :: "walk \<Rightarrow> vopt \<Rightarrow> int \<Rightarrow> int \<Rightarrow> bool" where
  "root_ok w cp from to \<longleftrightarrow>
     wrap64 (to - from + 1) \<le> lookup_or 0 (w_leaves w) from \<and>
     lower (text_of (Field cp (lit ''root''))) = lookup_or [] (w_rebuilt w) from"

definition cp_preimage :: "bytes \<Rightarrow> vopt \<Rightarrow> int \<Rightarrow> int \<Rightarrow> json" where
  "cp_preimage stream cp from to =
     checkpointPreimage (JInt 1) (JString stream) (JInt from) (JInt to)
       (fieldOrNull cp (lit ''root'')) (fieldOrNull cp (lit ''prev_checkpoint'')) (fieldOrNull cp (lit ''created_at''))"

definition cp_key :: "vopt \<Rightarrow> bytes" where
  "cp_key cp = lower (text_of (Field cp (lit ''public_key'')))"

definition cp_signed :: "ed_check \<Rightarrow> vopt \<Rightarrow> bool" where
  "cp_signed ed cp \<longleftrightarrow>
     signature_ok ed (cp_key cp) (lower (text_of (Field cp (lit ''checkpoint_hash'')))) (text_of (Field cp (lit ''signature'')))"

text \<open>The signing key is one of the manifest; where it is not a trusted one, its window there holds.\<close>

definition manifest_key_ok :: "manifest \<Rightarrow> trusted_key list \<Rightarrow> vopt \<Rightarrow> bool" where
  "manifest_key_ok mf ks cp \<longleftrightarrow>
     (case map_of (mf_keys mf) (cp_key cp) of
        None \<Rightarrow> False
      | Some (created, retired) \<Rightarrow>
          lookup_key ks (cp_key cp) = None \<longrightarrow> in_window created retired (text_of (Field cp (lit ''created_at''))))"

definition trusted_key_ok :: "trusted_key list \<Rightarrow> vopt \<Rightarrow> bool" where
  "trusted_key_ok ks cp \<longleftrightarrow>
     (case lookup_key ks (cp_key cp) of
        None \<Rightarrow> False
      | Some k \<Rightarrow> in_window (fst (key_window k)) (snd (key_window k)) (text_of (Field cp (lit ''created_at''))))"

definition checkpoint_ok ::
    "ed_check \<Rightarrow> manifest \<Rightarrow> trusted_key list \<Rightarrow> walk \<Rightarrow> vopt \<Rightarrow> int \<Rightarrow> int \<Rightarrow> vopt \<Rightarrow> bool" where
  "checkpoint_ok ed mf ks w prev from to cp \<longleftrightarrow>
     Field cp (lit ''from'') = Some (JInt from) \<and> Field cp (lit ''to'') = Some (JInt to) \<and>
     hashes_to (cp_preimage (mf_stream mf) cp from to) (Field cp (lit ''checkpoint_hash'')) \<and>
     link_ok (lit ''prev_checkpoint'') prev cp \<and> manifest_key_ok mf ks cp \<and> cp_signed ed cp \<and> root_ok w cp from to"

text \<open>Checkpoints one after the other; each starts where the one before ended.\<close>

fun checkpoints_ok ::
    "ed_check \<Rightarrow> manifest \<Rightarrow> trusted_key list \<Rightarrow> walk \<Rightarrow> counter \<Rightarrow> vopt \<Rightarrow> (int \<times> int) list \<Rightarrow> json list \<Rightarrow> bool" where
  "checkpoints_ok ed mf ks w c prev [] [] \<longleftrightarrow> True"
| "checkpoints_ok ed mf ks w c prev ((from, to) # rs) (cp # cps) \<longleftrightarrow>
     counter_equals c from \<and> checkpoint_ok ed mf ks w prev from to (Some cp) \<and>
     checkpoints_ok ed mf ks w (counter_next to) (Field (Some cp) (lit ''checkpoint_hash'')) rs cps"
| "checkpoints_ok ed mf ks w c prev _ _ \<longleftrightarrow> False"

lemma sound_fold_report:
  "sound_for k (fold (\<lambda>p. report (m p) (Some j)) ps r) \<longleftrightarrow> sound_for k r \<and> (k = j \<longrightarrow> ps = [])"
  by (induction ps arbitrary: r) auto

lemma trusted_run [simp]:
  "trusted (report m k r) = trusted r" "trusted (unconfirmed m j r) = trusted r" "trusted (use_key h s r) = trusted r"
  "trusted (info m r) = trusted r" "trusted (whenever b f r) = (if b then trusted (f r) else trusted r)"
  by (simp_all add: report_def unconfirmed_def use_key_def info_def whenever_def Let_def)

lemma grows_trusted: "grows r r' \<Longrightarrow> trusted r' = trusted r"
  by (simp add: grows_def)

lemma sound_checkpoint_key:
  "sound_for ResultContent (checkpoint_key mf label (cp_key cp) (text_of (Field cp (lit ''created_at''))) r) \<longleftrightarrow>
     sound_for ResultContent r \<and> manifest_key_ok mf (trusted r) cp"
  by (auto simp: checkpoint_key_def manifest_key_ok_def Let_def sound_fold_report windowProblems_none
      split: option.splits)

lemma sound_checkpoint_hash:
  "sound_for ResultContent (checkpoint_hash_check mf label cp from to r) \<longleftrightarrow>
     sound_for ResultContent r \<and> hashes_to (cp_preimage (mf_stream mf) cp from to) (Field cp (lit ''checkpoint_hash''))"
  unfolding checkpoint_hash_check_def cp_preimage_def sound_hash_check ..

lemma sound_checkpoint_root:
  "sound_for ResultContent (checkpoint_root w label cp from to r) \<longleftrightarrow> sound_for ResultContent r \<and> root_ok w cp from to"
  by (auto simp: checkpoint_root_def root_ok_def Let_def)

lemma trusted_checkpoint [simp]:
  "trusted (checkpoint_hash_check mf label cp from to r) = trusted r"
  "trusted (checkpoint_key mf label pk at r) = trusted r" "trusted (checkpoint_root w label cp from to r) = trusted r"
  using grows_trusted [OF grows_checkpoint_hash] grows_trusted [OF grows_checkpoint_key]
    grows_trusted [OF grows_checkpoint_root] by simp_all

lemma sound_checkpoint_step:
  "sound_for ResultContent (p_run (checkpoint_step ed mf w cp p)) \<longleftrightarrow>
     sound_for ResultContent (p_run p) \<and>
     (\<exists>from to. counter_equals (p_expected p) from \<and> checkpoint_ok ed mf (trusted (p_run p)) w (p_prev p) from to (Some cp))"
  unfolding checkpoint_step_def checkpoint_ok_def cp_signed_def Let_def cp_key_def [symmetric]
  by (auto simp: sound_checkpoint_root sound_checkpoint_key sound_checkpoint_hash IsInt_iff link_ok_def)

lemma checkpoint_step_ok:
  assumes "checkpoint_ok ed' mf' ks w' prev from to (Some cp)"
  shows "p_expected (checkpoint_step ed mf w cp p) = counter_next to"
    "p_prev (checkpoint_step ed mf w cp p) = Field (Some cp) (lit ''checkpoint_hash'')"
    "trusted (p_run (checkpoint_step ed mf w cp p)) = trusted (p_run p)"
proof -
  have "\<not> nullish (Field (Some cp) (lit ''checkpoint_hash''))"
    using assms hashes_to_not_nullish by (auto simp: checkpoint_ok_def)
  with assms show "p_expected (checkpoint_step ed mf w cp p) = counter_next to"
    "p_prev (checkpoint_step ed mf w cp p) = Field (Some cp) (lit ''checkpoint_hash'')"
    by (simp_all add: checkpoint_step_def checkpoint_ok_def Let_def)
  show "trusted (p_run (checkpoint_step ed mf w cp p)) = trusted (p_run p)"
    by (rule grows_trusted [OF grows_checkpoint_step])
qed

lemma sound_checkpoints:
  assumes "sound_for ResultContent (p_run (fold (checkpoint_step ed mf w) cps p))"
  shows "checkpoints_ok ed mf (trusted (p_run p)) w (p_expected p) (p_prev p) (checkpoint_ranges cps) cps \<and>
    p_expected (fold (checkpoint_step ed mf w) cps p) =
      (if cps = [] then p_expected p else counter_next (snd (last (checkpoint_ranges cps))))"
  using assms
proof (induction cps arbitrary: p)
  case Nil
  then show ?case by (simp add: checkpoint_ranges_def)
next
  case (Cons cp cps)
  let ?p = "checkpoint_step ed mf w cp p"
  have "grows (p_run ?p) (p_run (fold (checkpoint_step ed mf w) cps ?p))"
    by (rule grows_fold_on) (rule grows_checkpoint_step)
  then have "sound_for ResultContent (p_run ?p)" using Cons.prems sound_grows by auto
  then obtain a z where ok: "counter_equals (p_expected p) a"
    "checkpoint_ok ed mf (trusted (p_run p)) w (p_prev p) a z (Some cp)"
    using sound_checkpoint_step by blast
  have "cp_range cp = Some (a, z)" using ok(2) by (simp add: cp_range_def checkpoint_ok_def Let_def)
  then have r: "checkpoint_ranges (cp # cps) = (a, z) # checkpoint_ranges cps" by (simp add: checkpoint_ranges_def)
  note step = checkpoint_step_ok [OF ok(2), of ed mf w p]
  have IH: "checkpoints_ok ed mf (trusted (p_run p)) w (counter_next z) (Field (Some cp) (lit ''checkpoint_hash''))
      (checkpoint_ranges cps) cps \<and> p_expected (fold (checkpoint_step ed mf w) cps ?p) =
      (if cps = [] then counter_next z else counter_next (snd (last (checkpoint_ranges cps))))"
    using Cons.IH [of ?p] Cons.prems step by simp
  moreover have "cps \<noteq> [] \<Longrightarrow> checkpoint_ranges cps \<noteq> []" using IH by (cases cps) (auto elim: checkpoints_ok.elims)
  moreover have "checkpoint_ranges [] = []" by (simp add: checkpoint_ranges_def)
  ultimately show ?case using ok r by simp
qed

subsection \<open>The checkpoint roots\<close>

text \<open>Consecutive ranges: each starts one after the end of the one before.\<close>

fun consecutive :: "int \<Rightarrow> (int \<times> int) list \<Rightarrow> bool" where
  "consecutive n [] \<longleftrightarrow> True"
| "consecutive n ((f, t) # rs) \<longleftrightarrow> f = n \<and> consecutive (t + 1) rs"

lemma groups_append: "\<exists>m. groups hi lo (xs @ ys) = groups hi lo xs @ groups hi m ys \<and> lo \<le> m \<and>
    (\<forall>(f, t) \<in> set xs. min hi (t + 1) \<le> m)"
proof (induction xs arbitrary: lo)
  case (Cons x xs)
  obtain f t where x: "x = (f, t)" by (cases x)
  from Cons.IH [of "max lo (min hi (t + 1))"] show ?case by (force simp: x Let_def)
qed auto

text \<open>What is put under a key comes from the last group that has it.\<close>

lemma put_groups_lookup:
  assumes "put_groups g gs Map.empty f = Some v"
  obtains xs a m ys where "gs = xs @ (f, a, m) # ys" "v = g a m" "\<forall>(k, a, m) \<in> set ys. k \<noteq> f"
proof -
  have "\<exists>xs a m ys. gs = xs @ (f, a, m) # ys \<and> v = g a m \<and> (\<forall>(k, a, m) \<in> set ys. k \<noteq> f)"
    using assms
  proof (induction gs rule: rev_induct)
    case (snoc x gs)
    obtain k a m where x: "x = (k, a, m)" by (cases x)
    have p: "put_groups g (gs @ [x]) Map.empty = (put_groups g gs Map.empty)(k \<mapsto> g a m)" by (simp add: put_groups_def x)
    show ?case
    proof (cases "k = f")
      case True
      with snoc.prems p x show ?thesis by (intro exI [of _ gs]) auto
    next
      case False
      then have "put_groups g gs Map.empty f = Some v" using snoc.prems p by simp
      from snoc.IH [OF this] obtain xs b n ys where "gs = xs @ (f, b, n) # ys" "v = g b n" "\<forall>(k, a, m) \<in> set ys. k \<noteq> f"
        by blast
      with False x show ?thesis by (intro exI [of _ xs] exI [of _ b] exI [of _ n] exI [of _ "ys @ [x]"]) auto
    qed
  qed simp
  with that show thesis by blast
qed

end
