(* ===== verification/Bundle_Sound.thy ===== *)
theory Bundle_Sound
  imports Walk_Facts
begin

text \<open>
  Soundness of a whole verification: what the verdict says of the files. \<open>intact\<close> is the specification
  of a bundle whose content holds together, on its documents alone; \<open>verify_reader\<close> reports no content
  failure only on an intact bundle.
\<close>

subsection \<open>The roots of the checkpoints\<close>

lemma groups_split:
  "groups hi lo rs = xs @ (f, a, m) # ys \<Longrightarrow>
    \<exists>pre t post. rs = pre @ (f, t) # post \<and> m = max a (min hi (t + 1)) \<and> lo \<le> a \<and>
      (\<forall>(g, u) \<in> set pre. min hi (u + 1) \<le> a) \<and> map fst ys = map fst post"
proof (induction rs arbitrary: lo xs)
  case (Cons r rs)
  have fsts: "map fst (groups hi l qs) = map fst qs" for l qs
    by (induction qs arbitrary: l) (auto simp: Let_def)
  obtain g u where r: "r = (g, u)" by (cases r)
  let ?m = "max lo (min hi (u + 1))"
  show ?case
  proof (cases xs)
    case Nil
    with Cons.prems r have "f = g" "a = lo" "m = ?m" "ys = groups hi m rs" by (auto simp: Let_def)
    then show ?thesis using r fsts by (intro exI [of _ "[]"] exI [of _ u] exI [of _ rs]) simp
  next
    case (Cons x xs')
    with Cons.prems r have "groups hi ?m rs = xs' @ (f, a, m) # ys" by (simp add: Let_def)
    from Cons.IH [OF this] obtain pre t post where
      "rs = pre @ (f, t) # post" "m = max a (min hi (t + 1))" "?m \<le> a"
      "\<forall>(g, u) \<in> set pre. min hi (u + 1) \<le> a" "map fst ys = map fst post" by blast
    with r show ?thesis by (intro exI [of _ "r # pre"] exI [of _ t] exI [of _ post]) auto
  qed
qed simp

lemma put_groups_last:
  "\<forall>(k, a, m) \<in> set ys. k \<noteq> f \<Longrightarrow> put_groups g (xs @ (f, a, m) # ys) M f = Some (g a m)"
proof (induction ys rule: rev_induct)
  case Nil
  then show ?case by (simp add: put_groups_def)
next
  case (snoc y ys)
  then show ?case by (cases y) (simp add: put_groups_def)
qed

lemma consecutive_start:
  "consecutive n (pre @ (f, t) # post) \<Longrightarrow> f = (if pre = [] then n else snd (last pre) + 1)"
  by (induction n pre rule: consecutive.induct) auto

text \<open>
  With consecutive ranges that all have enough leaves, each range that is not empty has exactly its
  own leaves.
\<close>

lemma range_leaves:
  assumes trees: "walk_trees cx ranges L w" and cons: "consecutive (cx_from cx) ranges"
    and enough: "\<forall>(f, t) \<in> set ranges. int64_ok t \<and> wrap64 (t - f + 1) \<le> lookup_or 0 (w_leaves w) f"
    and rng: "(f, t) \<in> set ranges" "1 \<le> f" "f \<le> t"
  shows "cx_from cx \<le> f \<and> t < cx_from cx + int (length L) \<and>
    lookup_or [] (w_rebuilt w) f = hex_text (root sha256 (seg (cx_from cx) L f (t + 1)))"
proof -
  let ?F = "cx_from cx" let ?hi = "?F + int (length L)"
  have small: "wrap64 (u - f + 1) = u - f + 1" if "int64_ok u" "f \<le> u" for u
    using that rng(2) by (intro wrap64_id) (simp add: int64_ok_def)
  have lv: "w_leaves w = put_groups (\<lambda>a m. m - a) (groups ?hi ?F ranges) Map.empty"
    and rb: "w_rebuilt w = put_groups (\<lambda>a m. group_root (seg ?F L a m)) (groups ?hi ?F ranges) Map.empty"
    using trees by (simp_all add: walk_trees_def Let_def)
  have "int64_ok t \<and> wrap64 (t - f + 1) \<le> lookup_or 0 (w_leaves w) f" using bspec [OF enough rng(1)] by simp
  with small [of t] rng(3) have t: "t - f + 1 \<le> lookup_or 0 (w_leaves w) f" by simp
  then obtain v where v: "w_leaves w f = Some v" "t - f + 1 \<le> v"
    using rng(3) by (cases "w_leaves w f") (auto simp: lookup_or_def)
  from v(1) have "put_groups (\<lambda>a m. m - a) (groups ?hi ?F ranges) Map.empty f = Some v" unfolding lv .
  from put_groups_lookup [OF this] obtain xs a m ys where gs: "groups ?hi ?F ranges = xs @ (f, a, m) # ys" "v = m - a" "\<forall>(k, a, m) \<in> set ys. k \<noteq> f"
    by blast
  from groups_split [OF gs(1)] obtain pre t' post where
    rs: "ranges = pre @ (f, t') # post" "m = max a (min ?hi (t' + 1))" "?F \<le> a"
      "\<forall>(g, u) \<in> set pre. min ?hi (u + 1) \<le> a" "map fst ys = map fst post" by blast
  have ma: "a < m" using t v(2) gs(2) rng(3) by linarith
  then have m: "m = min ?hi (t' + 1)" "a < ?hi" "m \<le> t' + 1" using rs(2) by linarith+
  have "min ?hi f \<le> a"
  proof (cases "pre = []")
    case True
    with rs(1,3) cons consecutive_start [of ?F pre f t' post] show ?thesis by simp
  next
    case False
    then have "last pre \<in> set pre" by simp
    with rs(4) have "min ?hi (snd (last pre) + 1) \<le> a" by (cases "last pre") auto
    with False rs(1) cons consecutive_start [of ?F pre f t' post] show ?thesis by simp
  qed
  then have fa: "f \<le> a" using m(2) by linarith
  have "int64_ok t'" "wrap64 (t' - f + 1) \<le> m - a" using enough rs(1) v(1) gs(2) by (auto simp: lookup_or_def)
  then have "t' - f + 1 \<le> m - a" using small [of t'] fa ma m(3) by simp
  then have am: "a = f" "m = t' + 1" using fa m(3) by linarith+
  have "t = t'"
  proof -
    have "(f, t) \<notin> set post"
    proof
      assume "(f, t) \<in> set post"
      then have "f \<in> set (map fst ys)" unfolding rs(5) by force
      with gs(3) show False by auto
    qed
    moreover have "(f, t) \<notin> set pre"
    proof
      assume "(f, t) \<in> set pre"
      with rs(4) have "min ?hi (t + 1) \<le> a" by auto
      with am m(2) rng(3) show False by linarith
    qed
    ultimately show ?thesis using rng(1) rs(1) by auto
  qed
  moreover have "w_rebuilt w f = Some (group_root (seg ?F L a m))"
    unfolding rb gs(1) by (rule put_groups_last [OF gs(3)])
  moreover have "seg ?F L f (t' + 1) \<noteq> []"
  proof -
    have "f < t' + 1" "?F \<le> f" "t' + 1 \<le> ?hi" using am ma m rs(3) by linarith+
    then show ?thesis using length_seg [of ?F f "t' + 1" L] by auto
  qed
  ultimately show ?thesis using am m rs(3) by (simp add: lookup_or_def group_root_def)
qed

subsection \<open>Intact bundles\<close>

text \<open>The documents of a bundle.\<close>

definition log_events :: "reader \<Rightarrow> vopt list" where
  "log_events b = (case Open_file b (lit ''events.ndjson'') of Inr f \<Rightarrow> map decode (content_lines f) | Inl _ \<Rightarrow> [])"

definition log_checkpoints :: "reader \<Rightarrow> json list" where
  "log_checkpoints b =
     (case ReadWhole b (lit ''checkpoints.json'') of
        Inr data \<Rightarrow> ArrOf (Field (decode data) (lit ''checkpoints'')) | Inl _ \<Rightarrow> [])"

definition log_redaction :: "int \<Rightarrow> int \<Rightarrow> json \<Rightarrow> (int \<rightharpoonup> json) \<Rightarrow> int \<rightharpoonup> json" where
  "log_redaction from to rec m =
     (let v = Field (Some rec) (lit ''sequence''); n = IntOf v
      in if \<not> IsInt v \<or> n < from \<or> n > to then m else m(n \<mapsto> rec))"

definition log_redactions :: "reader \<Rightarrow> int \<Rightarrow> int \<Rightarrow> int \<rightharpoonup> json" where
  "log_redactions b from to =
     (case (if IsFile b (lit ''redactions.json'') then decodeOptional b (lit ''redactions.json'') else Inr None) of
        Inl _ \<Rightarrow> Map.empty
      | Inr doc \<Rightarrow> fold (log_redaction from to) (ArrOf (Field doc (lit ''redactions''))) Map.empty)"

text \<open>
  A checkpoint with events in its range states the Merkle root of exactly those events. For a range that begins
  below 1 this says nothing: there the code's \<open>to-from+1\<close> can wrap, so its count of leaves proves nothing.
\<close>

definition covers :: "int \<Rightarrow> bytes list \<Rightarrow> int \<Rightarrow> int \<Rightarrow> vopt \<Rightarrow> bool" where
  "covers F L from to cp \<longleftrightarrow>
     (1 \<le> from \<and> from \<le> to \<longrightarrow>
        F \<le> from \<and> to < F + int (length L) \<and>
        lower (text_of (Field cp (lit ''root''))) = hex_text (root sha256 (seg F L from (to + 1))))"

text \<open>Checkpoints that seal the leaves \<open>L\<close>, numbered from \<open>F\<close>, one after the other.\<close>

fun sealed :: "ed_check \<Rightarrow> manifest \<Rightarrow> trusted_key list \<Rightarrow> int \<Rightarrow> bytes list \<Rightarrow> int \<Rightarrow> vopt \<Rightarrow> json list \<Rightarrow> bool" where
  "sealed ed mf ks F L n prev [] \<longleftrightarrow> True"
| "sealed ed mf ks F L n prev (cpj # cps) \<longleftrightarrow>
     (let cp = Some cpj
      in case cp_range cpj of
           None \<Rightarrow> False
         | Some (from, to) \<Rightarrow>
             from = n \<and> hashes_to (cp_preimage (mf_stream mf) cp from to) (Field cp (lit ''checkpoint_hash'')) \<and>
             link_ok (lit ''prev_checkpoint'') prev cp \<and> manifest_key_ok mf ks cp \<and> cp_signed ed cp \<and>
             covers F L from to cp \<and> sealed ed mf ks F L (to + 1) (Field cp (lit ''checkpoint_hash'')) cps)"

text \<open>
  A bundle whose content holds together: the events of the declared range, all there, in order,
  chained and hashed, and checkpoints, chained and signed, over the entry hashes of those events.
\<close>

definition intact :: "ed_check \<Rightarrow> trusted_key list \<Rightarrow> manifest \<Rightarrow> reader \<Rightarrow> bool" where
  "intact ed ks mf b \<longleftrightarrow>
     (let F = mf_from mf; evs = log_events b
      in evs \<noteq> [] \<and> mf_to mf = F + int (length evs) - 1 \<and>
         chain_ok (mf_stream mf) (log_redactions b F (mf_to mf)) F (first_prev F) evs \<and>
         log_checkpoints b \<noteq> [] \<and>
         sealed ed mf ks F (map leaf_of evs) F (first_prev F) (log_checkpoints b))"

lemma checkpoints_consecutive:
  "checkpoints_ok ed mf ks w c prev ranges cps \<Longrightarrow> (\<And>f t rs. ranges = (f, t) # rs \<Longrightarrow> counter_equals c f \<longrightarrow> n = f) \<Longrightarrow>
    consecutive n ranges"
proof (induction ed mf ks w c prev ranges cps arbitrary: n rule: checkpoints_ok.induct)
  case (2 ed mf ks w c prev fr to rs cp cps)
  have "consecutive (to + 1) rs"
    by (rule "2.IH") (use "2.prems"(1) in \<open>auto simp: counter_next_def counter_equals_def counter_at_def\<close>)
  with 2 show ?case by auto
qed auto

lemma checkpoints_each:
  "checkpoints_ok ed mf ks w c prev ranges cps \<Longrightarrow> (f, t) \<in> set ranges \<Longrightarrow>
    \<exists>cp \<in> set cps. \<exists>p. checkpoint_ok ed mf ks w p f t (Some cp)"
  by (induction ed mf ks w c prev ranges cps rule: checkpoints_ok.induct) auto

lemma checkpoints_sealed:
  assumes "checkpoints_ok ed mf ks w c prev ranges cps" "consecutive n ranges"
    and "\<And>f t cp p. (f, t) \<in> set ranges \<Longrightarrow> checkpoint_ok ed mf ks w p f t cp \<Longrightarrow> covers F L f t cp"
  shows "sealed ed mf ks F L n prev cps"
  using assms
proof (induction ed mf ks w c prev ranges cps arbitrary: n rule: checkpoints_ok.induct)
  case (2 ed mf ks w c prev fr to rs cp cps)
  have ok: "checkpoint_ok ed mf ks w prev fr to (Some cp)" using "2.prems"(1) by simp
  then have "cp_range cp = Some (fr, to)" by (simp add: cp_range_def checkpoint_ok_def Let_def)
  moreover have "sealed ed mf ks F L (to + 1) (Field (Some cp) (lit ''checkpoint_hash'')) cps"
    by (rule "2.IH") (use "2.prems" in auto)
  moreover have "covers F L fr to (Some cp)" using "2.prems"(3) ok by simp
  ultimately show ?case using ok "2.prems"(2) by (simp add: checkpoint_ok_def Let_def)
qed auto

subsection \<open>From the verification to the specification\<close>

lemma redactions_fold: "fst (fold (redaction_record from to) recs s) = fold (log_redaction from to) recs (fst s)"
proof (induction recs arbitrary: s)
  case (Cons x xs)
  have "fst (redaction_record from to x s) = log_redaction from to x (fst s)"
    by (cases s) (auto simp: redaction_record_def log_redaction_def Let_def)
  with Cons show ?case by simp
qed simp

lemma read_redactions_log:
  "read_redactions b from to r = Some (Inr red, r') \<Longrightarrow> red = log_redactions b from to"
proof -
  have arr: "\<not> IsArray v \<Longrightarrow> ArrOf v = []" for v
    by (cases v; cases "the v") (auto simp: IsArray_def is_kind_def)
  assume "read_redactions b from to r = Some (Inr red, r')"
  then show ?thesis
    using redactions_fold [of "from" to _ "(Map.empty, s)" for s]
    by (auto simp: read_redactions_def log_redactions_def andthen_Inr action_Inr Let_def arr split: if_splits)
      (metis fst_conv)+
qed

lemma read_checkpoints_log:
  "read_checkpoints b r = Some (Inr cps, r') \<Longrightarrow> cps = log_checkpoints b \<and> cps \<noteq> []"
  by (auto simp: read_checkpoints_def log_checkpoints_def readRequired_def andthen_Inr action_Inr Let_def split: if_splits)

lemma log_checkpoints_int64:
  assumes "(f, t) \<in> set (checkpoint_ranges (log_checkpoints b))"
  shows "int64_ok t"
proof -
  have item: "int64_ok n" if "json_int64 v" "Field (Some v) k = Some (JInt n)" for v k n
    using that by (cases v) (auto dest!: map_of_SomeD)
  from assms obtain cp where cp: "cp \<in> set (log_checkpoints b)" "cp_range cp = Some (f, t)"
    unfolding checkpoint_ranges_def List.map_filter_def by auto
  then have t: "Field (Some cp) (lit ''to'') = Some (JInt t)"
    by (auto simp: cp_range_def Let_def IsInt_iff split: if_splits)
  from cp(1) obtain data where data: "ReadWhole b (lit ''checkpoints.json'') = Inr data"
    "cp \<in> set (ArrOf (Field (decode data) (lit ''checkpoints'')))"
    by (cases "ReadWhole b (lit ''checkpoints.json'')") (auto simp: log_checkpoints_def)
  then obtain v where v: "Parse data = Inr v" "cp \<in> set (ArrOf (Field (Some v) (lit ''checkpoints'')))"
    by (cases "Parse data") (auto simp: decode_def)
  have "json_int64 v" using Parse_sound [OF v(1)] by simp
  obtain xs where xs: "Field (Some v) (lit ''checkpoints'') = Some (JArray xs)" "cp \<in> set xs"
    using v(2) by (cases "Field (Some v) (lit ''checkpoints'')" rule: ArrOf.cases) auto
  then have "json_int64 (JArray xs)" using \<open>json_int64 v\<close> by (cases v) (auto dest!: map_of_SomeD)
  with xs(2) item [OF _ t] show ?thesis by simp
qed

lemma prepare_walk_log:
  assumes "prepare_walk b mf wopts r = Some (Inr (cps, cx), r')"
  shows "cps = log_checkpoints b" "cps \<noteq> []" "cx_stream cx = mf_stream mf" "cx_from cx = mf_from mf" "cx_to cx = mf_to mf"
    "cx_redactions cx = log_redactions b (mf_from mf) (mf_to mf)"
proof -
  from assms obtain red s s' retain sizes where
    p: "read_redactions b (mf_from mf) (mf_to mf) r = Some (Inr red, s)" "read_checkpoints b s = Some (Inr cps, s')"
    "cx = \<lparr>cx_stream = mf_stream mf, cx_from = mf_from mf, cx_to = mf_to mf, cx_redactions = red,
       cx_retain = retain, cx_sizes = root_sizes mf (checkpoint_ranges cps) wopts sizes\<rparr>"
    by (auto simp: prepare_walk_def andthen_Inr action_Inr)
  from read_checkpoints_log [OF p(2)] show "cps = log_checkpoints b" "cps \<noteq> []" by auto
  from read_redactions_log [OF p(1)] p(3) show "cx_stream cx = mf_stream mf" "cx_from cx = mf_from mf" "cx_to cx = mf_to mf"
    "cx_redactions cx = log_redactions b (mf_from mf) (mf_to mf)" by simp_all
qed

lemma walk_checkpoints_run:
  assumes "walk_checkpoints ed mf cps w r = (hashes, r')" "sound_for ResultContent r'"
  shows "checkpoints_ok ed mf (trusted r) w (counter_at (mf_from mf)) (first_prev (mf_from mf)) (checkpoint_ranges cps) cps"
  using assms sound_checkpoints [of ed mf w cps "\<lparr>p_run = info (lit ''Checking checkpoints.json (signed Merkle checkpoints)...'') r,
           p_prev = first_prev (mf_from mf), p_expected = counter_at (mf_from mf), p_hashes = []\<rparr>"]
  by (auto simp: walk_checkpoints_def Let_def first_prev_def split: if_splits)

lemma andthen_InrE:
  assumes "andthen m f r = Some (Inr y, r'')"
  obtains x r' where "m r = Some (Inr x, r')" "f x r' = Some (Inr y, r'')"
  using assms unfolding andthen_Inr by blast

definition the_result ::
    "manifest \<Rightarrow> json list \<Rightarrow> walk \<Rightarrow> int option \<Rightarrow> collection_summary option \<Rightarrow> bundle_result" where
  "the_result mf cps w latest summary =
     \<lparr>br_stream = mf_stream mf, br_from = mf_from mf, br_to = mf_to mf, br_eventCount = w_count w,
       br_checkpointCount = int (length cps), br_redactedCount = w_redacted w, br_latestAnchorAt = latest,
       br_collection = summary, br_roots = w_roots w,
       br_proofNodes = (case proof_of w of None \<Rightarrow> [] | Some ns \<Rightarrow> ns), br_proofBuilt = (proof_of w \<noteq> None)\<rparr>"

lemma verify_reader_steps:
  assumes "verify_reader cr b skip wopts r = Some (Inr br, r')"
  obtains mf r1 cps cx r2 w r3 hashes r4 where
    "read_manifest b r = Some (Inr mf, r1)" "prepare_walk b mf wopts r1 = Some (Inr (cps, cx), r2)"
    "walk_events b cx (checkpoint_ranges cps) (wo_proofFrom wopts) r2 = Some (Inr w, r3)"
    "walk_checkpoints (cr_ed cr) mf cps w r3 = (hashes, r4)" "grows r4 r'" "trusted r3 = trusted r" "grows r3 r4"
    "br_roots br = w_roots w" "br_from br = mf_from mf" "br_to br = mf_to mf" "br_stream br = mf_stream mf"
proof -
  from assms have "andthen (read_manifest b) (\<lambda>mf.
     andthen (prepare_walk b mf wopts) (\<lambda>(cps, cx).
     andthen (walk_events b cx (checkpoint_ranges cps) (wo_proofFrom wopts)) (\<lambda>w.
     andthen (compute (walk_checkpoints (cr_ed cr) mf cps w)) (\<lambda>hashes.
     andthen (later_sections cr b skip mf w hashes) (\<lambda>(latest, summary).
     return (the_result mf cps w latest summary)))))) r = Some (Inr br, r')"
    unfolding verify_reader_def the_result_def .
  then obtain mf r1 where mf: "read_manifest b r = Some (Inr mf, r1)" and
    m: "andthen (prepare_walk b mf wopts) (\<lambda>(cps, cx).
     andthen (walk_events b cx (checkpoint_ranges cps) (wo_proofFrom wopts)) (\<lambda>w.
     andthen (compute (walk_checkpoints (cr_ed cr) mf cps w)) (\<lambda>hashes.
     andthen (later_sections cr b skip mf w hashes) (\<lambda>(latest, summary).
     return (the_result mf cps w latest summary))))) r1 = Some (Inr br, r')"
    by (rule andthen_InrE)
  from m obtain cc r2 where prep0: "prepare_walk b mf wopts r1 = Some (Inr cc, r2)" and
    m: "(case cc of (cps, cx) \<Rightarrow> andthen (walk_events b cx (checkpoint_ranges cps) (wo_proofFrom wopts)) (\<lambda>w.
     andthen (compute (walk_checkpoints (cr_ed cr) mf cps w)) (\<lambda>hashes.
     andthen (later_sections cr b skip mf w hashes) (\<lambda>(latest, summary).
     return (the_result mf cps w latest summary))))) r2 = Some (Inr br, r')"
    by (rule andthen_InrE)
  obtain cps cx where cc: "cc = (cps, cx)" by (cases cc)
  note prep = prep0 [unfolded cc]
  from m [unfolded cc prod.case] obtain w r3 where steps: "walk_events b cx (checkpoint_ranges cps) (wo_proofFrom wopts) r2 = Some (Inr w, r3)"
    and m: "andthen (compute (walk_checkpoints (cr_ed cr) mf cps w)) (\<lambda>hashes.
     andthen (later_sections cr b skip mf w hashes) (\<lambda>(latest, summary).
     return (the_result mf cps w latest summary))) r3 = Some (Inr br, r')"
    by (rule andthen_InrE)
  from m obtain hashes r4 where c: "walk_checkpoints (cr_ed cr) mf cps w r3 = (hashes, r4)"
    and m: "andthen (later_sections cr b skip mf w hashes) (\<lambda>(latest, summary).
     return (the_result mf cps w latest summary)) r4 = Some (Inr br, r')"
    by (rule andthen_InrE) (simp only: action_Inr)
  from m obtain ls r5 where l: "later_sections cr b skip mf w hashes r4 = Some (Inr ls, r5)"
    and m: "(case ls of (latest, summary) \<Rightarrow> return (the_result mf cps w latest summary)) r5 = Some (Inr br, r')"
    by (rule andthen_InrE)
  from m have br: "br = the_result mf cps w (fst ls) (snd ls)" "r5 = r'" by (cases ls, simp add: action_Inr)+
  have "grows r r1" using growing_read_manifest mf by (rule growingD)
  moreover have "grows r1 r2" using growing_prepare_walk prep by (rule growingD)
  moreover have "grows r2 r3" using growing_walk_events steps by (rule growingD)
  ultimately have "trusted r3 = trusted r" by (simp add: grows_def)
  moreover have "grows r3 r4" using grows_walk_checkpoints [of r3 "cr_ed cr" mf cps w] c by simp
  moreover have "grows r4 r'" using growing_later_sections l [unfolded br(2)] by (rule growingD)
  ultimately show thesis
    by (intro that [OF mf prep steps c]) (simp_all add: br the_result_def)
qed

lemma verify_reader_sound:
  assumes "verify_reader cr b skip wopts r = Some (Inr br, r')" "sound_for ResultContent r'"
  shows "\<exists>mf r1. read_manifest b r = Some (Inr mf, r1) \<and> intact (cr_ed cr) (trusted r) mf b"
proof -
  obtain mf r1 cps cx r2 w r3 hashes r4 where
    mf: "read_manifest b r = Some (Inr mf, r1)" and prep: "prepare_walk b mf wopts r1 = Some (Inr (cps, cx), r2)"
    and we: "walk_events b cx (checkpoint_ranges cps) (wo_proofFrom wopts) r2 = Some (Inr w, r3)"
    and cp: "walk_checkpoints (cr_ed cr) mf cps w r3 = (hashes, r4)" and g: "grows r4 r'" "trusted r3 = trusted r" "grows r3 r4"
    and "br_roots br = w_roots w" "br_from br = mf_from mf" "br_to br = mf_to mf" "br_stream br = mf_stream mf"
    by (rule verify_reader_steps [OF assms(1)])
  note log = prepare_walk_log [OF prep]
  have s4: "sound_for ResultContent r4" using sound_grows [OF g(1) assms(2)] .
  have s3: "sound_for ResultContent r3" using sound_grows [OF g(3) s4] .
  obtain f evs where f: "Open_file b (lit ''events.ndjson'') = Inr f" "evs = map decode (content_lines f)" "evs \<noteq> []"
    "chain_ok (cx_stream cx) (cx_redactions cx) (cx_from cx) (first_prev (cx_from cx)) evs"
    "cx_to cx = cx_from cx + int (length evs) - 1" "walk_trees cx (checkpoint_ranges cps) (map leaf_of evs) w"
    using walk_events_sound [OF we s3] by metis
  have evs: "log_events b = evs" using f by (simp add: log_events_def)
  note cps = walk_checkpoints_run [OF cp s4]
  have cons: "consecutive (mf_from mf) (checkpoint_ranges cps)"
    by (rule checkpoints_consecutive [OF cps]) (auto simp: counter_at_def counter_equals_def)
  have "sealed (cr_ed cr) mf (trusted r3) (mf_from mf) (map leaf_of evs) (mf_from mf) (first_prev (mf_from mf)) cps"
  proof (rule checkpoints_sealed [OF cps cons])
    fix a t cp p assume in_rng: "(a, t) \<in> set (checkpoint_ranges cps)"
      and ok: "checkpoint_ok (cr_ed cr) mf (trusted r3) w p a t cp"
    have "\<forall>(a, t) \<in> set (checkpoint_ranges cps). int64_ok t \<and> wrap64 (t - a + 1) \<le> lookup_or 0 (w_leaves w) a"
      using log_checkpoints_int64 checkpoints_each [OF cps] log(1) by (fastforce simp: checkpoint_ok_def root_ok_def)
    from range_leaves [OF f(6) _ this in_rng] cons log(4) ok
    show "covers (mf_from mf) (map leaf_of evs) a t cp" by (auto simp: covers_def checkpoint_ok_def root_ok_def)
  qed
  with f log g(2) evs mf show ?thesis by (auto simp: intact_def Let_def)
qed

end
