(* ===== verification/Endings.thy ===== *)
theory Endings
  imports Growth
begin

text \<open>
  How a verification ends. Every section returns, with a value or with a hard error whose exit code is 1
  or 2; the one loop that may not end is the plan of a generated consistency proof
  (\<open>merkle.NewCollector\<close>), which only the consistency of two bundles asks for.
\<close>

text \<open>\<open>ends p m\<close>: where \<open>m\<close> does not return, \<open>p\<close> holds; where it stops, the error has an error's exit code.\<close>

definition error_code :: "hard_error \<Rightarrow> bool" where
  "error_code e \<longleftrightarrow> ExitCode e \<in> {ExitFail, ExitError}"

fun ok_end :: "bool \<Rightarrow> ((hard_error + 'a) \<times> run) option \<Rightarrow> bool" where
  "ok_end p None \<longleftrightarrow> p"
| "ok_end p (Some (Inl e, r)) \<longleftrightarrow> error_code e"
| "ok_end p (Some (Inr x, r)) \<longleftrightarrow> True"

definition ends :: "bool \<Rightarrow> 'a action \<Rightarrow> bool" where
  "ends p m \<longleftrightarrow> (\<forall>r. ok_end p (m r))"

named_theorems ending \<open>how actions end\<close>

lemma ends_return: "ends False m \<Longrightarrow> \<exists>x r'. m r = Some (x, r')"
  unfolding ends_def by (metis ok_end.simps(1) option.exhaust surj_pair)

lemma ends_error: "ends p m \<Longrightarrow> m r = Some (Inl e, r') \<Longrightarrow> error_code e"
  unfolding ends_def by (metis ok_end.simps(2))

lemma error_code_hard [simp]: "error_code (hard m c) \<longleftrightarrow> c = 1 \<or> c = 2"
  by (simp add: error_code_def hard_def ExitFail_def ExitError_def)

lemma ends_basic [ending]: "ends p (return x)" "ends p (perform f)" "ends p (compute g)"
  by (simp_all add: ends_def return_def perform_def compute_def split: prod.splits)

lemma ends_stop [ending]: "c = 1 \<or> c = 2 \<Longrightarrow> ends p (stop (hard m c))" "c = 1 \<or> c = 2 \<Longrightarrow> ends p (require b m c)"
  by (auto simp: ends_def stop_def require_def return_def)

lemma ends_andthen [ending]:
  assumes "ends p m" "\<And>x. ends p (f x)"
  shows "ends p (andthen m f)"
proof -
  have "ok_end p (andthen m f r)" for r
  proof -
    have "ok_end p (m r)" "\<And>x s. ok_end p (f x s)" using assms by (simp_all add: ends_def)
    then show ?thesis by (auto simp: andthen_def split: option.split sum.split)
  qed
  then show ?thesis by (simp add: ends_def)
qed

lemma ends_lift: "(\<And>e. v = Inl e \<Longrightarrow> error_code e) \<Longrightarrow> ends p (lift v)"
  by (cases v) (auto simp: ends_def lift_def)

lemma ends_if [ending]: "ends p m \<Longrightarrow> ends p n \<Longrightarrow> ends p (if b then m else n)"
  by simp

lemma ends_option [ending]: "ends p m \<Longrightarrow> (\<And>y. ends p (f y)) \<Longrightarrow> ends p (case x of None \<Rightarrow> m | Some y \<Rightarrow> f y)"
  by (cases x) auto

lemma ends_prod [ending]: "(\<And>a b. ends p (f a b)) \<Longrightarrow> ends p (case z of (a, b) \<Rightarrow> f a b)"
  by (cases z) auto

lemma ends_let [ending]: "(\<And>x. ends p (f x)) \<Longrightarrow> ends p (let x = v in f x)"
  by simp

subsection \<open>Reading\<close>

lemma read_errors:
  "Open_bundle os path = Inl e \<Longrightarrow> error_code e" "Open_file b name = Inl e \<Longrightarrow> error_code e"
  "readCapped name d = Inl e \<Longrightarrow> error_code e" "ReadWhole b name = Inl e \<Longrightarrow> error_code e"
  "readRequired b name = Inl e \<Longrightarrow> error_code e" "decodeOptional b name = Inl e \<Longrightarrow> error_code e"
proof -
  have capped: "readCapped name d = Inl e \<Longrightarrow> error_code e" for name d
    by (auto simp: readCapped_def split: option.splits if_splits)
  then show "readCapped name d = Inl e \<Longrightarrow> error_code e" .
  show whole: "ReadWhole b name = Inl e \<Longrightarrow> error_code e" using capped by (auto simp: ReadWhole_def split: if_splits)
  show "Open_bundle os path = Inl e \<Longrightarrow> error_code e"
    by (auto simp: Open_bundle_def openZip_def split: path_kind.splits option.splits)
  show "Open_file b name = Inl e \<Longrightarrow> error_code e" by (auto simp: Open_file_def split: option.splits)
  show "readRequired b name = Inl e \<Longrightarrow> error_code e" using whole by (auto simp: readRequired_def split: if_splits)
  show "decodeOptional b name = Inl e \<Longrightarrow> error_code e"
    using whole by (auto simp: decodeOptional_def split: sum.splits if_splits)
qed

lemma ends_reading [ending]:
  "ends p (lift (Open_bundle os path))" "ends p (lift (Open_file b name))" "ends p (lift (ReadWhole b name))"
  "ends p (lift (readRequired b name))" "ends p (lift (decodeOptional b name))" "ends p (lift (Inr x))"
  by (auto intro!: ends_lift dest: read_errors)

lemma ends_lines_problem [ending]: "ends p (lines_problem name l)"
  unfolding lines_problem_def
  by (cases "l_err l") (auto simp: ExitError_def intro: ending split: line_error.split)

subsection \<open>The sections\<close>

lemma ends_read_manifest [ending]: "ends p (read_manifest b)"
  unfolding read_manifest_def Let_def by (intro ending; auto simp: ExitError_def intro: ending)

lemma ends_read_redactions [ending]: "ends p (read_redactions b from to)"
  unfolding read_redactions_def Let_def by (intro ending; auto simp: ExitError_def intro: ending)

lemma ends_read_checkpoints [ending]: "ends p (read_checkpoints b)"
  unfolding read_checkpoints_def Let_def by (intro ending; auto simp: ExitError_def intro: ending)

lemma ends_declarationSequences [ending]: "ends p (declarationSequencesInRange b stream from to)"
  unfolding declarationSequencesInRange_def Let_def by (intro ending; auto intro: ending)

lemma ends_treeSizes [ending]: "ends p (consistencyTreeSizes b)"
  unfolding consistencyTreeSizes_def Let_def by (intro ending; auto intro: ending)

lemma ends_prepare_walk [ending]: "ends p (prepare_walk b mf wopts)"
  unfolding prepare_walk_def by (intro ending)

lemma ends_new_collector [ending]: "p \<or> proofFrom \<le> 0 \<Longrightarrow> ends p (new_collector proofFrom from to)"
  by (auto simp: ends_def new_collector_def return_def split: option.splits sum.splits)

lemma ends_walk_events [ending]: "p \<or> proofFrom \<le> 0 \<Longrightarrow> ends p (walk_events b cx ranges proofFrom)"
  unfolding walk_events_def by (intro ending; auto intro: ending)

lemma ends_checkDeclarations [ending]: "ends p (checkDeclarations ed b mf w)"
  unfolding checkDeclarations_def loadDeclarationProofs_def Let_def by (intro ending; auto intro: ending)

lemma ends_checkAnchors [ending]: "ends p (checkAnchors cr b skip hs)"
  unfolding checkAnchors_def Let_def by (intro ending; auto intro: ending)

lemma ends_check_certificate_list [ending]: "ends p (check_certificate_list b cs)"
  by (induction b cs rule: check_certificate_list.induct)
    (auto simp: check_certificate_def Let_def intro!: ending intro: ending)

lemma ends_checkCertificates [ending]: "ends p (checkCertificates b doc)"
  unfolding checkCertificates_def Let_def by (intro ending)

lemma ends_checkCollectionRecords [ending]: "ends p (checkCollectionRecords b rf)"
  unfolding checkCollectionRecords_def read_connection_def Let_def by (intro ending; auto intro: ending)

lemma ends_decode_all [ending]: "ends p (decode_all b ns)"
  by (induction b ns rule: decode_all.induct) (auto intro!: ending intro: ending)

lemma ends_checkSigilSign [ending]: "ends p (checkSigilSign b)"
  unfolding checkSigilSign_def read_sign_events_def section_of_def Let_def
  by (intro ending; auto intro: ending)

lemma ends_checkConsistencyFile [ending]: "ends p (checkConsistencyFile b from to rootAt)"
  unfolding checkConsistencyFile_def by (intro ending; auto intro: ending)

lemma ends_later_sections [ending]: "ends p (later_sections cr b skip mf w hashes)"
  unfolding later_sections_def by (intro ending)

lemma ends_verifyBundle [ending]: "p \<or> wo_proofFrom wopts \<le> 0 \<Longrightarrow> ends p (verifyBundle cr os target skip wopts)"
  unfolding verifyBundle_def verify_reader_def by (intro ending; auto intro: ending)

end
