(* ===== verification/Verdict_Sound.thy ===== *)
theory Verdict_Sound
  imports Bundle_Sound Endings
begin

text \<open>
  What the verdicts of the three bundle modes of \<open>verify/verify.go\<close> establish: the content and the keys
  of one bundle, the root another party recorded, and the common history of two bundles.
\<close>

subsection \<open>Verdicts that later steps cannot improve\<close>

locale kept_verdict =
  fixes good :: "run \<Rightarrow> bool"
  assumes kept: "grows r r' \<Longrightarrow> good r' \<Longrightarrow> good r"
begin

lemma kept_action: "growing m \<Longrightarrow> m r = Some (x, r') \<Longrightarrow> good r' \<Longrightarrow> good r"
  using growingD kept by blast

lemma kept_fold:
  assumes "\<And>x s. grows (g s) (g (f x s))" "good (g (fold f xs s))"
  shows "good (g s)"
  using grows_fold_on [of g f] assms kept by blast

end

text \<open>A result that ends as pass or as not checked: nothing failed and nothing stayed unconfirmed.\<close>

definition clean_for :: "result_name \<Rightarrow> run \<Rightarrow> bool" where
  "clean_for k r \<longleftrightarrow> results r k \<le> StateNotChecked"

lemma clean_simps [simp]:
  "clean_for k (report m res r) \<longleftrightarrow> clean_for k r \<and> k \<noteq> (case res of None \<Rightarrow> ResultContent | Some x \<Rightarrow> x)"
  "clean_for k (unconfirmed m j r) \<longleftrightarrow> clean_for k r \<and> k \<noteq> j"
  "clean_for k (note_msg m r) = clean_for k r" "clean_for k (info m r) = clean_for k r"
  "clean_for k (use_key f s r) = clean_for k r"
  "clean_for k (whenever b g r) = (if b then clean_for k (g r) else clean_for k r)"
  by (cases "results r k"; auto simp: clean_for_def report_def unconfirmed_def note_msg_def info_def use_key_def
      whenever_def Let_def demote_max max_def less_eq_result_state_def split: option.splits)+

interpretation sound_kept: kept_verdict "sound_for k" for k
  by unfold_locales (rule sound_grows)

interpretation clean_kept: kept_verdict "clean_for k" for k
  by unfold_locales (auto simp: clean_for_def grows_def intro: order.trans)

lemma clean_sound: "clean_for k r \<Longrightarrow> sound_for k r"
  by (auto simp: clean_for_def sound_for_def less_eq_result_state_def)

lemma exitCode_pass: "exitCode (results r) = ExitPass \<longleftrightarrow> (\<forall>k. clean_for k r)"
proof -
  have "results r k \<in> {StatePass, StateNotChecked} \<longleftrightarrow> clean_for k r" for k
    by (cases "results r k") (simp_all add: clean_for_def less_eq_result_state_def)
  then show ?thesis unfolding exitCode_cases by blast
qed

subsection \<open>Signing identity and scope of the checkpoints\<close>

lemma clean_fold_report:
  "clean_for k (fold (\<lambda>p. report (m p) (Some j)) ps r) \<longleftrightarrow> clean_for k r \<and> (k = j \<longrightarrow> ps = [])"
  by (induction ps arbitrary: r) auto

lemma clean_checkpoint_key:
  "clean_for ResultIdentity (checkpoint_key mf label (cp_key cp) (text_of (Field cp (lit ''created_at''))) r) \<longleftrightarrow>
     clean_for ResultIdentity r \<and> trusted_key_ok (trusted r) cp"
  by (auto simp: checkpoint_key_def trusted_key_ok_def Let_def clean_fold_report windowProblems_none
      split: option.splits)

lemma clean_checkpoint_step:
  assumes "clean_for ResultIdentity (p_run (checkpoint_step ed mf w cp p))"
    and "IsInt (Field (Some cp) (lit ''from''))" "IsInt (Field (Some cp) (lit ''to''))"
  shows "trusted_key_ok (trusted (p_run p)) (Some cp)"
proof -
  have root': "clean_for ResultIdentity (checkpoint_root w label c a z r) \<Longrightarrow> clean_for ResultIdentity r"
    for label c a z r using grows_checkpoint_root clean_kept.kept by blast
  from assms show ?thesis
    unfolding checkpoint_step_def Let_def cp_key_def [symmetric]
    by (auto simp: clean_checkpoint_key dest!: root' split: if_splits)
qed

lemma clean_checkpoints:
  assumes "checkpoints_ok ed' mf' ks w' c prev (checkpoint_ranges cps) cps"
    and "clean_for ResultIdentity (p_run (fold (checkpoint_step ed mf w) cps p))"
  shows "list_all (\<lambda>cp. trusted_key_ok (trusted (p_run p)) (Some cp)) cps"
  using assms
proof (induction cps arbitrary: p c prev)
  case (Cons cp cps)
  obtain a z rs where r: "checkpoint_ranges (cp # cps) = (a, z) # rs"
    using Cons.prems(1) by (auto elim: checkpoints_ok.elims)
  with Cons.prems(1) have ok: "checkpoint_ok ed' mf' ks w' prev a z (Some cp)" by simp
  then have ints: "IsInt (Field (Some cp) (lit ''from''))" "IsInt (Field (Some cp) (lit ''to''))"
    by (simp_all add: checkpoint_ok_def)
  have rs: "rs = checkpoint_ranges cps"
    using r ok by (simp add: checkpoint_ranges_def cp_range_def checkpoint_ok_def Let_def)
  let ?p = "checkpoint_step ed mf w cp p"
  have "clean_for ResultIdentity (p_run ?p)"
    by (rule clean_kept.kept_fold [where g = p_run and f = "checkpoint_step ed mf w" and xs = cps, OF grows_checkpoint_step])
      (use Cons.prems(2) in simp)
  then have "trusted_key_ok (trusted (p_run p)) (Some cp)" using clean_checkpoint_step ints by blast
  moreover have "list_all (\<lambda>cp. trusted_key_ok (trusted (p_run ?p)) (Some cp)) cps"
    by (rule Cons.IH) (use Cons.prems r rs in auto)
  ultimately show ?case using grows_trusted [OF grows_checkpoint_step [of p ed mf w cp]] by simp
qed simp

text \<open>The end of the last checkpoint.\<close>

definition last_to :: "json list \<Rightarrow> int" where
  "last_to cps = snd (last (checkpoint_ranges cps))"

text \<open>The manifest that a bundle states, whatever the run.\<close>

definition describes :: "reader \<Rightarrow> manifest \<Rightarrow> bool" where
  "describes b mf \<longleftrightarrow> (\<exists>r r'. read_manifest b r = Some (Inr mf, r'))"

lemma read_manifest_unique:
  assumes "read_manifest b r = Some (Inr mf, r')" "read_manifest b s = Some (Inr mf', s')"
  shows "mf' = mf"
  using assms by (auto simp: read_manifest_def andthen_Inr action_Inr Let_def split: option.splits)

lemma describes_unique: "describes b mf \<Longrightarrow> describes b mf' \<Longrightarrow> mf' = mf"
  unfolding describes_def using read_manifest_unique by blast

lemma checkpoints_end:
  assumes "minusOneEquals (counter_next (last_to cps)) n" "int64_ok (last_to cps)"
  shows "last_to cps = n"
proof -
  have "last_to cps \<noteq> max_int64 \<and> wrap64 (last_to cps + 1 - 1) = n"
    using assms(1) by (auto simp: minusOneEquals_def counter_next_def counter_at_def split: if_splits)
  then show ?thesis using wrap64_id [OF assms(2)] by simp
qed

text \<open>
  Every checkpoint is signed by a key of the trusted set inside that key's window, and the checkpoints
  reach the end of the declared range.
\<close>

definition vouched :: "trusted_key list \<Rightarrow> manifest \<Rightarrow> reader \<Rightarrow> bool" where
  "vouched ks mf b \<longleftrightarrow>
     list_all (\<lambda>cp. trusted_key_ok ks (Some cp)) (log_checkpoints b) \<and> last_to (log_checkpoints b) = mf_to mf"

lemma walk_checkpoints_vouched:
  assumes "walk_checkpoints ed mf cps w r = (hashes, r')" "cps = log_checkpoints b" "cps \<noteq> []"
    and "sound_for ResultContent r'" "clean_for ResultIdentity r'" "clean_for ResultScope r'"
  shows "vouched (trusted r) mf b"
proof -
  let ?p = "\<lparr>p_run = info (lit ''Checking checkpoints.json (signed Merkle checkpoints)...'') r,
    p_prev = first_prev (mf_from mf), p_expected = counter_at (mf_from mf), p_hashes = []\<rparr>"
  let ?q = "fold (checkpoint_step ed mf w) cps ?p"
  have r': "r' = whenever (\<not> minusOneEquals (p_expected ?q) (mf_to mf))
      (report (lit ''checkpoints cover up to sequence '' @ minusOneString (p_expected ?q) @
         lit '' but the manifest declares '' @ int_text (mf_to mf)) (Some ResultScope)) (p_run ?q)"
    using assms(1) by (simp add: walk_checkpoints_def Let_def first_prev_def)
  then have m: "minusOneEquals (p_expected ?q) (mf_to mf)" and q: "p_run ?q = r'"
    using assms(6) by (auto simp: whenever_def split: if_splits)
  from sound_checkpoints [of ed mf w cps ?p] q assms(3,4) have
    ok: "checkpoints_ok ed mf (trusted r) w (counter_at (mf_from mf)) (first_prev (mf_from mf)) (checkpoint_ranges cps) cps"
    and e: "p_expected ?q = counter_next (last_to cps)" by (auto simp: last_to_def)
  have "checkpoint_ranges cps \<noteq> []" using ok assms(3) by (auto elim: checkpoints_ok.elims)
  then have "last (checkpoint_ranges cps) \<in> set (checkpoint_ranges cps)" by simp
  then have "int64_ok (last_to cps)"
    unfolding last_to_def assms(2) by (metis log_checkpoints_int64 prod.collapse)
  with m e have "last_to cps = mf_to mf" by (metis checkpoints_end)
  moreover have "list_all (\<lambda>cp. trusted_key_ok (trusted r) (Some cp)) cps"
    using clean_checkpoints [OF ok, of ed mf w ?p] q assms(5) by simp
  ultimately show ?thesis using assms(2) by (simp add: vouched_def)
qed

lemma verify_reader_vouched:
  assumes "verify_reader cr b skip wopts r = Some (Inr br, r')"
    and "sound_for ResultContent r'" "clean_for ResultIdentity r'" "clean_for ResultScope r'"
  shows "\<exists>mf. describes b mf \<and> vouched (trusted r) mf b"
proof -
  obtain mf r1 cps cx r2 w r3 hashes r4 where
    mf: "read_manifest b r = Some (Inr mf, r1)" and prep: "prepare_walk b mf wopts r1 = Some (Inr (cps, cx), r2)"
    and we: "walk_events b cx (checkpoint_ranges cps) (wo_proofFrom wopts) r2 = Some (Inr w, r3)"
    and cp: "walk_checkpoints (cr_ed cr) mf cps w r3 = (hashes, r4)" and g: "grows r4 r'" "trusted r3 = trusted r" "grows r3 r4"
    and "br_roots br = w_roots w" "br_from br = mf_from mf" "br_to br = mf_to mf" "br_stream br = mf_stream mf"
    by (rule verify_reader_steps [OF assms(1)])
  have "vouched (trusted r3) mf b"
    by (rule walk_checkpoints_vouched [OF cp])
      (use prepare_walk_log [OF prep] assms(2-4) sound_kept.kept [OF g(1)] clean_kept.kept [OF g(1)] in auto)
  with mf g(2) show ?thesis by (auto simp: describes_def)
qed

subsection \<open>What the result of a verification says of the log\<close>

definition bundle_leaves :: "reader \<Rightarrow> bytes list" where
  "bundle_leaves b = map leaf_of (log_events b)"

lemma verify_reader_result:
  assumes "verify_reader cr b skip wopts r = Some (Inr br, r')" "sound_for ResultContent r'"
  shows "\<exists>mf. describes b mf \<and> br_stream br = mf_stream mf \<and> br_from br = mf_from mf \<and> br_to br = mf_to mf \<and>
    (mf_from mf = 1 \<longrightarrow>
      (\<forall>s x. br_roots br s = Some x \<longrightarrow> 1 \<le> s \<and> s \<le> mf_to mf \<and> x = hex_text (root sha256 (take (nat s) (bundle_leaves b)))) \<and>
      (\<forall>s. s \<in> insert (mf_to mf) (set (wo_wanted wopts)) \<and> 1 \<le> s \<and> s \<le> mf_to mf \<longrightarrow> br_roots br s \<noteq> None))"
proof -
  obtain mf r1 cps cx r2 w r3 hashes r4 where
    mf: "read_manifest b r = Some (Inr mf, r1)" and prep: "prepare_walk b mf wopts r1 = Some (Inr (cps, cx), r2)"
    and we: "walk_events b cx (checkpoint_ranges cps) (wo_proofFrom wopts) r2 = Some (Inr w, r3)"
    and cp: "walk_checkpoints (cr_ed cr) mf cps w r3 = (hashes, r4)" and g: "grows r4 r'" "trusted r3 = trusted r" "grows r3 r4"
    and br: "br_roots br = w_roots w" "br_from br = mf_from mf" "br_to br = mf_to mf" "br_stream br = mf_stream mf"
    by (rule verify_reader_steps [OF assms(1)])
  have s3: "sound_for ResultContent r3" using sound_kept.kept [OF g(3)] sound_kept.kept [OF g(1)] assms(2) by blast
  obtain f evs where f: "Open_file b (lit ''events.ndjson'') = Inr f" "evs = map decode (content_lines f)"
    "cx_to cx = cx_from cx + int (length evs) - 1" "walk_trees cx (checkpoint_ranges cps) (map leaf_of evs) w"
    using walk_events_sound [OF we s3] by metis
  have L: "map leaf_of evs = bundle_leaves b" using f by (simp add: bundle_leaves_def log_events_def)
  then have len: "length evs = length (bundle_leaves b)" by (metis length_map)
  have sizes: "insert (mf_to mf) (set (wo_wanted wopts)) \<subseteq> set (cx_sizes cx)"
    using prep by (auto simp: prepare_walk_def andthen_Inr action_Inr root_sizes_def)
  have roots: "w_roots w = (\<lambda>s. if s \<in> set (cx_sizes cx) \<and> 1 \<le> s \<and> s \<le> mf_to mf
      then Some (hex_text (root sha256 (take (nat s) (bundle_leaves b)))) else None)" if "mf_from mf = 1"
    using f(3,4) L len that prepare_walk_log [OF prep] by (simp add: walk_trees_def Let_def)
  show ?thesis
    using mf br roots sizes by (intro exI [of _ mf]) (auto simp: describes_def split: if_splits)
qed

subsection \<open>Verdicts\<close>

definition trusted_keys :: "env \<Rightarrow> options \<Rightarrow> trusted_key list" where
  "trusted_keys e opts = trusted (newRun (env_embedded e) opts)"

text \<open>The bundle at a path, with its manifest, and what a verification proves of it.\<close>

definition bundle_at :: "env \<Rightarrow> bytes \<Rightarrow> reader \<Rightarrow> manifest \<Rightarrow> bool" where
  "bundle_at e path b mf \<longleftrightarrow> Open_bundle (env_os e) path = Inr b \<and> describes b mf"

definition proven :: "env \<Rightarrow> options \<Rightarrow> manifest \<Rightarrow> reader \<Rightarrow> bool" where
  "proven e opts mf b \<longleftrightarrow>
     intact (cr_ed (env_crypto e)) (trusted_keys e opts) mf b \<and> vouched (trusted_keys e opts) mf b"

lemma bundle_at_unique: "bundle_at e path b mf \<Longrightarrow> bundle_at e path b' mf' \<Longrightarrow> b' = b \<and> mf' = mf"
  unfolding bundle_at_def using describes_unique by (metis Inr_inject)

lemma verifyBundle_reader:
  "verifyBundle cr os path skip wopts r = Some (Inr br, r') \<longleftrightarrow>
    (\<exists>b. Open_bundle os path = Inr b \<and> verify_reader cr b skip wopts r = Some (Inr br, r'))"
  by (auto simp: verifyBundle_def andthen_Inr action_Inr)

lemma verifyBundle_intact:
  assumes "verifyBundle (env_crypto e) (env_os e) path skip wopts r = Some (Inr br, r')"
    and "sound_for ResultContent r'"
  shows "\<exists>b mf. bundle_at e path b mf \<and> intact (cr_ed (env_crypto e)) (trusted r) mf b"
  using assms verify_reader_sound unfolding verifyBundle_reader bundle_at_def describes_def by blast

lemma verifyBundle_vouched:
  assumes "verifyBundle (env_crypto e) (env_os e) path skip wopts r = Some (Inr br, r')"
    and "\<And>k. clean_for k r'"
  shows "\<exists>b mf. bundle_at e path b mf \<and> intact (cr_ed (env_crypto e)) (trusted r) mf b \<and> vouched (trusted r) mf b"
proof -
  from assms(1) obtain b where b: "Open_bundle (env_os e) path = Inr b"
    "verify_reader (env_crypto e) b skip wopts r = Some (Inr br, r')"
    unfolding verifyBundle_reader by blast
  have s: "sound_for ResultContent r'" using assms(2) clean_sound by blast
  obtain mf where "describes b mf" "intact (cr_ed (env_crypto e)) (trusted r) mf b"
    using verify_reader_sound [OF b(2) s] by (auto simp: describes_def)
  moreover obtain mf' where "describes b mf'" "vouched (trusted r) mf' b"
    using verify_reader_vouched [OF b(2) s assms(2) assms(2)] by blast
  ultimately show ?thesis using b(1) describes_unique unfolding bundle_at_def by blast
qed

text \<open>A verdict with exit code 0 does not come from a hard error.\<close>

lemma conclude_pass:
  assumes "conclude rep r m f = Some v" "ends p m" "vd_ExitCode v = ExitPass"
  obtains x r' where "m r = Some (Inr x, r')" "v = f x r'"
proof -
  from assms(1) obtain res r' where m: "m r = Some (res, r')"
    "v = (case res of Inl herr \<Rightarrow> finishHard r' rep herr | Inr x \<Rightarrow> f x r')"
    by (auto simp: conclude_def)
  show thesis
  proof (cases res)
    case (Inl e)
    with m assms(3) ends_error [OF assms(2), of r e r'] show thesis
      by (simp add: finishHard_def error_code_def ExitPass_def ExitFail_def ExitError_def)
  next
    case (Inr x)
    with m that show thesis by simp
  qed
qed

lemma finish_code [simp]:
  "vd_ExitCode (finish r rep c) = c" "vd_Results (finish r rep c) = results r" "vd_Hard (finish r rep c) = vd_Hard rep"
  by (simp_all add: finish_def)

lemma newReport_hard [simp]: "vd_Hard (newReport e opts mode paths) = False"
  by (simp add: newReport_def)

subsection \<open>One bundle\<close>

lemma Bundle_content:
  assumes "Bundle e path opts = Some v" "\<not> vd_Hard v" "vd_Results v ResultContent \<noteq> StateFail"
  shows "\<exists>b mf. bundle_at e path b mf \<and> intact (cr_ed (env_crypto e)) (trusted_keys e opts) mf b"
proof -
  from assms(1) obtain res r' where m: "verifyBundle (env_crypto e) (env_os e) path (opt_SkipAnchors opts) no_walk_options
      (newRun (env_embedded e) opts) = Some (res, r')"
    "\<And>herr. res = Inl herr \<Longrightarrow> vd_Hard v" "\<And>br. res = Inr br \<Longrightarrow> vd_Results v = results r'"
    by (auto simp: Bundle_def conclude_def Let_def finishHard_def)
  with assms(2) obtain br where res: "res = Inr br" by (cases res) auto
  with m(3) assms(3) have "sound_for ResultContent r'" by (simp add: sound_for_def)
  with verifyBundle_intact [OF m(1) [unfolded res]] show ?thesis unfolding trusted_keys_def by blast
qed

lemma Bundle_pass:
  assumes "Bundle e path opts = Some v" "vd_ExitCode v = ExitPass"
  shows "\<exists>b mf. bundle_at e path b mf \<and> proven e opts mf b"
proof -
  have e: "ends False (verifyBundle (env_crypto e) (env_os e) path (opt_SkipAnchors opts) no_walk_options)"
    by (rule ends_verifyBundle) (simp add: no_walk_options_def)
  obtain br r' where m: "verifyBundle (env_crypto e) (env_os e) path (opt_SkipAnchors opts) no_walk_options
      (newRun (env_embedded e) opts) = Some (Inr br, r')" and v: "vd_ExitCode v = exitCode (results r')"
    by (rule conclude_pass [OF assms(1) [unfolded Bundle_def Let_def] e assms(2)]) (rule that, assumption, simp)
  have "clean_for k r'" for k using v assms(2) exitCode_pass [of r'] by metis
  from verifyBundle_vouched [OF m this] show ?thesis unfolding proven_def trusted_keys_def by blast
qed

lemma ends_one_bundle: "ends False (verifyBundle (env_crypto e) (env_os e) path skip no_walk_options)"
  by (rule ends_verifyBundle) (simp add: no_walk_options_def)

lemma Bundle_finished:
  assumes "Bundle e path opts = Some v" "vd_ExitCode v = ExitPass"
  shows "\<not> vd_Hard v \<and> (\<forall>k. vd_Results v k \<noteq> StateFail)"
proof -
  obtain br r' where v: "v = finish r' ((newReport e opts (lit ''verify'') [path])
      \<lparr>vd_Bundle := Some (full_info path br), vd_ConsistencyState := consistency_state br (exitCode (results r'))\<rparr>) (exitCode (results r'))"
    by (rule conclude_pass [OF assms(1) [unfolded Bundle_def Let_def] ends_one_bundle assms(2)]) (rule that)
  have "\<not> vd_Hard v" "vd_Results v = results r'" "vd_ExitCode v = exitCode (results r')" unfolding v by simp_all
  with assms(2) exitCode_cases(1) [of "results r'"] show ?thesis
    by (metis insertE result_state.distinct singletonD)
qed

lemma Bundle_hard:
  assumes "Bundle e path opts = Some v" "vd_Hard v"
  shows "vd_ExitCode v \<in> {ExitFail, ExitError} \<and> vd_Result v = lit ''error''"
proof -
  obtain res r' where m: "verifyBundle (env_crypto e) (env_os e) path (opt_SkipAnchors opts) no_walk_options
      (newRun (env_embedded e) opts) = Some (res, r')"
    "v = (case res of Inl herr \<Rightarrow> finishHard r' (newReport e opts (lit ''verify'') [path]) herr
      | Inr br \<Rightarrow> finish r' ((newReport e opts (lit ''verify'') [path])
      \<lparr>vd_Bundle := Some (full_info path br), vd_ConsistencyState := consistency_state br (exitCode (results r'))\<rparr>) (exitCode (results r')))"
    using assms(1) by (auto simp: Bundle_def conclude_def Let_def)
  with assms(2) obtain herr where res: "res = Inl herr" by (cases res) auto
  from ends_error [OF ends_one_bundle m(1) [unfolded res]] m(2) res show ?thesis
    by (simp add: finishHard_def error_code_def)
qed

lemma Bundle_returns: "\<exists>v. Bundle e path opts = Some v"
  using ends_return [OF ends_one_bundle, of e path "opt_SkipAnchors opts" "newRun (env_embedded e) opts"]
  by (auto simp: Bundle_def conclude_def Let_def)

subsection \<open>A recorded root\<close>

lemma check_recorded_pass:
  assumes "clean_for ResultContent (check_recorded br sz rt r)"
  shows "clean_for ResultContent r \<and> br_from br = 1 \<and> 1 \<le> sz \<and> sz \<le> br_to br \<and> rt = lookup_or [] (br_roots br) sz"
  using assms by (auto simp: check_recorded_def Let_def split: if_splits)

lemma grows_check_recorded: "grows r (check_recorded br sz rt r)"
  by (auto simp: check_recorded_def Let_def)

text \<open>The root of the first \<open>n\<close> entries of a bundle that starts at 1.\<close>

definition prefix_root :: "reader \<Rightarrow> int \<Rightarrow> bytes" where
  "prefix_root b n = root sha256 (take (nat n) (bundle_leaves b))"

lemma verifyBundle_manifest:
  assumes "verifyBundle (env_crypto e) (env_os e) path skip wopts r = Some (Inr br, r')"
    and "sound_for ResultContent r'" "bundle_at e path b mf"
  shows "br_stream br = mf_stream mf \<and> br_from br = mf_from mf \<and> br_to br = mf_to mf"
proof -
  from assms(1,3) have v: "verify_reader (env_crypto e) b skip wopts r = Some (Inr br, r')" and d: "describes b mf"
    by (auto simp: verifyBundle_reader bundle_at_def)
  obtain mf' where "describes b mf'" "br_stream br = mf_stream mf' \<and> br_from br = mf_from mf' \<and> br_to br = mf_to mf'"
    using verify_reader_result [OF v assms(2)] by blast
  with describes_unique [OF d] show ?thesis by blast
qed

lemma verifyBundle_roots:
  assumes "verifyBundle (env_crypto e) (env_os e) path skip wopts r = Some (Inr br, r')"
    and "sound_for ResultContent r'" "bundle_at e path b mf" "mf_from mf = 1"
  shows "br_stream br = mf_stream mf" "br_from br = 1" "br_to br = mf_to mf"
    "br_roots br s = Some x \<Longrightarrow> 1 \<le> s \<and> s \<le> mf_to mf \<and> x = hex_text (prefix_root b s)"
    "s \<in> insert (mf_to mf) (set (wo_wanted wopts)) \<Longrightarrow> 1 \<le> s \<Longrightarrow> s \<le> mf_to mf \<Longrightarrow>
      br_roots br s = Some (hex_text (prefix_root b s))"
proof -
  from assms(1,3) have "verify_reader (env_crypto e) b skip wopts r = Some (Inr br, r')"
    by (auto simp: verifyBundle_reader bundle_at_def)
  from verify_reader_result [OF this assms(2)] assms(3,4) obtain
    "br_stream br = mf_stream mf" "br_from br = 1" "br_to br = mf_to mf"
    and roots: "\<forall>s x. br_roots br s = Some x \<longrightarrow> 1 \<le> s \<and> s \<le> mf_to mf \<and> x = hex_text (prefix_root b s)"
      "\<forall>s. s \<in> insert (mf_to mf) (set (wo_wanted wopts)) \<and> 1 \<le> s \<and> s \<le> mf_to mf \<longrightarrow> br_roots br s \<noteq> None"
    unfolding bundle_at_def prefix_root_def using describes_unique by metis
  then show "br_stream br = mf_stream mf" "br_from br = 1" "br_to br = mf_to mf"
    "br_roots br s = Some x \<Longrightarrow> 1 \<le> s \<and> s \<le> mf_to mf \<and> x = hex_text (prefix_root b s)" by blast+
  show "s \<in> insert (mf_to mf) (set (wo_wanted wopts)) \<Longrightarrow> 1 \<le> s \<Longrightarrow> s \<le> mf_to mf \<Longrightarrow>
      br_roots br s = Some (hex_text (prefix_root b s))"
    using roots by (cases "br_roots br s") auto
qed

lemma ends_recorded: "ends False (recorded_bundle e path rt sz skip)"
  unfolding recorded_bundle_def by (intro ending) simp

lemma ConsistencyRecorded_returns: "\<exists>v. ConsistencyRecorded e path rootText sz opts = Some v"
  using ends_return [OF ends_recorded, of e path "lower rootText" sz "opt_SkipAnchors opts" "newRun (env_embedded e) opts"]
  by (auto simp: ConsistencyRecorded_def conclude_def Let_def)

lemma ConsistencyRecorded_pass:
  assumes "ConsistencyRecorded e path rootText sz opts = Some v" "vd_ExitCode v = ExitPass"
  shows "\<exists>b mf. bundle_at e path b mf \<and> proven e opts mf b \<and> mf_from mf = 1 \<and> 1 \<le> sz \<and> sz \<le> mf_to mf \<and>
    lower rootText = hex_text (prefix_root b sz)"
proof -
  let ?wopts = "\<lparr>wo_wanted = [sz], wo_proofFrom = 0\<rparr>" let ?r = "newRun (env_embedded e) opts"
  obtain br r' where m: "recorded_bundle e path (lower rootText) sz (opt_SkipAnchors opts) ?r = Some (Inr br, r')"
    and v: "vd_ExitCode v = exitCode (results r')"
    by (rule conclude_pass [OF assms(1) [unfolded ConsistencyRecorded_def Let_def] ends_recorded assms(2)]) (rule that, assumption, simp)
  from m obtain r1 where
    vb: "verifyBundle (env_crypto e) (env_os e) path (opt_SkipAnchors opts) ?wopts
      (info (lit ''Bundle: '' @ path) (info (lit ''Mode:   consistency against a recorded root'') ?r)) = Some (Inr br, r1)"
    and r': "r' = check_recorded br sz (lower rootText) (info (lit ''Checking consistency (RFC 6962)...'') r1)"
    by (auto simp: recorded_bundle_def andthen_Inr action_Inr)
  have clean: "clean_for k r'" for k using v assms(2) exitCode_pass [of r'] by metis
  then have clean1: "clean_for k r1" for k
    using clean_kept.kept [OF grows_check_recorded] clean_simps(4) unfolding r' by metis
  from check_recorded_pass clean [of ResultContent] have chk: "br_from br = 1" "1 \<le> sz" "sz \<le> br_to br"
    "lower rootText = lookup_or [] (br_roots br) sz" unfolding r' by blast+
  obtain b mf where b: "bundle_at e path b mf" "proven e opts mf b"
    using verifyBundle_vouched [OF vb clean1] by (auto simp: proven_def trusted_keys_def)
  have s: "sound_for ResultContent r1" using clean1 clean_sound by blast
  have "mf_from mf = 1" using verifyBundle_manifest [OF vb s b(1)] chk(1) by simp
  note rt = verifyBundle_roots [OF vb s b(1) this]
  have "br_roots br sz = Some (hex_text (prefix_root b sz))"
    by (rule rt(5)) (use chk(2,3) rt(3) in simp_all)
  then have "lower rootText = hex_text (prefix_root b sz)" using chk(4) by (simp add: lookup_or_def)
  then show ?thesis using b chk(2,3) rt(3) \<open>mf_from mf = 1\<close> by metis
qed

subsection \<open>Two bundles\<close>

lemma grows_extension_checks: "grows r (extension_checks old new r)"
  unfolding extension_checks_def by (intro grow) (auto intro: grow)

lemma grows_check_extension: "grows r (snd (check_extension old new r))"
  using grows_trans [OF grows_info grows_extension_checks]
  by (auto simp: check_extension_def extension_proof_def Let_def split: option.split intro!: grow)

lemma check_extension_pass:
  assumes "check_extension old new r = (ci, r')" "clean_for ResultContent r'" "failures r = []" "\<And>k. clean_for k r'"
  shows "br_stream old = br_stream new" "br_from old = 1" "br_from new = 1" "br_to old \<le> br_to new"
    "\<exists>x. br_roots old (br_to old) = Some x \<and> br_roots new (br_to old) = Some x"
proof -
  let ?r1 = "extension_checks old new (info (lit ''Checking consistency (RFC 6962)...'') r)"
  have g: "grows r ?r1" using grows_trans [OF grows_info grows_extension_checks] .
  have no: "failures ?r1 = []"
  proof (rule ccontr)
    assume f: "failures ?r1 \<noteq> []"
    then have "r' = ?r1" using assms(1) by (simp add: check_extension_def Let_def)
    moreover obtain k where "results ?r1 k = StateFail" using g f assms(3) by (auto simp: grows_def)
    ultimately show False using assms(4) [of k] by (simp add: clean_for_def less_eq_result_state_def)
  qed
  then have r': "extension_proof old new ?r1 = (ci, r')" using assms(1) by (simp add: check_extension_def Let_def)
  with assms(2) show "\<exists>x. br_roots old (br_to old) = Some x \<and> br_roots new (br_to old) = Some x"
    by (auto simp: extension_proof_def split: option.splits if_splits)
  have "grows ?r1 r'" using r' by (auto simp: extension_proof_def split: option.splits if_splits intro!: grow)
  then have "clean_for ResultContent ?r1" using clean_kept.kept assms(2) by blast
  then show "br_stream old = br_stream new" "br_from old = 1" "br_from new = 1" "br_to old \<le> br_to new"
    by (auto simp: extension_checks_def split: if_splits)
qed

lemma ends_both_bundles: "ends True (both_bundles e oldPath newPath skip)"
  unfolding both_bundles_def by (intro ending) simp_all

lemma both_bundles_steps:
  assumes "both_bundles e oldPath newPath skip r = Some (Inr (old, new, ci), r')" "failures r = []" "\<And>k. clean_for k r'"
  obtains s s1 s2 s3 where
    "verifyBundle (env_crypto e) (env_os e) oldPath skip no_walk_options s = Some (Inr old, s1)"
    "verifyBundle (env_crypto e) (env_os e) newPath skip \<lparr>wo_wanted = [br_to old], wo_proofFrom = br_to old\<rparr> s2 = Some (Inr new, s3)"
    "trusted s = trusted r" "trusted s2 = trusted r" "\<And>k. clean_for k s1" "\<And>k. clean_for k s3"
    "br_stream old = br_stream new" "br_from old = 1" "br_from new = 1" "br_to old \<le> br_to new"
    "\<exists>x. br_roots old (br_to old) = Some x \<and> br_roots new (br_to old) = Some x"
proof -
  let ?s = "info (lit ''=== Old bundle: '' @ oldPath @ lit '' ==='') (info (lit ''Mode:   consistency between two bundles'') r)"
  from assms(1) obtain s1 s3 where
    o: "verifyBundle (env_crypto e) (env_os e) oldPath skip no_walk_options ?s = Some (Inr old, s1)"
    and n: "verifyBundle (env_crypto e) (env_os e) newPath skip \<lparr>wo_wanted = [br_to old], wo_proofFrom = br_to old\<rparr>
      (info (lit ''=== New bundle: '' @ newPath @ lit '' ==='') s1) = Some (Inr new, s3)"
    and c: "check_extension old new s3 = (ci, r')"
    by (auto simp: both_bundles_def andthen_Inr action_Inr)
  let ?s2 = "info (lit ''=== New bundle: '' @ newPath @ lit '' ==='') s1"
  have g: "grows ?s s1" "grows ?s2 s3" "grows s3 r'"
    using growingD [OF growing_verifyBundle o] growingD [OF growing_verifyBundle n] grows_check_extension [of s3 old new] c by simp_all
  have gr1: "grows r s1" using grows_trans [OF grows_trans [OF grows_info grows_info] g(1)] .
  have gr3: "grows r s3" using grows_trans [OF gr1 grows_trans [OF grows_info g(2)]] .
  have c3: "clean_for k s3" for k using clean_kept.kept [OF g(3) assms(3)] .
  have c1: "clean_for k s1" for k using clean_kept.kept [OF g(2) c3] by simp
  have "failures s3 = []"
  proof (rule ccontr)
    assume "failures s3 \<noteq> []"
    then obtain k where "results s3 k = StateFail" using gr3 assms(2) by (auto simp: grows_def)
    with c3 [of k] show False by (simp add: clean_for_def less_eq_result_state_def)
  qed
  note ext = check_extension_pass [OF c assms(3) this assms(3)]
  show thesis
    by (rule that [OF o n _ _ c1 c3 ext]) (use grows_trusted [OF gr1] in simp_all)
qed

lemma ConsistencyBundles_pass:
  assumes "ConsistencyBundles e oldPath newPath opts = Some v" "vd_ExitCode v = ExitPass"
  shows "\<exists>bo mo bn mn. bundle_at e oldPath bo mo \<and> bundle_at e newPath bn mn \<and> proven e opts mo bo \<and> proven e opts mn bn \<and>
    mf_stream mo = mf_stream mn \<and> mf_from mo = 1 \<and> mf_from mn = 1 \<and> mf_to mo \<le> mf_to mn \<and>
    prefix_root bo (mf_to mo) = prefix_root bn (mf_to mo)"
proof -
  obtain z r' where z: "both_bundles e oldPath newPath (opt_SkipAnchors opts) (newRun (env_embedded e) opts) = Some (Inr z, r')"
    and v: "vd_ExitCode v = exitCode (results r')"
    by (rule conclude_pass [OF assms(1) [unfolded ConsistencyBundles_def Let_def] ends_both_bundles assms(2)])
      (rule that, assumption, simp split: prod.split)
  obtain old new ci where "z = (old, new, ci)" by (cases z)
  note m = z [unfolded this]
  have clean: "clean_for k r'" for k using v assms(2) exitCode_pass [of r'] by metis
  obtain s s1 s2 s3 where
    o: "verifyBundle (env_crypto e) (env_os e) oldPath (opt_SkipAnchors opts) no_walk_options s = Some (Inr old, s1)"
    and n: "verifyBundle (env_crypto e) (env_os e) newPath (opt_SkipAnchors opts)
      \<lparr>wo_wanted = [br_to old], wo_proofFrom = br_to old\<rparr> s2 = Some (Inr new, s3)"
    and t: "trusted s = trusted_keys e opts" "trusted s2 = trusted_keys e opts"
    and c: "\<And>k. clean_for k s1" "\<And>k. clean_for k s3"
    and x: "br_stream old = br_stream new" "br_from old = 1" "br_from new = 1" "br_to old \<le> br_to new"
      "\<exists>x. br_roots old (br_to old) = Some x \<and> br_roots new (br_to old) = Some x"
    by (rule both_bundles_steps [OF m _ clean]) (simp_all add: newRun_def trusted_keys_def)
  note sound = c [THEN clean_sound]
  obtain bo mo where bo: "bundle_at e oldPath bo mo" "proven e opts mo bo"
    using verifyBundle_vouched [OF o c(1)] t by (auto simp: proven_def)
  obtain bn mn where bn: "bundle_at e newPath bn mn" "proven e opts mn bn"
    using verifyBundle_vouched [OF n c(2)] t by (auto simp: proven_def)
  note mo = verifyBundle_manifest [OF o sound(1) bo(1)] and mn = verifyBundle_manifest [OF n sound(2) bn(1)]
  have from1: "mf_from mo = 1" "mf_from mn = 1" using mo mn x(2,3) by simp_all
  obtain y where y: "br_roots old (br_to old) = Some y" "br_roots new (br_to old) = Some y" using x(5) by blast
  have "hex_text (prefix_root bo (br_to old)) = hex_text (prefix_root bn (br_to old))"
    using verifyBundle_roots(4) [OF o sound(1) bo(1) from1(1) y(1)]
      verifyBundle_roots(4) [OF n sound(2) bn(1) from1(2) y(2)] by simp
  then have "prefix_root bo (br_to old) = prefix_root bn (br_to old)" by (rule hex_text_inj)
  with bo bn mo mn from1 x show ?thesis by metis
qed

subsection \<open>The common history\<close>

text \<open>The bytes an entry hash is of.\<close>

definition entry_bytes :: "bytes \<Rightarrow> vopt \<Rightarrow> bytes" where
  "entry_bytes stream ev =
     (case Canonical (Some (entryPreimage (JString stream) (the (Field ev (lit ''seq''))) ev)) of Inr bs \<Rightarrow> bs | Inl _ \<Rightarrow> [])"

definition log_entries :: "manifest \<Rightarrow> reader \<Rightarrow> bytes list" where
  "log_entries mf b = map (entry_bytes (mf_stream mf)) (log_events b)"

lemma event_leaf_entry:
  assumes "event_ok stream red n prev ev"
  shows "leaf_of ev = sha256 (entry_bytes stream ev)"
  using assms by (auto simp: event_ok_def entry_bytes_def hashes_to_def leaf_of_def sha256Hex_def hex_or_empty_def hexBytes_hex_text)

lemma chain_leaves:
  "chain_ok stream red n prev evs \<Longrightarrow> map leaf_of evs = map sha256 (map (entry_bytes stream) evs)"
  by (induction stream red n prev evs rule: chain_ok.induct) (auto intro: event_leaf_entry)

lemma intact_leaves:
  assumes "intact ed ks mf b"
  shows "bundle_leaves b = map sha256 (log_entries mf b)" "mf_to mf = mf_from mf + int (length (log_entries mf b)) - 1"
  using assms chain_leaves by (auto simp: intact_def Let_def bundle_leaves_def log_entries_def)

text \<open>What is hashed over the first \<open>n\<close> entries: the entries and the nodes of their tree.\<close>

definition hashed :: "bytes list \<Rightarrow> bytes set" where
  "hashed es = set es \<union> root_calls sha256 (map sha256 es)"

lemma same_root_same_entries:
  assumes "root sha256 (map sha256 xs) = root sha256 (map sha256 ys)" "length xs = length ys"
  shows "xs = ys \<or> collision sha256 (hashed xs \<union> hashed ys)"
proof (cases "inj_on sha256 (hashed xs \<union> hashed ys)")
  case True
  have "map sha256 xs = map sha256 ys"
    by (rule sha.root_inj [OF True]) (use assms in \<open>auto simp: hashed_def\<close>)
  then have "xs = ys"
    by (rule map_inj_on) (rule inj_on_subset [OF True], auto simp: hashed_def)
  then show ?thesis ..
qed (simp add: collision_iff)

lemma common_history:
  assumes "intact ed ks mo bo" "intact ed' ks' mn bn" "mf_from mo = 1" "mf_from mn = 1" "mf_to mo \<le> mf_to mn"
    and "prefix_root bo (mf_to mo) = prefix_root bn (mf_to mo)"
  shows "prefix (log_entries mo bo) (log_entries mn bn) \<or>
    collision sha256 (hashed (log_entries mo bo) \<union> hashed (take (length (log_entries mo bo)) (log_entries mn bn)))"
proof -
  note o = intact_leaves [OF assms(1)] and n = intact_leaves [OF assms(2)]
  let ?xs = "log_entries mo bo" let ?ys = "take (length ?xs) (log_entries mn bn)"
  have len: "nat (mf_to mo) = length ?xs" "length ?xs \<le> length (log_entries mn bn)" using o(2) n(2) assms(3-5) by auto
  have "root sha256 (map sha256 ?xs) = root sha256 (map sha256 ?ys)"
    using assms(6) by (simp add: prefix_root_def o(1) n(1) len take_map)
  moreover have "length ?xs = length ?ys" using len by simp
  ultimately show ?thesis using same_root_same_entries [of ?xs ?ys] by (metis take_is_prefix)
qed

end
