(* ===== verification/Receipts.thy ===== *)
theory Receipts
  imports Verdict_Sound
begin

text \<open>
  The first part of \<open>verify/receipts.go\<close>: receipt key sets, the reason of a run, the receipt document and
  its shape, and the check of a receipt (key, signature, window), with what a genuine receipt is.
\<close>

definition ReceiptVersion :: bytes where
  "ReceiptVersion = lit ''sigilbase-receipt/1''"

definition registryOutcomes :: "bytes list" where
  "registryOutcomes =
     [lit ''accepted'', lit ''replay'', lit ''conflict'', lit ''invalid'', lit ''refused_early'', lit ''refused_late'',
      lit ''refused_scope'', lit ''refused_paused'', lit ''refused_archived'', lit ''throttled'']"

text \<open>The patterns: 64 lowercase hex digits, and a digest of them.\<close>

definition hexLow64 :: "bytes \<Rightarrow> bool" where
  "hexLow64 s \<longleftrightarrow> length s = 64 \<and> list_all (\<lambda>c. 48 \<le> c \<and> c \<le> 57 \<or> 97 \<le> c \<and> c \<le> 102) s"

definition digest_shape :: "bytes \<Rightarrow> bool" where
  "digest_shape s \<longleftrightarrow> has_prefix s (lit ''sha256:'') \<and> hexLow64 (drop 7 s)"

subsection \<open>Receipt keys\<close>

type_synonym receipt_keys = "bytes \<rightharpoonup> receipt_key"

definition bad_key_entry :: "bytes \<Rightarrow> bytes" where
  "bad_key_entry source = source @ lit '' has an entry whose key_id is not the SHA-256 of its public_key''"

text \<open>The bytes of an entry's public key: 64 hex digits of either case.\<close>

definition receipt_key_bytes :: "vopt \<Rightarrow> bytes option" where
  "receipt_key_bytes pk = (if IsString pk \<and> isHex64 (StrOf pk) then hexBytes (StrOf pk) else None)"

fun receipt_entries :: "bytes \<Rightarrow> json list \<Rightarrow> receipt_keys \<Rightarrow> bytes + receipt_keys" where
  "receipt_entries source [] ks = Inr ks"
| "receipt_entries source (entry # es) ks =
     (let pk = Field (Some entry) (lit ''public_key''); keyID = Field (Some entry) (lit ''key_id'')
      in case receipt_key_bytes pk of
           None \<Rightarrow> Inl (bad_key_entry source)
         | Some raw \<Rightarrow>
             if \<not> IsString keyID then Inl (bad_key_entry source)
             else if sha256Hex raw \<noteq> lower (StrOf keyID) then Inl (bad_key_entry source)
             else receipt_entries source es
               (ks(lower (StrOf keyID) \<mapsto>
                  \<lparr>rk_publicKey = lower (StrOf pk), rk_createdAt = Field (Some entry) (lit ''created_at''),
                   rk_retiredAt = Field (Some entry) (lit ''retired_at'')\<rparr>)))"

definition parseReceiptKeySet :: "bytes \<Rightarrow> bytes \<Rightarrow> bytes + receipt_keys" where
  "parseReceiptKeySet data source =
     (let decoded = (case ParseAssoc data of Inl _ \<Rightarrow> None | Inr v \<Rightarrow> Some v);
          list = (if IsObject decoded then Field decoded (lit ''keys'') else None)
      in if \<not> IsArray list \<and> \<not> IsObject list then Inl (source @ lit '' has no \"keys\" list'')
         else receipt_entries source (iterValues list) Map.empty)"

definition LoadReceiptKeyFile :: "bytes \<Rightarrow> bytes option \<Rightarrow> bytes + receipt_keys" where
  "LoadReceiptKeyFile path file =
     (case file of
        None \<Rightarrow> Inl (lit ''--receipt-keys file ['' @ path @ lit ''] does not exist'')
      | Some data \<Rightarrow> parseReceiptKeySet data (lit ''--receipt-keys file ['' @ path @ lit '']''))"

subsection \<open>The reason of a run\<close>

definition setReason :: "bytes \<Rightarrow> run \<Rightarrow> run" where
  "setReason code r = (if reason r = None then r\<lparr>reason := Some code\<rparr> else r)"

definition setUnconfirmedReason :: "bytes \<Rightarrow> run \<Rightarrow> run" where
  "setUnconfirmedReason code r =
     (if unconfirmedReason r = None then r\<lparr>unconfirmedReason := Some code\<rparr> else r)"

definition runReason :: "run \<Rightarrow> bytes option" where
  "runReason r = (if reason r \<noteq> None then reason r else unconfirmedReason r)"

definition reasonFail :: "bytes \<Rightarrow> bytes \<Rightarrow> result_name \<Rightarrow> run \<Rightarrow> run" where
  "reasonFail code message result r = report (code @ lit '': '' @ message) (Some result) (setReason code r)"

text \<open>A check that could not be made, with its code, as the source writes the two calls.\<close>

definition reason_unconfirmed :: "bytes \<Rightarrow> bytes \<Rightarrow> result_name \<Rightarrow> run \<Rightarrow> run" where
  "reason_unconfirmed code message result r =
     unconfirmed (code @ lit '': '' @ message) result (setUnconfirmedReason code r)"

abbreviation reason_content :: "bytes \<Rightarrow> bytes \<Rightarrow> run \<Rightarrow> run" where
  "reason_content code message \<equiv> reasonFail code message ResultContent"

subsection \<open>The receipt document\<close>

record receipt_document =
  rd_body :: vopt
  rd_signature :: bytes

definition unwrap_receipt :: "vopt \<Rightarrow> vopt" where
  "unwrap_receipt decoded =
     (if IsObject decoded \<and> IsObject (Field decoded (lit ''receipt'')) then Field decoded (lit ''receipt'') else decoded)"

definition readReceiptDocument :: "env \<Rightarrow> bytes \<Rightarrow> receipt_document option action" where
  "readReceiptDocument e path =
     (case env_regular e path of
        None \<Rightarrow> stop (hard (lit ''receipt ['' @ path @ lit ''] does not exist'') ExitError)
      | Some data \<Rightarrow>
          (let decoded = unwrap_receipt (decode data); body = Field decoded (lit ''body'');
               signature = Field decoded (lit ''signature'')
           in if \<not> IsObject decoded \<or> \<not> IsObject body \<or> \<not> IsString signature
              then andthen (perform (reason_content (lit ''RECEIPT_SHAPE'')
                     (lit ''receipt ['' @ path @ lit ''] is not a {body, signature} document''))) (\<lambda>_. return None)
              else return (Some \<lparr>rd_body = body, rd_signature = StrOf signature\<rparr>)))"

definition string_or_null :: "vopt \<Rightarrow> json" where
  "string_or_null v = (if IsString v then JString (StrOf v) else JNull)"

definition digest_object :: "vopt \<Rightarrow> bytes option \<Rightarrow> json" where
  "digest_object event commitmentKey =
     JObject
       [(lit ''occurred_at'', JString (text_of (Field event (lit ''occurred_at'')))),
        (lit ''actor'', JString (text_of (Field event (lit ''actor'')))),
        (lit ''action'', JString (text_of (Field event (lit ''action'')))),
        (lit ''resource'', string_or_null (Field event (lit ''resource''))),
        (lit ''payload_sha256'', JString (text_of (Field event (lit ''payload_hash'')))),
        (lit ''commitment_key'', (case commitmentKey of Some k \<Rightarrow> JString k | None \<Rightarrow> JNull))]"

definition requestDigest :: "vopt \<Rightarrow> bytes option \<Rightarrow> bytes" where
  "requestDigest event commitmentKey =
     (case Canonical (Some (digest_object event commitmentKey)) of
        Inl _ \<Rightarrow> [] | Inr canonical \<Rightarrow> lit ''sha256:'' @ sha256Hex canonical)"

definition isDigest :: "vopt \<Rightarrow> bool" where
  "isDigest v \<longleftrightarrow> IsString v \<and> digest_shape (StrOf v)"

definition stringOrNil :: "vopt \<Rightarrow> bytes option" where
  "stringOrNil v = (if \<not> IsString v then None else Some (StrOf v))"

definition hasMember :: "vopt \<Rightarrow> bytes \<Rightarrow> bool" where
  "hasMember v key \<longleftrightarrow> IsObject v \<and> Field v key \<noteq> None"

subsection \<open>The shape of a receipt\<close>

definition problem_if :: "bool \<Rightarrow> string \<Rightarrow> bytes list" where
  "problem_if b message = (if b then [lit message] else [])"

definition accepted_shape :: "vopt \<Rightarrow> bool" where
  "accepted_shape acc \<longleftrightarrow>
     (let seq = Field acc (lit ''sequence''); entry = Field acc (lit ''entry_hash'')
      in IsObject acc \<and> IsInt seq \<and> IntOf seq \<ge> 1 \<and> IsString entry \<and> hexLow64 (StrOf entry) \<and>
         isDigest (Field acc (lit ''request_digest'')))"

definition accepted_problems :: "vopt \<Rightarrow> bytes list" where
  "accepted_problems body =
     (if \<not> hasMember body (lit ''accepted'') then [lit ''accepted is missing'']
      else problem_if (\<not> nullish (Field body (lit ''accepted'')) \<and> \<not> accepted_shape (Field body (lit ''accepted'')))
        ''accepted is neither null nor {sequence, entry_hash, request_digest}'')"

definition optional_problems :: "vopt \<Rightarrow> bytes list" where
  "optional_problems body =
     (let d = Field body (lit ''decision_seq''); c = Field body (lit ''commitment_key'');
          reasons = Field body (lit ''reasons'')
      in problem_if (hasMember body (lit ''decision_seq'') \<and> (\<not> IsInt d \<or> IntOf d < 1))
           ''decision_seq is not a positive integer'' @
         problem_if (hasMember body (lit ''commitment_key'') \<and> \<not> nullish c \<and> \<not> IsString c)
           ''commitment_key is neither a string nor null'' @
         problem_if (hasMember body (lit ''idempotency_key'') \<and> \<not> IsString (Field body (lit ''idempotency_key'')))
           ''idempotency_key is not a string'' @
         problem_if (hasMember body (lit ''policy_hash'') \<and> \<not> isDigest (Field body (lit ''policy_hash'')))
           ''policy_hash is not a sha256: digest'' @
         problem_if (hasMember body (lit ''reasons'') \<and>
             \<not> (IsArray reasons \<and> list_all (\<lambda>x. IsString (Some x)) (ArrOf reasons)))
           ''reasons is not a list of strings'')"

definition time_problems :: "vopt \<Rightarrow> bytes list" where
  "time_problems body =
     (case (parseRFC3339Value (Field body (lit ''received_at'')), parseRFC3339Value (Field body (lit ''seal_by'')),
            parseRFC3339Value (Field body (lit ''signed_at''))) of
        (Some receivedAt, Some _, Some signedAt) \<Rightarrow>
          problem_if (Before signedAt receivedAt) ''signed_at is earlier than received_at''
      | _ \<Rightarrow> [lit ''received_at, seal_by and signed_at are not all RFC 3339 times''])"

definition receiptShapeProblems :: "vopt \<Rightarrow> bytes list" where
  "receiptShapeProblems body =
     (let oc = Field body (lit ''outcome''); k = Field body (lit ''key_id'')
      in (if \<not> strEq (Field body (lit ''v'')) ReceiptVersion then [lit ''v is not '' @ ReceiptVersion] else []) @
         concat (map (\<lambda>field. let v = Field body field
             in if \<not> IsString v \<or> StrOf v = [] then [field @ lit '' is not a non-empty string''] else [])
           [lit ''tenant'', lit ''stream'', lit ''credential'']) @
         problem_if (\<not> IsString oc \<or> StrOf oc \<notin> set registryOutcomes) ''outcome is not one the format names'' @
         problem_if (\<not> isDigest (Field body (lit ''request_digest''))) ''request_digest is not a sha256: digest'' @
         problem_if (\<not> strEq (Field body (lit ''digest_kind'')) (lit ''canonical'') \<and>
             \<not> strEq (Field body (lit ''digest_kind'')) (lit ''raw''))
           ''digest_kind is neither canonical nor raw'' @
         problem_if (\<not> IsString k \<or> \<not> hexLow64 (StrOf k)) ''key_id is not 64 hex characters'' @
         accepted_problems body @ optional_problems body @ time_problems body)"

subsection \<open>Checking a receipt\<close>

definition receipt_message :: "bytes \<Rightarrow> bytes" where
  "receipt_message canonical = ReceiptVersion @ [10] @ canonical"

definition receipt_signed :: "ed_check \<Rightarrow> receipt_key \<Rightarrow> vopt \<Rightarrow> bytes \<Rightarrow> bool" where
  "receipt_signed ed key body signature =
     (case Base64Strict signature of
        None \<Rightarrow> False
      | Some raw \<Rightarrow>
          length raw = 64 \<and>
          (case Canonical body of
             Inl _ \<Rightarrow> False
           | Inr canonical \<Rightarrow> Verify ed (hex_or_empty (rk_publicKey key)) (receipt_message canonical) raw))"

definition outside_window :: "receipt_key \<Rightarrow> time option \<Rightarrow> bool" where
  "outside_window key signedAt \<longleftrightarrow>
     \<not> nullish (rk_createdAt key) \<and>
       (case (parseRFC3339Value (rk_createdAt key), signedAt) of
          (Some createdAt', Some t) \<Rightarrow> Before t createdAt' | _ \<Rightarrow> True) \<or>
     \<not> nullish (rk_retiredAt key) \<and>
       (case (parseRFC3339Value (rk_retiredAt key), signedAt) of
          (Some retiredAt', Some t) \<Rightarrow> \<not> Before t retiredAt' | _ \<Rightarrow> True)"

definition checkReceipt :: "ed_check \<Rightarrow> vopt \<Rightarrow> bytes \<Rightarrow> bytes \<Rightarrow> run \<Rightarrow> bool \<times> run" where
  "checkReceipt ed body signature label r =
     (let problems = receiptShapeProblems body; keyID = StrOf (Field body (lit ''key_id''))
      in if problems \<noteq> []
         then (False, reason_content (lit ''RECEIPT_SHAPE'') (label @ lit '': '' @ join_bytes (lit ''; '') problems) r)
         else case receiptKeys r keyID of
           None \<Rightarrow>
             (False, reason_unconfirmed (lit ''RECEIPT_KEY_UNKNOWN'') (label @ lit '' is signed by receipt key '' @ keyID @
                lit '', which is not in the trusted receipt key set'') ResultIdentity r)
         | Some key \<Rightarrow>
             if \<not> receipt_signed ed key body signature
             then (False, reason_content (lit ''RECEIPT_SIGNATURE'')
                (label @ lit '': the signature does not verify against receipt key '' @ keyID) r)
             else if outside_window key (parseRFC3339Value (Field body (lit ''signed_at'')))
             then (False, reasonFail (lit ''RECEIPT_KEY_WINDOW'') (label @ lit '': signed at '' @
                text_of (Field body (lit ''signed_at'')) @ lit '', outside receipt key '' @ keyID @
                lit '''s active window'') ResultIdentity r)
             else (True, r))"

subsection \<open>A run with a reason\<close>

lemma grows_setReason [simp]: "grows r (setReason code r)" "grows r (setUnconfirmedReason code r)"
  by (simp_all add: setReason_def setUnconfirmedReason_def grows_def)

lemma grows_reasonFail [simp]: "grows r (reasonFail code message k r)" "grows r (reason_unconfirmed code message k r)"
  unfolding reasonFail_def reason_unconfirmed_def
  by (rule grows_trans [OF grows_setReason(1) grows_report], rule grows_trans [OF grows_setReason(2) grows_unconfirmed])

lemmas grows_reason [grow] =
  grows_trans [OF _ grows_setReason(1)] grows_trans [OF _ grows_setReason(2)]
  grows_trans [OF _ grows_reasonFail(1)] grows_trans [OF _ grows_reasonFail(2)]

text \<open>What a reason does not change, and what a failure or an open check does.\<close>

lemma reason_results [simp]:
  "results (setReason code r) = results r" "results (setUnconfirmedReason code r) = results r"
  "results (reasonFail code message k r) = demote k StateFail (results r)"
  "results (reason_unconfirmed code message k r) = demote k StateUnconfirmed (results r)"
  by (simp_all add: setReason_def setUnconfirmedReason_def reasonFail_def reason_unconfirmed_def report_def unconfirmed_def)

lemma runReason_first:
  "runReason (reasonFail code message k r) = Some (case reason r of Some c \<Rightarrow> c | None \<Rightarrow> code)"
  by (auto simp: runReason_def reasonFail_def report_def setReason_def split: option.split)

subsection \<open>Key sets name their keys\<close>

lemma hexNibble_lower [simp]: "hexNibble (lower_byte c) = hexNibble c"
proof (cases "65 \<le> c \<and> c \<le> 90")
  case True
  then have c: "65 \<le> unat c" "unat c \<le> 90" by (simp_all add: word_le_nat_alt)
  have "unat (c + 32) = (unat c + 32) mod 256" by (simp add: unat_word_ariths)
  also have "\<dots> = unat c + 32" using c(2) by (intro mod_less) linarith
  finally have u: "unat (c + 32) = unat c + 32" .
  show ?thesis using True c by (auto simp: hexNibble_def lower_byte_def word_le_nat_alt u simp del: unat_plus_simple)
qed (auto simp: lower_byte_def)

lemma hexBytes_lower [simp]: "hexBytes (lower s) = hexBytes s"
  by (induction s rule: hexBytes.induct) (simp_all add: lower_def)

text \<open>Every key of the set is 32 bytes and is filed under the SHA-256 of them.\<close>

definition keys_named :: "receipt_keys \<Rightarrow> bool" where
  "keys_named ks \<longleftrightarrow>
     (\<forall>kid k. ks kid = Some k \<longrightarrow>
        (\<exists>raw. hexBytes (rk_publicKey k) = Some raw \<and> length raw = 32 \<and> kid = sha256Hex raw))"

lemma receipt_entries_named:
  "receipt_entries source es ks = Inr ks' \<Longrightarrow> keys_named ks \<Longrightarrow> keys_named ks'"
proof (induction source es ks rule: receipt_entries.induct)
  case (2 source entry es ks)
  let ?pk = "Field (Some entry) (lit ''public_key'')" and ?kid = "Field (Some entry) (lit ''key_id'')"
  from 2(2) obtain raw where raw: "receipt_key_bytes ?pk = Some raw" "IsString ?kid" "sha256Hex raw = lower (StrOf ?kid)"
    by (auto simp: Let_def split: option.splits if_splits)
  let ?k = "\<lparr>rk_publicKey = lower (StrOf ?pk), rk_createdAt = Field (Some entry) (lit ''created_at''),
    rk_retiredAt = Field (Some entry) (lit ''retired_at'')\<rparr>"
  have "isHex64 (StrOf ?pk)" and hex: "hexBytes (StrOf ?pk) = Some raw"
    using raw(1) by (auto simp: receipt_key_bytes_def split: if_splits)
  then have "length raw = 32" using length_hexBytes [OF hex] by (simp add: isHex64_def)
  with hex raw(3) 2(3) have named: "keys_named (ks(lower (StrOf ?kid) \<mapsto> ?k))" by (simp add: keys_named_def)
  have rest: "receipt_entries source es (ks(lower (StrOf ?kid) \<mapsto> ?k)) = Inr ks'" using 2(2) raw by (simp add: Let_def)
  show ?case by (rule 2(1) [OF refl refl raw(1) _ _ rest named]) (use raw in simp_all)
qed simp

lemma parseReceiptKeySet_named: "parseReceiptKeySet data source = Inr ks \<Longrightarrow> keys_named ks"
  unfolding parseReceiptKeySet_def Let_def
  by (auto split: if_splits intro: receipt_entries_named simp: keys_named_def [of Map.empty])

subsection \<open>What a genuine receipt is\<close>

text \<open>The fields of a receipt as the format has them.\<close>

definition optional_field :: "(vopt \<Rightarrow> bool) \<Rightarrow> vopt \<Rightarrow> bytes \<Rightarrow> bool" where
  "optional_field ok body key \<longleftrightarrow> hasMember body key \<longrightarrow> ok (Field body key)"

definition receipt_times :: "vopt \<Rightarrow> bool" where
  "receipt_times body \<longleftrightarrow>
     (\<exists>receivedAt sealBy signedAt.
        parseRFC3339Value (Field body (lit ''received_at'')) = Some receivedAt \<and>
        parseRFC3339Value (Field body (lit ''seal_by'')) = Some sealBy \<and>
        parseRFC3339Value (Field body (lit ''signed_at'')) = Some signedAt \<and> receivedAt \<le> signedAt)"

definition well_formed_receipt :: "vopt \<Rightarrow> bool" where
  "well_formed_receipt body \<longleftrightarrow>
     strEq (Field body (lit ''v'')) ReceiptVersion \<and>
     (\<forall>field \<in> {lit ''tenant'', lit ''stream'', lit ''credential''}.
        IsString (Field body field) \<and> StrOf (Field body field) \<noteq> []) \<and>
     (\<exists>oc \<in> set registryOutcomes. strEq (Field body (lit ''outcome'')) oc) \<and>
     isDigest (Field body (lit ''request_digest'')) \<and>
     (strEq (Field body (lit ''digest_kind'')) (lit ''canonical'') \<or> strEq (Field body (lit ''digest_kind'')) (lit ''raw'')) \<and>
     IsString (Field body (lit ''key_id'')) \<and> hexLow64 (StrOf (Field body (lit ''key_id''))) \<and>
     hasMember body (lit ''accepted'') \<and>
     (nullish (Field body (lit ''accepted'')) \<or> accepted_shape (Field body (lit ''accepted''))) \<and>
     optional_field (\<lambda>d. IsInt d \<and> IntOf d \<ge> 1) body (lit ''decision_seq'') \<and>
     optional_field (\<lambda>c. nullish c \<or> IsString c) body (lit ''commitment_key'') \<and>
     optional_field IsString body (lit ''idempotency_key'') \<and> optional_field isDigest body (lit ''policy_hash'') \<and>
     optional_field (\<lambda>v. IsArray v \<and> (\<forall>x \<in> set (ArrOf v). IsString (Some x))) body (lit ''reasons'') \<and>
     receipt_times body"

lemma problem_if_Nil [simp]: "problem_if b m = [] \<longleftrightarrow> \<not> b"
  by (simp add: problem_if_def)

lemma time_problems_none: "time_problems body = [] \<longleftrightarrow> receipt_times body"
  by (auto simp: time_problems_def receipt_times_def Before_def split: option.splits)

lemma optional_problems_none:
  "optional_problems body = [] \<longleftrightarrow>
     optional_field (\<lambda>d. IsInt d \<and> IntOf d \<ge> 1) body (lit ''decision_seq'') \<and>
     optional_field (\<lambda>c. nullish c \<or> IsString c) body (lit ''commitment_key'') \<and>
     optional_field IsString body (lit ''idempotency_key'') \<and> optional_field isDigest body (lit ''policy_hash'') \<and>
     optional_field (\<lambda>v. IsArray v \<and> (\<forall>x \<in> set (ArrOf v). IsString (Some x))) body (lit ''reasons'')"
  by (auto simp: optional_problems_def optional_field_def Let_def list_all_iff)

lemma accepted_problems_none:
  "accepted_problems body = [] \<longleftrightarrow> hasMember body (lit ''accepted'') \<and>
     (nullish (Field body (lit ''accepted'')) \<or> accepted_shape (Field body (lit ''accepted'')))"
  by (auto simp: accepted_problems_def)

lemma receiptShapeProblems_none: "receiptShapeProblems body = [] \<longleftrightarrow> well_formed_receipt body"
  by (simp add: receiptShapeProblems_def Let_def well_formed_receipt_def time_problems_none optional_problems_none
      accepted_problems_none strEq_def) (auto split: if_splits)

text \<open>Signed by a key of the set, over the canonical body, while the key was active.\<close>

definition active_at :: "receipt_key \<Rightarrow> time \<Rightarrow> bool" where
  "active_at key t \<longleftrightarrow>
     (nullish (rk_createdAt key) \<or> (\<exists>c. parseRFC3339Value (rk_createdAt key) = Some c \<and> c \<le> t)) \<and>
     (nullish (rk_retiredAt key) \<or> (\<exists>e. parseRFC3339Value (rk_retiredAt key) = Some e \<and> t < e))"

definition genuine :: "ed_check \<Rightarrow> receipt_keys \<Rightarrow> vopt \<Rightarrow> bytes \<Rightarrow> bool" where
  "genuine ed ks body signature \<longleftrightarrow>
     well_formed_receipt body \<and>
     (\<exists>key raw canonical signedAt.
        ks (StrOf (Field body (lit ''key_id''))) = Some key \<and> Base64Strict signature = Some raw \<and> length raw = 64 \<and>
        Canonical body = Inr canonical \<and>
        Verify ed (hex_or_empty (rk_publicKey key)) (ReceiptVersion @ [10] @ canonical) raw \<and>
        parseRFC3339Value (Field body (lit ''signed_at'')) = Some signedAt \<and> active_at key signedAt)"

lemma outside_window_active: "outside_window key (Some t) \<longleftrightarrow> \<not> active_at key t"
  by (auto simp: outside_window_def active_at_def Before_def split: option.splits)

lemma receipt_signed_iff:
  "receipt_signed ed key body signature \<longleftrightarrow>
     (\<exists>raw canonical. Base64Strict signature = Some raw \<and> length raw = 64 \<and> Canonical body = Inr canonical \<and>
        Verify ed (hex_or_empty (rk_publicKey key)) (ReceiptVersion @ [10] @ canonical) raw)"
  by (auto simp: receipt_signed_def receipt_message_def split: option.splits sum.splits)

text \<open>The check accepts exactly the genuine receipts, and leaves the run as it was.\<close>

lemma checkReceipt_true:
  "checkReceipt ed body signature label r = (True, r') \<longleftrightarrow> r' = r \<and> genuine ed (receiptKeys r) body signature"
proof -
  have "well_formed_receipt body \<Longrightarrow> \<exists>t. parseRFC3339Value (Field body (lit ''signed_at'')) = Some t"
    by (auto simp: well_formed_receipt_def receipt_times_def)
  then show ?thesis
    by (auto simp: checkReceipt_def Let_def receiptShapeProblems_none genuine_def receipt_signed_iff outside_window_active
        split: option.splits if_splits)
qed

text \<open>A receipt that is not accepted leaves a failure, or an open question about its key.\<close>

lemma grows_checkReceipt: "grows r (snd (checkReceipt ed body signature label r))"
  by (auto simp: checkReceipt_def Let_def split: option.split)

lemma clean_reason [simp]:
  "clean_for k (reasonFail code message j r) \<longleftrightarrow> clean_for k r \<and> k \<noteq> j"
  "clean_for k (reason_unconfirmed code message j r) \<longleftrightarrow> clean_for k r \<and> k \<noteq> j"
  "clean_for k (setReason code r) = clean_for k r"
  by (cases "results r k"; auto simp: clean_for_def demote_max max_def less_eq_result_state_def split: if_splits)+

lemma sound_reason [simp]:
  "sound_for k (reasonFail code message j r) \<longleftrightarrow> sound_for k r \<and> k \<noteq> j"
  "sound_for k (reason_unconfirmed code message j r) \<longleftrightarrow> sound_for k r"
  "sound_for k (setReason code r) = sound_for k r"
  by (cases "results r k"; auto simp: sound_for_def demote_max max_def less_eq_result_state_def split: if_splits)+

lemma checkReceipt_clean:
  assumes "checkReceipt ed body signature label r = (b, r')" "clean_for ResultContent r'" "clean_for ResultIdentity r'"
  shows "b"
  using assms by (auto simp: checkReceipt_def Let_def split: option.splits if_splits)

end
