(* ===== verification/Receipt_Mode.thy ===== *)
theory Receipt_Mode
  imports Receipts
begin

text \<open>
  \<open>verify/receipts.go\<close>, continued: a verified bundle read back (\<open>loadVerifiedBundle\<close>), the receipt against
  the records it names (\<open>checkReceiptSubject\<close>) and the mode \<open>Receipt\<close>.
\<close>

subsection \<open>Verified bundles, read back\<close>

record verified_checkpoint =
  vc_from :: int
  vc_to :: int
  vc_createdAt :: bytes

record verified_bundle =
  vb_manifest :: vopt
  vb_events :: "int \<rightharpoonup> json"
  vb_order :: "int list"
  vb_checkpoints :: "verified_checkpoint list"
  vb_anchoredAt :: "int option"

definition vb_event :: "verified_bundle option \<Rightarrow> int \<Rightarrow> vopt" where
  "vb_event view seq = (case view of None \<Rightarrow> None | Some v \<Rightarrow> vb_events v seq)"

text \<open>One line: a later event of the same sequence replaces the earlier one, in its place.\<close>

definition view_line :: "int \<Rightarrow> bytes \<Rightarrow> (int \<rightharpoonup> json) \<times> int list \<Rightarrow> (int \<rightharpoonup> json) \<times> int list" where
  "view_line n line s =
     (case (s, decode line) of
        ((events, order), Some event) \<Rightarrow>
          (let seqV = Field (Some event) (lit ''seq''); seq = IntOf seqV
           in if \<not> IsObject (Some event) \<or> \<not> IsInt seqV then s
              else (events(seq \<mapsto> event), if events seq = None then order @ [seq] else order))
      | (_, None) \<Rightarrow> s)"

definition view_events :: "bytes \<Rightarrow> ((int \<rightharpoonup> json) \<times> int list) \<times> lines" where
  "view_events f = for_lines view_line (NewLines f) (Map.empty, [])"

definition view_checkpoints :: "vopt \<Rightarrow> verified_checkpoint list" where
  "view_checkpoints doc =
     (if IsObject doc
      then map (\<lambda>cp. \<lparr>vc_from = intCast (Field (Some cp) (lit ''from'')), vc_to = intCast (Field (Some cp) (lit ''to'')),
             vc_createdAt = text_of (Field (Some cp) (lit ''created_at''))\<rparr>)
           (filter (\<lambda>cp. IsObject (Some cp)) (iterValues (Field doc (lit ''checkpoints''))))
      else [])"

definition object_or_empty :: "vopt \<Rightarrow> vopt" where
  "object_or_empty doc = (if IsObject doc then doc else Some (JObject []))"

definition load_view :: "reader \<Rightarrow> verified_bundle action" where
  "load_view b =
     andthen (lift (readRequired b (lit ''manifest.json''))) (\<lambda>manifestBytes.
     andthen (require (IsFile b (lit ''events.ndjson'')) (lit ''could not read [events.ndjson]'') 1) (\<lambda>_.
     andthen (lift (Open_file b (lit ''events.ndjson''))) (\<lambda>f.
     andthen (require (l_err (snd (view_events f)) = None) (lit ''could not read [events.ndjson]'') 1) (\<lambda>_.
     andthen (lift (readRequired b (lit ''checkpoints.json''))) (\<lambda>checkpointBytes.
     return \<lparr>vb_manifest = object_or_empty (decode manifestBytes), vb_events = fst (fst (view_events f)),
       vb_order = snd (fst (view_events f)), vb_checkpoints = view_checkpoints (decode checkpointBytes),
       vb_anchoredAt = None\<rparr>)))))"

definition loadVerifiedBundle :: "(bytes \<Rightarrow> path_kind) \<Rightarrow> bytes \<Rightarrow> verified_bundle action" where
  "loadVerifiedBundle os target = andthen (lift (Open_bundle os target)) load_view"

definition named_id :: "vopt \<Rightarrow> bytes \<Rightarrow> bytes option" where
  "named_id manifest key =
     (let s = Field manifest key
      in if IsObject s \<and> IsString (Field s (lit ''public_id'')) then Some (StrOf (Field s (lit ''public_id''))) else None)"

definition manifestPublicID :: "vopt \<Rightarrow> bytes option" where
  "manifestPublicID manifest = named_id manifest (lit ''stream'')"

definition manifestLogFor :: "vopt \<Rightarrow> bytes option" where
  "manifestLogFor manifest = named_id manifest (lit ''decision_log_for'')"

text \<open>Whether the first checkpoint over a sequence was in time; \<open>None\<close> when there is none.\<close>

fun sealedByDeadline :: "verified_checkpoint list \<Rightarrow> int \<Rightarrow> bytes \<Rightarrow> bool option" where
  "sealedByDeadline [] sequence sealBy = None"
| "sealedByDeadline (cp # cps) sequence sealBy =
     (if vc_from cp \<le> sequence \<and> sequence \<le> vc_to cp
      then Some (case (ParseRFC3339 (vc_createdAt cp), ParseRFC3339 sealBy) of
             (Some created, Some deadline) \<Rightarrow> \<not> After created deadline | _ \<Rightarrow> False)
      else sealedByDeadline cps sequence sealBy)"

subsection \<open>The records a receipt names\<close>

definition decision_fields :: "bytes list" where
  "decision_fields =
     [lit ''outcome'', lit ''request_digest'', lit ''digest_kind'', lit ''credential'', lit ''commitment_key'', lit ''policy_hash'']"

definition decisionRecordDifferences :: "vopt \<Rightarrow> vopt \<Rightarrow> bytes list" where
  "decisionRecordDifferences record' body =
     (let differences = (if \<not> strEq (Field record' (lit ''action'')) (lit ''ingress.'' @ text_of (Field body (lit ''outcome'')))
            then [lit ''action''] else []);
          payload = Field record' (lit ''payload'')
      in if \<not> IsObject payload then differences @ [lit ''payload'']
         else differences @ filter (\<lambda>field. \<not> strictEqual (Field payload field) (Field body field)) decision_fields @
           (if text_of (Field record' (lit ''received_at'')) \<noteq> text_of (Field body (lit ''received_at''))
            then [lit ''received_at''] else []))"

text \<open>What was checked, what could not be, and the run.\<close>

type_synonym subject = "bool \<times> bool \<times> run"

abbreviation subject_fail :: "bytes \<Rightarrow> run \<Rightarrow> run" where
  "subject_fail \<equiv> reason_content (lit ''RECEIPT_SUBJECT'')"

definition subject_decision :: "vopt \<Rightarrow> verified_bundle option \<Rightarrow> subject \<Rightarrow> subject" where
  "subject_decision body log' s =
     (case s of (checked, unchecked, r) \<Rightarrow>
        let d = Field body (lit ''decision_seq''); n = IntOf d
        in if \<not> IsInt d then s
           else case vb_event log' n of
             None \<Rightarrow> (checked, True, note_msg (lit ''the decision record at sequence '' @ int_text n @
               lit '' is not in a bundle given; not checked'') r)
           | Some record' \<Rightarrow>
               let differences = decisionRecordDifferences (Some record') body
               in (True, unchecked, whenever (differences \<noteq> []) (subject_fail (lit ''the decision record at sequence '' @
                    int_text n @ lit '' differs from the receipt in: '' @ join_bytes (lit '', '') differences)) r))"

definition subject_event_problem :: "vopt \<Rightarrow> vopt \<Rightarrow> int \<Rightarrow> bytes option" where
  "subject_event_problem body event seq =
     (let acc = Field body (lit ''accepted'')
      in if text_of (Field event (lit ''entry_hash'')) \<noteq> StrOf (Field acc (lit ''entry_hash''))
         then Some (lit ''the event at sequence '' @ int_text seq @ lit '' does not carry the entry hash the receipt names'')
         else if requestDigest event (stringOrNil (Field body (lit ''commitment_key''))) \<noteq> StrOf (Field acc (lit ''request_digest''))
         then Some (lit ''the event at sequence '' @ int_text seq @ lit '' does not have the request digest the receipt names'')
         else if strEq (Field body (lit ''outcome'')) (lit ''accepted'') \<and>
             text_of (Field event (lit ''received_at'')) \<noteq> text_of (Field body (lit ''received_at''))
         then Some (lit ''the accepted event at sequence '' @ int_text seq @
           lit '' was received at a different time from the receipt's'')
         else None)"

definition subject_event :: "vopt \<Rightarrow> verified_bundle option \<Rightarrow> subject \<Rightarrow> subject" where
  "subject_event body stream s =
     (case s of (checked, unchecked, r) \<Rightarrow>
        let acc = Field body (lit ''accepted''); seq = IntOf (Field acc (lit ''sequence''))
        in if nullish acc then s
           else case vb_event stream seq of
             None \<Rightarrow> (checked, True, note_msg (lit ''the event at sequence '' @ int_text seq @
               lit '' is not in a bundle given; not checked'') r)
           | Some event \<Rightarrow>
               (True, unchecked,
                (case subject_event_problem body (Some event) seq of None \<Rightarrow> r | Some message \<Rightarrow> subject_fail message r)))"

text \<open>
  Whose seal the deadline is: the accepted event's for an acceptance, and for a replay without a decision
  record; the decision record's otherwise.
\<close>

definition deadline_on_event :: "vopt \<Rightarrow> bool" where
  "deadline_on_event body \<longleftrightarrow>
     (let oc = text_of (Field body (lit ''outcome''))
      in \<not> nullish (Field body (lit ''accepted'')) \<and>
         (oc = lit ''accepted'' \<or> oc = lit ''replay'' \<and> \<not> IsInt (Field body (lit ''decision_seq''))))"

definition deadline_of :: "vopt \<Rightarrow> verified_bundle option \<Rightarrow> verified_bundle option \<Rightarrow> verified_bundle option \<times> vopt" where
  "deadline_of body stream log' =
     (if deadline_on_event body then (stream, Field (Field body (lit ''accepted'')) (lit ''sequence''))
      else (log', Field body (lit ''decision_seq'')))"

definition subject_deadline ::
    "vopt \<Rightarrow> verified_bundle option \<Rightarrow> verified_bundle option \<Rightarrow> subject \<Rightarrow> subject" where
  "subject_deadline body stream log' s =
     (case (s, deadline_of body stream log') of ((checked, unchecked, r), view, sequence) \<Rightarrow>
        let n = IntOf sequence; sealBy = text_of (Field body (lit ''seal_by''))
        in case view of
             None \<Rightarrow> s
           | Some v \<Rightarrow>
               if \<not> IsInt sequence \<or> vb_events v n = None then s
               else case sealedByDeadline (vb_checkpoints v) n sealBy of
                 None \<Rightarrow> (checked, True, note_msg (lit ''no checkpoint in the bundle seals sequence '' @ int_text n @
                   lit ''; the seal deadline is not checked'') r)
               | Some sealed' \<Rightarrow>
                   (checked, unchecked, whenever (\<not> sealed') (reason_content (lit ''MSD_BREACH'')
                     (lit ''sequence '' @ int_text n @ lit '' was sealed by a checkpoint signed after seal_by '' @ sealBy)) r))"

definition subject_steps :: "vopt \<Rightarrow> verified_bundle option \<Rightarrow> verified_bundle option \<Rightarrow> run \<Rightarrow> subject" where
  "subject_steps body stream log' r =
     subject_deadline body stream log' (subject_event body stream (subject_decision body log' (False, False, r)))"

definition checkReceiptSubject ::
    "vopt \<Rightarrow> verified_bundle option \<Rightarrow> verified_bundle option \<Rightarrow> run \<Rightarrow> bytes \<times> run" where
  "checkReceiptSubject body stream log' r =
     (case subject_steps body stream log' r of
        (checked, unchecked, r') \<Rightarrow> (if checked \<and> \<not> unchecked then lit ''checked'' else lit ''not_checked'', r'))"

subsection \<open>The receipt mode\<close>

record receipt_views =
  rv_bundles :: "bundle_info list"
  rv_stream :: "verified_bundle option"
  rv_log :: "verified_bundle option"

definition view_for :: "vopt \<Rightarrow> bytes \<Rightarrow> receipt_views \<Rightarrow> verified_bundle \<Rightarrow> receipt_views action" where
  "view_for streamID target vs view =
     (if IsString streamID \<and> manifestLogFor (vb_manifest view) = Some (StrOf streamID)
      then return (vs\<lparr>rv_log := Some view\<rparr>)
      else if IsString streamID \<and> manifestPublicID (vb_manifest view) = Some (StrOf streamID)
      then return (vs\<lparr>rv_stream := Some view\<rparr>)
      else stop (hard (lit ''bundle ['' @ target @
        lit ''] is neither the receipt's stream nor its decision log (no matching public_id)'') ExitError))"

text \<open>The bundle verified, and whether that reported a failure.\<close>

definition verify_target :: "env \<Rightarrow> bool \<Rightarrow> bytes \<Rightarrow> (bundle_result \<times> bool) action" where
  "verify_target e skipAnchors target =
     andthen (perform (info (lit ''=== Bundle: '' @ target @ lit '' ==='')))  (\<lambda>_.
     andthen (compute (\<lambda>r. (length (failures r), r))) (\<lambda>before.
     andthen (verifyBundle (env_crypto e) (env_os e) target skipAnchors no_walk_options) (\<lambda>br.
     compute (\<lambda>r. ((br, length (failures r) > before), r)))))"

definition use_target :: "env \<Rightarrow> vopt \<Rightarrow> bytes \<Rightarrow> receipt_views \<Rightarrow> bool \<Rightarrow> receipt_views action" where
  "use_target e streamID target vs failed =
     (if failed
      then andthen (perform (\<lambda>r. note_msg (lit ''bundle ['' @ target @
             lit ''] does not verify; the receipt is not checked against it'') (setReason (lit ''BUNDLE'') r)))
             (\<lambda>_. return vs)
      else andthen (loadVerifiedBundle (env_os e) target) (view_for streamID target vs))"

definition receipt_bundle :: "env \<Rightarrow> bool \<Rightarrow> vopt \<Rightarrow> bytes \<Rightarrow> receipt_views \<Rightarrow> receipt_views action" where
  "receipt_bundle e skipAnchors streamID target vs =
     andthen (verify_target e skipAnchors target) (\<lambda>(br, failed).
       use_target e streamID target (vs\<lparr>rv_bundles := rv_bundles vs @ [short_info target br]\<rparr>) failed)"

fun receipt_bundles :: "env \<Rightarrow> bool \<Rightarrow> vopt \<Rightarrow> bytes list \<Rightarrow> receipt_views \<Rightarrow> receipt_views action" where
  "receipt_bundles e skipAnchors streamID [] vs = return vs"
| "receipt_bundles e skipAnchors streamID (t # ts) vs =
     andthen (receipt_bundle e skipAnchors streamID t vs) (receipt_bundles e skipAnchors streamID ts)"

definition summary_of :: "vopt \<Rightarrow> bytes \<Rightarrow> receipt_summary" where
  "summary_of body subject' =
     \<lparr>rs_KeyID = stringOrNil (Field body (lit ''key_id'')), rs_Stream = stringOrNil (Field body (lit ''stream'')),
      rs_Outcome = stringOrNil (Field body (lit ''outcome'')),
      rs_DecisionSeq = (if IsInt (Field body (lit ''decision_seq'')) then Some (IntOf (Field body (lit ''decision_seq''))) else None),
      rs_ReceivedAt = stringOrNil (Field body (lit ''received_at'')),
      rs_SealBy = stringOrNil (Field body (lit ''seal_by'')), rs_Subject = subject'\<rparr>"

definition judge_receipt ::
    "ed_check \<Rightarrow> receipt_document option \<Rightarrow> bool \<Rightarrow> receipt_views \<Rightarrow> run \<Rightarrow> receipt_summary option \<times> run" where
  "judge_receipt ed doc withBundles vs r =
     (case doc of
        None \<Rightarrow> (None, r)
      | Some d \<Rightarrow>
          (case checkReceipt ed (rd_body d) (rd_signature d) (lit ''the receipt'') r of
             (ok, r1) \<Rightarrow>
               if ok \<and> withBundles
               then (case checkReceiptSubject (rd_body d) (rv_stream vs) (rv_log vs) r1 of
                  (subject', r2) \<Rightarrow> (Some (summary_of (rd_body d) subject'), r2))
               else (Some (summary_of (rd_body d) (lit ''not_checked'')), r1)))"

definition document_stream :: "receipt_document option \<Rightarrow> vopt" where
  "document_stream doc = (case doc of None \<Rightarrow> None | Some d \<Rightarrow> Field (rd_body d) (lit ''stream''))"

definition receipt_run ::
    "env \<Rightarrow> bytes \<Rightarrow> bytes list \<Rightarrow> bool \<Rightarrow> (receipt_views \<times> receipt_summary option) action" where
  "receipt_run e receiptPath targets skipAnchors =
     andthen (readReceiptDocument e receiptPath) (\<lambda>doc.
     andthen (receipt_bundles e skipAnchors (document_stream doc) targets
       \<lparr>rv_bundles = [], rv_stream = None, rv_log = None\<rparr>) (\<lambda>vs.
     andthen (perform (info (lit ''Checking the receipt...''))) (\<lambda>_.
     andthen (compute (judge_receipt (cr_ed (env_crypto e)) doc (targets \<noteq> []) vs)) (\<lambda>summary.
     return (vs, summary)))))"

definition Receipt :: "env \<Rightarrow> bytes \<Rightarrow> bytes list \<Rightarrow> options \<Rightarrow> verdict option" where
  "Receipt e receiptPath targets opts =
     (let r = newRun (env_embedded e) opts;
          rep = (newReport e opts (lit ''receipt'') targets)
            \<lparr>vd_ReceiptPath := receiptPath, vd_ReceiptKeysSource := receiptKeysSource r\<rparr>
      in conclude rep r (receipt_run e receiptPath targets (opt_SkipAnchors opts))
           (\<lambda>(vs, summary) r'. finish r'
              (rep\<lparr>vd_Receipt := summary, vd_Bundles := rv_bundles vs, vd_Reason := runReason r'\<rparr>) (exitCode (results r'))))"

end
