(* ===== verification/Registry.thy ===== *)
theory Registry
  imports Receipt_Mode
begin

text \<open>
  \<open>verify/receipts.go\<close>, continued: \<open>readRegistryLog\<close>, which reads a registry's decision log in order and
  collects its policies with their windows, its acceptances, decisions and window closes, its counts and the
  problems that depend on the order. An instant that did not parse is \<open>None\<close>.
\<close>

subsection \<open>Counts\<close>

text \<open>A count per name in first-appearance order, and one per credential.\<close>

definition count_add :: "bytes \<Rightarrow> (bytes \<times> int) list \<Rightarrow> (bytes \<times> int) list" where
  "count_add key c = AList.update key (lookup_or 0 (map_of c) key + 1) c"

definition credential_add ::
    "bytes \<Rightarrow> bytes \<Rightarrow> (bytes \<times> (bytes \<times> int) list) list \<Rightarrow> (bytes \<times> (bytes \<times> int) list) list" where
  "credential_add credential outcome c =
     AList.update credential (count_add outcome (lookup_or [] (map_of c) credential)) c"

definition no_counts :: reconcile_counts where
  "no_counts = \<lparr>rc_Decisions = 0, rc_Outcomes = [], rc_Credentials = []\<rparr>"

definition count_decision :: "bytes \<Rightarrow> bytes \<Rightarrow> reconcile_counts \<Rightarrow> reconcile_counts" where
  "count_decision credential outcome c =
     \<lparr>rc_Decisions = rc_Decisions c + 1, rc_Outcomes = count_add outcome (rc_Outcomes c),
      rc_Credentials = credential_add credential outcome (rc_Credentials c)\<rparr>"

subsection \<open>What the log tells\<close>

record registry_policy =
  pl_version :: int
  pl_sequence :: int
  pl_hash :: bytes
  pl_effectiveAt :: "time option"
  pl_action :: bytes
  pl_recordedAt :: "time option"
  pl_rules :: vopt
  pl_count :: vopt
  pl_parts :: vopt
  pl_windows :: "json list"

record registry_acceptance =
  ra_sequence :: int
  ra_record :: vopt
  ra_payload :: vopt
  ra_receivedAt :: "time option"
  ra_key :: "bytes option"

record registry_decision =
  rg_sequence :: int
  rg_outcome :: bytes
  rg_payload :: vopt
  rg_receivedAt :: "time option"
  rg_status :: bytes

record registry_close =
  rx_sequence :: int
  rx_payload :: vopt

record registry_log =
  rl_policies :: "registry_policy list"
  rl_policyByVer :: "int \<rightharpoonup> registry_policy"
  rl_accepted :: "registry_acceptance list"
  rl_decisions :: "registry_decision list"
  rl_closes :: "registry_close list"
  rl_counts :: reconcile_counts
  rl_problems :: "bytes \<Rightarrow> bytes list"
  rl_lastReceived :: "time option"

text \<open>The reading of the log: with the window parts so far, who may submit, the registry's state and the run.\<close>

record log_reading = registry_log +
  lg_parts :: "int \<Rightarrow> json list list"
  lg_credentials :: "bytes \<rightharpoonup> vopt"
  lg_status :: bytes
  lg_run :: run

definition start_reading :: "run \<Rightarrow> log_reading" where
  "start_reading r =
     \<lparr>rl_policies = [], rl_policyByVer = Map.empty, rl_accepted = [], rl_decisions = [], rl_closes = [],
      rl_counts = no_counts, rl_problems = (\<lambda>_. []), rl_lastReceived = None,
      lg_parts = (\<lambda>_. []), lg_credentials = Map.empty, lg_status = lit ''active'', lg_run = r\<rparr>"

definition log_fail :: "bytes \<Rightarrow> bytes \<Rightarrow> log_reading \<Rightarrow> log_reading" where
  "log_fail code message st = st\<lparr>rl_problems := (rl_problems st)(code := rl_problems st code @ [message])\<rparr>"

abbreviation policy_problem :: "bytes \<Rightarrow> log_reading \<Rightarrow> log_reading" where
  "policy_problem \<equiv> log_fail (lit ''POLICY_HASH'')"

abbreviation credential_problem :: "bytes \<Rightarrow> log_reading \<Rightarrow> log_reading" where
  "credential_problem \<equiv> log_fail (lit ''CREDENTIAL_NOT_VALID'')"

definition is_ingress :: "bytes \<Rightarrow> bool" where
  "is_ingress action' \<longleftrightarrow> has_prefix action' (lit ''ingress.'')"

definition ingress_outcome :: "bytes \<Rightarrow> bytes" where
  "ingress_outcome action' = drop 8 action'"

definition status_after :: "bytes \<Rightarrow> bytes \<Rightarrow> bytes" where
  "status_after action' status =
     (if action' = lit ''stream.paused'' then lit ''paused''
      else if action' = lit ''stream.resumed'' then lit ''active''
      else if action' = lit ''stream.archived'' then lit ''archived'' else status)"

text \<open>What every record does, whatever it is: its time, the registry's state, the counts.\<close>

definition note_record :: "vopt \<Rightarrow> log_reading \<Rightarrow> log_reading" where
  "note_record record' st =
     (let action' = text_of (Field record' (lit ''action'')); payload = Field record' (lit ''payload'');
          st1 = (case parseRFC3339Value (Field record' (lit ''received_at'')) of
             None \<Rightarrow> st | Some t \<Rightarrow> st\<lparr>rl_lastReceived := Some t\<rparr>);
          st2 = st1\<lparr>lg_status := status_after action' (lg_status st1)\<rparr>;
          credential = (if IsObject payload then text_of (Field payload (lit ''credential'')) else [])
      in if is_ingress action'
         then st2\<lparr>rl_counts := count_decision credential (ingress_outcome action') (rl_counts st2)\<rparr> else st2)"

definition absent_payload :: "int \<Rightarrow> bytes \<Rightarrow> log_reading \<Rightarrow> log_reading" where
  "absent_payload sequence action' st =
     st\<lparr>lg_run := whenever (is_ingress action' \<or> has_prefix action' (lit ''policy.'') \<or> has_prefix action' (lit ''credential''))
       (note_msg (lit ''decision record '' @ int_text sequence @ lit '' ('' @ action' @
          lit '') has no payload in this bundle; it is not read'')) (lg_run st)\<rparr>"

definition policy_record :: "int \<Rightarrow> bytes \<Rightarrow> vopt \<Rightarrow> vopt \<Rightarrow> log_reading \<Rightarrow> log_reading" where
  "policy_record sequence action' record' payload st =
     (let version = Field payload (lit ''version''); n = IntOf version; w = Field payload (lit ''windows'')
      in if \<not> IsInt version \<or> rl_policyByVer st n \<noteq> None
         then policy_problem (lit ''record '' @ int_text sequence @ lit '': a policy record without a new integer version'') st
         else let p = \<lparr>pl_version = n, pl_sequence = sequence, pl_hash = text_of (Field payload (lit ''policy_hash'')),
                pl_effectiveAt = parseRFC3339Value (Field payload (lit ''effective_at'')), pl_action = action',
                pl_recordedAt = parseRFC3339Value (Field record' (lit ''received_at'')),
                pl_rules = Field payload (lit ''policy''),
                pl_count = (if IsObject w then Field w (lit ''count'') else None),
                pl_parts = (if IsObject w then Field w (lit ''parts'') else None), pl_windows = []\<rparr>
           in st\<lparr>rl_policies := rl_policies st @ [p], rl_policyByVer := (rl_policyByVer st)(n \<mapsto> p),
                 lg_parts := (lg_parts st)(n := [])\<rparr>)"

definition windows_record :: "int \<Rightarrow> vopt \<Rightarrow> log_reading \<Rightarrow> log_reading" where
  "windows_record sequence payload st =
     (let version = Field payload (lit ''version''); n = IntOf version
      in if \<not> IsInt version \<or> rl_policyByVer st n = None \<or>
            \<not> intIs (Field payload (lit ''part'')) (int (length (lg_parts st n)) + 1)
         then policy_problem (lit ''record '' @ int_text sequence @ lit '': a policy.windows record out of order'') st
         else st\<lparr>lg_parts := (lg_parts st)(n := lg_parts st n @ [iterValues (Field payload (lit ''windows''))])\<rparr>)"

definition snapshot_entry :: "json \<Rightarrow> (bytes \<rightharpoonup> vopt) \<Rightarrow> bytes \<rightharpoonup> vopt" where
  "snapshot_entry c m =
     (let v = Field (Some c) (lit ''credential'')
      in if IsObject (Some c) \<and> IsString v then m(StrOf v \<mapsto> Field (Some c) (lit ''expires_at'')) else m)"

text \<open>Whether a credential could submit: it is known, and it had not expired.\<close>

definition check_credential :: "int \<Rightarrow> vopt \<Rightarrow> bytes \<Rightarrow> log_reading \<Rightarrow> log_reading" where
  "check_credential sequence record' credential st =
     (case lg_credentials st credential of
        None \<Rightarrow> credential_problem (lit ''record '' @ int_text sequence @ lit '': accepted from credential ['' @ credential @
          lit ''], which the log does not show able to submit at that point'') st
      | Some expiresAt \<Rightarrow>
          if nullish expiresAt then st
          else case (parseRFC3339Value expiresAt, parseRFC3339Value (Field record' (lit ''received_at''))) of
            (Some expiry, Some receivedAt) \<Rightarrow>
              if Before receivedAt expiry then st
              else credential_problem (lit ''record '' @ int_text sequence @ lit '': accepted from credential ['' @ credential @
                lit ''] after it expired at '' @ text_of expiresAt) st
          | _ \<Rightarrow> credential_problem (lit ''record '' @ int_text sequence @ lit '': accepted from credential ['' @ credential @
                lit ''] after it expired at '' @ text_of expiresAt) st)"

definition decision_record :: "int \<Rightarrow> bytes \<Rightarrow> vopt \<Rightarrow> vopt \<Rightarrow> log_reading \<Rightarrow> log_reading" where
  "decision_record sequence action' record' payload st =
     (let outcome = ingress_outcome action'; receivedAt = parseRFC3339Value (Field record' (lit ''received_at''));
          d = \<lparr>rg_sequence = sequence, rg_outcome = outcome, rg_payload = payload, rg_receivedAt = receivedAt,
               rg_status = lg_status st\<rparr>;
          st1 = st\<lparr>rl_decisions := rl_decisions st @ [d]\<rparr>
      in if outcome \<noteq> lit ''accepted'' then st1
         else let st2 = check_credential sequence record' (text_of (Field payload (lit ''credential''))) st1
           in st2\<lparr>rl_accepted := rl_accepted st2 @
                [\<lparr>ra_sequence = sequence, ra_record = record', ra_payload = payload, ra_receivedAt = receivedAt,
                  ra_key = stringOrNil (Field payload (lit ''commitment_key''))\<rparr>]\<rparr>)"

definition log_record :: "verified_bundle \<Rightarrow> int \<Rightarrow> log_reading \<Rightarrow> log_reading" where
  "log_record log' sequence st0 =
     (let record' = vb_events log' sequence; action' = text_of (Field record' (lit ''action''));
          payload = Field record' (lit ''payload''); credential = Field payload (lit ''credential'');
          st = note_record record' st0
      in if \<not> IsObject payload then absent_payload sequence action' st
         else if action' = lit ''policy.committed'' \<or> action' = lit ''policy.amended''
         then policy_record sequence action' record' payload st
         else if action' = lit ''policy.windows'' then windows_record sequence payload st
         else if action' = lit ''credentials.snapshot''
         then st\<lparr>lg_credentials := fold snapshot_entry (iterValues (Field payload (lit ''credentials''))) (lg_credentials st)\<rparr>
         else if action' = lit ''credential.issued'' \<and> IsString credential
         then st\<lparr>lg_credentials := (lg_credentials st)(StrOf credential \<mapsto> Field payload (lit ''expires_at''))\<rparr>
         else if (action' = lit ''credential.revoked'' \<or> action' = lit ''credential.expired'') \<and> IsString credential
         then st\<lparr>lg_credentials := (lg_credentials st)(StrOf credential := None)\<rparr>
         else if action' = lit ''window.closed''
         then st\<lparr>rl_closes := rl_closes st @ [\<lparr>rx_sequence = sequence, rx_payload = payload\<rparr>]\<rparr>
         else if \<not> is_ingress action' then st
         else decision_record sequence action' record' payload st)"

subsection \<open>The policies joined with their windows\<close>

definition members_of :: "vopt \<Rightarrow> (bytes \<times> json) list" where
  "members_of v = (case v of Some (JObject ms) \<Rightarrow> ms | _ \<Rightarrow> [])"

definition full_policy :: "vopt \<Rightarrow> json list \<Rightarrow> json" where
  "full_policy rules windows =
     JObject (AList.update (lit ''windows'') (JArray windows) (fold (\<lambda>(k, v). AList.update k v) (members_of rules) []))"

definition policy_digest :: "vopt \<Rightarrow> json list \<Rightarrow> bytes option" where
  "policy_digest rules windows =
     (case Canonical (Some (full_policy rules windows)) of
        Inl _ \<Rightarrow> None | Inr canonical \<Rightarrow> Some (lit ''sha256:'' @ sha256Hex canonical))"

text \<open>A policy with its windows, and what is wrong with it.\<close>

definition join_policy :: "json list list \<Rightarrow> registry_policy \<Rightarrow> registry_policy \<times> bytes list" where
  "join_policy parts p =
     (let windows = concat parts
      in if \<not> IsObject (pl_rules p) \<or> \<not> intIs (pl_parts p) (int (length parts)) \<or>
            \<not> intIs (pl_count p) (int (length windows))
         then (p\<lparr>pl_windows := []\<rparr>, [lit ''policy version '' @ int_text (pl_version p) @ lit '': its windows are not all in the log''])
         else (p\<lparr>pl_windows := windows\<rparr>,
           if policy_digest (pl_rules p) windows \<noteq> Some (pl_hash p)
           then [lit ''policy version '' @ int_text (pl_version p) @
             lit '': the policy and its windows do not hash to its policy_hash''] else []))"

definition join_policies :: "log_reading \<Rightarrow> log_reading" where
  "join_policies st =
     (let joined = map (\<lambda>p. join_policy (lg_parts st (pl_version p)) p) (rl_policies st)
      in fold policy_problem (concat (map snd joined)) (st\<lparr>rl_policies := map fst joined\<rparr>))"

definition readRegistryLog :: "verified_bundle \<Rightarrow> int list \<Rightarrow> run \<Rightarrow> registry_log \<times> run" where
  "readRegistryLog log' order r =
     (let st = join_policies (fold (log_record log') order (start_reading r)) in (registry_log.truncate st, lg_run st))"

subsection \<open>The log is only read\<close>

lemma lg_run_steps [simp]:
  "lg_run (log_fail code m st) = lg_run st" "lg_run (note_record rec st) = lg_run st"
  "lg_run (policy_record n a rec p st) = lg_run st" "lg_run (windows_record n p st) = lg_run st"
  "lg_run (check_credential n rec c st) = lg_run st" "lg_run (decision_record n a rec p st) = lg_run st"
proof -
  show "lg_run (log_fail code m st) = lg_run st" "lg_run (note_record rec st) = lg_run st"
    "lg_run (policy_record n a rec p st) = lg_run st" "lg_run (windows_record n p st) = lg_run st"
    by (simp_all add: log_fail_def note_record_def policy_record_def windows_record_def Let_def split: option.split)
  show c: "lg_run (check_credential n rec c st) = lg_run st" for st c
    by (simp add: check_credential_def log_fail_def split: option.split)
  show "lg_run (decision_record n a rec p st) = lg_run st" by (simp add: decision_record_def Let_def c)
qed

lemma grows_log_record: "grows (lg_run st) (lg_run (log_record log' n st))"
  by (simp add: log_record_def Let_def absent_payload_def whenever_def)

lemma lg_run_policy_problems [simp]: "lg_run (fold (log_fail code) ms st) = lg_run st"
  by (induction ms arbitrary: st) (simp_all add: log_fail_def)

lemma grows_readRegistryLog: "grows r (snd (readRegistryLog log' order r))"
  using grows_fold_on [of lg_run "log_record log'" "start_reading r" order, OF grows_log_record]
  by (simp add: readRegistryLog_def Let_def join_policies_def start_reading_def)

end
