(* ===== verification/Reconcile.thy ===== *)
theory Reconcile
  imports Registry "HOL-Library.List_Lexorder"
begin

text \<open>
  \<open>verify/receipts.go\<close>, continued: the bounds on times the reconcile rules use, and rules 1 to 5 (histories,
  their order, policies, decisions), each a definition of its own.
\<close>

subsection \<open>Bounds on times\<close>

definition windowCloseGrace :: int where "windowCloseGrace = 300 * second"
definition msdSecondsRequired :: int where "msdSecondsRequired = 900"
definition minNoticeSeconds :: int where "minNoticeSeconds = 3600"
definition maxNoticeSeconds :: int where "maxNoticeSeconds = 3155760000"
definition sealGraceSeconds :: int where "sealGraceSeconds = 120"

definition Nanosecond :: "time \<Rightarrow> int" where "Nanosecond t = t mod second"

definition noticeInBounds :: "vopt \<Rightarrow> bool" where
  "noticeInBounds v \<longleftrightarrow> IsInt v \<and> IntOf v \<ge> minNoticeSeconds \<and> IntOf v \<le> maxNoticeSeconds"

text \<open>The latest of two instants, the first one kept on a tie.\<close>

definition later :: "time option \<Rightarrow> time \<Rightarrow> time option" where
  "later latest at = (case latest of None \<Rightarrow> Some at | Some l \<Rightarrow> if After at l then Some at else Some l)"

definition completeAt :: "verified_bundle \<Rightarrow> time option" where
  "completeAt b =
     (let latest = fold (\<lambda>cp l. case ParseRFC3339 (vc_createdAt cp) of None \<Rightarrow> l | Some at \<Rightarrow> later l at) (vb_checkpoints b) None
      in case vb_anchoredAt b of None \<Rightarrow> latest | Some unix \<Rightarrow> later latest (unix * second))"

definition afterPlusSeconds :: "time \<Rightarrow> int \<Rightarrow> time \<Rightarrow> bool" where
  "afterPlusSeconds at seconds than =
     (let diff = Unix than - Unix at
      in if diff \<noteq> seconds then seconds > diff else Nanosecond at > Nanosecond than)"

definition effectiveBeforeNotice :: "time \<Rightarrow> time \<Rightarrow> int \<Rightarrow> bool" where
  "effectiveBeforeNotice effective recorded notice =
     (let diff = Unix effective - Unix recorded
      in if diff \<noteq> notice then diff < notice else Nanosecond effective < Nanosecond recorded)"

definition dueBy :: "time option \<Rightarrow> int \<Rightarrow> time option \<Rightarrow> bool" where
  "dueBy at seconds complete =
     (case (at, complete) of
        (Some a, Some c) \<Rightarrow> \<not> afterPlusSeconds a (seconds + sealGraceSeconds) c | _ \<Rightarrow> False)"

text \<open>Split into seconds and nanoseconds, the two comparisons are those of the instants.\<close>

lemma split_instant: "(t :: time) = Unix t * second + Nanosecond t" "0 \<le> Nanosecond t" "Nanosecond t < second"
  by (simp_all add: Unix_def Nanosecond_def second_def)

lemma instant_less:
  "a + n * second < b \<longleftrightarrow> (let diff = Unix b - Unix a in n < diff \<or> n = diff \<and> Nanosecond a < Nanosecond b)"
proof -
  let ?d = "Unix b - Unix a - n"
  have "a + n * second < b \<longleftrightarrow> Nanosecond a - Nanosecond b < ?d * second"
    using split_instant(1) [of a] split_instant(1) [of b] by (simp add: algebra_simps)
  also have "\<dots> \<longleftrightarrow> 0 < ?d \<or> ?d = 0 \<and> Nanosecond a < Nanosecond b"
    using split_instant(2,3) [of a] split_instant(2,3) [of b]
    by (cases "0 < ?d"; cases "?d = 0") (auto simp: second_def)
  finally show ?thesis by (auto simp: Let_def)
qed

lemma afterPlusSeconds_iff: "afterPlusSeconds at n than \<longleftrightarrow> than < at + n * second"
proof -
  have "than < at + n * second \<longleftrightarrow> than + (- n) * second < at" by (simp add: algebra_simps)
  also note instant_less [of than "- n" at]
  finally show ?thesis by (auto simp: afterPlusSeconds_def Let_def)
qed

lemma effectiveBeforeNotice_iff: "effectiveBeforeNotice eff rec n \<longleftrightarrow> eff < rec + n * second"
proof -
  have "eff < rec + n * second \<longleftrightarrow> eff + (- n) * second < rec" by (simp add: algebra_simps)
  also note instant_less [of eff "- n" rec]
  finally show ?thesis by (auto simp: effectiveBeforeNotice_def Let_def)
qed

subsection \<open>Rules 1 to 3: the bundles and the order of their events\<close>

abbreviation received_at :: "vopt \<Rightarrow> time option" where
  "received_at event \<equiv> parseRFC3339Value (Field event (lit ''received_at''))"

fun time_ordered :: "bytes \<Rightarrow> (int \<rightharpoonup> json) \<Rightarrow> time option \<Rightarrow> int list \<Rightarrow> run \<Rightarrow> run" where
  "time_ordered name events previous [] r = r"
| "time_ordered name events previous (sequence # sequences) r =
     (case received_at (events sequence) of
        None \<Rightarrow> reason_content (lit ''NOT_TIME_ORDERED'')
          (name @ lit '' event '' @ int_text sequence @ lit '' was received before the event preceding it'') r
      | Some eventAt \<Rightarrow>
          if (case previous of None \<Rightarrow> False | Some p \<Rightarrow> Before eventAt p)
          then reason_content (lit ''NOT_TIME_ORDERED'')
            (name @ lit '' event '' @ int_text sequence @ lit '' was received before the event preceding it'') r
          else time_ordered name events (Some eventAt) sequences r)"

definition whole_history :: "verified_bundle \<Rightarrow> bool" where
  "whole_history b \<longleftrightarrow>
     (let rng = Field (vb_manifest b) (lit ''range'') in IsObject rng \<and> intIs (Field rng (lit ''from'')) 1)"

definition opens_on_policy :: "verified_bundle \<Rightarrow> bool" where
  "opens_on_policy log' \<longleftrightarrow>
     (case vb_events log' 1 of None \<Rightarrow> False | Some first \<Rightarrow> strEq (Field (Some first) (lit ''action'')) (lit ''policy.committed''))"

definition rule_history :: "verified_bundle \<Rightarrow> verified_bundle \<Rightarrow> run \<Rightarrow> run" where
  "rule_history registry log' =
     steps [
       whenever (\<not> whole_history log' \<or> \<not> whole_history registry) (reason_content (lit ''LOG_NOT_DENSE'')
         (lit ''both bundles must start at sequence 1: a registry is reconciled over its whole history'')),
       time_ordered (lit ''registry'') (vb_events registry) None (sort (vb_order registry)),
       time_ordered (lit ''decision log'') (vb_events log') None (sort (vb_order log')),
       whenever (\<not> opens_on_policy log') (reason_content (lit ''FIRST_NOT_POLICY'')
         (lit ''decision log event 1 is not policy.committed''))]"

definition rule_problems :: "bytes \<Rightarrow> registry_log \<Rightarrow> run \<Rightarrow> run" where
  "rule_problems code read' = fold (\<lambda>message. reason_content code message) (rl_problems read' code)"

subsection \<open>Rule 4: policies and their amendments\<close>

abbreviation amendment_fail :: "bytes \<Rightarrow> run \<Rightarrow> run" where
  "amendment_fail \<equiv> reason_content (lit ''POLICY_AMENDMENT'')"

definition policy_label :: "registry_policy \<Rightarrow> bytes" where
  "policy_label p = lit ''policy version '' @ int_text (pl_version p)"

definition policy_own :: "bytes \<Rightarrow> registry_policy \<Rightarrow> run \<Rightarrow> run" where
  "policy_own publicID p =
     (let rules = pl_rules p
      in steps [
        whenever (\<not> IsObject rules \<or> \<not> strEq (Field rules (lit ''registry'')) publicID)
          (amendment_fail (policy_label p @ lit '' is not this registry's (its registry is not '' @ publicID @ lit '')'')),
        whenever (IsObject rules \<and> \<not> intIs (Field rules (lit ''msd_seconds'')) msdSecondsRequired)
          (amendment_fail (policy_label p @ lit '': msd_seconds is not '' @ int_text msdSecondsRequired)),
        whenever (IsObject rules \<and> strEq (Field rules (lit ''amendment'')) (lit ''notice'') \<and>
            \<not> noticeInBounds (Field rules (lit ''notice_seconds'')))
          (amendment_fail (policy_label p @ lit '': notice_seconds is not an integer from '' @ int_text minNoticeSeconds @
             lit '' to '' @ int_text maxNoticeSeconds))])"

definition under_notice :: "registry_policy \<Rightarrow> bool" where
  "under_notice p \<longleftrightarrow>
     IsObject (pl_rules p) \<and> strEq (Field (pl_rules p) (lit ''amendment'')) (lit ''notice'') \<and>
     noticeInBounds (Field (pl_rules p) (lit ''notice_seconds''))"

definition amendment_problem :: "registry_policy \<Rightarrow> registry_policy \<Rightarrow> bytes option" where
  "amendment_problem previous p =
     (let notice = IntOf (Field (pl_rules previous) (lit ''notice_seconds''))
      in if pl_version previous = max_int64 \<or> pl_version p \<noteq> pl_version previous + 1 \<or> pl_action p \<noteq> lit ''policy.amended''
         then Some (policy_label p @ lit '' does not amend version '' @ int_text (pl_version previous))
         else if \<not> under_notice previous
         then Some (policy_label previous @ lit '' cannot be amended (it is not under notice), yet version '' @
           int_text (pl_version p) @ lit '' amends it'')
         else if (case (pl_recordedAt p, pl_effectiveAt previous) of
             (Some recorded, Some effective) \<Rightarrow> Before recorded effective | _ \<Rightarrow> True)
         then Some (policy_label p @ lit '' amends version '' @ int_text (pl_version previous) @ lit '' before version '' @
           int_text (pl_version previous) @ lit '' took effect'')
         else if (case (pl_effectiveAt p, pl_recordedAt p) of
             (Some effective, Some recorded) \<Rightarrow> effectiveBeforeNotice effective recorded notice | _ \<Rightarrow> True)
         then Some (policy_label p @ lit '' takes effect sooner than the '' @ int_text notice @
           lit '' s notice its predecessor requires'')
         else None)"

definition policy_succession :: "registry_policy option \<Rightarrow> registry_policy \<Rightarrow> run \<Rightarrow> run" where
  "policy_succession previous p =
     (case previous of
        None \<Rightarrow>
          whenever (pl_version p \<noteq> 1 \<or> pl_action p \<noteq> lit ''policy.committed'')
            (amendment_fail (lit ''the first policy record is version '' @ int_text (pl_version p) @ lit '', '' @ pl_action p @
               lit '', not version 1 committed''))
      | Some q \<Rightarrow> (case amendment_problem q p of None \<Rightarrow> (\<lambda>r. r) | Some message \<Rightarrow> amendment_fail message))"

fun rule_policies :: "bytes \<Rightarrow> registry_policy option \<Rightarrow> registry_policy list \<Rightarrow> run \<Rightarrow> run" where
  "rule_policies publicID previous [] r = r"
| "rule_policies publicID previous (p # ps) r =
     rule_policies publicID (Some p) ps (policy_succession previous p (policy_own publicID p r))"

subsection \<open>Rule 5: decisions follow the policy in force\<close>

text \<open>The windows of each version by key; a later window of the same key replaces an earlier one.\<close>

definition window_entry :: "json \<Rightarrow> (bytes \<rightharpoonup> json) \<Rightarrow> bytes \<rightharpoonup> json" where
  "window_entry window m =
     (let key = Field (Some window) (lit ''key'')
      in if IsObject (Some window) \<and> IsString key then m(StrOf key \<mapsto> window) else m)"

definition windowsByKey :: "registry_policy list \<Rightarrow> int \<Rightarrow> bytes \<rightharpoonup> json" where
  "windowsByKey policies version =
     fold (\<lambda>p m. if pl_version p = version then fold window_entry (pl_windows p) m else m) policies Map.empty"

definition effective_by :: "time \<Rightarrow> registry_policy \<Rightarrow> bool" where
  "effective_by at p = (case pl_effectiveAt p of None \<Rightarrow> False | Some effective \<Rightarrow> \<not> After effective at)"

text \<open>The last policy recorded before a sequence that had taken effect.\<close>

definition inForceAt :: "registry_policy list \<Rightarrow> time option \<Rightarrow> int \<Rightarrow> registry_policy option" where
  "inForceAt policies at before =
     (case at of None \<Rightarrow> None | Some t \<Rightarrow> find (\<lambda>p. pl_sequence p < before \<and> effective_by t p) (rev policies))"

definition needed_status :: "bytes \<Rightarrow> bytes" where
  "needed_status outcome =
     (if outcome = lit ''refused_paused'' then lit ''paused''
      else if outcome = lit ''refused_archived'' then lit ''archived''
      else if outcome \<in> {lit ''accepted'', lit ''replay'', lit ''conflict'', lit ''invalid'', lit ''refused_early'', lit ''refused_late''}
      then lit ''active'' else [])"

definition false_if_null :: "vopt \<Rightarrow> vopt" where
  "false_if_null v = (if nullish v then Some (JBool False) else v)"

definition held_digest :: "vopt \<Rightarrow> bytes" where
  "held_digest held = text_of (Field held (lit ''request_digest''))"

text \<open>A replay or conflict names the key's first acceptance as it was logged.\<close>

definition names_holder :: "vopt \<Rightarrow> vopt \<Rightarrow> bool" where
  "names_holder named held \<longleftrightarrow>
     held \<noteq> None \<and> IsObject named \<and>
     strictEqual (Field named (lit ''sequence'')) (false_if_null (Field held (lit ''sequence''))) \<and>
     text_of (Field named (lit ''entry_hash'')) = text_of (Field held (lit ''entry_hash'')) \<and>
     text_of (Field named (lit ''request_digest'')) = held_digest held"

definition window_open :: "vopt \<Rightarrow> time \<Rightarrow> bool" where
  "window_open window at =
     (case (parseRFC3339Value (Field window (lit ''open_at'')), parseRFC3339Value (Field window (lit ''close_at''))) of
        (Some openAt, Some closeAt) \<Rightarrow> window \<noteq> None \<and> \<not> Before at openAt \<and> Before at closeAt | _ \<Rightarrow> False)"

definition unknown_key :: "vopt \<Rightarrow> bool" where
  "unknown_key payload \<longleftrightarrow> list_ex (\<lambda>x. strEq (Some x) (lit ''unknown_key'')) (iterValues (Field payload (lit ''reasons'')))"

definition decision_broken :: "bytes \<Rightarrow> vopt \<Rightarrow> vopt \<Rightarrow> vopt \<Rightarrow> time \<Rightarrow> bool" where
  "decision_broken outcome payload held window at =
     (let digest = text_of (Field payload (lit ''request_digest'')); named = Field payload (lit ''accepted'');
          open' = window_open window at; heldDigest = (if held = None then [] else held_digest held)
      in if outcome = lit ''accepted'' then \<not> open'
         else if outcome = lit ''replay'' then \<not> open' \<or> \<not> names_holder named held \<or> digest \<noteq> heldDigest
         else if outcome = lit ''conflict'' then \<not> open' \<or> \<not> names_holder named held \<or> digest = heldDigest
         else if outcome = lit ''refused_early''
         then (case parseRFC3339Value (Field window (lit ''open_at'')) of None \<Rightarrow> True | Some openAt \<Rightarrow> \<not> Before at openAt)
         else if outcome = lit ''refused_late''
         then (case parseRFC3339Value (Field window (lit ''close_at'')) of None \<Rightarrow> True | Some closeAt \<Rightarrow> Before at closeAt)
         else if outcome = lit ''invalid'' then unknown_key payload \<and> window \<noteq> None
         else False)"

abbreviation decision_fail :: "bytes \<Rightarrow> run \<Rightarrow> run" where
  "decision_fail \<equiv> reason_content (lit ''DECISION_POLICY'')"

definition decision_label :: "registry_decision \<Rightarrow> bytes" where
  "decision_label d = lit ''decision '' @ int_text (rg_sequence d) @ lit '' ('' @ rg_outcome d @ lit '')''"

text \<open>A decision against the registry's state, and against the policy in force.\<close>

definition decision_state :: "registry_decision \<Rightarrow> run \<Rightarrow> run" where
  "decision_state d =
     whenever (needed_status (rg_outcome d) \<noteq> [] \<and> rg_status d \<noteq> needed_status (rg_outcome d))
       (decision_fail (decision_label d @ lit '' was made while the log shows the registry '' @ rg_status d))"

definition decision_window :: "registry_policy list \<Rightarrow> registry_decision \<Rightarrow> bytes option \<Rightarrow> vopt \<Rightarrow> registry_policy \<Rightarrow> time \<Rightarrow> run \<Rightarrow> run" where
  "decision_window policies d key held p at =
     (let window = (case key of None \<Rightarrow> None | Some k \<Rightarrow> windowsByKey policies (pl_version p) k);
          suffix = (if rg_outcome d \<in> {lit ''replay'', lit ''conflict''} then lit '' or the key's logged acceptance'' else [])
      in steps [
        whenever (\<not> strEq (Field (rg_payload d) (lit ''policy_hash'')) (pl_hash p))
          (decision_fail (decision_label d @ lit '' does not name the hash of '' @ policy_label p @
             lit '', in force at its received_at'')),
        whenever (decision_broken (rg_outcome d) (rg_payload d) held window at)
          (decision_fail (decision_label d @ lit '' for key ['' @ (case key of None \<Rightarrow> [] | Some k \<Rightarrow> k) @
             lit ''] contradicts the windows of '' @ policy_label p @ suffix))])"

definition rule_decision ::
    "registry_policy list \<Rightarrow> registry_decision \<Rightarrow> (bytes \<rightharpoonup> json) \<times> run \<Rightarrow> (bytes \<rightharpoonup> json) \<times> run" where
  "rule_decision policies d s =
     (case s of (first, r) \<Rightarrow>
        let payload = rg_payload d; key = stringOrNil (Field payload (lit ''commitment_key''));
            held = (case key of None \<Rightarrow> None | Some k \<Rightarrow> first k); named = Field payload (lit ''accepted'');
            first' = (if rg_outcome d = lit ''accepted'' \<and> key \<noteq> None \<and> held = None \<and> IsObject named
              then first(the key := named) else first);
            r1 = decision_state d r
        in (first', (case (inForceAt policies (rg_receivedAt d) (rg_sequence d), rg_receivedAt d) of
             (Some p, Some at) \<Rightarrow> decision_window policies d key held p at r1
           | _ \<Rightarrow> decision_fail (decision_label d @ lit '' was made with no policy in force'') r1)))"

definition rule_decisions :: "registry_log \<Rightarrow> run \<Rightarrow> run" where
  "rule_decisions read' r = snd (fold (rule_decision (rl_policies read')) (rl_decisions read') (Map.empty, r))"

end
