(* ===== verification/Reconcile_Mode.thy ===== *)
theory Reconcile_Mode
  imports Reconcile
begin

text \<open>
  \<open>verify/receipts.go\<close>, concluded: the reconcile rules 6 to 10, their composition (\<open>reconcileRegistry\<close>), the
  receipts of a directory and the mode \<open>Reconcile\<close>.
\<close>

subsection \<open>Rule 6: acceptances and registry events match one to one\<close>

definition range_to :: "verified_bundle \<Rightarrow> int" where
  "range_to b =
     (let rng = Field (vb_manifest b) (lit ''range'')
      in if IsObject rng \<and> IsInt (Field rng (lit ''to'')) then IntOf (Field rng (lit ''to'')) else 0)"

definition latest_received :: "verified_bundle \<Rightarrow> time option" where
  "latest_received b =
     fold (\<lambda>n l. case received_at (vb_events b n) of None \<Rightarrow> l | Some t \<Rightarrow> later l t) (vb_order b) None"

definition came_before :: "time option \<Rightarrow> time option \<Rightarrow> bool" where
  "came_before at than = (case (at, than) of (Some a, Some t) \<Rightarrow> Before a t | _ \<Rightarrow> False)"

definition came_after :: "time option \<Rightarrow> time option \<Rightarrow> bool" where
  "came_after at than = (case (at, than) of (Some a, Some t) \<Rightarrow> After a t | _ \<Rightarrow> False)"

definition named_sequence :: "vopt \<Rightarrow> int option" where
  "named_sequence named =
     (let n = Field named (lit ''sequence'') in if IsObject named \<and> IsInt n then Some (IntOf n) else None)"

abbreviation accepts :: "registry_acceptance \<Rightarrow> int option" where
  "accepts acc \<equiv> named_sequence (Field (ra_payload acc) (lit ''accepted''))"

record claims =
  cl_claimed :: "int \<Rightarrow> int"
  cl_highest :: int
  cl_run :: run

text \<open>An acceptance of an event that may come after the registry's export.\<close>

definition past_range :: "verified_bundle \<Rightarrow> registry_acceptance \<Rightarrow> bool" where
  "past_range registry acc =
     (case accepts acc of
        None \<Rightarrow> False
      | Some n \<Rightarrow>
          n > range_to registry \<and> \<not> came_before (ra_receivedAt acc) (latest_received registry) \<and>
          \<not> dueBy (ra_receivedAt acc) msdSecondsRequired (completeAt registry))"

text \<open>The registry holds the event as the acceptance says.\<close>

definition held_as_said :: "verified_bundle \<Rightarrow> registry_acceptance \<Rightarrow> int \<Rightarrow> bool" where
  "held_as_said registry acc n =
     (case vb_events registry n of
        None \<Rightarrow> False
      | Some event \<Rightarrow>
          text_of (Field (Some event) (lit ''entry_hash'')) =
            text_of (Field (Field (ra_payload acc) (lit ''accepted'')) (lit ''entry_hash'')) \<and>
          requestDigest (Some event) (ra_key acc) = text_of (Field (ra_payload acc) (lit ''request_digest'')) \<and>
          text_of (Field (Some event) (lit ''received_at'')) = text_of (Field (ra_record acc) (lit ''received_at'')))"

definition rule_acceptance :: "verified_bundle \<Rightarrow> registry_acceptance \<Rightarrow> claims \<Rightarrow> claims" where
  "rule_acceptance registry acc st =
     (let st1 = (case accepts acc of None \<Rightarrow> st | Some n \<Rightarrow> if n > cl_highest st then st\<lparr>cl_highest := n\<rparr> else st)
      in if past_range registry acc
         then st1\<lparr>cl_run := reason_unconfirmed (lit ''ACCEPTED_UNMATCHED'') (lit ''decision '' @ int_text (ra_sequence acc) @
           lit '' accepts registry event '' @ int_text (the (accepts acc)) @
           lit '', past the registry bundle's range: export the registry again, after the log'') ResultScope (cl_run st1)\<rparr>
         else case accepts acc of
           Some n \<Rightarrow>
             if held_as_said registry acc n then st1\<lparr>cl_claimed := (cl_claimed st1)(n := cl_claimed st1 n + 1)\<rparr>
             else st1\<lparr>cl_run := reason_content (lit ''ACCEPTED_UNMATCHED'') (lit ''decision '' @ int_text (ra_sequence acc) @
               lit '' accepts an event the registry does not hold as it says'') (cl_run st1)\<rparr>
         | None \<Rightarrow> st1\<lparr>cl_run := reason_content (lit ''ACCEPTED_UNMATCHED'') (lit ''decision '' @ int_text (ra_sequence acc) @
             lit '' accepts an event the registry does not hold as it says'') (cl_run st1)\<rparr>)"

text \<open>An event that may have been decided after the log's export.\<close>

definition past_log :: "verified_bundle \<Rightarrow> verified_bundle \<Rightarrow> registry_log \<Rightarrow> claims \<Rightarrow> int \<Rightarrow> bool" where
  "past_log registry log' read' st n \<longleftrightarrow>
     (let eventAt = received_at (vb_events registry n)
      in cl_claimed st n = 0 \<and> n > cl_highest st \<and> came_after eventAt (rl_lastReceived read') \<and>
         \<not> dueBy eventAt msdSecondsRequired (completeAt log'))"

definition rule_event :: "verified_bundle \<Rightarrow> verified_bundle \<Rightarrow> registry_log \<Rightarrow> claims \<Rightarrow> int \<Rightarrow> run \<Rightarrow> run" where
  "rule_event registry log' read' st n r =
     (if past_log registry log' read' st n
      then reason_unconfirmed (lit ''PARENT_UNMATCHED'') (lit ''registry event '' @ int_text n @
        lit '' was received after the log's last record; its decision may be past the log bundle's range: export the log again, then the registry'')
        ResultScope r
      else whenever (cl_claimed st n \<noteq> 1) (reason_content (lit ''PARENT_UNMATCHED'') (lit ''registry event '' @ int_text n @
        lit '' is accepted by '' @ int_text (cl_claimed st n) @ lit '' decision(s), not exactly one'')) r)"

definition match_acceptances :: "verified_bundle \<Rightarrow> registry_log \<Rightarrow> run \<Rightarrow> claims" where
  "match_acceptances registry read' r =
     fold (rule_acceptance registry) (rl_accepted read') \<lparr>cl_claimed = (\<lambda>_. 0), cl_highest = 0, cl_run = r\<rparr>"

definition rule_matching :: "verified_bundle \<Rightarrow> verified_bundle \<Rightarrow> registry_log \<Rightarrow> run \<Rightarrow> run" where
  "rule_matching registry log' read' r =
     (let st = match_acceptances registry read' r
      in fold (rule_event registry log' read' st) (vb_order registry) (cl_run st))"

subsection \<open>Rule 7: one acceptance per key\<close>

definition rule_key ::
    "registry_acceptance \<Rightarrow> (bytes \<rightharpoonup> registry_acceptance) \<times> run \<Rightarrow> (bytes \<rightharpoonup> registry_acceptance) \<times> run" where
  "rule_key acc s =
     (case s of (acceptedAt, r) \<Rightarrow>
        case ra_key acc of
          None \<Rightarrow> (acceptedAt, reason_content (lit ''DOUBLE_ACCEPTANCE'') (lit ''decision '' @ int_text (ra_sequence acc) @
            lit '' accepts without a commitment key'') r)
        | Some key \<Rightarrow>
            (case acceptedAt key of
               Some earlier \<Rightarrow> (acceptedAt, reason_content (lit ''DOUBLE_ACCEPTANCE'') (lit ''commitment key ['' @ key @
                 lit ''] is accepted twice (decisions '' @ int_text (ra_sequence earlier) @ lit '' and '' @
                 int_text (ra_sequence acc) @ lit '')'') r)
             | None \<Rightarrow> (acceptedAt(key \<mapsto> acc), r)))"

definition rule_keys :: "registry_log \<Rightarrow> run \<Rightarrow> (bytes \<rightharpoonup> registry_acceptance) \<times> run" where
  "rule_keys read' r = fold rule_key (rl_accepted read') (Map.empty, r)"

subsection \<open>Rule 8: every window closes once, truthfully\<close>

abbreviation close_fail :: "bytes \<Rightarrow> run \<Rightarrow> run" where
  "close_fail \<equiv> reason_content (lit ''WINDOW_CLOSE'')"

definition policiesByHash :: "registry_policy list \<Rightarrow> bytes \<rightharpoonup> int" where
  "policiesByHash policies = fold (\<lambda>p m. m(pl_hash p \<mapsto> pl_version p)) policies Map.empty"

text \<open>The version a close names, with its window for the key.\<close>

definition closed_window :: "registry_policy list \<Rightarrow> vopt \<Rightarrow> (int \<times> json) option" where
  "closed_window policies payload =
     (case policiesByHash policies (text_of (Field payload (lit ''policy_hash''))) of
        None \<Rightarrow> None
      | Some version \<Rightarrow>
          (case windowsByKey policies version (text_of (Field payload (lit ''key''))) of
             None \<Rightarrow> None
           | Some window \<Rightarrow>
               if text_of (Field payload (lit ''close_at'')) \<noteq> text_of (Field (Some window) (lit ''close_at'')) then None
               else Some (version, window)))"

definition was_committed :: "registry_acceptance option \<Rightarrow> json \<Rightarrow> bool" where
  "was_committed acceptance window =
     (case (acceptance, parseRFC3339Value (Field (Some window) (lit ''close_at''))) of
        (Some acc, Some closeAt) \<Rightarrow> (case ra_receivedAt acc of None \<Rightarrow> False | Some t \<Rightarrow> Before t closeAt)
      | _ \<Rightarrow> False)"

definition close_wrong :: "vopt \<Rightarrow> registry_acceptance option \<Rightarrow> json \<Rightarrow> bool" where
  "close_wrong payload acceptance window =
     (let outcome = Field payload (lit ''outcome''); named = Field payload (lit ''accepted'')
      in if was_committed acceptance window
         then \<not> strEq outcome (lit ''committed'') \<or> \<not> IsObject named \<or>
           \<not> strictEqual (Field named (lit ''sequence''))
              (false_if_null (Field (Field (ra_payload (the acceptance)) (lit ''accepted'')) (lit ''sequence'')))
         else \<not> strEq outcome (lit ''missing'') \<or> \<not> nullish named)"

definition rule_close ::
    "registry_policy list \<Rightarrow> (bytes \<rightharpoonup> registry_acceptance) \<Rightarrow> registry_close \<Rightarrow> (int \<times> bytes) set \<times> run \<Rightarrow> (int \<times> bytes) set \<times> run" where
  "rule_close policies acceptedAt c s =
     (case s of (closed, r) \<Rightarrow>
        let payload = rx_payload c; key = text_of (Field payload (lit ''key''))
        in case closed_window policies payload of
             None \<Rightarrow> (closed, close_fail (lit ''window.closed '' @ int_text (rx_sequence c) @ lit '' names key ['' @ key @
               lit ''], which its policy does not hold with that close_at'') r)
           | Some (version, window) \<Rightarrow>
               if (version, key) \<in> closed
               then (closed, close_fail (lit ''key ['' @ key @ lit ''] is closed twice under policy version '' @ int_text version) r)
               else (insert (version, key) closed,
                 whenever (close_wrong payload (acceptedAt key) window)
                   (close_fail (lit ''window.closed '' @ int_text (rx_sequence c) @ lit '' says ['' @
                      text_of (Field payload (lit ''outcome'')) @ lit ''] for key ['' @ key @ lit ''], but the log shows it '' @
                      (if was_committed (acceptedAt key) window then lit ''committed'' else lit ''missing''))) r))"

text \<open>A window that should have been closed: past, with the grace, by the log's last record, and in force at its close.\<close>

definition close_missing :: "registry_policy list \<Rightarrow> (int \<times> bytes) set \<Rightarrow> time \<Rightarrow> registry_policy \<Rightarrow> json \<Rightarrow> bool" where
  "close_missing policies closed lastReceived p window =
     (IsObject (Some window) \<and>
      (case parseRFC3339Value (Field (Some window) (lit ''close_at'')) of
         None \<Rightarrow> False
       | Some closeAt \<Rightarrow>
           Before (closeAt + windowCloseGrace) lastReceived \<and>
           (pl_version p, text_of (Field (Some window) (lit ''key''))) \<notin> closed \<and>
           (case find (effective_by closeAt) (rev policies) of None \<Rightarrow> False | Some q \<Rightarrow> pl_version q = pl_version p)))"

definition rule_unclosed ::
    "registry_policy list \<Rightarrow> (int \<times> bytes) set \<Rightarrow> time \<Rightarrow> registry_policy \<Rightarrow> json \<Rightarrow> run \<Rightarrow> run" where
  "rule_unclosed policies closed lastReceived p window =
     whenever (close_missing policies closed lastReceived p window)
       (close_fail (lit ''key ['' @ text_of (Field (Some window) (lit ''key'')) @ lit ''] of '' @ policy_label p @
          lit '' closed at '' @ text_of (Field (Some window) (lit ''close_at'')) @ lit '' and has no window.closed''))"

definition rule_closes :: "registry_log \<Rightarrow> (bytes \<rightharpoonup> registry_acceptance) \<Rightarrow> run \<Rightarrow> run" where
  "rule_closes read' acceptedAt r =
     (case fold (rule_close (rl_policies read') acceptedAt) (rl_closes read') ({}, r) of
        (closed, r1) \<Rightarrow>
          (case rl_lastReceived read' of
             None \<Rightarrow> r1
           | Some lastReceived \<Rightarrow>
               fold (\<lambda>p. fold (rule_unclosed (rl_policies read') closed lastReceived p) (pl_windows p)) (rl_policies read') r1))"

subsection \<open>Rules 1 to 9\<close>

definition reconcile_rules :: "bytes \<Rightarrow> verified_bundle \<Rightarrow> verified_bundle \<Rightarrow> run \<Rightarrow> registry_log \<times> run" where
  "reconcile_rules publicID registry log' r =
     (case readRegistryLog log' (sort (vb_order log')) (rule_history registry log' r) of
        (read', r1) \<Rightarrow>
          (case rule_keys read' (rule_matching registry log' read'
              (rule_decisions read' (rule_policies publicID None (rl_policies read')
                (rule_problems (lit ''POLICY_HASH'') read' r1)))) of
             (acceptedAt, r2) \<Rightarrow>
               (read', rule_problems (lit ''CREDENTIAL_NOT_VALID'') read' (rule_closes read' acceptedAt r2))))"

subsection \<open>Rule 10: the receipts\<close>

text \<open>\<open>filepath.Base\<close>.\<close>

definition path_base :: "bytes \<Rightarrow> bytes" where
  "path_base path =
     (if path = [] then [46]
      else let p = rev (dropWhile (\<lambda>c. c = 47) (rev path)); b = rev (takeWhile (\<lambda>c. c \<noteq> 47) (rev p))
        in if b = [] then [47] else b)"

text \<open>A receipt for a decision that may come after the log's export.\<close>

definition past_log_receipt :: "verified_bundle \<Rightarrow> registry_log \<Rightarrow> vopt \<Rightarrow> bool" where
  "past_log_receipt log' read' body \<longleftrightarrow>
     (let d = Field body (lit ''decision_seq'')
      in IsInt d \<and> IntOf d > range_to log' \<and>
         \<not> came_before (parseRFC3339Value (Field body (lit ''received_at''))) (rl_lastReceived read') \<and>
         \<not> dueBy (parseRFC3339Value (Field body (lit ''seal_by''))) 0 (completeAt log'))"

definition logged_differences :: "verified_bundle \<Rightarrow> vopt \<Rightarrow> bytes list" where
  "logged_differences log' body =
     (let d = Field body (lit ''decision_seq'')
      in case (if IsInt d then vb_events log' (IntOf d) else None) of
           None \<Rightarrow> [lit ''decision_seq'']
         | Some record' \<Rightarrow> decisionRecordDifferences (Some record') body)"

definition reconcile_receipt ::
    "ed_check \<Rightarrow> verified_bundle \<Rightarrow> verified_bundle \<Rightarrow> registry_log \<Rightarrow> bytes \<Rightarrow> receipt_document \<Rightarrow> run \<Rightarrow> run" where
  "reconcile_receipt ed registry log' read' label d r =
     (let body = rd_body d; n = IntOf (Field body (lit ''decision_seq''))
      in case checkReceipt ed body (rd_signature d) label r of
           (False, r1) \<Rightarrow> r1
         | (True, r1) \<Rightarrow>
             if past_log_receipt log' read' body
             then reason_unconfirmed (lit ''RECEIPT_NOT_LOGGED'') (label @ lit '' names decision '' @ int_text n @
               lit '', past the log bundle's range: export the log again'') ResultScope r1
             else if logged_differences log' body \<noteq> []
             then reason_content (lit ''RECEIPT_NOT_LOGGED'') (label @
               lit '': signed by Sigilbase, but the decision log does not hold it ('' @
               join_bytes (lit '', '') (logged_differences log' body) @ lit '')'') r1
             else snd (checkReceiptSubject body (Some registry) (Some log') r1))"

definition one_receipt ::
    "env \<Rightarrow> bytes \<Rightarrow> verified_bundle \<Rightarrow> verified_bundle \<Rightarrow> registry_log \<Rightarrow> bytes \<Rightarrow> int action" where
  "one_receipt e publicID registry log' read' path =
     (let label = lit ''receipt '' @ path_base path
      in andthen (readReceiptDocument e path) (\<lambda>doc.
        case doc of
          None \<Rightarrow> return 1
        | Some d \<Rightarrow>
            if \<not> strEq (Field (rd_body d) (lit ''stream'')) publicID
            then andthen (perform (note_msg (label @ lit '' is for another stream; set aside''))) (\<lambda>_. return 0)
            else andthen (perform (reconcile_receipt (cr_ed (env_crypto e)) registry log' read' label d)) (\<lambda>_. return 1)))"

fun rule_receipts ::
    "env \<Rightarrow> bytes \<Rightarrow> verified_bundle \<Rightarrow> verified_bundle \<Rightarrow> registry_log \<Rightarrow> bytes list \<Rightarrow> int \<Rightarrow> int action" where
  "rule_receipts e publicID registry log' read' [] checked = return checked"
| "rule_receipts e publicID registry log' read' (p # ps) checked =
     andthen (one_receipt e publicID registry log' read' p) (\<lambda>n. rule_receipts e publicID registry log' read' ps (checked + n))"

definition reconcileRegistry ::
    "env \<Rightarrow> verified_bundle \<Rightarrow> verified_bundle \<Rightarrow> bytes list \<Rightarrow> (reconcile_counts \<times> int) action" where
  "reconcileRegistry e registry log' receiptPaths =
     (case manifestPublicID (vb_manifest registry) of
        Some publicID \<Rightarrow>
          if manifestLogFor (vb_manifest log') = Some publicID
          then andthen (compute (reconcile_rules publicID registry log')) (\<lambda>read'.
            andthen (rule_receipts e publicID registry log' read' receiptPaths 0) (\<lambda>checked.
            return (rl_counts read', checked)))
          else andthen (perform (reason_content (lit ''NOT_DECISION_LOG'')
            (lit ''the second bundle is not the decision log of the first (decision_log_for does not name its public_id)'')))
            (\<lambda>_. return (no_counts, 0))
      | None \<Rightarrow> andthen (perform (reason_content (lit ''NOT_DECISION_LOG'')
            (lit ''the second bundle is not the decision log of the first (decision_log_for does not name its public_id)'')))
            (\<lambda>_. return (no_counts, 0)))"

subsection \<open>The reconcile mode\<close>

definition trim_separators :: "bytes \<Rightarrow> bytes" where
  "trim_separators dir = rev (dropWhile (\<lambda>c. c = 47 \<or> c = 92) (rev dir))"

definition receiptFiles :: "env \<Rightarrow> bytes \<Rightarrow> bytes list option" where
  "receiptFiles e dir =
     (let base = trim_separators dir
      in case env_listing e base of
           None \<Rightarrow> None
         | Some listed \<Rightarrow>
             Some (map (\<lambda>n. base @ [47] @ n)
               (sort (map fst (filter (\<lambda>(n, regular). has_suffix n (lit ''.json'') \<and> \<not> has_prefix n [46] \<and> regular) listed)))))"

definition receipt_paths :: "env \<Rightarrow> bytes option \<Rightarrow> bytes list action" where
  "receipt_paths e receiptsDir =
     (case receiptsDir of
        None \<Rightarrow> return []
      | Some dir \<Rightarrow>
          (case env_os e dir of
             Directory _ \<Rightarrow> return (case receiptFiles e dir of None \<Rightarrow> [] | Some paths \<Rightarrow> paths)
           | _ \<Rightarrow> stop (hard (lit ''--receipts directory ['' @ dir @ lit ''] does not exist'') ExitError)))"

text \<open>The reconciliation itself, once both bundles have been verified: only when nothing failed.\<close>

definition reconcile_views ::
    "env \<Rightarrow> bytes \<Rightarrow> bytes \<Rightarrow> bytes list \<Rightarrow> bundle_result \<Rightarrow> bundle_result \<Rightarrow> (reconcile_counts \<times> int) action" where
  "reconcile_views e registryPath logPath paths rr lr =
     andthen (loadVerifiedBundle (env_os e) registryPath) (\<lambda>registry.
     andthen (loadVerifiedBundle (env_os e) logPath) (\<lambda>log'.
     reconcileRegistry e (registry\<lparr>vb_anchoredAt := br_latestAnchorAt rr\<rparr>) (log'\<lparr>vb_anchoredAt := br_latestAnchorAt lr\<rparr>) paths))"

definition reconcile_run ::
    "env \<Rightarrow> bytes \<Rightarrow> bytes \<Rightarrow> bytes option \<Rightarrow> bool \<Rightarrow> (bundle_result \<times> bundle_result \<times> reconcile_counts \<times> int) action" where
  "reconcile_run e registryPath logPath receiptsDir skipAnchors =
     andthen (receipt_paths e receiptsDir) (\<lambda>paths.
     andthen (perform (info (lit ''=== Registry: '' @ registryPath @ lit '' ==='')))  (\<lambda>_.
     andthen (verifyBundle (env_crypto e) (env_os e) registryPath skipAnchors no_walk_options) (\<lambda>rr.
     andthen (perform (info (lit ''=== Decision log: '' @ logPath @ lit '' ==='')))  (\<lambda>_.
     andthen (verifyBundle (env_crypto e) (env_os e) logPath skipAnchors no_walk_options) (\<lambda>lr.
     andthen (perform (info (lit ''Reconciling...''))) (\<lambda>_.
     andthen (compute (\<lambda>r. (failures r \<noteq> [], r))) (\<lambda>failed.
     andthen (if failed
       then andthen (perform (\<lambda>r. note_msg (lit ''a bundle does not verify, so the registry is not reconciled'')
         (setReason (lit ''BUNDLE'') r))) (\<lambda>_. return (no_counts, 0))
       else reconcile_views e registryPath logPath paths rr lr) (\<lambda>(counts, checked).
     return (rr, lr, counts, checked)))))))))"

definition Reconcile :: "env \<Rightarrow> bytes \<Rightarrow> bytes \<Rightarrow> bytes option \<Rightarrow> options \<Rightarrow> verdict option" where
  "Reconcile e registryPath logPath receiptsDir opts =
     (let r = newRun (env_embedded e) opts;
          rep = (newReport e opts (lit ''reconcile'') [registryPath, logPath])\<lparr>vd_ReceiptKeysSource := receiptKeysSource r\<rparr>
      in conclude rep r (reconcile_run e registryPath logPath receiptsDir (opt_SkipAnchors opts))
           (\<lambda>(rr, lr, counts, checked) r'. finish r'
              (rep\<lparr>vd_Bundles := [short_info registryPath rr, short_info logPath lr], vd_Counts := Some counts,
                   vd_ReceiptsChecked := checked, vd_Reason := runReason r'\<rparr>) (exitCode (results r'))))"

end
