(* ===== verification/Receipt_Facts.thy ===== *)
theory Receipt_Facts
  imports Receipt_Mode
begin

text \<open>
  What the receipt mode establishes. A verified bundle read back holds exactly the authenticated events of
  its log; a receipt whose subject is reported as checked agrees with the records it names; and a receipt
  run with exit code 0 is about a genuine receipt and intact, vouched bundles.
\<close>

subsection \<open>The run only grows\<close>

lemma growing_readReceiptDocument [grow]: "growing (readReceiptDocument e path)"
  unfolding readReceiptDocument_def Let_def by (intro grow)

lemma growing_loadVerifiedBundle [grow]: "growing (load_view b)" "growing (loadVerifiedBundle os target)"
proof -
  show v: "growing (load_view b)" for b unfolding load_view_def by (intro grow)
  show "growing (loadVerifiedBundle os target)" unfolding loadVerifiedBundle_def by (intro grow v)
qed

lemma growing_same_run: "growing (compute (\<lambda>r. (f r, r)))"
  by (rule growing_compute) simp

lemma growing_verify_target [grow]: "growing (verify_target e skip target)"
  unfolding verify_target_def
  by (rule growing_andthen [OF growing_perform], simp, rule growing_andthen [OF growing_same_run],
      rule growing_andthen [OF growing_verifyBundle], rule growing_same_run)

lemma growing_use_target [grow]: "growing (use_target e sid target vs failed)"
  unfolding use_target_def view_for_def by (intro grow)

lemma growing_receipt_bundle [grow]: "growing (receipt_bundle e skip sid target vs)"
  unfolding receipt_bundle_def by (intro grow)

lemma growing_receipt_bundles [grow]: "growing (receipt_bundles e skip sid targets vs)"
  by (induction e skip sid targets vs rule: receipt_bundles.induct) (auto intro!: grow)

abbreviation subject_run :: "subject \<Rightarrow> run" where
  "subject_run s \<equiv> snd (snd s)"

lemma grows_subject_steps:
  "grows (subject_run s) (subject_run (subject_decision body log' s))"
  "grows (subject_run s) (subject_run (subject_event body stream s))"
  "grows (subject_run s) (subject_run (subject_deadline body stream log' s))"
  by (auto simp: subject_decision_def subject_event_def subject_deadline_def Let_def whenever_def
      split: prod.split option.split)

lemma grows_subject: "grows r (subject_run (subject_steps body stream log' r))"
  using grows_trans [OF grows_trans [OF grows_subject_steps(1) grows_subject_steps(2)] grows_subject_steps(3),
      of "(False, False, r)"]
  by (simp add: subject_steps_def)

lemma grows_checkReceiptSubject: "grows r (snd (checkReceiptSubject body stream log' r))"
  using grows_subject [of r body stream log'] by (auto simp: checkReceiptSubject_def split: prod.split)

lemma grows_judge_receipt: "grows r (snd (judge_receipt ed doc b vs r))"
proof (cases doc)
  case (Some d)
  obtain ok r1 where c: "checkReceipt ed (rd_body d) (rd_signature d) (lit ''the receipt'') r = (ok, r1)" by fastforce
  have "grows r r1" using grows_checkReceipt [of r ed "rd_body d" "rd_signature d" "lit ''the receipt''"] c by simp
  then show ?thesis
    using grows_trans [OF _ grows_checkReceiptSubject, of r r1 "rd_body d" "rv_stream vs" "rv_log vs"]
    by (auto simp: judge_receipt_def Some c split: prod.split)
qed (simp add: judge_receipt_def)

subsection \<open>How a receipt run ends\<close>

lemma ends_readReceiptDocument [ending]: "ends p (readReceiptDocument e path)"
  unfolding readReceiptDocument_def Let_def by (intro ending) (simp add: ExitError_def)

lemma ends_load [ending]: "ends p (load_view b)" "ends p (loadVerifiedBundle os target)"
proof -
  show v: "ends p (load_view b)" for b unfolding load_view_def by (intro ending) simp_all
  show "ends p (loadVerifiedBundle os target)" unfolding loadVerifiedBundle_def by (intro ending v)
qed

lemma ends_verify_target [ending]: "ends p (verify_target e skip target)"
  unfolding verify_target_def by (intro ending) (simp add: no_walk_options_def)

lemma ends_receipt_bundle [ending]: "ends p (receipt_bundle e skip sid target vs)"
  unfolding receipt_bundle_def use_target_def view_for_def by (intro ending) (simp add: ExitError_def)

lemma ends_receipt_bundles [ending]: "ends p (receipt_bundles e skip sid targets vs)"
  by (induction e skip sid targets vs rule: receipt_bundles.induct) (auto intro!: ending)

lemma ends_receipt_run: "ends p (receipt_run e path targets skip)"
  unfolding receipt_run_def by (intro ending)

subsection \<open>A verified bundle read back is its log\<close>

text \<open>The event of a bundle at a sequence.\<close>

definition log_event :: "manifest \<Rightarrow> reader \<Rightarrow> int \<Rightarrow> vopt" where
  "log_event mf b n =
     (if mf_from mf \<le> n \<and> n \<le> mf_to mf then log_events b ! nat (n - mf_from mf) else None)"

definition checkpoint_view :: "json \<Rightarrow> verified_checkpoint" where
  "checkpoint_view cp =
     \<lparr>vc_from = IntOf (Field (Some cp) (lit ''from'')), vc_to = IntOf (Field (Some cp) (lit ''to'')),
      vc_createdAt = text_of (Field (Some cp) (lit ''created_at''))\<rparr>"

definition reads_back :: "manifest \<Rightarrow> reader \<Rightarrow> verified_bundle \<Rightarrow> bool" where
  "reads_back mf b view \<longleftrightarrow>
     vb_manifest view = mf_doc mf \<and> vb_events view = (\<lambda>n. log_event mf b n) \<and>
     vb_order view = [mf_from mf..mf_to mf] \<and> vb_checkpoints view = map checkpoint_view (log_checkpoints b)"

lemma view_fold:
  assumes "chain_ok stream red n prev (map decode xs)" "map snd ls = xs" "\<forall>m \<ge> n. evs m = None"
  shows "fold (\<lambda>(k, x). view_line k x) ls (evs, order) =
    ((\<lambda>m. if n \<le> m \<and> m < n + int (length xs) then decode (xs ! nat (m - n)) else evs m),
     order @ [n..n + int (length xs) - 1])"
  using assms
proof (induction ls arbitrary: n prev xs evs order)
  case (Cons kx ls)
  obtain k x xs' where x: "kx = (k, x)" "xs = x # xs'" "map snd ls = xs'" using Cons.prems(2) by (cases kx) auto
  from Cons.prems(1) x have ev: "event_ok stream red n prev (decode x)"
    and rest: "chain_ok stream red (n + 1) (Field (decode x) (lit ''entry_hash'')) (map decode xs')" by simp_all
  then obtain e where e: "decode x = Some e" "IsObject (Some e)" "Field (Some e) (lit ''seq'') = Some (JInt n)"
    by (cases "decode x") (auto simp: event_ok_def)
  have step: "view_line k x (evs, order) = (evs(n \<mapsto> e), order @ [n])"
    using Cons.prems(3) e by (simp add: view_line_def)
  have "fold (\<lambda>(k, x). view_line k x) ls (evs(n \<mapsto> e), order @ [n]) =
    ((\<lambda>m. if n + 1 \<le> m \<and> m < n + 1 + int (length xs') then decode (xs' ! nat (m - (n + 1))) else (evs(n \<mapsto> e)) m),
     (order @ [n]) @ [n + 1..n + 1 + int (length xs') - 1])"
    by (rule Cons.IH [OF rest x(3)]) (use Cons.prems(3) in simp)
  moreover have "[n..n + int (length xs) - 1] = n # [n + 1..n + 1 + int (length xs') - 1]"
    using x by (simp add: upto_rec1)
  moreover have "xs ! nat (m - n) = xs' ! nat (m - (n + 1))" if "n + 1 \<le> m" for m
  proof -
    have "nat (m - n) = Suc (nat (m - (n + 1)))" using that by simp
    then show ?thesis using x by simp
  qed
  ultimately show ?case using x e by (auto simp: step fun_eq_iff)
qed (auto simp: fun_eq_iff)

lemma read_manifest_doc:
  assumes "read_manifest b r = Some (Inr mf, r')"
  shows "\<exists>data. readRequired b (lit ''manifest.json'') = Inr data \<and> mf_doc mf = decode data \<and> IsObject (mf_doc mf)"
  using assms
  by (auto simp: read_manifest_def andthen_Inr action_Inr Let_def manifest_format_def split: option.splits if_splits)

lemma sealed_all_ranges:
  "sealed ed mf ks F L n prev cps \<Longrightarrow> list_all (\<lambda>cp. cp_range cp \<noteq> None) cps"
  by (induction ed mf ks F L n prev cps rule: sealed.induct) (auto simp: Let_def split: option.splits)

lemma cp_range_view:
  assumes "cp_range cp \<noteq> None"
  shows "IsObject (Some cp)" "intCast (Field (Some cp) k) = IntOf (Field (Some cp) k) \<or> k \<notin> {lit ''from'', lit ''to''}"
proof -
  from assms have "IsInt (Field (Some cp) (lit ''from''))" "IsInt (Field (Some cp) (lit ''to''))"
    by (auto simp: cp_range_def Let_def split: if_splits)
  then show "IsObject (Some cp)" "intCast (Field (Some cp) k) = IntOf (Field (Some cp) k) \<or> k \<notin> {lit ''from'', lit ''to''}"
    by (cases cp; auto simp: IsInt_iff)+
qed

lemma view_checkpoints_log:
  assumes "readRequired b (lit ''checkpoints.json'') = Inr data" "log_checkpoints b \<noteq> []"
    and "list_all (\<lambda>cp. cp_range cp \<noteq> None) (log_checkpoints b)"
  shows "view_checkpoints (decode data) = map checkpoint_view (log_checkpoints b)"
proof -
  let ?f = "Field (decode data) (lit ''checkpoints'')"
  from assms(1) have "ReadWhole b (lit ''checkpoints.json'') = Inr data" by (auto simp: readRequired_def split: if_splits)
  then have log: "log_checkpoints b = ArrOf ?f" by (simp add: log_checkpoints_def)
  with assms(2) obtain xs where xs: "?f = Some (JArray xs)" by (cases ?f rule: ArrOf.cases) auto
  then have obj: "IsObject (decode data)" by (cases "decode data"; cases "the (decode data)") auto
  have ranges: "\<forall>cp \<in> set xs. cp_range cp \<noteq> None" using assms(3) log xs by (simp add: list_all_iff)
  then have "filter (\<lambda>cp. IsObject (Some cp)) xs = xs" using cp_range_view(1) by simp
  moreover have "\<forall>cp \<in> set xs. intCast (Field (Some cp) (lit ''from'')) = IntOf (Field (Some cp) (lit ''from'')) \<and>
      intCast (Field (Some cp) (lit ''to'')) = IntOf (Field (Some cp) (lit ''to''))"
    using ranges cp_range_view(2) by blast
  ultimately show ?thesis using obj by (simp add: view_checkpoints_def xs log checkpoint_view_def)
qed

lemma load_view_intact:
  assumes "load_view b r = Some (Inr view, r')" "describes b mf" "intact ed ks mf b"
  shows "reads_back mf b view \<and> r' = r \<and> vb_anchoredAt view = None"
proof -
  obtain mdata f cdata where m: "readRequired b (lit ''manifest.json'') = Inr mdata"
    and f: "Open_file b (lit ''events.ndjson'') = Inr f" "l_err (snd (view_events f)) = None"
    and c: "readRequired b (lit ''checkpoints.json'') = Inr cdata" and r: "r' = r"
    and v: "view = \<lparr>vb_manifest = object_or_empty (decode mdata), vb_events = fst (fst (view_events f)),
       vb_order = snd (fst (view_events f)), vb_checkpoints = view_checkpoints (decode cdata), vb_anchoredAt = None\<rparr>"
    using assms(1) by (auto simp: load_view_def andthen_Inr action_Inr)
  from assms(2) m have doc: "mf_doc mf = decode mdata" "IsObject (mf_doc mf)"
    unfolding describes_def using read_manifest_doc by fastforce+
  let ?evs = "log_events b"
  from f(1) have evs: "?evs = map decode (content_lines f)" by (simp add: log_events_def)
  from assms(3) have to: "mf_to mf = mf_from mf + int (length ?evs) - 1"
    and chain: "chain_ok (mf_stream mf) (log_redactions b (mf_from mf) (mf_to mf)) (mf_from mf) (first_prev (mf_from mf)) ?evs"
    and cps: "log_checkpoints b \<noteq> []"
      "sealed ed mf ks (mf_from mf) (map leaf_of ?evs) (mf_from mf) (first_prev (mf_from mf)) (log_checkpoints b)"
    unfolding intact_def Let_def by blast+
  obtain s l where sl: "view_events f = (s, l)" by fastforce
  obtain ls where ls: "s = fold (\<lambda>(k, x). view_line k x) ls (Map.empty, [])" "map snd ls = content_lines f"
    by (rule for_lines_content [of view_line f "(Map.empty, [])" s l]) (use sl f(2) in \<open>simp_all add: view_events_def\<close>)
  have "s = ((\<lambda>m. if mf_from mf \<le> m \<and> m < mf_from mf + int (length (content_lines f))
      then decode (content_lines f ! nat (m - mf_from mf)) else None), [mf_from mf..mf_from mf + int (length (content_lines f)) - 1])"
    using view_fold [OF chain [unfolded evs] ls(2), of Map.empty "[]"] ls(1) by simp
  moreover have "(\<lambda>m. if mf_from mf \<le> m \<and> m < mf_from mf + int (length (content_lines f))
      then decode (content_lines f ! nat (m - mf_from mf)) else None) = (\<lambda>n. log_event mf b n)"
    using to evs by (auto simp: log_event_def fun_eq_iff nat_less_iff)
  moreover have "mf_from mf + int (length (content_lines f)) - 1 = mf_to mf" using to evs by simp
  moreover have "view_checkpoints (decode cdata) = map checkpoint_view (log_checkpoints b)"
    by (rule view_checkpoints_log [OF c cps(1) sealed_all_ranges [OF cps(2)]])
  ultimately show ?thesis using v doc sl r by (simp add: reads_back_def object_or_empty_def)
qed

subsection \<open>The records a receipt names\<close>

text \<open>The decision record says what the receipt says.\<close>

definition decision_agrees :: "vopt \<Rightarrow> vopt \<Rightarrow> bool" where
  "decision_agrees body record' \<longleftrightarrow>
     strEq (Field record' (lit ''action'')) (lit ''ingress.'' @ text_of (Field body (lit ''outcome''))) \<and>
     IsObject (Field record' (lit ''payload'')) \<and>
     (\<forall>field \<in> set decision_fields. strictEqual (Field (Field record' (lit ''payload'')) field) (Field body field)) \<and>
     text_of (Field record' (lit ''received_at'')) = text_of (Field body (lit ''received_at''))"

lemma decisionRecordDifferences_none: "decisionRecordDifferences record' body = [] \<longleftrightarrow> decision_agrees body record'"
  by (auto simp: decisionRecordDifferences_def decision_agrees_def Let_def filter_empty_conv split: if_splits)

text \<open>The event the receipt accepts has the entry hash and the request digest it names.\<close>

definition event_agrees :: "vopt \<Rightarrow> vopt \<Rightarrow> bool" where
  "event_agrees body event \<longleftrightarrow>
     (let acc = Field body (lit ''accepted'')
      in text_of (Field event (lit ''entry_hash'')) = StrOf (Field acc (lit ''entry_hash'')) \<and>
         requestDigest event (stringOrNil (Field body (lit ''commitment_key''))) = StrOf (Field acc (lit ''request_digest'')) \<and>
         (strEq (Field body (lit ''outcome'')) (lit ''accepted'') \<longrightarrow>
            text_of (Field event (lit ''received_at'')) = text_of (Field body (lit ''received_at''))))"

lemma subject_event_problem_none: "subject_event_problem body event n = None \<longleftrightarrow> event_agrees body event"
  by (auto simp: subject_event_problem_def event_agrees_def Let_def split: if_splits)

text \<open>The first checkpoint over a sequence was made no later than the deadline.\<close>

definition sealed_in_time :: "verified_checkpoint list \<Rightarrow> int \<Rightarrow> bytes \<Rightarrow> bool" where
  "sealed_in_time cps n sealBy \<longleftrightarrow>
     (\<exists>cp created deadline. find (\<lambda>cp. vc_from cp \<le> n \<and> n \<le> vc_to cp) cps = Some cp \<and>
        ParseRFC3339 (vc_createdAt cp) = Some created \<and> ParseRFC3339 sealBy = Some deadline \<and> created \<le> deadline)"

lemma sealedByDeadline_iff:
  "sealedByDeadline cps n sealBy = Some True \<longleftrightarrow> sealed_in_time cps n sealBy"
  "sealedByDeadline cps n sealBy = None \<longleftrightarrow> (\<forall>cp \<in> set cps. \<not> (vc_from cp \<le> n \<and> n \<le> vc_to cp))"
  by (induction cps n sealBy rule: sealedByDeadline.induct)
    (auto simp: sealed_in_time_def After_def not_less split: option.splits)

text \<open>All of it: the decision record, the accepted event and the seal.\<close>

definition subject_holds :: "vopt \<Rightarrow> verified_bundle option \<Rightarrow> verified_bundle option \<Rightarrow> bool" where
  "subject_holds body stream log' \<longleftrightarrow>
     (let acc = Field body (lit ''accepted''); d = Field body (lit ''decision_seq'');
          sealBy = text_of (Field body (lit ''seal_by''))
      in (IsInt d \<or> \<not> nullish acc) \<and>
         (IsInt d \<longrightarrow> (\<exists>rec. vb_event log' (IntOf d) = Some rec \<and> decision_agrees body (Some rec))) \<and>
         (\<not> nullish acc \<longrightarrow>
            (\<exists>ev. vb_event stream (IntOf (Field acc (lit ''sequence''))) = Some ev \<and> event_agrees body (Some ev))) \<and>
         (if deadline_on_event body
          then \<exists>v. stream = Some v \<and> sealed_in_time (vb_checkpoints v) (IntOf (Field acc (lit ''sequence''))) sealBy
          else IsInt d \<longrightarrow> (\<exists>v. log' = Some v \<and> sealed_in_time (vb_checkpoints v) (IntOf d) sealBy)))"

lemma subject_decision_holds:
  assumes "subject_decision body log' (False, False, r) = (c, u, r')" "clean_for ResultContent r'" "\<not> u"
  shows "c = IsInt (Field body (lit ''decision_seq''))"
    "c \<Longrightarrow> \<exists>rec. vb_event log' (IntOf (Field body (lit ''decision_seq''))) = Some rec \<and> decision_agrees body (Some rec)"
  using assms by (auto simp: subject_decision_def Let_def decisionRecordDifferences_none split: if_splits option.splits)

lemma subject_event_holds:
  assumes "subject_event body stream (c, u, r) = (c', u', r')" "clean_for ResultContent r'" "\<not> u'"
  shows "c' = (c \<or> \<not> nullish (Field body (lit ''accepted'')))" "\<not> u" "clean_for ResultContent r"
    "\<not> nullish (Field body (lit ''accepted'')) \<Longrightarrow>
      \<exists>ev. vb_event stream (IntOf (Field (Field body (lit ''accepted'')) (lit ''sequence''))) = Some ev \<and> event_agrees body (Some ev)"
  using assms
  by (auto simp: subject_event_def Let_def subject_event_problem_none split: if_splits option.splits)

lemma subject_deadline_holds:
  assumes "subject_deadline body stream log' (c, u, r) = (c', u', r')" "clean_for ResultContent r'" "\<not> u'"
  shows "c' = c" "\<not> u" "clean_for ResultContent r"
    "deadline_of body stream log' = (Some v, Some (JInt n)) \<Longrightarrow> vb_events v n \<noteq> None \<Longrightarrow>
      sealed_in_time (vb_checkpoints v) n (text_of (Field body (lit ''seal_by'')))"
proof -
  show "c' = c" "\<not> u" "clean_for ResultContent r"
    using assms by (auto simp: subject_deadline_def Let_def split: prod.splits option.splits if_splits)
  assume d: "deadline_of body stream log' = (Some v, Some (JInt n))" "vb_events v n \<noteq> None"
  let ?s = "sealedByDeadline (vb_checkpoints v) n (text_of (Field body (lit ''seal_by'')))"
  have "subject_deadline body stream log' (c, u, r) =
    (case ?s of None \<Rightarrow> (c, True, note_msg (lit ''no checkpoint in the bundle seals sequence '' @ int_text n @
           lit ''; the seal deadline is not checked'') r)
     | Some sealed' \<Rightarrow> (c, u, whenever (\<not> sealed') (reason_content (lit ''MSD_BREACH'')
           (lit ''sequence '' @ int_text n @ lit '' was sealed by a checkpoint signed after seal_by '' @
            text_of (Field body (lit ''seal_by'')))) r))"
    using d by (auto simp: subject_deadline_def Let_def split: option.split)
  with assms have "?s = Some True" by (cases ?s) (auto split: if_splits)
  then show "sealed_in_time (vb_checkpoints v) n (text_of (Field body (lit ''seal_by'')))"
    by (simp add: sealedByDeadline_iff)
qed

lemma vb_event_Some: "vb_event view n = Some ev \<longleftrightarrow> (\<exists>v. view = Some v \<and> vb_events v n = Some ev)"
  by (auto simp: vb_event_def split: option.splits)

lemma subject_steps_holds:
  assumes "subject_steps body stream log' r = (True, False, r')" "clean_for ResultContent r'" "well_formed_receipt body"
  shows "subject_holds body stream log'"
proof -
  let ?acc = "Field body (lit ''accepted'')" and ?d = "Field body (lit ''decision_seq'')"
  obtain c1 u1 r1 where s1: "subject_decision body log' (False, False, r) = (c1, u1, r1)" by (metis prod_cases3)
  obtain c2 u2 r2 where s2: "subject_event body stream (c1, u1, r1) = (c2, u2, r2)" by (metis prod_cases3)
  have s3: "subject_deadline body stream log' (c2, u2, r2) = (True, False, r')"
    using assms(1) by (simp add: subject_steps_def s1 s2)
  note h3 = subject_deadline_holds [OF s3 assms(2)]
  note h2 = subject_event_holds [OF s2 h3(3) [simplified]]
  note h1 = subject_decision_holds [OF s1 h2(3) [OF h3(2) [simplified]] h2(2) [OF h3(2) [simplified]]]
  have u: "\<not> u2" "\<not> u1" using h3(2) h2(2) by simp_all
  have c: "IsInt ?d \<or> \<not> nullish ?acc" using h3(1) h2(1) [OF u(1)] h1(1) by simp
  have dec: "IsInt ?d \<Longrightarrow> \<exists>rec. vb_event log' (IntOf ?d) = Some rec \<and> decision_agrees body (Some rec)"
    using h1 by simp
  have ev: "\<not> nullish ?acc \<Longrightarrow> \<exists>ev. vb_event stream (IntOf (Field ?acc (lit ''sequence''))) = Some ev \<and> event_agrees body (Some ev)"
    using h2(4) u by blast
  have acc: "\<not> nullish ?acc \<Longrightarrow> \<exists>n. Field ?acc (lit ''sequence'') = Some (JInt n)"
    using assms(3) by (auto simp: well_formed_receipt_def accepted_shape_def Let_def IsInt_iff)
  have time: "if deadline_on_event body
      then \<exists>v. stream = Some v \<and> sealed_in_time (vb_checkpoints v) (IntOf (Field ?acc (lit ''sequence''))) (text_of (Field body (lit ''seal_by'')))
      else IsInt ?d \<longrightarrow> (\<exists>v. log' = Some v \<and> sealed_in_time (vb_checkpoints v) (IntOf ?d) (text_of (Field body (lit ''seal_by''))))"
  proof (cases "deadline_on_event body")
    case True
    then have "\<not> nullish ?acc" by (simp add: deadline_on_event_def Let_def)
    with acc ev obtain n v where "Field ?acc (lit ''sequence'') = Some (JInt n)" "stream = Some v" "vb_events v n \<noteq> None"
      by (fastforce simp: vb_event_Some)
    with h3(4) [of v n] True show ?thesis by (simp add: deadline_of_def)
  next
    case False
    then show ?thesis using dec h3(4) by (auto simp: deadline_of_def vb_event_Some IsInt_iff)
  qed
  show ?thesis unfolding subject_holds_def Let_def using c dec ev time by blast
qed

lemma checkReceiptSubject_holds:
  assumes "checkReceiptSubject body stream log' r = (lit ''checked'', r')" "clean_for ResultContent r'" "well_formed_receipt body"
  shows "subject_holds body stream log'"
proof -
  obtain c u s where s: "subject_steps body stream log' r = (c, u, s)" by (metis prod_cases3)
  have "lit ''checked'' \<noteq> lit ''not_checked''" by (simp add: lit_def)
  with assms(1) s have "c" "\<not> u" "s = r'" by (auto simp: checkReceiptSubject_def split: if_splits)
  with s assms(2,3) show ?thesis using subject_steps_holds by auto
qed

subsection \<open>What a passing receipt run says\<close>

definition trusted_receipt_keys :: "env \<Rightarrow> options \<Rightarrow> receipt_keys" where
  "trusted_receipt_keys e opts = receiptKeys (newRun (env_embedded e) opts)"

text \<open>The receipt that a path holds.\<close>

definition receipt_at :: "env \<Rightarrow> bytes \<Rightarrow> receipt_document \<Rightarrow> bool" where
  "receipt_at e path d \<longleftrightarrow>
     (\<exists>data. env_regular e path = Some data \<and>
        (let doc = unwrap_receipt (decode data)
         in rd_body d = Field doc (lit ''body'') \<and> IsObject (rd_body d) \<and>
            Field doc (lit ''signature'') = Some (JString (rd_signature d))))"

text \<open>A view of a proven bundle among the targets, by the role its manifest gives it.\<close>

definition proven_view :: "env \<Rightarrow> options \<Rightarrow> bytes list \<Rightarrow> verified_bundle \<Rightarrow> bool" where
  "proven_view e opts targets view \<longleftrightarrow>
     (\<exists>t \<in> set targets. \<exists>b mf. bundle_at e t b mf \<and> proven e opts mf b \<and> reads_back mf b view)"

lemma IsString_iff: "IsString v \<longleftrightarrow> (\<exists>s. v = Some (JString s))"
  by (cases v; cases "the v") (auto simp: IsString_def is_kind_def)

lemma readReceiptDocument_at:
  assumes "readReceiptDocument e path r = Some (Inr doc, r')"
  shows "(\<exists>d. doc = Some d \<and> receipt_at e path d \<and> r' = r) \<or> doc = None \<and> \<not> clean_for ResultContent r'"
  using assms
  by (auto simp: readReceiptDocument_def Let_def receipt_at_def andthen_Inr action_Inr IsString_iff
      split: option.splits if_splits)

lemma clean_no_failure:
  assumes "grows r r'" "\<And>k. clean_for k r'"
  shows "failures r' = failures r"
proof (rule ccontr)
  assume "failures r' \<noteq> failures r"
  then obtain k where "results r' k = StateFail" using assms(1) by (auto simp: grows_def)
  with assms(2) [of k] show False by (simp add: clean_for_def less_eq_result_state_def)
qed

lemma verify_target_proven:
  assumes "verify_target e skip target r = Some (Inr (br, failed), r')" "\<And>k. clean_for k r'" "trusted r = trusted_keys e opts"
  shows "\<exists>b mf. bundle_at e target b mf \<and> proven e opts mf b" "\<not> failed"
proof -
  let ?s = "info (lit ''=== Bundle: '' @ target @ lit '' ==='') r"
  from assms(1) have v: "verifyBundle (env_crypto e) (env_os e) target skip no_walk_options ?s = Some (Inr br, r')"
    and f: "failed = (length (failures r') > length (failures ?s))"
    by (auto simp: verify_target_def andthen_Inr action_Inr)
  have "failures r' = failures ?s"
    by (rule clean_no_failure [OF growingD [OF growing_verifyBundle v] assms(2)])
  with f show "\<not> failed" by simp
  have "trusted ?s = trusted_keys e opts" using assms(3) by (simp add: info_def)
  then show "\<exists>b mf. bundle_at e target b mf \<and> proven e opts mf b"
    using verifyBundle_vouched [OF v assms(2)] by (simp add: proven_def)
qed

lemma loadVerifiedBundle_proven:
  assumes "loadVerifiedBundle (env_os e) target r = Some (Inr view, r')" "bundle_at e target b mf" "proven e opts mf b"
  shows "reads_back mf b view" "r' = r"
proof -
  have "load_view b r = Some (Inr view, r')"
    using assms(1,2) by (auto simp: loadVerifiedBundle_def bundle_at_def andthen_Inr action_Inr)
  from load_view_intact [OF this] assms(2,3) show "reads_back mf b view" "r' = r"
    by (auto simp: bundle_at_def proven_def)
qed

text \<open>What the views of a receipt run are: each a proven bundle of the targets, in the role it says.\<close>

definition views_ok :: "env \<Rightarrow> options \<Rightarrow> bytes list \<Rightarrow> vopt \<Rightarrow> receipt_views \<Rightarrow> bool" where
  "views_ok e opts targets sid vs \<longleftrightarrow>
     (\<forall>v. rv_stream vs = Some v \<longrightarrow> proven_view e opts targets v \<and> string_value (manifestPublicID (vb_manifest v)) = sid) \<and>
     (\<forall>v. rv_log vs = Some v \<longrightarrow> proven_view e opts targets v \<and> string_value (manifestLogFor (vb_manifest v)) = sid)"

lemma proven_view_mono: "proven_view e opts ts v \<Longrightarrow> set ts \<subseteq> set ts' \<Longrightarrow> proven_view e opts ts' v"
  unfolding proven_view_def by blast

lemma views_ok_mono: "views_ok e opts ts sid vs \<Longrightarrow> set ts \<subseteq> set ts' \<Longrightarrow> views_ok e opts ts' sid vs"
  unfolding views_ok_def using proven_view_mono by metis

lemma receipt_bundle_ok:
  assumes "receipt_bundle e skip sid target vs r = Some (Inr vs', r')" "\<And>k. clean_for k r'"
    and "trusted r = trusted_keys e opts" "views_ok e opts ts sid vs" "target \<in> set ts"
  shows "views_ok e opts ts sid vs'" "\<exists>b mf. bundle_at e target b mf \<and> proven e opts mf b"
proof -
  from assms(1) obtain br failed r1 where
    v: "verify_target e skip target r = Some (Inr (br, failed), r1)"
    and rest: "use_target e sid target (vs\<lparr>rv_bundles := rv_bundles vs @ [short_info target br]\<rparr>) failed r1 = Some (Inr vs', r')"
    by (auto simp: receipt_bundle_def andthen_Inr)
  have "grows r1 r'" by (rule growingD [OF growing_use_target rest])
  then have c1: "\<And>k. clean_for k r1" using clean_kept.kept assms(2) by blast
  note t = verify_target_proven [OF v c1 assms(3)]
  then obtain b mf where b: "bundle_at e target b mf" "proven e opts mf b" by blast
  from rest t(2) obtain view r2 where l: "loadVerifiedBundle (env_os e) target r1 = Some (Inr view, r2)"
    and w: "view_for sid target (vs\<lparr>rv_bundles := rv_bundles vs @ [short_info target br]\<rparr>) view r2 = Some (Inr vs', r')"
    by (auto simp: use_target_def andthen_Inr)
  have pv: "proven_view e opts ts view"
    unfolding proven_view_def using assms(5) b loadVerifiedBundle_proven(1) [OF l b] by blast
  show "views_ok e opts ts sid vs'"
    using w assms(4) pv
    by (auto simp: view_for_def action_Inr views_ok_def string_value_def IsString_iff split: if_splits)
  show "\<exists>b mf. bundle_at e target b mf \<and> proven e opts mf b" using b by blast
qed

lemma receipt_bundles_ok:
  assumes "receipt_bundles e skip sid targets vs r = Some (Inr vs', r')" "\<And>k. clean_for k r'"
    and "trusted r = trusted_keys e opts" "views_ok e opts ts sid vs" "set targets \<subseteq> set ts"
  shows "views_ok e opts ts sid vs' \<and> (\<forall>t \<in> set targets. \<exists>b mf. bundle_at e t b mf \<and> proven e opts mf b)"
  using assms
proof (induction targets arbitrary: vs r)
  case (Cons t targets)
  from Cons.prems(1) obtain vs1 r1 where
    b: "receipt_bundle e skip sid t vs r = Some (Inr vs1, r1)" "receipt_bundles e skip sid targets vs1 r1 = Some (Inr vs', r')"
    by (auto simp: andthen_Inr)
  have "grows r1 r'" by (rule growingD [OF growing_receipt_bundles b(2)])
  then have c: "\<And>k. clean_for k r1" using clean_kept.kept Cons.prems(2) by blast
  have "grows r r1" by (rule growingD [OF growing_receipt_bundle b(1)])
  then have t: "trusted r1 = trusted_keys e opts" using Cons.prems(3) grows_trusted by simp
  note ok = receipt_bundle_ok [OF b(1) c Cons.prems(3,4)]
  show ?case using Cons.IH [OF b(2) Cons.prems(2) t ok(1)] ok(2) Cons.prems(5) by simp
qed (simp add: action_Inr)

lemma judge_receipt_pass:
  assumes "judge_receipt ed (Some d) withBundles vs r = (summary, r')" "\<And>k. clean_for k r'"
  shows "genuine ed (receiptKeys r) (rd_body d) (rd_signature d)"
    "\<exists>subj. summary = Some (summary_of (rd_body d) subj) \<and>
       (subj = lit ''checked'' \<longrightarrow> subject_holds (rd_body d) (rv_stream vs) (rv_log vs))"
proof -
  obtain ok r1 where c: "checkReceipt ed (rd_body d) (rd_signature d) (lit ''the receipt'') r = (ok, r1)" by fastforce
  obtain subj r2 where s: "checkReceiptSubject (rd_body d) (rv_stream vs) (rv_log vs) r1 = (subj, r2)" by fastforce
  have "grows r1 r2" using grows_checkReceiptSubject [of r1 "rd_body d" "rv_stream vs" "rv_log vs"] s by simp
  moreover have r': "r' = (if ok \<and> withBundles then r2 else r1)"
    and sm: "summary = Some (summary_of (rd_body d) (if ok \<and> withBundles then subj else lit ''not_checked''))"
    using assms(1) c s by (auto simp: judge_receipt_def split: if_splits)
  ultimately have c1: "\<And>k. clean_for k r1" using assms(2) clean_kept.kept by (metis grows_refl)
  have ok: "ok" by (rule checkReceipt_clean [OF c c1 c1])
  with c show g: "genuine ed (receiptKeys r) (rd_body d) (rd_signature d)" by (simp add: checkReceipt_true)
  then have wf: "well_formed_receipt (rd_body d)" by (simp add: genuine_def)
  have "lit ''checked'' \<noteq> lit ''not_checked''" by (simp add: lit_def)
  then show "\<exists>subj. summary = Some (summary_of (rd_body d) subj) \<and>
       (subj = lit ''checked'' \<longrightarrow> subject_holds (rd_body d) (rv_stream vs) (rv_log vs))"
    using sm r' s assms(2) checkReceiptSubject_holds [OF _ _ wf] ok by (cases withBundles) auto
qed

lemma grows_receiptKeys: "grows r r' \<Longrightarrow> receiptKeys r' = receiptKeys r"
  by (simp add: grows_def)

lemma Receipt_pass:
  assumes "Receipt e path targets opts = Some v" "vd_ExitCode v = ExitPass"
  shows "\<exists>d subj vs. receipt_at e path d \<and>
    genuine (cr_ed (env_crypto e)) (trusted_receipt_keys e opts) (rd_body d) (rd_signature d) \<and>
    (\<forall>t \<in> set targets. \<exists>b mf. bundle_at e t b mf \<and> proven e opts mf b) \<and>
    vd_Receipt v = Some (summary_of (rd_body d) subj) \<and>
    (subj = lit ''checked'' \<longrightarrow> views_ok e opts targets (Field (rd_body d) (lit ''stream'')) vs \<and>
       subject_holds (rd_body d) (rv_stream vs) (rv_log vs))"
proof -
  let ?r = "newRun (env_embedded e) opts" let ?skip = "opt_SkipAnchors opts"
  obtain vs summary r' where m: "receipt_run e path targets ?skip ?r = Some (Inr (vs, summary), r')"
    and v: "vd_ExitCode v = exitCode (results r')" "vd_Receipt v = summary"
    by (rule conclude_pass [OF assms(1) [unfolded Receipt_def Let_def] ends_receipt_run [where p = False] assms(2)])
      (auto split: prod.splits simp: finish_def)
  have clean: "clean_for k r'" for k using v assms(2) exitCode_pass [of r'] by metis
  from m obtain doc r1 r2 where
    rd: "readReceiptDocument e path ?r = Some (Inr doc, r1)"
    and rb: "receipt_bundles e ?skip (document_stream doc) targets \<lparr>rv_bundles = [], rv_stream = None, rv_log = None\<rparr> r1 = Some (Inr vs, r2)"
    and j: "judge_receipt (cr_ed (env_crypto e)) doc (targets \<noteq> []) vs (info (lit ''Checking the receipt...'') r2) = (summary, r')"
    by (auto simp: receipt_run_def andthen_Inr action_Inr)
  let ?s = "info (lit ''Checking the receipt...'') r2"
  have g: "grows ?s r'" using grows_judge_receipt [of ?s "cr_ed (env_crypto e)" doc "targets \<noteq> []" vs] j by simp
  have c2: "clean_for k r2" for k using clean_kept.kept [OF g clean] by simp
  have g12: "grows r1 r2" by (rule growingD [OF growing_receipt_bundles rb])
  have c1: "clean_for k r1" for k using clean_kept.kept [OF g12 c2] .
  obtain d where d: "doc = Some d" "receipt_at e path d" "r1 = ?r"
    using readReceiptDocument_at [OF rd] c1 by blast
  have ks: "receiptKeys ?s = trusted_receipt_keys e opts"
    using grows_receiptKeys [OF g12] d(3) by (simp add: info_def trusted_receipt_keys_def)
  have bs: "views_ok e opts targets (document_stream doc) vs \<and> (\<forall>t \<in> set targets. \<exists>b mf. bundle_at e t b mf \<and> proven e opts mf b)"
    by (rule receipt_bundles_ok [OF rb c2]) (simp_all add: d(3) trusted_keys_def views_ok_def)
  note js = judge_receipt_pass [OF j [unfolded d(1)] clean]
  have g': "genuine (cr_ed (env_crypto e)) (trusted_receipt_keys e opts) (rd_body d) (rd_signature d)"
    using js(1) ks by simp
  obtain subj where "summary = Some (summary_of (rd_body d) subj)"
    "subj = lit ''checked'' \<longrightarrow> subject_holds (rd_body d) (rv_stream vs) (rv_log vs)" using js(2) by blast
  with d g' bs v(2) show ?thesis
    by (intro exI [of _ d] exI [of _ subj] exI [of _ vs]) (simp add: document_stream_def)
qed

lemma Receipt_returns: "\<exists>v. Receipt e path targets opts = Some v"
  using ends_return [OF ends_receipt_run, of e path targets "opt_SkipAnchors opts" "newRun (env_embedded e) opts"]
  by (auto simp: Receipt_def conclude_def Let_def)

end
