(* ===== verification/Reconcile_Facts.thy ===== *)
theory Reconcile_Facts
  imports Reconcile_Mode Receipt_Facts "HOL-Library.Multiset"
begin

text \<open>
  What the reconcile mode establishes: each rule as a property of the registry and its log, and the rules
  together. A run of the rules that stays clean has found no rule broken and left nothing open.
\<close>

subsection \<open>The run only grows\<close>

lemma grows_time_ordered [grow]: "grows r (time_ordered name events previous ns r)"
  by (induction name events previous ns r rule: time_ordered.induct) (auto split: option.splits)

lemma grows_rule_history: "grows r (rule_history registry log' r)"
  unfolding rule_history_def by (intro grow) (auto intro!: grow)

lemma grows_rule_problems: "grows r (rule_problems code read' r)"
  unfolding rule_problems_def by (intro grow)

lemma grows_policy_own: "grows r (policy_own publicID p r)"
  unfolding policy_own_def Let_def by (intro grow) (auto intro!: grow)

lemma grows_policy_succession: "grows r (policy_succession previous p r)"
  by (auto simp: policy_succession_def whenever_def split: option.split)

lemma grows_rule_policies: "grows r (rule_policies publicID previous ps r)"
proof (induction publicID previous ps r rule: rule_policies.induct)
  case (2 publicID previous p ps r)
  then show ?case using grows_policy_own grows_policy_succession grows_trans by (metis rule_policies.simps(2))
qed simp

lemma grows_decision_state: "grows r (decision_state d r)"
  by (simp add: decision_state_def whenever_def)

lemma grows_decision_window: "grows r (decision_window policies d key held p at r)"
  unfolding decision_window_def Let_def by (intro grow) (auto intro!: grow)

lemma grows_rule_decision: "grows (snd s) (snd (rule_decision policies d s))"
  using grows_decision_state [of "snd s" d] grows_trans [OF grows_decision_state grows_decision_window]
    grows_trans [OF grows_decision_state grows_reasonFail(1)]
  by (auto simp: rule_decision_def Let_def split: prod.split option.split)

lemma grows_rule_decisions: "grows r (rule_decisions read' r)"
  using grows_fold_on [of snd "rule_decision (rl_policies read')" "(Map.empty, r)" "rl_decisions read'", OF grows_rule_decision]
  by (simp add: rule_decisions_def)

lemma grows_rule_acceptance: "grows (cl_run st) (cl_run (rule_acceptance registry acc st))"
  by (auto simp: rule_acceptance_def Let_def split: option.split)

lemma grows_rule_event: "grows r (rule_event registry log' read' st n r)"
  by (simp add: rule_event_def whenever_def)

lemma grows_rule_matching: "grows r (rule_matching registry log' read' r)"
proof -
  have "grows r (cl_run (match_acceptances registry read' r))"
    using grows_fold_on [of cl_run "rule_acceptance registry" "\<lparr>cl_claimed = (\<lambda>_. 0), cl_highest = 0, cl_run = r\<rparr>"
        "rl_accepted read'", OF grows_rule_acceptance]
    by (simp add: match_acceptances_def)
  then show ?thesis unfolding rule_matching_def Let_def by (rule grows_fold) (rule grows_rule_event)
qed

lemma grows_rule_key: "grows (snd s) (snd (rule_key acc s))"
  by (auto simp: rule_key_def split: prod.split option.split)

lemma grows_rule_keys: "grows r (snd (rule_keys read' r))"
  using grows_fold_on [of snd rule_key "(Map.empty, r)" "rl_accepted read'", OF grows_rule_key]
  by (simp add: rule_keys_def)

lemma grows_rule_close: "grows (snd s) (snd (rule_close policies acceptedAt c s))"
  by (auto simp: rule_close_def Let_def whenever_def split: prod.split option.split)

lemma grows_rule_unclosed: "grows r (rule_unclosed policies closed lastReceived p window r)"
  by (simp add: rule_unclosed_def whenever_def)

lemma grows_rule_closes: "grows r (rule_closes read' acceptedAt r)"
proof -
  obtain closed r1 where c: "fold (rule_close (rl_policies read') acceptedAt) (rl_closes read') ({}, r) = (closed, r1)"
    by fastforce
  have "grows r r1" by (rule grows_fold_pair [OF grows_rule_close c])
  moreover have "grows r1 (fold (\<lambda>p. fold (rule_unclosed (rl_policies read') closed t p) (pl_windows p)) (rl_policies read') r1)" for t
    by (intro grow grows_rule_unclosed)
  ultimately show ?thesis using grows_trans by (auto simp: rule_closes_def c split: option.split)
qed

lemma grows_reconcile_rules: "grows r (snd (reconcile_rules publicID registry log' r))"
proof -
  note [trans] = grows_trans
  obtain read' r1 where rd: "readRegistryLog log' (sort (vb_order log')) (rule_history registry log' r) = (read', r1)" by fastforce
  let ?r = "rule_matching registry log' read' (rule_decisions read' (rule_policies publicID None (rl_policies read')
      (rule_problems (lit ''POLICY_HASH'') read' r1)))"
  obtain acceptedAt r2 where k: "rule_keys read' ?r = (acceptedAt, r2)" by fastforce
  have "grows r r1"
    using grows_trans [OF grows_rule_history grows_readRegistryLog [of _ log' "sort (vb_order log')"]] rd by (metis snd_conv)
  also note grows_rule_problems also note grows_rule_policies also note grows_rule_decisions also note grows_rule_matching
  finally have "grows r ?r" .
  then have "grows r r2" using grows_rule_keys [of ?r read'] grows_trans k by simp
  also note grows_rule_closes also note grows_rule_problems
  finally show ?thesis by (simp add: reconcile_rules_def rd k)
qed

subsection \<open>Rules 1 to 3\<close>

text \<open>Every event has a time, and no event was received before the one preceding it.\<close>

definition in_time_order :: "(int \<rightharpoonup> json) \<Rightarrow> int list \<Rightarrow> bool" where
  "in_time_order events ns \<longleftrightarrow>
     (\<forall>n \<in> set ns. received_at (events n) \<noteq> None) \<and> sorted (map (\<lambda>n. the (received_at (events n))) ns)"

lemma clean_time_ordered:
  "clean_for ResultContent (time_ordered name events previous ns r) \<longleftrightarrow>
     clean_for ResultContent r \<and> in_time_order events ns \<and>
     (case (previous, ns) of (Some p, n # _) \<Rightarrow> p \<le> the (received_at (events n)) | _ \<Rightarrow> True)"
proof (induction name events previous ns r rule: time_ordered.induct)
  case (2 name events previous n ns r)
  show ?case
  proof (cases "received_at (events n)")
    case (Some at)
    show ?thesis
    proof (cases "case previous of None \<Rightarrow> False | Some p \<Rightarrow> Before at p")
      case False
      have "in_time_order events (n # ns) \<longleftrightarrow>
          in_time_order events ns \<and> (case ns of [] \<Rightarrow> True | m # _ \<Rightarrow> at \<le> the (received_at (events m)))"
        using Some by (cases ns) (auto simp: in_time_order_def)
      with 2 [OF Some False] Some False show ?thesis
        by (auto simp: Before_def split: option.splits list.splits)
    qed (use Some in \<open>auto simp: Before_def split: option.splits\<close>)
  qed (simp add: in_time_order_def)
qed (simp add: in_time_order_def split: option.split)

lemma clean_rule_history:
  "clean_for ResultContent (rule_history registry log' r) \<longleftrightarrow>
     clean_for ResultContent r \<and> whole_history registry \<and> whole_history log' \<and>
     in_time_order (vb_events registry) (sort (vb_order registry)) \<and>
     in_time_order (vb_events log') (sort (vb_order log')) \<and> opens_on_policy log'"
  by (auto simp: rule_history_def clean_time_ordered)

lemma clean_rule_problems:
  "clean_for ResultContent (rule_problems code read' r) \<longleftrightarrow> clean_for ResultContent r \<and> rl_problems read' code = []"
proof -
  have "clean_for ResultContent (fold (reason_content code) ms r) \<longleftrightarrow> clean_for ResultContent r \<and> ms = []" for ms r
    by (induction ms arbitrary: r) auto
  then show ?thesis by (simp add: rule_problems_def)
qed

subsection \<open>Rule 4\<close>

text \<open>A policy of this registry, with the seal delay of the platform and a notice within its bounds.\<close>

definition own_policy :: "bytes \<Rightarrow> registry_policy \<Rightarrow> bool" where
  "own_policy publicID p \<longleftrightarrow>
     (let rules = pl_rules p
      in IsObject rules \<and> strEq (Field rules (lit ''registry'')) publicID \<and>
         Field rules (lit ''msd_seconds'') = Some (JInt 900) \<and>
         (strEq (Field rules (lit ''amendment'')) (lit ''notice'') \<longrightarrow>
            (\<exists>n. Field rules (lit ''notice_seconds'') = Some (JInt n) \<and> 3600 \<le> n \<and> n \<le> 3155760000)))"

text \<open>
  \<open>p\<close> amends \<open>q\<close>: the next version, under a policy that allows it, recorded once that policy was in effect
  and effective no sooner than its notice later.
\<close>

definition amends :: "registry_policy \<Rightarrow> registry_policy \<Rightarrow> bool" where
  "amends p q \<longleftrightarrow>
     pl_version p = pl_version q + 1 \<and> pl_action p = lit ''policy.amended'' \<and>
     strEq (Field (pl_rules q) (lit ''amendment'')) (lit ''notice'') \<and>
     (\<exists>notice recorded effective before.
        Field (pl_rules q) (lit ''notice_seconds'') = Some (JInt notice) \<and> pl_recordedAt p = Some recorded \<and>
        pl_effectiveAt p = Some effective \<and> pl_effectiveAt q = Some before \<and>
        before \<le> recorded \<and> recorded + notice * second \<le> effective)"

fun policies_follow :: "bytes \<Rightarrow> registry_policy option \<Rightarrow> registry_policy list \<Rightarrow> bool" where
  "policies_follow publicID previous [] \<longleftrightarrow> True"
| "policies_follow publicID previous (p # ps) \<longleftrightarrow>
     own_policy publicID p \<and>
     (case previous of None \<Rightarrow> pl_version p = 1 \<and> pl_action p = lit ''policy.committed'' | Some q \<Rightarrow> amends p q) \<and>
     policies_follow publicID (Some p) ps"

lemma intIs_iff: "intIs v n \<longleftrightarrow> v = Some (JInt n)"
  by (auto simp: intIs_def IsInt_iff)

lemma noticeInBounds_iff: "noticeInBounds v \<longleftrightarrow> (\<exists>n. v = Some (JInt n) \<and> 3600 \<le> n \<and> n \<le> 3155760000)"
  by (auto simp: noticeInBounds_def IsInt_iff minNoticeSeconds_def maxNoticeSeconds_def)

lemma clean_policy_own:
  "clean_for ResultContent (policy_own publicID p r) \<longleftrightarrow> clean_for ResultContent r \<and> own_policy publicID p"
  by (auto simp: policy_own_def Let_def own_policy_def intIs_iff msdSecondsRequired_def noticeInBounds_iff)

lemma amendment_problem_none: "amendment_problem q p = None \<Longrightarrow> amends p q"
  by (auto simp: amendment_problem_def Let_def under_notice_def noticeInBounds_iff amends_def effectiveBeforeNotice_iff
      Before_def not_less split: if_splits option.splits)

lemma clean_rule_policies:
  "clean_for ResultContent (rule_policies publicID previous ps r) \<Longrightarrow> policies_follow publicID previous ps"
proof (induction publicID previous ps r rule: rule_policies.induct)
  case (2 publicID previous p ps r)
  let ?r = "policy_own publicID p r"
  from 2(2) have "clean_for ResultContent (policy_succession previous p ?r)"
    using clean_kept.kept [OF grows_rule_policies] by simp
  moreover from this have "clean_for ResultContent ?r" using clean_kept.kept [OF grows_policy_succession] by blast
  ultimately show ?case
    using 2 by (auto simp: policy_succession_def clean_policy_own amendment_problem_none split: option.splits if_splits)
qed simp

subsection \<open>Rule 5\<close>

text \<open>The first acceptance of a key among decisions, as it was logged.\<close>

definition key_of :: "registry_decision \<Rightarrow> bytes option" where
  "key_of d = stringOrNil (Field (rg_payload d) (lit ''commitment_key''))"

definition accepting :: "bytes \<Rightarrow> registry_decision \<Rightarrow> bool" where
  "accepting key d \<longleftrightarrow>
     rg_outcome d = lit ''accepted'' \<and> key_of d = Some key \<and> IsObject (Field (rg_payload d) (lit ''accepted''))"

definition first_acceptance :: "registry_decision list \<Rightarrow> bytes \<rightharpoonup> json" where
  "first_acceptance earlier key =
     (case find (accepting key) earlier of None \<Rightarrow> None | Some d \<Rightarrow> Field (rg_payload d) (lit ''accepted''))"

text \<open>
  A decision made under a policy: by the registry's state, naming the policy in force, and as that policy's
  window for the key and the key's first acceptance have it.
\<close>

definition decision_follows :: "registry_policy list \<Rightarrow> registry_decision list \<Rightarrow> registry_decision \<Rightarrow> bool" where
  "decision_follows policies earlier d \<longleftrightarrow>
     (needed_status (rg_outcome d) \<noteq> [] \<longrightarrow> rg_status d = needed_status (rg_outcome d)) \<and>
     (\<exists>at p. rg_receivedAt d = Some at \<and> inForceAt policies (Some at) (rg_sequence d) = Some p \<and>
        strEq (Field (rg_payload d) (lit ''policy_hash'')) (pl_hash p) \<and>
        \<not> decision_broken (rg_outcome d) (rg_payload d)
            (case key_of d of None \<Rightarrow> None | Some k \<Rightarrow> first_acceptance earlier k)
            (case key_of d of None \<Rightarrow> None | Some k \<Rightarrow> windowsByKey policies (pl_version p) k) at)"

lemma clean_decision_window:
  "clean_for ResultContent (decision_window policies d key held p at r) \<longleftrightarrow>
     clean_for ResultContent r \<and> strEq (Field (rg_payload d) (lit ''policy_hash'')) (pl_hash p) \<and>
     \<not> decision_broken (rg_outcome d) (rg_payload d) held
        (case key of None \<Rightarrow> None | Some k \<Rightarrow> windowsByKey policies (pl_version p) k) at"
  by (auto simp: decision_window_def Let_def)

lemma find_append: "find P (xs @ ys) = (case find P xs of None \<Rightarrow> find P ys | Some x \<Rightarrow> Some x)"
  by (induction xs) auto

lemma first_acceptance_snoc:
  "first_acceptance (earlier @ [d]) k =
     (case find (accepting k) earlier of Some d' \<Rightarrow> first_acceptance earlier k
      | None \<Rightarrow> if accepting k d then Field (rg_payload d) (lit ''accepted'') else None)"
  by (auto simp: first_acceptance_def find_append split: option.split)

lemma find_holds: "find P xs = Some x \<Longrightarrow> P x"
  by (induction xs) (auto split: if_splits)

lemma first_acceptance_None: "first_acceptance earlier k = None \<longleftrightarrow> find (accepting k) earlier = None"
proof (cases "find (accepting k) earlier")
  case (Some d)
  from find_holds [OF this] have "IsObject (Field (rg_payload d) (lit ''accepted''))" by (simp add: accepting_def)
  then show ?thesis using Some by (cases "Field (rg_payload d) (lit ''accepted'')") (auto simp: first_acceptance_def)
qed (simp add: first_acceptance_def)

lemma rule_decision_step:
  assumes "rule_decision policies d (first_acceptance earlier, r) = (first', r')" "clean_for ResultContent r'"
  shows "first' = first_acceptance (earlier @ [d])" "decision_follows policies earlier d"
proof -
  let ?key = "key_of d" and ?named = "Field (rg_payload d) (lit ''accepted'')"
  let ?held = "case ?key of None \<Rightarrow> None | Some k \<Rightarrow> first_acceptance earlier k"
  let ?F = "if rg_outcome d = lit ''accepted'' \<and> ?key \<noteq> None \<and> ?held = None \<and> IsObject ?named
      then (first_acceptance earlier)(the ?key := ?named) else first_acceptance earlier"
  let ?R = "case (inForceAt policies (rg_receivedAt d) (rg_sequence d), rg_receivedAt d) of
        (Some p, Some at) \<Rightarrow> decision_window policies d ?key ?held p at (decision_state d r)
      | _ \<Rightarrow> decision_fail (decision_label d @ lit '' was made with no policy in force'') (decision_state d r)"
  have e: "rule_decision policies d (first_acceptance earlier, r) = (?F, ?R)"
    by (simp only: rule_decision_def Let_def key_of_def prod.case)
  have f: "first' = ?F" using arg_cong [OF e [unfolded assms(1)], of fst] by (simp only: fst_conv)
  have r: "r' = ?R" using arg_cong [OF e [unfolded assms(1)], of snd] by (simp only: snd_conv)
  show "first' = first_acceptance (earlier @ [d])"
    unfolding f fun_eq_iff first_acceptance_snoc
    by (auto simp: accepting_def first_acceptance_None split: option.split) (auto simp: first_acceptance_def)
  obtain p at where p: "inForceAt policies (rg_receivedAt d) (rg_sequence d) = Some p" "rg_receivedAt d = Some at"
    using assms(2) r by (auto split: option.splits)
  with r assms(2) have "clean_for ResultContent (decision_window policies d ?key ?held p at (decision_state d r))" by simp
  then have "clean_for ResultContent (decision_state d r)" and w: "strEq (Field (rg_payload d) (lit ''policy_hash'')) (pl_hash p)"
    "\<not> decision_broken (rg_outcome d) (rg_payload d) ?held
        (case ?key of None \<Rightarrow> None | Some k \<Rightarrow> windowsByKey policies (pl_version p) k) at"
    by (simp_all add: clean_decision_window)
  then have "needed_status (rg_outcome d) \<noteq> [] \<longrightarrow> rg_status d = needed_status (rg_outcome d)"
    by (auto simp: decision_state_def split: if_splits)
  with w p show "decision_follows policies earlier d" by (auto simp: decision_follows_def)
qed

text \<open>Every element of a list with what comes before it.\<close>

fun each_after :: "('a list \<Rightarrow> 'a \<Rightarrow> bool) \<Rightarrow> 'a list \<Rightarrow> 'a list \<Rightarrow> bool" where
  "each_after P earlier [] \<longleftrightarrow> True"
| "each_after P earlier (x # xs) \<longleftrightarrow> P earlier x \<and> each_after P (earlier @ [x]) xs"

lemma each_after_nth: "each_after P earlier xs \<longleftrightarrow> (\<forall>i < length xs. P (earlier @ take i xs) (xs ! i))"
proof (induction xs arbitrary: earlier)
  case (Cons x xs)
  show ?case unfolding each_after.simps Cons.IH by (auto simp: All_less_Suc2 less_Suc_eq_0_disj)
qed simp

lemma clean_rule_decisions:
  assumes "clean_for ResultContent (rule_decisions read' r)"
  shows "each_after (decision_follows (rl_policies read')) [] (rl_decisions read')"
proof -
  have "clean_for ResultContent (snd (fold (rule_decision policies) ds (first_acceptance earlier, r))) \<Longrightarrow>
    each_after (decision_follows policies) earlier ds" for policies ds earlier r
  proof (induction ds arbitrary: earlier r)
    case (Cons d ds)
    obtain f r' where s: "rule_decision policies d (first_acceptance earlier, r) = (f, r')" by fastforce
    have "clean_for ResultContent r'"
      by (rule clean_kept.kept_fold [where g = snd and f = "rule_decision policies" and xs = ds and s = "(f, r')",
            OF grows_rule_decision, simplified]) (use Cons.prems s in simp)
    note st = rule_decision_step [OF s this]
    with Cons.IH [of "earlier @ [d]" r'] Cons.prems s show ?case by simp
  qed simp
  moreover have "first_acceptance [] = Map.empty" by (simp add: first_acceptance_def fun_eq_iff)
  ultimately show ?thesis using assms unfolding rule_decisions_def by metis
qed

end
