(* ===== verification/Completeness.thy ===== *)
theory Completeness
  imports Verdict_Sound
begin

text \<open>
  The other direction: an intact bundle, signed by trusted keys, passes. Stated for a bundle of the three
  required files with every payload present, and proved section by section.
\<close>

subsection \<open>Steps that report against content only\<close>

definition content_only :: "run \<Rightarrow> run \<Rightarrow> bool" where
  "content_only r r' \<longleftrightarrow> results r' = results r \<or> results r' = (results r)(ResultContent := StateFail)"

lemma content_only_sound: "content_only r r' \<Longrightarrow> sound_for ResultContent r' \<Longrightarrow> results r' = results r"
  by (auto simp: content_only_def sound_for_def)

lemma content_only_trans: "content_only r s \<Longrightarrow> content_only s t \<Longrightarrow> content_only r t"
  by (auto simp: content_only_def)

lemma content_only_step [simp]:
  "content_only r r" "content_only r (content m r)" "content_only r (note_msg m r)" "content_only r (info m r)"
  by (auto simp: content_only_def report_def note_msg_def info_def Let_def demote_max max_def)

lemma content_only_last:
  "content_only r s \<Longrightarrow> content_only r (content m s)" "content_only r s \<Longrightarrow> content_only r (note_msg m s)"
  "content_only r s \<Longrightarrow> content_only r (whenever b (content m) s)"
  by (auto simp: whenever_def intro: content_only_trans [OF _ content_only_step(2)] content_only_trans [OF _ content_only_step(3)])

lemma content_only_if: "content_only r s \<Longrightarrow> content_only r t \<Longrightarrow> content_only r (if b then s else t)"
  by simp

lemma content_only_sum:
  "(\<And>e. content_only r (f e)) \<Longrightarrow> (\<And>y. content_only r (g y)) \<Longrightarrow> content_only r (case x of Inl e \<Rightarrow> f e | Inr y \<Rightarrow> g y)"
  by (cases x) auto

lemmas content_only_rules = content_only_last content_only_if content_only_sum content_only_step(1)

lemma content_only_payload: "content_only (w_run w) (w_run (event_payload cx n ev w))"
proof -
  have push: "w_run (if b then v else u) = (if b then w_run v else w_run u)" for b v u by simp
  have rd: "w_run (w\<lparr>w_absent := a, w_redacted := m, w_kinds := ks\<rparr>) = w_run w" for a m ks by simp
  show ?thesis
    unfolding event_payload_def Let_def push w_run_on_run rd by (intro content_only_rules)
qed

lemma content_only_hashes: "content_only r (event_hashes cx n ev p r)"
  unfolding event_hashes_def Let_def by (intro content_only_rules)

lemma content_only_event: "content_only (w_run w) (w_run (event_step cx k x w))"
proof -
  have keep: "w_run (if b then v\<lparr>w_hashes := h\<rparr> else v) = w_run v" for b v h by simp
  have p: "content_only (w_run w) (w_run (event_payload cx n ev (on_run (whenever b (content m)) (w\<lparr>w_count := c\<rparr>))))" for n ev b m c
    by (rule content_only_trans [OF _ content_only_payload]) (simp add: content_only_last)
  show ?thesis
    unfolding event_step_def Let_def
    by (auto simp: keep intro!: content_only_trans [OF p content_only_hashes])
qed

lemma content_only_events: "content_only (w_run w) (w_run (fold (\<lambda>(k, x). event_step cx k x) ls w))"
proof (induction ls arbitrary: w)
  case (Cons l ls)
  obtain k x where l: "l = (k, x)" by (cases l)
  have "content_only (w_run w) (w_run (event_step cx k x w))" by (rule content_only_event)
  with Cons.IH [of "event_step cx k x w"] l show ?case by (auto intro: content_only_trans)
qed simp

subsection \<open>The events\<close>

text \<open>A payload that is there leaves the list of absent ones alone.\<close>

lemma absent_event:
  assumes "\<not> nullish (Field (decode x) (lit ''payload''))"
  shows "w_absent (event_step cx k x w) = w_absent w"
proof -
  have leaf: "w_absent (event_leaf cx n h v) = w_absent v" for n h v
  proof -
    have "w_absent (close_passed n v) = w_absent v" by (rule close_keep) (simp add: closeCheckpoint_def Let_def)
    then show ?thesis by (simp add: event_leaf_def Let_def split: option.split)
  qed
  have run: "w_absent (on_run f v) = w_absent v" for f v by (simp add: on_run_def)
  have pl: "w_absent (event_payload cx n (decode x) v) = w_absent v" for n v
    using assms by (auto simp: event_payload_def Let_def run)
  show ?thesis unfolding event_step_def Let_def by (simp add: leaf pl run)
qed

lemma events_complete:
  assumes "chain_ok (cx_stream cx) (cx_redactions cx) n (w_prev w) (map (\<lambda>(k, x). decode x) ls)"
    and "w_expected w = counter_at n" "n + int (length ls) - 1 \<le> max_int64" "sound_for ResultContent (w_run w)"
    and "\<forall>(k, x) \<in> set ls. \<not> nullish (Field (decode x) (lit ''payload''))"
  shows "sound_for ResultContent (w_run (fold (\<lambda>(k, x). event_step cx k x) ls w)) \<and>
    w_absent (fold (\<lambda>(k, x). event_step cx k x) ls w) = w_absent w"
  using assms
proof (induction ls arbitrary: w n)
  case (Cons l ls)
  obtain k x where l: "l = (k, x)" by (cases l)
  let ?w = "event_step cx k x w"
  have ok: "event_ok (cx_stream cx) (cx_redactions cx) n (w_prev w) (decode x)"
    and later: "chain_ok (cx_stream cx) (cx_redactions cx) (n + 1) (Field (decode x) (lit ''entry_hash'')) (map (\<lambda>(k, x). decode x) ls)"
    using Cons.prems(1) l by simp_all
  have "sound_for ResultContent (w_run ?w)"
    using ok Cons.prems(2,4) by (auto simp: sound_event_step counter_at_def counter_equals_def)
  note step = event_step_ok [OF ok, of cx k w]
  have ab: "w_absent ?w = w_absent w" by (rule absent_event) (use Cons.prems(5) l in auto)
  show ?case
  proof (cases "ls = []")
    case True
    then show ?thesis using l \<open>sound_for ResultContent (w_run ?w)\<close> ab by simp
  next
    case False
    then have "n \<noteq> max_int64" using Cons.prems(3) by (cases ls) auto
    then have e: "w_expected ?w = counter_at (n + 1)" using step by (simp add: counter_next_def)
    have "sound_for ResultContent (w_run (fold (\<lambda>(k, x). event_step cx k x) ls ?w)) \<and>
        w_absent (fold (\<lambda>(k, x). event_step cx k x) ls ?w) = w_absent ?w"
      by (rule Cons.IH [where n = "n + 1"]) (use e later step Cons.prems \<open>sound_for ResultContent (w_run ?w)\<close> in auto)
    then show ?thesis using l ab by simp
  qed
qed simp

lemma all_content_lines:
  assumes "\<forall>x \<in> set (phys_lines f). short_line x"
  obtains ls l where "\<And>body s. for_lines body (NewLines f) s = (fold (\<lambda>(n, x). body n x) ls s, l)" "l_err l = None"
    "map snd ls = content_lines f"
proof -
  have "l_err (NewLines f) = None" "l_done (NewLines f) \<longrightarrow> phys_lines (l_rest (NewLines f)) = []" "l_rest (NewLines f) = f"
    by (simp_all add: NewLines_def)
  note spec = all_lines_spec [OF this(1,2), unfolded this(3)]
  have "takeWhile short_line (phys_lines f) = phys_lines f" using assms by simp
  with spec have "fst (all_lines (NewLines f)) = map trim_eol (phys_lines f)" by simp
  moreover have "l_err (snd (all_lines (NewLines f))) = None" using spec assms by simp
  ultimately show ?thesis
    by (intro that [of "filter (\<lambda>(n, x). \<not> IsBlank x) (numbered (l_number (NewLines f) + 1) (map trim_eol (phys_lines f)))"
        "snd (all_lines (NewLines f))"]) (simp_all add: for_lines_fold map_snd_numbered content_lines_def)
qed

lemma walk_events_complete:
  assumes f: "IsFile b (lit ''events.ndjson'')" "Open_file b (lit ''events.ndjson'') = Inr f"
    "\<forall>x \<in> set (phys_lines f). short_line x"
    and evs: "evs = map decode (content_lines f)" "evs \<noteq> []" "\<forall>ev \<in> set evs. \<not> nullish (Field ev (lit ''payload''))"
    and chain: "chain_ok (cx_stream cx) (cx_redactions cx) (cx_from cx) (first_prev (cx_from cx)) evs"
    and to: "cx_to cx = cx_from cx + int (length evs) - 1" "cx_to cx < max_int64" and s: "sound_for ResultContent r"
    and coll: "\<And>s. new_collector p (cx_from cx) (cx_to cx) s = Some (Inr c, s)"
  obtains w r' where "walk_events b cx ranges p r = Some (Inr w, r')" "results r' = results r" "w_absent w = []"
    "w_collector w = map_option (fold (Collector_Append sha256) (map leaf_of evs)) c"
    "walk_trees cx ranges (map leaf_of evs) w" "grows r r'"
proof -
  obtain ls l where ls: "\<And>(body :: int \<Rightarrow> bytes \<Rightarrow> walk \<Rightarrow> walk) s. for_lines body (NewLines f) s = (fold (\<lambda>(n, x). body n x) ls s, l)" "l_err l = None"
    "map snd ls = content_lines f"
    using all_content_lines [OF f(3)] by blast
  have dec: "map (\<lambda>(k, x). decode x) ls = evs" unfolding evs(1) ls(3) [symmetric] by (simp add: case_prod_beta)
  let ?r = "info (lit ''Checking events.ndjson (hash chain)...'') r"
  let ?s = "start_walk cx ranges c ?r"
  let ?w = "fold (\<lambda>(k, x). event_step cx k x) ls ?s" let ?last = "cx_from cx + int (length evs) - 1"
  have last: "int64_ok ?last"
  proof -
    have "Field (evs ! (length evs - 1)) (lit ''seq'') = Some (JInt (cx_from cx + int (length evs - 1)))"
      using chain_ok_nth [OF chain, of "length evs - 1"] evs(2) by simp
    moreover have "cx_from cx + int (length evs - 1) = ?last" using evs(2) by (cases evs) auto
    moreover have "evs ! (length evs - 1) = decode (content_lines f ! (length evs - 1))" using evs(1,2) by simp
    ultimately show ?thesis using decode_int64 by metis
  qed
  have len: "length ls = length evs" using arg_cong [OF dec, of length] by simp
  have sd: "sound_for ResultContent (w_run ?w) \<and> w_absent ?w = w_absent ?s"
    by (rule events_complete [where n = "cx_from cx"])
      (use dec chain last len s evs(3) in \<open>auto simp: start_walk_def first_prev_def int64_ok_def\<close>)
  note seen = sound_events [of cx ls ?s "cx_from cx" "w_run ?w", unfolded dec]
  have e: "w_expected ?w = counter_next ?last" "w_count ?w = int (length evs)"
    "forget (w_run ?w) ?w = walk_leaves cx (cx_from cx) (map leaf_of evs) (forget (w_run ?w) ?s)"
    using seen sd evs(2) by (simp_all add: start_walk_def)
  let ?v = "end_walk cx ?w"
  have "minusOneEquals (counter_next ?last) (cx_to cx)"
    using to last wrap64_id [of ?last] by (simp add: minusOneEquals_def counter_next_def counter_at_def)
  then have run: "w_run ?v = w_run ?w" "w_absent ?v = w_absent ?w" "w_count ?v = w_count ?w" "w_collector ?v = w_collector ?w"
    using e(1) by (simp_all add: end_walk_def Let_def on_run_def whenever_def close_keep [of w_absent] close_keep [of w_expected]
        close_keep [of w_collector] closeCheckpoint_def)
  have len32: "\<forall>x \<in> set (map leaf_of evs). length x = 32"
    using chain_ok_nth [OF chain] by (auto simp: in_set_conv_nth)
  have "w_collector ?w = w_collector (forget (w_run ?w) ?w)" by simp
  also have "\<dots> = map_option (fold (Collector_Append sha256) (map leaf_of evs)) c"
    unfolding e(3) walk_leaves_collector [OF len32] by (simp add: start_walk_def)
  finally have wc: "w_collector ?v = map_option (fold (Collector_Append sha256) (map leaf_of evs)) c" using run by simp
  have "walk_events b cx ranges p r = Some (Inr ?v, w_run ?v)"
    using f(1,2) evs(2) e(2) ls(2) run
    by (simp add: walk_events_def andthen_def perform_def require_def return_def lift_def coll compute_def
        run_events_def ls(1) lines_problem_def Let_def)
  moreover have "results (w_run ?v) = results r"
    using content_only_sound [OF content_only_events, of cx ls ?s] sd run by (simp add: start_walk_def info_def)
  moreover have "w_absent ?v = []" using run sd by (simp add: start_walk_def)
  moreover note wc
  moreover have "walk_trees cx ranges (map leaf_of evs) ?v" by (rule walk_trees_built [OF chain refl e(3)])
  moreover have "grows r (w_run ?v)" by (rule growingD [OF growing_walk_events calculation(1)])
  ultimately show thesis by (rule that)
qed

subsection \<open>The checkpoints\<close>

text \<open>Ranges with events in them, one after the other: each gets exactly its own leaves.\<close>

definition ranges_ok :: "int \<Rightarrow> int \<Rightarrow> (int \<times> int) list \<Rightarrow> bool" where
  "ranges_ok n hi rs \<longleftrightarrow> consecutive n rs \<and> (\<forall>(f, t) \<in> set rs. f \<le> t \<and> t < hi)"

lemma ranges_ok_Cons [simp]:
  "ranges_ok n hi ((f, t) # rs) \<longleftrightarrow> f = n \<and> n \<le> t \<and> t < hi \<and> ranges_ok (t + 1) hi rs"
  by (auto simp: ranges_ok_def)

lemma ranges_ok_later: "ranges_ok n hi rs \<Longrightarrow> (f, t) \<in> set rs \<Longrightarrow> n \<le> f"
proof (induction rs arbitrary: n)
  case (Cons r rs)
  obtain g u where r: "r = (g, u)" by (cases r)
  with Cons.prems Cons.IH [of "u + 1"] show ?case by auto
qed simp

lemma groups_exact: "ranges_ok n hi rs \<Longrightarrow> groups hi n rs = map (\<lambda>(f, t). (f, f, t + 1)) rs"
proof (induction rs arbitrary: n)
  case (Cons r rs)
  obtain f t where r: "r = (f, t)" by (cases r)
  with Cons.prems have "f = n" "n \<le> t" "t < hi" and rs: "ranges_ok (t + 1) hi rs" by simp_all
  then have "max n (min hi (t + 1)) = t + 1" by linarith
  with Cons.IH [OF rs] r \<open>f = n\<close> show ?case by (simp add: Let_def)
qed simp

lemma put_exact:
  assumes "ranges_ok n hi rs" "(f, t) \<in> set rs"
  shows "put_groups g (groups hi n rs) M f = Some (g f (t + 1))"
proof -
  obtain xs ys where rs: "rs = xs @ (f, t) # ys" using assms(2) by (meson split_list)
  have "ranges_ok k hi (xs @ (f, t) # ys) \<Longrightarrow> ranges_ok (t + 1) hi ys \<and> f \<le> t" for k
    by (induction xs arbitrary: k) (auto simp: ranges_ok_def)
  then have ys: "ranges_ok (t + 1) hi ys" "f \<le> t" using assms(1) unfolding rs by blast+
  have "\<forall>(k, a, m) \<in> set (map (\<lambda>(f, t). (f, f, t + 1)) ys). k \<noteq> f"
    using ranges_ok_later [OF ys(1)] ys(2) by force
  from put_groups_last [OF this] show ?thesis unfolding groups_exact [OF assms(1)] by (simp add: rs)
qed

lemma covered_root:
  assumes trees: "walk_trees cx ranges L w" and rs: "ranges_ok (cx_from cx) (cx_from cx + int (length L)) ranges"
    and rng: "(f, t) \<in> set ranges" "1 \<le> cx_from cx" "int64_ok t" and cov: "covers (cx_from cx) L f t cp"
  shows "root_ok w cp f t"
proof -
  let ?F = "cx_from cx"
  have ft: "f \<le> t" "?F \<le> f" "1 \<le> f" "t < ?F + int (length L)"
    using ranges_ok_later [OF rs rng(1)] rs rng(1,2) by (auto simp: ranges_ok_def)
  have "w_leaves w f = Some (t + 1 - f)" "w_rebuilt w f = Some (group_root (seg ?F L f (t + 1)))"
    using trees put_exact [OF rs rng(1)] by (simp_all add: walk_trees_def Let_def)
  moreover have "wrap64 (t - f + 1) = t - f + 1" using rng(3) ft by (intro wrap64_id) (simp add: int64_ok_def)
  moreover have "seg ?F L f (t + 1) \<noteq> []" using length_seg [of ?F f "t + 1" L] ft by auto
  ultimately show ?thesis using cov ft by (simp add: root_ok_def covers_def lookup_or_def group_root_def)
qed

lemma checkpoint_step_clean:
  assumes "checkpoint_ok ed mf (trusted (p_run p)) w (p_prev p) f t (Some cp)" "counter_equals (p_expected p) f"
    and "trusted_key_ok (trusted (p_run p)) (Some cp)"
  shows "results (p_run (checkpoint_step ed mf w cp p)) = results (p_run p)"
proof -
  have key: "results (checkpoint_key mf label (cp_key c) (text_of (Field c (lit ''created_at''))) r) = results r"
    if "manifest_key_ok mf (trusted r) c" "trusted_key_ok (trusted r) c" for label c r
    using that by (auto simp: checkpoint_key_def manifest_key_ok_def trusted_key_ok_def whenever_def Let_def use_key_def
        windowProblems_none [symmetric] split: option.splits)
  have hash: "checkpoint_hash_check mf label c a z r = r"
    if "hashes_to (cp_preimage (mf_stream mf) c a z) (Field c (lit ''checkpoint_hash''))" for label c a z r
    using that by (auto simp: checkpoint_hash_check_def cp_preimage_def hashes_to_def whenever_def)
  have root': "checkpoint_root w label c a z r = r" if "root_ok w c a z" for label c a z r
    using that by (auto simp: checkpoint_root_def root_ok_def whenever_def Let_def)
  from assms show ?thesis
    unfolding checkpoint_step_def Let_def cp_key_def [symmetric]
    by (auto simp: checkpoint_ok_def hash root' key cp_signed_def link_ok_def whenever_def)
qed

text \<open>All of them, from the specification of the log.\<close>

lemma sealed_ranges: "sealed ed mf ks F L n prev cps \<Longrightarrow> consecutive n (checkpoint_ranges cps)"
proof (induction ed mf ks F L n prev cps rule: sealed.induct)
  case (2 ed mf ks F L n prev cp cps)
  obtain f t where r: "cp_range cp = Some (f, t)" using "2.prems" by (auto simp: Let_def split: option.splits)
  with 2 show ?case by (simp add: checkpoint_ranges_def Let_def)
qed (simp add: checkpoint_ranges_def)

lemma checkpoints_complete:
  assumes "sealed ed mf (trusted (p_run p)) F L n (p_prev p) cps" "p_expected p = counter_at n"
    and "ranges_ok n (F + int (length L)) (checkpoint_ranges cps)"
    and "list_all (\<lambda>cp. trusted_key_ok (trusted (p_run p)) (Some cp)) cps"
    and "\<And>f t c. (f, t) \<in> set (checkpoint_ranges cps) \<Longrightarrow> covers F L f t c \<Longrightarrow> root_ok w c f t"
    and "F + int (length L) \<le> max_int64"
  shows "results (p_run (fold (checkpoint_step ed mf w) cps p)) = results (p_run p) \<and>
    (cps \<noteq> [] \<longrightarrow> p_expected (fold (checkpoint_step ed mf w) cps p) = counter_next (last_to cps))"
  using assms(1-5)
proof (induction cps arbitrary: p n)
  case (Cons cp cps)
  obtain f t where r: "cp_range cp = Some (f, t)" using Cons.prems(1) by (auto simp: Let_def split: option.splits)
  then have rs: "checkpoint_ranges (cp # cps) = (f, t) # checkpoint_ranges cps" by (simp add: checkpoint_ranges_def)
  have fields: "Field (Some cp) (lit ''from'') = Some (JInt f)" "Field (Some cp) (lit ''to'') = Some (JInt t)"
    using r by (auto simp: cp_range_def Let_def IsInt_iff split: if_splits)
  have sl: "f = n" "hashes_to (cp_preimage (mf_stream mf) (Some cp) f t) (Field (Some cp) (lit ''checkpoint_hash''))"
    "link_ok (lit ''prev_checkpoint'') (p_prev p) (Some cp)" "manifest_key_ok mf (trusted (p_run p)) (Some cp)" "cp_signed ed (Some cp)"
    "covers F L f t (Some cp)"
    "sealed ed mf (trusted (p_run p)) F L (t + 1) (Field (Some cp) (lit ''checkpoint_hash'')) cps"
    using Cons.prems(1) unfolding sealed.simps Let_def r option.case prod.case by blast+
  have root': "root_ok w (Some cp) f t" by (rule Cons.prems(5)) (simp_all add: rs sl(6))
  have ok: "checkpoint_ok ed mf (trusted (p_run p)) w (p_prev p) f t (Some cp)"
    using fields sl root' by (simp add: checkpoint_ok_def)
  let ?p = "checkpoint_step ed mf w cp p"
  note step = checkpoint_step_ok [OF ok, of ed mf w p]
  have res: "results (p_run ?p) = results (p_run p)"
    by (rule checkpoint_step_clean [OF ok]) (use Cons.prems(2,4) sl(1) in \<open>auto simp: counter_at_def counter_equals_def\<close>)
  have small: "t < max_int64" "ranges_ok (t + 1) (F + int (length L)) (checkpoint_ranges cps)"
    using Cons.prems(3) rs assms(6) by auto
  have IH: "results (p_run (fold (checkpoint_step ed mf w) cps ?p)) = results (p_run ?p) \<and>
      (cps \<noteq> [] \<longrightarrow> p_expected (fold (checkpoint_step ed mf w) cps ?p) = counter_next (last_to cps))"
  proof (rule Cons.IH [where n = "t + 1"])
    show "sealed ed mf (trusted (p_run ?p)) F L (t + 1) (p_prev ?p) cps" using step sl(7) by simp
    show "p_expected ?p = counter_at (t + 1)" using step small by (simp add: counter_next_def)
    show "ranges_ok (t + 1) (F + int (length L)) (checkpoint_ranges cps)" by (rule small(2))
    show "list_all (\<lambda>cp. trusted_key_ok (trusted (p_run ?p)) (Some cp)) cps" using Cons.prems(4) step by simp
    show "\<And>f t c. (f, t) \<in> set (checkpoint_ranges cps) \<Longrightarrow> covers F L f t c \<Longrightarrow> root_ok w c f t"
      using Cons.prems(5) rs by auto
  qed
  have "checkpoint_ranges cps \<noteq> []" if "cps \<noteq> []"
    using sl(7) that by (cases cps) (auto simp: Let_def checkpoint_ranges_def split: option.splits)
  then have "last_to (cp # cps) = (if cps = [] then t else last_to cps)" 
    by (cases "cps = []") (simp_all add: last_to_def rs, simp add: checkpoint_ranges_def r)
  with IH res step(1) show ?case by (cases "cps = []") simp_all
qed simp

lemma walk_checkpoints_complete:
  assumes "walk_trees cx (checkpoint_ranges cps) L w" "cps = log_checkpoints b" "cps \<noteq> []" "cx_from cx = mf_from mf"
    and "sealed ed mf (trusted r) (mf_from mf) L (mf_from mf) (first_prev (mf_from mf)) cps"
    and "ranges_ok (mf_from mf) (mf_from mf + int (length L)) (checkpoint_ranges cps)"
    and "vouched (trusted r) mf b" "mf_from mf + int (length L) \<le> max_int64" "1 \<le> mf_from mf"
  obtains hashes r' where "walk_checkpoints ed mf cps w r = (hashes, r')" "results r' = results r" "grows r r'"
proof -
  let ?p = "\<lparr>p_run = info (lit ''Checking checkpoints.json (signed Merkle checkpoints)...'') r,
    p_prev = first_prev (mf_from mf), p_expected = counter_at (mf_from mf), p_hashes = []\<rparr>"
  let ?q = "fold (checkpoint_step ed mf w) cps ?p"
  have "results (p_run ?q) = results (p_run ?p) \<and> (cps \<noteq> [] \<longrightarrow> p_expected ?q = counter_next (last_to cps))"
  proof (rule checkpoints_complete [where F = "mf_from mf" and n = "mf_from mf" and L = L])
    show "\<And>f t c. (f, t) \<in> set (checkpoint_ranges cps) \<Longrightarrow> covers (mf_from mf) L f t c \<Longrightarrow> root_ok w c f t"
      using covered_root [OF assms(1)] assms(2,4,6,9) log_checkpoints_int64 by metis
  qed (use assms(5-8) in \<open>simp_all add: vouched_def assms(2)\<close>)
  then have q: "results (p_run ?q) = results r" "p_expected ?q = counter_next (mf_to mf)"
    using assms(3,7) by (simp_all add: info_def vouched_def assms(2))
  have ne: "checkpoint_ranges cps \<noteq> []"
    using assms(3,5) by (cases cps) (auto simp: Let_def checkpoint_ranges_def split: option.splits)
  then have "last (checkpoint_ranges cps) \<in> set (checkpoint_ranges cps)" by simp
  moreover have "last_to cps = mf_to mf" using assms(2,7) by (simp add: vouched_def)
  ultimately have "(fst (last (checkpoint_ranges cps)), mf_to mf) \<in> set (checkpoint_ranges cps)"
    unfolding last_to_def by (metis prod.collapse)
  then have "mf_to mf < max_int64" "int64_ok (mf_to mf)"
    using assms(6,8) log_checkpoints_int64 assms(2) by (auto simp: ranges_ok_def)
  then have "minusOneEquals (p_expected ?q) (mf_to mf)"
    unfolding q(2) using wrap64_id [of "mf_to mf"] by (simp add: minusOneEquals_def counter_next_def counter_at_def)
  then have "walk_checkpoints ed mf cps w r = (p_hashes ?q, p_run ?q)"
    by (simp add: walk_checkpoints_def Let_def first_prev_def whenever_def)
  moreover have "grows r (p_run ?q)" using grows_walk_checkpoints [of r ed mf cps w] calculation by simp
  ultimately show thesis using q(1) that by blast
qed

subsection \<open>The whole bundle\<close>

text \<open>
  A bundle of the three required files alone: every payload present, every line within the limit, every
  checkpoint with events in its range, no certificate, and no format that must carry collection records.
\<close>

definition core_files :: "bytes list" where
  "core_files = [lit ''manifest.json'', lit ''events.ndjson'', lit ''checkpoints.json'']"

definition plain :: "manifest \<Rightarrow> reader \<Rightarrow> bool" where
  "plain mf b \<longleftrightarrow>
     dom b \<subseteq> set core_files \<and>
     (\<forall>ev \<in> set (log_events b). \<not> nullish (Field ev (lit ''payload''))) \<and>
     (\<forall>f. b (lit ''events.ndjson'') = Some f \<longrightarrow> list_all short_line (phys_lines f)) \<and>
     ranges_ok (mf_from mf) (mf_to mf + 1) (checkpoint_ranges (log_checkpoints b)) \<and>
     1 \<le> mf_from mf \<and> mf_to mf < max_int64 \<and>
     mf_format mf \<notin> {lit ''sigilbase-evidence/1.6'', lit ''sigilbase-evidence/1.7''} \<and>
     ArrOf (Field (mf_doc mf) (lit ''certificates'')) = []"

lemma plain_absent:
  assumes "plain mf b"
  shows "\<not> IsFile b (lit ''redactions.json'')" "\<not> IsFile b (lit ''declarations.ndjson'')" "\<not> IsFile b (lit ''consistency.json'')"
    "\<not> IsFile b (lit ''anchors.json'')" "filter (IsFile b) sign_file_names = []"
proof -
  have "\<not> IsFile b name" if "name \<notin> set core_files" for name
    using assms that by (auto simp: plain_def IsFile_def)
  then show "\<not> IsFile b (lit ''redactions.json'')" "\<not> IsFile b (lit ''declarations.ndjson'')" "\<not> IsFile b (lit ''consistency.json'')"
    "\<not> IsFile b (lit ''anchors.json'')" "filter (IsFile b) sign_file_names = []"
    by (simp_all add: core_files_def sign_file_names_def lit_simps)
qed

text \<open>Reading the manifest only announces what it found.\<close>

lemma describes_run:
  assumes "describes b mf"
  obtains r' where "read_manifest b r = Some (Inr mf, r')" "results r' = results r" "grows r r'"
proof -
  from assms obtain s s' where "read_manifest b s = Some (Inr mf, s')" by (auto simp: describes_def)
  then obtain x y where x: "readRequired b (lit ''manifest.json'') = Inr x" "manifest_format (decode x) = Some y"
    "IsString (Field (Field (decode x) (lit ''stream'')) (lit ''id''))" "IsInt (Field (Field (decode x) (lit ''range'')) (lit ''from''))"
    "IsInt (Field (Field (decode x) (lit ''range'')) (lit ''to''))" "manifest_keys (decode x) \<noteq> []"
    and mf: "mf = \<lparr>mf_doc = decode x, mf_format = y, mf_stream = StrOf (Field (Field (decode x) (lit ''stream'')) (lit ''id'')),
      mf_from = IntOf (Field (Field (decode x) (lit ''range'')) (lit ''from'')),
      mf_to = IntOf (Field (Field (decode x) (lit ''range'')) (lit ''to'')), mf_keys = manifest_keys (decode x)\<rparr>"
    by (auto simp: read_manifest_def andthen_Inr action_Inr Let_def split: option.splits)
  from x have "\<exists>r'. read_manifest b r = Some (Inr mf, r') \<and> results r' = results r"
    unfolding mf by (simp add: read_manifest_def andthen_def lift_def require_def perform_def return_def info_def Let_def)
  then show thesis using that growingD [OF growing_read_manifest] by blast
qed

lemma prepare_complete:
  assumes "plain mf b" "log_checkpoints b \<noteq> []"
  shows "prepare_walk b mf wopts r =
    Some (Inr (log_checkpoints b, \<lparr>cx_stream = mf_stream mf, cx_from = mf_from mf, cx_to = mf_to mf, cx_redactions = Map.empty,
      cx_retain = [], cx_sizes = root_sizes mf (checkpoint_ranges (log_checkpoints b)) wopts []\<rparr>), r)"
proof -
  note none = plain_absent [OF assms(1)]
  have arr: "ArrOf v \<noteq> [] \<Longrightarrow> IsArray v" for v by (cases v rule: ArrOf.cases) simp_all
  have empty: "Parse [] = Inr v \<Longrightarrow> False" for v
  proof -
    have "case Parse [] of Inl e \<Rightarrow> True | Inr v \<Rightarrow> False" by code_simp
    then show "Parse [] = Inr v \<Longrightarrow> False" by simp
  qed
  obtain data where data: "ReadWhole b (lit ''checkpoints.json'') = Inr data" "IsFile b (lit ''checkpoints.json'')"
    "log_checkpoints b = ArrOf (Field (decode data) (lit ''checkpoints''))"
    using assms(2) by (cases "ReadWhole b (lit ''checkpoints.json'')"; cases "IsFile b (lit ''checkpoints.json'')")
      (auto simp: log_checkpoints_def ReadWhole_def decode_def split: sum.splits dest: empty)
  have "IsArray (Field (decode data) (lit ''checkpoints''))" using assms(2) data(3) arr by metis
  with data assms(2) none show ?thesis
    by (simp add: prepare_walk_def andthen_def read_redactions_def read_checkpoints_def declarationSequencesInRange_def
        consistencyTreeSizes_def decodeOptional_def readRequired_def return_def lift_def require_def Let_def)
qed

lemma later_complete:
  assumes "plain mf b" "w_absent w = []"
  shows "\<exists>x r'. later_sections cr b skip mf w hashes r = Some (Inr x, r') \<and>
    results r' = demote ResultTimestamps StateNotChecked (results r)"
proof -
  note none = plain_absent [OF assms(1)]
  have "ArrOf (Field (mf_doc mf) (lit ''certificates'')) = []"
    "mf_format mf \<notin> {lit ''sigilbase-evidence/1.6'', lit ''sigilbase-evidence/1.7''}"
    using assms(1) by (auto simp: plain_def)
  with none assms(2) show ?thesis
    by (simp add: later_sections_def andthen_def perform_def return_def checkAnchors_def checkCertificates_def checkSigilSign_def
        checkConsistencyFile_def demote_run_def info_def Let_def)
qed

lemma verify_reader_complete:
  assumes "describes b mf" "intact (cr_ed cr) (trusted r) mf b" "vouched (trusted r) mf b" "plain mf b"
    and "sound_for ResultContent r"
    and coll: "\<And>s. new_collector (wo_proofFrom wopts) (mf_from mf) (mf_to mf) s = Some (Inr c, s)"
  shows "\<exists>br r'. verify_reader cr b skip wopts r = Some (Inr br, r') \<and>
    results r' = demote ResultTimestamps StateNotChecked (results r) \<and>
    (\<forall>ns. map_option (\<lambda>c. Collector_Nodes sha256 (fold (Collector_Append sha256) (bundle_leaves b) c)) c = Some (Inr ns) \<longrightarrow>
      br_proofBuilt br \<and> br_proofNodes br = ns)"
proof -
  let ?F = "mf_from mf" let ?evs = "log_events b" let ?cps = "log_checkpoints b"
  note in_range = assms(4) [unfolded plain_def]
  have int: "?evs \<noteq> []" "mf_to mf = ?F + int (length ?evs) - 1" "?cps \<noteq> []"
    "chain_ok (mf_stream mf) Map.empty ?F (first_prev ?F) ?evs"
    "sealed (cr_ed cr) mf (trusted r) ?F (map leaf_of ?evs) ?F (first_prev ?F) ?cps"
    using assms(2) plain_absent [OF assms(4)] by (simp_all add: intact_def log_redactions_def Let_def)
  obtain f where f: "Open_file b (lit ''events.ndjson'') = Inr f" "b (lit ''events.ndjson'') = Some f"
    using int(1) by (cases "b (lit ''events.ndjson'')") (auto simp: log_events_def Open_file_def)
  then have ef: "IsFile b (lit ''events.ndjson'')" "?evs = map decode (content_lines f)"
    by (auto simp: IsFile_def log_events_def)
  obtain r1 where mfr: "read_manifest b r = Some (Inr mf, r1)" "results r1 = results r" "grows r r1"
    using describes_run [OF assms(1)] by blast
  let ?cx = "\<lparr>cx_stream = mf_stream mf, cx_from = ?F, cx_to = mf_to mf, cx_redactions = Map.empty,
      cx_retain = [], cx_sizes = root_sizes mf (checkpoint_ranges ?cps) wopts []\<rparr>"
  note prep = prepare_complete [OF assms(4) int(3), of wopts r1]
  have s1: "sound_for ResultContent r1" using assms(5) mfr(2) by (simp add: sound_for_def)
  obtain w r2 where ev: "walk_events b ?cx (checkpoint_ranges ?cps) (wo_proofFrom wopts) r1 = Some (Inr w, r2)" "results r2 = results r1"
    "w_absent w = []" "w_collector w = map_option (fold (Collector_Append sha256) (map leaf_of ?evs)) c" "walk_trees ?cx (checkpoint_ranges ?cps) (map leaf_of ?evs) w" "grows r1 r2"
    by (rule walk_events_complete [where cx = ?cx, OF ef(1) f(1) _ ef(2) int(1)])
      (use int(2,4) in_range f(2) s1 coll in \<open>auto simp: list_all_iff\<close>)
  have t: "trusted r2 = trusted r" using grows_trusted [OF mfr(3)] grows_trusted [OF ev(6)] by simp
  obtain hashes r3 where cp: "walk_checkpoints (cr_ed cr) mf ?cps w r2 = (hashes, r3)" "results r3 = results r2" "grows r2 r3"
    by (rule walk_checkpoints_complete [OF ev(5) refl int(3), where mf = mf and ed = "cr_ed cr" and r = r2])
      (use int(2,5) in_range assms(3) t in \<open>auto simp: algebra_simps\<close>)
  obtain x r4 where later: "later_sections cr b skip mf w hashes r3 = Some (Inr x, r4)"
    "results r4 = demote ResultTimestamps StateNotChecked (results r3)"
    using later_complete [OF assms(4) ev(3)] by blast
  let ?br = "\<lparr>br_stream = mf_stream mf, br_from = ?F, br_to = mf_to mf, br_eventCount = w_count w,
      br_checkpointCount = int (length ?cps), br_redactedCount = w_redacted w, br_latestAnchorAt = fst x, br_collection = snd x,
      br_roots = w_roots w, br_proofNodes = (case proof_of w of None \<Rightarrow> [] | Some ns \<Rightarrow> ns), br_proofBuilt = (proof_of w \<noteq> None)\<rparr>"
  have "verify_reader cr b skip wopts r = Some (Inr ?br, r4)"
    using mfr(1) prep ev(1) cp(1) later(1) by (simp add: verify_reader_def andthen_def compute_def return_def split: prod.split)
  moreover have "br_proofBuilt ?br \<and> br_proofNodes ?br = ns"
    if "map_option (\<lambda>c. Collector_Nodes sha256 (fold (Collector_Append sha256) (bundle_leaves b) c)) c = Some (Inr ns)" for ns
    using that ev(4) by (auto simp: proof_of_def bundle_leaves_def)
  ultimately show ?thesis using later(2) cp(2) ev(2) mfr(2) by (intro exI [of _ ?br] exI [of _ r4]) simp
qed

lemma Bundle_complete:
  assumes "bundle_at e path b mf" "proven e opts mf b" "plain mf b"
  shows "\<exists>v. Bundle e path opts = Some v \<and> vd_ExitCode v = ExitPass"
proof -
  let ?r = "newRun (env_embedded e) opts"
  have new: "results ?r = newResults" by (simp add: newRun_def)
  obtain br r' where v: "verify_reader (env_crypto e) b (opt_SkipAnchors opts) no_walk_options ?r = Some (Inr br, r')"
    "results r' = demote ResultTimestamps StateNotChecked newResults"
    using verify_reader_complete [of b mf "env_crypto e" ?r no_walk_options None "opt_SkipAnchors opts"] assms
    by (auto simp: bundle_at_def proven_def trusted_keys_def new sound_for_def newResults_def
        no_walk_options_def new_collector_def return_def)
  have "exitCode (results r') = ExitPass"
    unfolding v(2) exitCode_cases(1) by (auto simp: demote_def newResults_def)
  with v(1) assms(1) show ?thesis
    by (auto simp: Bundle_def conclude_def verifyBundle_def andthen_def lift_def bundle_at_def Let_def)
qed

subsection \<open>The consistency modes\<close>

text \<open>What a complete verification leaves for the mode that asked for it.\<close>

lemma verifyBundle_complete:
  assumes b: "bundle_at e path b mf" "proven e opts mf b" "plain mf b"
    and r: "trusted r = trusted_keys e opts" "\<And>k. clean_for k r"
    and coll: "\<And>s. new_collector (wo_proofFrom wopts) (mf_from mf) (mf_to mf) s = Some (Inr c, s)"
  obtains br r' where "verifyBundle (env_crypto e) (env_os e) path skip wopts r = Some (Inr br, r')" "\<And>k. clean_for k r'"
    "sound_for ResultContent r'" "trusted r' = trusted r" "failures r' = failures r"
    "\<And>ns. map_option (\<lambda>c. Collector_Nodes sha256 (fold (Collector_Append sha256) (bundle_leaves b) c)) c = Some (Inr ns) \<Longrightarrow>
      br_proofBuilt br \<and> br_proofNodes br = ns"
proof -
  have snd: "sound_for ResultContent r" using r(2) clean_sound by blast
  have "describes b mf" "intact (cr_ed (env_crypto e)) (trusted r) mf b" "vouched (trusted r) mf b"
    using b r(1) by (simp_all add: bundle_at_def proven_def)
  from verify_reader_complete [OF this b(3) snd coll, of skip] obtain br r' where
    v: "verify_reader (env_crypto e) b skip wopts r = Some (Inr br, r')"
      "results r' = demote ResultTimestamps StateNotChecked (results r)"
      "\<And>ns. map_option (\<lambda>c. Collector_Nodes sha256 (fold (Collector_Append sha256) (bundle_leaves b) c)) c = Some (Inr ns) \<Longrightarrow>
        br_proofBuilt br \<and> br_proofNodes br = ns" by blast
  have vb: "verifyBundle (env_crypto e) (env_os e) path skip wopts r = Some (Inr br, r')"
    using v(1) b(1) by (auto simp: verifyBundle_reader bundle_at_def)
  have g: "grows r r'" by (rule growingD [OF growing_verifyBundle vb])
  have cl: "clean_for k r'" for k
  proof -
    have "results r' k \<le> StateNotChecked"
      using r(2) [of k] r(2) [of ResultTimestamps] unfolding v(2) demote_max clean_for_def by simp
    then show ?thesis by (simp add: clean_for_def)
  qed
  have "failures r' = failures r"
  proof (rule ccontr)
    assume "failures r' \<noteq> failures r"
    then obtain k where "results r' k = StateFail" using g by (auto simp: grows_def)
    with cl [of k] show False by (simp add: clean_for_def less_eq_result_state_def)
  qed
  with that [OF vb cl] v(3) grows_trusted [OF g] clean_sound [OF cl] show thesis by blast
qed

lemma new_run_clean: "clean_for k (newRun emb opts)"
  by (simp add: clean_for_def newRun_def newResults_def less_eq_result_state_def)

lemma ConsistencyRecorded_complete:
  assumes "bundle_at e path b mf" "proven e opts mf b" "plain mf b" "mf_from mf = 1" "1 \<le> sz" "sz \<le> mf_to mf"
    and "lower rootText = hex_text (prefix_root b sz)"
  shows "\<exists>v. ConsistencyRecorded e path rootText sz opts = Some v \<and> vd_ExitCode v = ExitPass"
proof -
  let ?wopts = "\<lparr>wo_wanted = [sz], wo_proofFrom = 0\<rparr>"
  let ?r = "info (lit ''Bundle: '' @ path) (info (lit ''Mode:   consistency against a recorded root'') (newRun (env_embedded e) opts))"
  obtain br r' where v: "verifyBundle (env_crypto e) (env_os e) path (opt_SkipAnchors opts) ?wopts ?r = Some (Inr br, r')"
    "\<And>k. clean_for k r'" "sound_for ResultContent r'"
    by (rule verifyBundle_complete [OF assms(1-3), of ?r ?wopts None "opt_SkipAnchors opts"])
      (simp_all add: trusted_keys_def new_run_clean new_collector_def return_def)
  note rt = verifyBundle_roots [OF v(1,3) assms(1,4)]
  have root': "br_roots br sz = Some (lower rootText)" using rt(5) [of sz] assms(5-7) by simp
  have hex': "isHex64 (lower rootText)"
  proof -
    have "list_all (\<lambda>c. hexNibble c \<noteq> None) (hex_text bs)" for bs
      by (induction bs) (simp_all add: hex_text_def hexNibble_hex_char)
    moreover have "bundle_leaves b \<noteq> []" using assms(2,5,6) by (auto simp: proven_def intact_def bundle_leaves_def Let_def)
    then have "length (prefix_root b sz) = 32" using assms(5) by (simp add: prefix_root_def)
    ultimately show ?thesis unfolding assms(7) by (simp add: isHex64_def)
  qed
  let ?r2 = "check_recorded br sz (lower rootText) (info (lit ''Checking consistency (RFC 6962)...'') r')"
  have "clean_for k ?r2" for k
    using v(2) rt(2,3) root' hex' assms(5,6) by (simp add: check_recorded_def lookup_or_def)
  then have "exitCode (results ?r2) = ExitPass" unfolding exitCode_pass by blast
  then show ?thesis
    using v(1) by (simp add: ConsistencyRecorded_def recorded_bundle_def conclude_def andthen_def perform_def return_def Let_def)
qed

lemma ConsistencyBundles_complete:
  assumes o: "bundle_at e oldPath bo mo" "proven e opts mo bo" "plain mo bo" "mf_from mo = 1"
    and n: "bundle_at e newPath bn mn" "proven e opts mn bn" "plain mn bn" "mf_from mn = 1"
    and ext: "mf_stream mo = mf_stream mn" "prefix (bundle_leaves bo) (bundle_leaves bn)" "mf_to mn \<le> 2 ^ 62"
  shows "\<exists>v. ConsistencyBundles e oldPath newPath opts = Some v \<and> vd_ExitCode v = ExitPass"
proof -
  let ?start = "newRun (env_embedded e) opts"
  let ?r = "info (lit ''=== Old bundle: '' @ oldPath @ lit '' ==='') (info (lit ''Mode:   consistency between two bundles'') ?start)"
  obtain old r1 where vo: "verifyBundle (env_crypto e) (env_os e) oldPath (opt_SkipAnchors opts) no_walk_options ?r = Some (Inr old, r1)"
    "\<And>k. clean_for k r1" "sound_for ResultContent r1" "trusted r1 = trusted ?r" "failures r1 = failures ?r"
    by (rule verifyBundle_complete [OF o(1-3), of ?r no_walk_options None "opt_SkipAnchors opts"])
      (simp_all add: trusted_keys_def new_run_clean new_collector_def return_def no_walk_options_def)
  note ro = verifyBundle_roots [OF vo(1,3) o(1,4)]
  let ?Lo = "bundle_leaves bo" let ?Ln = "bundle_leaves bn" let ?m = "length ?Lo"
  have "take ?m ?Ln = ?Lo" using ext(2) by (auto simp: prefix_def)
  moreover have "mf_to mo = int ?m" "mf_to mn = int (length ?Ln)" "0 < ?m"
    using o(2,4) n(2,4) by (auto simp: proven_def intact_def bundle_leaves_def Let_def)
  moreover note prefix_length_le [OF ext(2)]
  ultimately have len: "mf_to mo = int ?m" "mf_to mn = int (length ?Ln)" "0 < ?m" "?m \<le> length ?Ln" "take ?m ?Ln = ?Lo"
    by simp_all
  let ?wopts = "\<lparr>wo_wanted = [br_to old], wo_proofFrom = br_to old\<rparr>"
  obtain c where c: "NewCollector (int ?m) (int (length ?Ln)) = Some (Inr c)"
    "Collector_Nodes sha256 (fold (Collector_Append sha256) ?Ln c) = ConsistencyProof sha256 ?Ln (int ?m)"
    using sha.Collector_generates [of ?m ?Ln] len ext(3) by auto
  obtain ns where ns: "ConsistencyProof sha256 ?Ln (int ?m) = Inr ns"
    using len by (cases "?m = length ?Ln") (simp_all add: ConsistencyProof_def Let_def)
  have coll: "new_collector (wo_proofFrom ?wopts) (mf_from mn) (mf_to mn) s = Some (Inr (Some c), s)" for s
    using c(1) len ro(3) n(4) by (simp add: new_collector_def return_def)
  let ?r2 = "info (lit ''=== New bundle: '' @ newPath @ lit '' ==='') r1"
  obtain new r3 where vn: "verifyBundle (env_crypto e) (env_os e) newPath (opt_SkipAnchors opts) ?wopts ?r2 = Some (Inr new, r3)"
    "\<And>k. clean_for k r3" "sound_for ResultContent r3" "trusted r3 = trusted ?r2" "failures r3 = failures ?r2"
    and built: "br_proofBuilt new \<and> br_proofNodes new = ns"
    by (rule verifyBundle_complete [OF n(1-3), of ?r2 ?wopts "Some c" "opt_SkipAnchors opts"])
      (use vo(2,4) coll c(2) ns in \<open>simp_all add: trusted_keys_def\<close>)
  note rn = verifyBundle_roots [OF vn(1,3) n(1,4)]
  have roots: "br_roots old (br_to old) = Some (hex_text (root sha256 ?Lo))"
    "br_roots new (br_to new) = Some (hex_text (root sha256 ?Ln))"
    "br_roots new (br_to old) = Some (hex_text (root sha256 ?Lo))"
    using ro(5) [of "br_to old"] rn(5) [of "br_to new"] rn(5) [of "br_to old"] ro(3) rn(3) len
    by (simp_all add: prefix_root_def)
  have "ConsistencyVerify sha256 (int ?m) (int (length ?Ln)) (root sha256 ?Lo) (root sha256 ?Ln) ns"
    using ConsistencyVerify_complete [OF ns] len by simp
  then have cv: "ConsistencyVerify sha256 (br_to old) (br_to new) (hex_or_empty (hex_text (root sha256 ?Lo)))
      (hex_or_empty (hex_text (root sha256 ?Ln))) ns"
    using ro(3) rn(3) len by (simp add: hex_or_empty_def hexBytes_hex_text)
  have nofail: "failures r3 = []" using vo(5) vn(5) by (simp add: info_def newRun_def)
  have "\<exists>ci r4. check_extension old new r3 = (ci, r4) \<and> (\<forall>k. clean_for k r4)"
  proof -
    have "extension_checks old new (info m r3) = info m r3" for m
      using ro rn ext(1) len by (simp add: extension_checks_def whenever_def)
    then show ?thesis
      using nofail roots built cv vn(2) by (simp add: check_extension_def extension_proof_def info_def clean_for_def)
  qed
  then obtain ci r4 where ce: "check_extension old new r3 = (ci, r4)" "exitCode (results r4) = ExitPass"
    using exitCode_pass by blast
  have "both_bundles e oldPath newPath (opt_SkipAnchors opts) ?start = Some (Inr (old, new, ci), r4)"
    using vo(1) vn(1) ce(1) by (simp add: both_bundles_def andthen_def perform_def compute_def return_def)
  then show ?thesis using ce(2) by (simp add: ConsistencyBundles_def conclude_def Let_def)
qed

end
