(* ===== verification/Sample_Bundle.thy ===== *)
theory Sample_Bundle
  imports Completeness
begin

text \<open>
  Bundles that pass: a manifest and any list of event contents, sealed by one checkpoint. They are the inputs
  at which the theorems on whole verifications are applied. Their hashes are those of their own documents, so
  nothing is computed that SHA-256 would have to be run for; their signature is one an Ed25519 that accepts
  everything accepts.
\<close>

subsection \<open>Plain text documents\<close>

lemma lit_eq [simp]: "lit a = lit b \<longleftrightarrow> a = b"
proof -
  have "c = d" if "(of_char c :: byte) = of_char d" for c d :: char
  proof -
    have "unat (of_char c :: byte) = of_char c" for c
    proof -
      have "(of_char c :: byte) = of_nat (of_char c)" by (cases c) simp
      then have "unat (of_char c :: byte) = unat (of_nat (of_char c) :: byte)" by (rule arg_cong)
      also have "\<dots> = of_char c mod 256" by (simp only: unat_of_nat) simp
      finally show ?thesis by simp
    qed
    with that have "(of_char c :: nat) = of_char d" by metis
    then show ?thesis by simp
  qed
  then have "inj (of_char :: char \<Rightarrow> byte)" by (rule injI)
  then show ?thesis by (simp add: lit_def inj_map_eq_map)
qed

text \<open>Documents whose strings are printable ASCII without quotes and whose numbers are digits.\<close>

definition safe_byte :: "byte \<Rightarrow> bool" where
  "safe_byte b \<longleftrightarrow> 32 \<le> b \<and> b < 127 \<and> b \<noteq> 34 \<and> b \<noteq> 92"

abbreviation safe_text :: "bytes \<Rightarrow> bool" where
  "safe_text s \<equiv> list_all safe_byte s"

fun safe_json :: "json \<Rightarrow> bool" where
  "safe_json (JInt i) \<longleftrightarrow> i \<in> {1, 2, 3, 4, 7, 900}"
| "safe_json (JString s) \<longleftrightarrow> safe_text s"
| "safe_json (JArray xs) \<longleftrightarrow> (\<forall>x \<in> set xs. safe_json x)"
| "safe_json (JObject ms) \<longleftrightarrow> distinct (map fst ms) \<and> (\<forall>(k, v) \<in> set ms. safe_text k \<and> safe_json v)"
| "safe_json v \<longleftrightarrow> v = JNull"

text \<open>A bound on the length of the canonical bytes.\<close>

fun json_len :: "json \<Rightarrow> nat" where
  "json_len (JString s) = length s + 2"
| "json_len (JArray xs) = 2 + sum_list (map (\<lambda>x. json_len x + 1) xs)"
| "json_len (JObject ms) = 2 + sum_list (map (\<lambda>(k, v). length k + 4 + json_len v) ms)"
| "json_len v = 4"

lemma canon_string_safe: "safe_text s \<Longrightarrow> canon_string s = 34 # s @ [34]"
proof -
  have "canon_byte b = [b]" if "safe_byte b" for b
    using that unat_byte_lt [of b] by (auto simp: canon_byte_def safe_byte_def word_le_nat_alt)
  then have "safe_text s \<Longrightarrow> concat (map canon_byte s) = s" by (induction s) simp_all
  then show "safe_text s \<Longrightarrow> canon_string s = 34 # s @ [34]" by (simp add: canon_string_def)
qed

lemma safe_text_valid: "safe_text s \<Longrightarrow> ValidString s" "safe_text s \<Longrightarrow> \<not> starts 0 s"
proof -
  show "safe_text s \<Longrightarrow> ValidString s"
  proof (induction s)
    case (Cons b s)
    then have "unat b < 0x80" by (simp add: safe_byte_def word_less_nat_alt)
    from ValidString_append [OF ValidString_ascii [OF this], of s] Cons show ?case by simp
  qed simp
  show "safe_text s \<Longrightarrow> \<not> starts 0 s" by (cases s) (auto simp: starts_def safe_byte_def)
qed

lemma safe_json_ok: "safe_json v \<Longrightarrow> json_ok v"
  by (induction v rule: safe_json.induct) (auto simp: safe_text_valid)

lemma seq_items_map: "(\<And>x. x \<in> set xs \<Longrightarrow> f x = Inr (g x)) \<Longrightarrow> seq_items (map f xs) = Inr (map g xs)"
  by (induction xs) simp_all

lemma commas_facts:
  "c \<noteq> 44 \<Longrightarrow> \<forall>b \<in> set bs. c \<notin> set b \<Longrightarrow> c \<notin> set (commas bs)"
  "length (commas bs) \<le> sum_list (map (\<lambda>b. length b + 1) bs)"
  by (induction bs rule: commas.induct) auto

text \<open>The canonical bytes of a safe document.\<close>

definition json_bytes :: "json \<Rightarrow> bytes" where
  "json_bytes v = (case canon v of Inr bs \<Rightarrow> bs | Inl e \<Rightarrow> [])"

lemma canon_safe:
  "safe_json v \<Longrightarrow> canon v = Inr (json_bytes v) \<and> 10 \<notin> set (json_bytes v) \<and> length (json_bytes v) \<le> json_len v"
proof (induction v rule: safe_json.induct)
  case (1 i)
  have "\<forall>i \<in> set [1, 2, 3, 4, 7, 900]. 10 \<notin> set (int_text i) \<and> length (int_text i) \<le> 4" by code_simp
  with 1 show ?case by (auto simp: json_bytes_def maxExactInt_def)
next
  case (2 s)
  then have "10 \<notin> set s" by (auto simp: list_all_iff safe_byte_def)
  with 2 show ?case by (simp add: json_bytes_def canon_string_safe)
next
  case (3 xs)
  let ?bs = "map json_bytes xs"
  have "seq_items (map canon xs) = Inr ?bs" using 3 by (intro seq_items_map) simp
  then have "json_bytes (JArray xs) = [91] @ commas ?bs @ [93]" "canon (JArray xs) = Inr ([91] @ commas ?bs @ [93])"
    by (simp_all add: json_bytes_def)
  moreover have "10 \<notin> set (commas ?bs)" using 3 by (intro commas_facts) auto
  moreover have "length (commas ?bs) \<le> sum_list (map (\<lambda>x. json_len x + 1) xs)"
    using commas_facts(2) [of ?bs] sum_list_mono [of xs "\<lambda>x. length (json_bytes x) + 1" "\<lambda>x. json_len x + 1"] 3
    by (auto simp: o_def intro: order.trans)
  ultimately show ?case by simp
next
  case (4 ms)
  let ?f = "\<lambda>p. canon_string (fst p) @ [58] @ json_bytes (snd p)"
  let ?ms = "sort_keys ms" let ?bs = "map ?f ?ms"
  have mem: "safe_text k \<and> canon v = Inr (json_bytes v) \<and> 10 \<notin> set (json_bytes v) \<and> length (json_bytes v) \<le> json_len v"
    if "(k, v) \<in> set ms" for k v using 4 that by auto
  have "map canon_member (sort_keys (map (\<lambda>(k, v). (k, canon v)) ms)) = map (\<lambda>(k, v). canon_member (k, canon v)) ?ms"
    by (simp add: sort_keys_map case_prod_beta o_def)
  moreover have "seq_items (map (\<lambda>(k, v). canon_member (k, canon v)) ?ms) = Inr ?bs"
    by (rule seq_items_map) (use mem in \<open>auto simp: canon_member_def\<close>)
  ultimately have eq: "json_bytes (JObject ms) = [123] @ commas ?bs @ [125]" "canon (JObject ms) = Inr ([123] @ commas ?bs @ [125])"
    by (simp_all add: json_bytes_def)
  have str: "10 \<notin> set (canon_string k) \<and> length (canon_string k) = length k + 2" if "(k, v) \<in> set ms" for k v
  proof -
    have "safe_text k" using mem [OF that] by simp
    moreover from this have "10 \<notin> set k" by (auto simp: list_all_iff safe_byte_def)
    ultimately show ?thesis by (simp add: canon_string_safe)
  qed
  have "10 \<notin> set (commas ?bs)" using mem str by (intro commas_facts) auto
  moreover have "length (commas ?bs) \<le> sum_list (map (\<lambda>(k, v). length k + 4 + json_len v) ms)"
  proof -
    have "length (commas ?bs) \<le> sum_list (map (\<lambda>p. length (?f p) + 1) ?ms)"
      using commas_facts(2) [of ?bs] by (simp add: o_def)
    also have "\<dots> \<le> sum_list (map (\<lambda>(k, v). length k + 4 + json_len v) ?ms)"
    proof (rule sum_list_mono)
      fix p
      assume "p \<in> set ?ms"
      then obtain k v where p: "p = (k, v)" "(k, v) \<in> set ms" by (metis set_sort_keys surj_pair)
      show "length (?f p) + 1 \<le> (case p of (k, v) \<Rightarrow> length k + 4 + json_len v)"
        using mem [OF p(2)] str [OF p(2)] by (simp add: p(1))
    qed
    also have "\<dots> = sum_list (map (\<lambda>(k, v). length k + 4 + json_len v) ms)"
    proof -
      have "sum_mset (mset (map g ?ms)) = sum_mset (mset (map g ms))" for g :: "bytes \<times> json \<Rightarrow> nat"
        by (simp only: mset_map mset_sort_keys)
      then show ?thesis by (simp only: sum_mset_sum_list)
    qed
    finally show ?thesis .
  qed
  ultimately show ?case unfolding eq by simp
qed (auto simp: json_bytes_def lit_simps)

lemma Parse_safe: "safe_json v \<Longrightarrow> json_depth v < maxDepth \<Longrightarrow> canon_sort v = v \<Longrightarrow> decode (json_bytes v) = Some v"
  using Parse_canon [of v "json_bytes v"] canon_safe [of v] safe_json_ok [of v] by (simp add: decode_def)

subsection \<open>The documents\<close>

text \<open>Objects written with their keys in canonical order.\<close>

definition in_order :: "bytes list \<Rightarrow> bool" where
  "in_order ks \<longleftrightarrow> list_all safe_text ks \<and> sorted_wrt key_less ks"

lemma in_order_object:
  assumes "in_order (map fst ms)" "\<forall>(k, v) \<in> set ms. safe_json v \<and> canon_sort v = v"
  shows "safe_json (JObject ms)" "canon_sort (JObject ms) = JObject ms"
proof -
  have dist: "distinct (map fst ms)"
  proof -
    have "sorted_wrt key_less ks \<Longrightarrow> distinct ks" for ks
      by (induction ks) (auto simp: keys.irrefl)
    with assms(1) show ?thesis by (simp add: in_order_def)
  qed
  have "good_keys ms" using assms(1) dist by (auto simp: in_order_def list_all_iff intro: safe_text_valid)
  then have "ms = sort_keys ms"
    using assms(1) by (intro sort_keys_unique) (simp_all add: in_order_def sorted_wrt_map)
  moreover have "map (\<lambda>(k, v). (k, canon_sort v)) ms = ms" using assms(2) by (auto intro: map_idI)
  ultimately show "canon_sort (JObject ms) = JObject ms" by simp
  show "safe_json (JObject ms)" using assms dist by (auto simp: in_order_def list_all_iff)
qed

text \<open>On ASCII the UTF-16 order is the order of the bytes.\<close>

lemma utf16_safe: "safe_text s \<Longrightarrow> utf16 s = map unat s"
proof (induction s)
  case (Cons b s)
  then have "unat b < 0x80" by (simp add: safe_byte_def word_less_nat_alt)
  then have "DecodeRune (b # s) = (unat b, 1)" by (simp add: DecodeRune_def)
  with Cons \<open>unat b < 0x80\<close> show ?case by (simp add: utf16_rec units_of_def)
qed simp

definition ascii_order :: "bytes list \<Rightarrow> bool" where
  "ascii_order ks \<longleftrightarrow> list_all safe_text ks \<and> sorted_wrt (\<lambda>a b. lex_cmp (map unat a) (map unat b) < 0) ks"

lemma ascii_in_order: "ascii_order ks \<Longrightarrow> in_order ks"
  by (induction ks) (auto simp: ascii_order_def in_order_def key_less_def compareUTF16_lex utf16_safe list_all_iff)

text \<open>A document that is written and read back as it is: safe, in order, shallow and short.\<close>

definition plain_doc :: "nat \<Rightarrow> json \<Rightarrow> bool" where
  "plain_doc n v \<longleftrightarrow> safe_json v \<and> canon_sort v = v \<and> json_depth v \<le> 10 \<and> json_len v \<le> n"

lemma plain_doc_reads:
  assumes "plain_doc n v"
  shows "decode (json_bytes v) = Some v" "Canonical (Some v) = Inr (json_bytes v)" "10 \<notin> set (json_bytes v)"
    "length (json_bytes v) \<le> n"
proof -
  from assms have v: "safe_json v" "canon_sort v = v" "json_depth v < maxDepth" "json_len v \<le> n"
    by (simp_all add: plain_doc_def maxDepth_def)
  show "decode (json_bytes v) = Some v" by (rule Parse_safe [OF v(1,3,2)])
  show "Canonical (Some v) = Inr (json_bytes v)" "10 \<notin> set (json_bytes v)" "length (json_bytes v) \<le> n"
    using canon_safe [OF v(1)] v(4) by (simp_all add: Canonical_def)
qed

lemma plain_doc_mono: "plain_doc n v \<Longrightarrow> n \<le> m \<Longrightarrow> plain_doc m v"
  by (simp add: plain_doc_def)

lemma plain_object:
  assumes "in_order (map fst ms)" "\<forall>(k, v) \<in> set ms. safe_json v \<and> canon_sort v = v"
    and "json_depth (JObject ms) \<le> 10" "json_len (JObject ms) \<le> n"
  shows "plain_doc n (JObject ms)"
  using in_order_object [OF assms(1,2)] assms(3,4) unfolding plain_doc_def by blast

lemma safe_hex: "safe_text (hex_text bs)"
proof -
  have "safe_byte (hex_char n)" if "n < 16" for n
  proof -
    have "n \<in> set [0..<16]" using that by simp
    moreover have "\<forall>n \<in> set [0..<16]. safe_byte (hex_char n)" by code_simp
    ultimately show ?thesis by blast
  qed
  then show ?thesis by (induction bs) (simp_all add: hex_text_def)
qed

lemma safe_sha: "safe_text (sha256Hex bs)"
  by (simp add: sha256Hex_def safe_hex)

lemma safe_zero: "safe_text zeroHash"
  by code_simp

subsection \<open>A sealed bundle\<close>

text \<open>
  The content of an event: its action, its time and its payload. A document's hash is that of the document
  with the hash left out.
\<close>

type_synonym event_content = "bytes \<times> bytes \<times> json"

definition sample_key :: bytes where "sample_key = hex_text (replicate 32 2)"

definition event_doc :: "event_content \<Rightarrow> int \<Rightarrow> bytes \<Rightarrow> bytes \<Rightarrow> json" where
  "event_doc c n previous h =
     (case c of (act, at, payload) \<Rightarrow>
        JObject [(lit ''action'', JString act), (lit ''entry_hash'', JString h), (lit ''payload'', payload),
          (lit ''payload_hash'', JString (sha256Hex (json_bytes payload))), (lit ''prev_hash'', JString previous),
          (lit ''received_at'', JString at), (lit ''seq'', JInt n)])"

definition sealed_entry :: "bytes \<Rightarrow> event_content \<Rightarrow> int \<Rightarrow> bytes \<Rightarrow> bytes" where
  "sealed_entry stream c n previous = entry_bytes stream (Some (event_doc c n previous []))"

definition sealed_event :: "bytes \<Rightarrow> event_content \<Rightarrow> int \<Rightarrow> bytes \<Rightarrow> json" where
  "sealed_event stream c n previous = event_doc c n previous (sha256Hex (sealed_entry stream c n previous))"

fun sealed_events :: "bytes \<Rightarrow> event_content list \<Rightarrow> int \<Rightarrow> bytes \<Rightarrow> json list" where
  "sealed_events stream [] n previous = []"
| "sealed_events stream (c # cs) n previous =
     sealed_event stream c n previous # sealed_events stream cs (n + 1) (sha256Hex (sealed_entry stream c n previous))"

definition sealed_log :: "bytes \<Rightarrow> event_content list \<Rightarrow> json list" where
  "sealed_log stream cs = sealed_events stream cs 1 zeroHash"

definition cp_doc :: "int \<Rightarrow> bytes \<Rightarrow> bytes \<Rightarrow> json" where
  "cp_doc n rt h = JObject [(lit ''checkpoint_hash'', JString h), (lit ''created_at'', JString (lit ''2024-01-01T00:00:00Z'')),
     (lit ''from'', JInt 1), (lit ''prev_checkpoint'', JString zeroHash), (lit ''public_key'', JString sample_key),
     (lit ''root'', JString rt), (lit ''signature'', JString (hex_text (replicate 64 3))), (lit ''to'', JInt n)]"

definition sealed_leaves :: "bytes \<Rightarrow> event_content list \<Rightarrow> bytes list" where
  "sealed_leaves stream cs = map (\<lambda>ev. leaf_of (Some ev)) (sealed_log stream cs)"

definition sealed_root :: "bytes \<Rightarrow> event_content list \<Rightarrow> bytes" where
  "sealed_root stream cs = hex_text (root sha256 (sealed_leaves stream cs))"

definition sealed_cp :: "bytes \<Rightarrow> event_content list \<Rightarrow> json" where
  "sealed_cp stream cs =
     (let n = int (length cs); rt = sealed_root stream cs
      in cp_doc n rt (sha256Hex (json_bytes (cp_preimage stream (Some (cp_doc n rt [])) 1 n))))"

definition cps_doc :: "json \<Rightarrow> json" where
  "cps_doc cp = JObject [(lit ''checkpoints'', JArray [cp])]"

definition sealed_files :: "json \<Rightarrow> bytes \<Rightarrow> event_content list \<Rightarrow> reader" where
  "sealed_files md stream cs = Map.empty(
     lit ''manifest.json'' \<mapsto> json_bytes md,
     lit ''events.ndjson'' \<mapsto> concat (map (\<lambda>ev. json_bytes ev @ [10]) (sealed_log stream cs)),
     lit ''checkpoints.json'' \<mapsto> json_bytes (cps_doc (sealed_cp stream cs)))"

text \<open>The contents that fit, and the manifests.\<close>

definition content_ok :: "event_content \<Rightarrow> bool" where
  "content_ok c \<longleftrightarrow>
     safe_text (fst c) \<and> length (fst c) \<le> 100 \<and> safe_text (fst (snd c)) \<and> length (fst (snd c)) \<le> 100 \<and>
     plain_doc 2000 (snd (snd c)) \<and> json_depth (snd (snd c)) \<le> 8 \<and> snd (snd c) \<noteq> JNull"

definition fitting :: "bytes \<Rightarrow> event_content list \<Rightarrow> bool" where
  "fitting stream cs \<longleftrightarrow> safe_text stream \<and> list_all content_ok cs \<and> cs \<noteq> [] \<and> length cs \<le> 4"

lemma small_int: "1 \<le> n \<Longrightarrow> n < 5 \<Longrightarrow> (n :: int) \<in> {1, 2, 3, 4}"
  by auto

definition manifest_fits :: "json \<Rightarrow> bytes \<Rightarrow> event_content list \<Rightarrow> bool" where
  "manifest_fits md stream cs \<longleftrightarrow>
     plain_doc 1000 md \<and> IsObject (Some md) \<and>
     Field (Field (Some md) (lit ''stream'')) (lit ''id'') = Some (JString stream) \<and>
     Field (Field (Some md) (lit ''range'')) (lit ''from'') = Some (JInt 1) \<and>
     Field (Field (Some md) (lit ''range'')) (lit ''to'') = Some (JInt (int (length cs))) \<and>
     Field (Some md) (lit ''format'') = Some (JString (lit ''sigilbase-evidence/1'')) \<and>
     Field (Some md) (lit ''signing_keys'') = Some (JArray [JObject [(lit ''public_key'', JString sample_key)]]) \<and>
     Field (Some md) (lit ''certificates'') = None"

lemma key_orders [simp]:
  "in_order [lit ''action'', lit ''entry_hash'', lit ''payload'', lit ''payload_hash'', lit ''prev_hash'', lit ''received_at'', lit ''seq'']"
  "in_order [lit ''checkpoint_hash'', lit ''created_at'', lit ''from'', lit ''prev_checkpoint'', lit ''public_key'', lit ''root'',
     lit ''signature'', lit ''to'']"
  "in_order [lit ''format'', lit ''range'', lit ''signing_keys'', lit ''stream'']" "in_order [lit ''from'', lit ''to'']"
  "in_order [lit ''public_key'']" "in_order [lit ''id'']" "in_order [lit ''checkpoints'']"
  by (rule ascii_in_order, code_simp)+

lemma safe_texts [simp]:
  "safe_text (lit ''2024-01-01T00:00:00Z'')" "safe_text (lit ''sigilbase-evidence/1'')" "safe_text sample_key"
  by (code_simp, code_simp, simp add: sample_key_def safe_hex)

lemma Field_event [simp]:
  "Field (Some (event_doc c n pv h)) (lit ''seq'') = Some (JInt n)"
  "Field (Some (event_doc c n pv h)) (lit ''payload'') = Some (snd (snd c))"
  "Field (Some (event_doc c n pv h)) (lit ''action'') = Some (JString (fst c))"
  "Field (Some (event_doc c n pv h)) (lit ''received_at'') = Some (JString (fst (snd c)))"
  "Field (Some (event_doc c n pv h)) (lit ''payload_hash'') = Some (JString (sha256Hex (json_bytes (snd (snd c)))))"
  "Field (Some (event_doc c n pv h)) (lit ''prev_hash'') = Some (JString pv)"
  "Field (Some (event_doc c n pv h)) (lit ''entry_hash'') = Some (JString h)"
  "k \<notin> {''seq'', ''payload'', ''payload_hash'', ''prev_hash'', ''entry_hash'', ''action'', ''received_at''} \<Longrightarrow>
     Field (Some (event_doc c n pv h)) (lit k) = None"
  "IsObject (Some (event_doc c n pv h))"
  by (cases c; simp add: event_doc_def)+

lemma Field_cp [simp]:
  "Field (Some (cp_doc n rt h)) (lit ''checkpoint_hash'') = Some (JString h)"
  "Field (Some (cp_doc n rt h)) (lit ''created_at'') = Some (JString (lit ''2024-01-01T00:00:00Z''))"
  "Field (Some (cp_doc n rt h)) (lit ''from'') = Some (JInt 1)" "Field (Some (cp_doc n rt h)) (lit ''to'') = Some (JInt n)"
  "Field (Some (cp_doc n rt h)) (lit ''prev_checkpoint'') = Some (JString zeroHash)"
  "Field (Some (cp_doc n rt h)) (lit ''public_key'') = Some (JString sample_key)"
  "Field (Some (cp_doc n rt h)) (lit ''root'') = Some (JString rt)"
  "Field (Some (cp_doc n rt h)) (lit ''signature'') = Some (JString (hex_text (replicate 64 3)))"
  by (simp_all add: cp_doc_def)

lemma event_doc_plain:
  assumes "content_ok c" "safe_text pv" "length pv = 64" "safe_text h" "length h \<le> 64" "1 \<le> n" "n < 5"
  shows "plain_doc 3000 (event_doc c n pv h)"
proof -
  obtain act at p where c: "c = (act, at, p)" by (cases c)
  have p: "safe_json p" "canon_sort p = p" "json_len p \<le> 2000" "json_depth p \<le> 8"
    "safe_text act" "length act \<le> 100" "safe_text at" "length at \<le> 100"
    using assms(1) c by (simp_all add: plain_doc_def content_ok_def)
  show ?thesis unfolding event_doc_def c prod.case
    by (rule plain_object) (use assms(2-5) small_int [OF assms(6,7)] p safe_sha in \<open>auto simp: max_def\<close>)
qed

lemma cp_doc_plain:
  assumes "safe_text rt" "safe_text h" "length rt = 64" "length h \<le> 64" "n \<in> {1, 2, 3, 4}"
  shows "plain_doc 3000 (cp_doc n rt h)"
  unfolding cp_doc_def
  by (rule plain_object) (use assms safe_zero safe_hex in \<open>auto simp: sample_key_def zeroHash_def\<close>)

text \<open>What is hashed does not depend on the hash.\<close>

lemma entry_of_event: "entryPreimage v m (Some (event_doc c n pv h)) = entryPreimage v m (Some (event_doc c n pv []))"
  by (simp add: entryPreimage_def fieldOrNull_def)

lemma preimage_of_cp: "cp_preimage v (Some (cp_doc n rt h)) a z = cp_preimage v (Some (cp_doc n rt [])) a z"
  by (simp add: cp_preimage_def checkpointPreimage_def fieldOrNull_def)

lemma entry_safe:
  assumes "content_ok c" "safe_text stream" "safe_text pv" "1 \<le> n" "n < 5"
  shows "Canonical (Some (entryPreimage (JString stream) (JInt n) (Some (event_doc c n pv [])))) =
    Inr (sealed_entry stream c n pv)"
proof -
  have "\<forall>k \<in> set [''v'', ''stream'', ''seq'', ''occurred_at'', ''received_at'', ''actor'', ''action'', ''resource'', ''payload_hash'', ''prev''].
      safe_text (lit k)" by code_simp
  then have "safe_json (entryPreimage (JString stream) (JInt n) (Some (event_doc c n pv [])))"
    using assms safe_sha small_int [OF assms(4,5)] by (auto simp: entryPreimage_def fieldOrNull_def content_ok_def)
  from canon_safe [OF this] show ?thesis by (simp add: Canonical_def entry_bytes_def sealed_entry_def)
qed

lemma cp_safe:
  assumes "safe_text stream" "safe_text rt" "1 \<le> n" "n < 5"
  shows "Canonical (Some (cp_preimage stream (Some (cp_doc n rt [])) 1 n)) =
    Inr (json_bytes (cp_preimage stream (Some (cp_doc n rt [])) 1 n))"
proof -
  have "\<forall>k \<in> set [''v'', ''stream'', ''from'', ''to'', ''root'', ''prev_checkpoint'', ''created_at'']. safe_text (lit k)" by code_simp
  then have "safe_json (cp_preimage stream (Some (cp_doc n rt [])) 1 n)"
    using assms small_int [OF assms(3,4)] safe_zero by (auto simp: cp_preimage_def checkpointPreimage_def fieldOrNull_def)
  from canon_safe [OF this] show ?thesis by (simp add: Canonical_def)
qed

lemma lower_sha: "lower (sha256Hex x) = sha256Hex x"
  by (simp add: sha256Hex_def)

lemma sealed_event_ok:
  assumes "content_ok c" "safe_text stream" "safe_text pv" "1 \<le> n" "n < 5"
  shows "event_ok stream Map.empty n (Some (JString pv)) (Some (sealed_event stream c n pv))"
proof -
  let ?pre = "\<lambda>ev. entryPreimage (JString stream) (JInt n) (Some ev)"
  have "?pre (sealed_event stream c n pv) = ?pre (event_doc c n pv [])" unfolding sealed_event_def by (rule entry_of_event)
  with entry_safe [OF assms] have "hashes_to (?pre (sealed_event stream c n pv)) (Some (JString (sha256Hex (sealed_entry stream c n pv))))"
    by (simp add: hashes_to_def lower_sha)
  moreover have p: "plain_doc 2000 (snd (snd c))" "snd (snd c) \<noteq> JNull" using assms(1) by (simp_all add: content_ok_def)
  then have "hashes_to (snd (snd c)) (Some (JString (sha256Hex (json_bytes (snd (snd c))))))"
    using plain_doc_reads(2) by (simp add: hashes_to_def lower_sha)
  moreover have "\<not> nullish (Some (snd (snd c)))" using p(2) by (cases "snd (snd c)") (simp_all add: nullish_def)
  ultimately show ?thesis
    by (simp add: event_ok_def payload_ok_def link_ok_def sealed_event_def fieldOrNull_def strictEqual_def nullish_def)
qed

lemma sealed_events_ok:
  assumes "list_all content_ok cs" "safe_text stream" "safe_text pv" "length pv = 64" "1 \<le> n" "n + int (length cs) \<le> 5"
  shows "chain_ok stream Map.empty n (Some (JString pv)) (map Some (sealed_events stream cs n pv)) \<and>
    (\<forall>ev \<in> set (sealed_events stream cs n pv). plain_doc 3000 ev \<and> IsObject (Some ev) \<and>
       \<not> nullish (Field (Some ev) (lit ''payload'')))"
  using assms
proof (induction cs arbitrary: n pv)
  case (Cons c cs)
  let ?h = "sha256Hex (sealed_entry stream c n pv)"
  have c: "content_ok c" "n < 5" using Cons.prems by simp_all
  have "event_ok stream Map.empty n (Some (JString pv)) (Some (sealed_event stream c n pv))"
    by (rule sealed_event_ok) (use c Cons.prems in simp_all)
  moreover have "plain_doc 3000 (sealed_event stream c n pv)"
    unfolding sealed_event_def by (rule event_doc_plain) (use c Cons.prems safe_sha in simp_all)
  moreover have "\<not> nullish (Some (snd (snd c)))" using c(1) by (cases "snd (snd c)") (simp_all add: content_ok_def nullish_def)
  moreover have "chain_ok stream Map.empty (n + 1) (Some (JString ?h)) (map Some (sealed_events stream cs (n + 1) ?h)) \<and>
      (\<forall>ev \<in> set (sealed_events stream cs (n + 1) ?h). plain_doc 3000 ev \<and> IsObject (Some ev) \<and>
       \<not> nullish (Field (Some ev) (lit ''payload'')))"
    by (rule Cons.IH) (use Cons.prems safe_sha in simp_all)
  ultimately show ?case by (simp add: sealed_event_def)
qed simp

lemma sealed_events_length [simp]: "length (sealed_events stream cs n pv) = length cs"
  by (induction cs arbitrary: n pv) simp_all

subsection \<open>Reading it\<close>

lemma canon_object: "canon (JObject ms) = Inr bs \<Longrightarrow> \<exists>x. bs = [123] @ x @ [125]"
  by (auto split: sum.splits)

lemma object_line:
  assumes "plain_doc n ev" "IsObject (Some ev)"
  shows "trim_eol (json_bytes ev @ [10]) = json_bytes ev" "\<not> IsBlank (json_bytes ev)"
proof -
  from assms(2) obtain ms where "ev = JObject ms" by (cases ev) (auto simp: IsObject_def is_kind_def)
  then obtain x where "json_bytes ev = [123] @ x @ [125]"
    using canon_safe [of ev] assms(1) canon_object unfolding plain_doc_def by blast
  then show "trim_eol (json_bytes ev @ [10]) = json_bytes ev" "\<not> IsBlank (json_bytes ev)"
    by (simp_all add: trim_eol_def IsBlank_def)
qed

lemma document_lines:
  assumes "\<forall>ev \<in> set evs. plain_doc n ev \<and> IsObject (Some ev)"
  shows "content_lines (concat (map (\<lambda>ev. json_bytes ev @ [10]) evs)) = map json_bytes evs"
    "phys_lines (concat (map (\<lambda>ev. json_bytes ev @ [10]) evs)) = map (\<lambda>ev. json_bytes ev @ [10]) evs"
proof -
  show p: "phys_lines (concat (map (\<lambda>ev. json_bytes ev @ [10]) evs)) = map (\<lambda>ev. json_bytes ev @ [10]) evs"
    using assms
  proof (induction evs)
    case (Cons ev evs)
    then have "plain_doc n ev" by simp
    then have "10 \<notin> set (json_bytes ev)" by (rule plain_doc_reads(3))
    from phys_lines_delim [OF this, of "concat (map (\<lambda>ev. json_bytes ev @ [10]) evs)"] Cons show ?case by simp
  qed simp
  show "content_lines (concat (map (\<lambda>ev. json_bytes ev @ [10]) evs)) = map json_bytes evs"
    unfolding content_lines_def p using assms
  proof (induction evs)
    case (Cons ev evs)
    then have "plain_doc n ev" "IsObject (Some ev)" by simp_all
    from object_line [OF this] Cons show ?case by simp
  qed simp
qed

lemma sealed_file [simp]:
  "sealed_files md stream cs (lit ''manifest.json'') = Some (json_bytes md)"
  "sealed_files md stream cs (lit ''events.ndjson'') = Some (concat (map (\<lambda>ev. json_bytes ev @ [10]) (sealed_log stream cs)))"
  "sealed_files md stream cs (lit ''checkpoints.json'') = Some (json_bytes (cps_doc (sealed_cp stream cs)))"
  by (simp_all add: sealed_files_def)

lemma safe_root: "safe_text (sealed_root stream cs)"
  by (simp add: sealed_root_def safe_hex)

lemma length_sealed_root:
  assumes "fitting stream cs"
  shows "length (sealed_root stream cs) = 64"
proof -
  have "sealed_leaves stream cs \<noteq> []"
    using assms by (cases cs) (simp_all add: sealed_leaves_def sealed_log_def fitting_def)
  from sha.length_root [OF this] show ?thesis by (simp add: sealed_root_def)
qed

lemma sealed_log_ok:
  assumes "fitting stream cs"
  shows "chain_ok stream Map.empty 1 (first_prev 1) (map Some (sealed_log stream cs))"
    "\<forall>ev \<in> set (sealed_log stream cs). plain_doc 3000 ev \<and> IsObject (Some ev) \<and> \<not> nullish (Field (Some ev) (lit ''payload''))"
    "length (sealed_log stream cs) = length cs"
proof -
  have "length zeroHash = 64" by code_simp
  then show "chain_ok stream Map.empty 1 (first_prev 1) (map Some (sealed_log stream cs))"
    "\<forall>ev \<in> set (sealed_log stream cs). plain_doc 3000 ev \<and> IsObject (Some ev) \<and> \<not> nullish (Field (Some ev) (lit ''payload''))"
    using sealed_events_ok [of cs stream zeroHash 1] assms safe_zero
    by (simp_all add: sealed_log_def fitting_def first_prev_def stringValue_def)
qed (simp add: sealed_log_def)

lemma sealed_cp_plain:
  assumes "fitting stream cs"
  shows "plain_doc 3000 (sealed_cp stream cs)" "plain_doc 4000 (cps_doc (sealed_cp stream cs))"
proof -
  have n: "int (length cs) \<in> {1, 2, 3, 4}" using assms by (intro small_int) (auto simp: fitting_def Suc_le_eq)
  show cp: "plain_doc 3000 (sealed_cp stream cs)"
    unfolding sealed_cp_def Let_def
    by (rule cp_doc_plain) (use safe_root safe_sha length_sealed_root [OF assms] n in simp_all)
  then have "json_len (sealed_cp stream cs) \<le> 3000" by (simp add: plain_doc_def)
  moreover have "json_depth (sealed_cp stream cs) = 1" by (simp add: sealed_cp_def cp_doc_def Let_def)
  ultimately show "plain_doc 4000 (cps_doc (sealed_cp stream cs))"
    unfolding cps_doc_def by (intro plain_object) (use cp in \<open>auto simp: plain_doc_def\<close>)
qed

lemma sealed_whole:
  assumes "fitting stream cs" "manifest_fits md stream cs"
  shows "ReadWhole (sealed_files md stream cs) (lit ''manifest.json'') = Inr (json_bytes md)"
    "ReadWhole (sealed_files md stream cs) (lit ''checkpoints.json'') = Inr (json_bytes (cps_doc (sealed_cp stream cs)))"
  using plain_doc_reads(4) [of 1000 md] plain_doc_reads(4) [OF sealed_cp_plain(2) [OF assms(1)]] assms(2)
  by (simp_all add: manifest_fits_def ReadWhole_def IsFile_def readCapped_def MaxWholeFileBytes_def)

lemma sealed_events_read:
  assumes "fitting stream cs"
  shows "log_events (sealed_files md stream cs) = map Some (sealed_log stream cs)"
proof -
  note ok = sealed_log_ok(2) [OF assms]
  have "content_lines (concat (map (\<lambda>ev. json_bytes ev @ [10]) (sealed_log stream cs))) = map json_bytes (sealed_log stream cs)"
    by (rule document_lines) (use ok in blast)
  moreover have "map decode (map json_bytes (sealed_log stream cs)) = map Some (sealed_log stream cs)"
    unfolding list.map_comp o_def by (rule list.map_cong0) (use ok plain_doc_reads(1) in blast)
  ultimately show ?thesis by (simp add: log_events_def Open_file_def)
qed

lemma sealed_checkpoints_read:
  assumes "fitting stream cs" "manifest_fits md stream cs"
  shows "log_checkpoints (sealed_files md stream cs) = [sealed_cp stream cs]"
  using sealed_whole(2) [OF assms] plain_doc_reads(1) [OF sealed_cp_plain(2) [OF assms(1)]]
  by (simp add: log_checkpoints_def cps_doc_def)

definition sealed_manifest :: "json \<Rightarrow> bytes \<Rightarrow> event_content list \<Rightarrow> manifest" where
  "sealed_manifest md stream cs = \<lparr>mf_doc = Some md, mf_format = lit ''sigilbase-evidence/1'', mf_stream = stream,
     mf_from = 1, mf_to = int (length cs), mf_keys = [(sample_key, None, None)]\<rparr>"

lemma sealed_describes:
  assumes "fitting stream cs" "manifest_fits md stream cs"
  shows "describes (sealed_files md stream cs) (sealed_manifest md stream cs)"
proof -
  note fields = assms(2) [unfolded manifest_fits_def]
  have keys': "manifest_keys (Some md) = [(sample_key, None, None)]"
    using fields by (simp add: manifest_keys_def sample_key_def)
  have fmt: "manifest_format (Some md) = Some (lit ''sigilbase-evidence/1'')"
    using fields by (simp add: manifest_format_def knownFormats_def)
  have d: "decode (json_bytes md) = Some md" using fields plain_doc_reads(1) by blast
  have "\<exists>r'. read_manifest (sealed_files md stream cs) r = Some (Inr (sealed_manifest md stream cs), r')" for r
    using sealed_whole(1) [OF assms] fields
    by (simp add: read_manifest_def readRequired_def IsFile_def andthen_def lift_def require_def return_def perform_def
        d keys' fmt sealed_manifest_def)
  then show ?thesis by (auto simp: describes_def)
qed

subsection \<open>It passes\<close>

definition sample_keys :: "trusted_key list" where
  "sample_keys = [\<lparr>publicKey = sample_key, createdAt = None, retiredAt = None\<rparr>]"

lemma cp_doc_trusted: "trusted_key_ok sample_keys (Some (cp_doc n rt h))"
proof -
  have "ParseRFC3339 (lit ''2024-01-01T00:00:00Z'') \<noteq> None" by code_simp
  then have "in_window None None (lit ''2024-01-01T00:00:00Z'')" by (auto simp: in_window_def nullish_def)
  then show ?thesis
    by (simp add: trusted_key_ok_def lookup_key_def sample_keys_def cp_key_def sample_key_def key_window_def string_value_def)
qed

lemma cp_doc_sealed:
  assumes "safe_text stream" "1 \<le> n" "n < 5" "L \<noteq> []" "n = int (length L)" "rt = hex_text (root sha256 L)" "mf_stream mf = stream"
    and "mf_keys mf = [(sample_key, None, None)]"
    and "cp = cp_doc n rt (sha256Hex (json_bytes (cp_preimage stream (Some (cp_doc n rt [])) 1 n)))"
  shows "sealed (\<lambda>_ _ _. True) mf sample_keys 1 L 1 (stringValue zeroHash) [cp]"
proof -
  have h: "hashes_to (cp_preimage stream (Some cp) 1 n) (Field (Some cp) (lit ''checkpoint_hash''))"
  proof -
    let ?pre = "\<lambda>c. cp_preimage stream (Some c) 1 n"
    have "?pre cp = ?pre (cp_doc n rt [])" unfolding assms(9) by (rule preimage_of_cp)
    moreover have "Field (Some cp) (lit ''checkpoint_hash'') = Some (JString (sha256Hex (json_bytes (?pre (cp_doc n rt [])))))"
      by (simp add: assms(9))
    ultimately show ?thesis using cp_safe [OF assms(1) _ assms(2,3), of rt] assms(6) by (simp add: hashes_to_def lower_sha safe_hex)
  qed
  have rng: "cp_range cp = Some (1, n)" by (simp add: cp_range_def assms(9))
  have l: "link_ok (lit ''prev_checkpoint'') (stringValue zeroHash) (Some cp)"
    by (simp add: link_ok_def assms(9) stringValue_def strictEqual_def)
  have k: "manifest_key_ok mf sample_keys (Some cp)"
    using cp_doc_trusted assms(8)
    by (auto simp: manifest_key_ok_def trusted_key_ok_def cp_key_def assms(9) sample_key_def split: option.splits)
  have "Verify (\<lambda>_ _ _. True) (replicate 32 2) [] (replicate 64 3)" by code_simp
  then have v: "Verify (\<lambda>_ _ _. True) (replicate 32 2) m (replicate 64 3)" for m by (simp only: Verify_def)
  have sg: "cp_signed (\<lambda>_ _ _. True) (Some cp)"
    using v by (simp add: cp_signed_def signature_ok_def cp_key_def assms(9) sample_key_def sha256Hex_def hexBytes_hex_text sha.H_not_Nil)
  have c: "covers 1 L 1 n (Some cp)"
    using assms(5) by (simp add: covers_def seg_def assms(6,9))
  show ?thesis using h rng l k sg c assms(7) by (simp add: Let_def)
qed

lemma sealed_plain:
  assumes "fitting stream cs" "manifest_fits md stream cs"
  shows "plain (sealed_manifest md stream cs) (sealed_files md stream cs)"
proof -
  note ok = sealed_log_ok(2) [OF assms(1)]
  have n: "1 \<le> length cs" "length cs \<le> 4" using assms(1) by (auto simp: fitting_def Suc_le_eq)
  have "\<forall>x \<in> set (phys_lines (concat (map (\<lambda>ev. json_bytes ev @ [10]) (sealed_log stream cs)))). short_line x"
  proof -
    have "short_line (json_bytes ev @ [10])" if "ev \<in> set (sealed_log stream cs)" for ev
      using plain_doc_reads(4) [of 3000 ev] ok that by (simp add: short_line_def MaxLineBytes_def)
    then show ?thesis using document_lines(2) [of "sealed_log stream cs" 3000] ok by auto
  qed
  moreover have "dom (sealed_files md stream cs) = set core_files" by (auto simp: sealed_files_def core_files_def)
  moreover have "checkpoint_ranges [sealed_cp stream cs] = [(1, int (length cs))]"
    by (simp add: checkpoint_ranges_def cp_range_def sealed_cp_def Let_def)
  ultimately show ?thesis
    using ok n assms(2)
    by (simp add: plain_def sealed_events_read [OF assms(1)] sealed_checkpoints_read [OF assms] sealed_manifest_def ranges_ok_def
        list_all_iff manifest_fits_def)
qed

lemma sealed_proven:
  assumes "fitting stream cs" "manifest_fits md stream cs"
    and "cr_ed (env_crypto e) = (\<lambda>_ _ _. True)" "trusted_keys e opts = sample_keys"
  shows "proven e opts (sealed_manifest md stream cs) (sealed_files md stream cs)"
proof -
  let ?mf = "sealed_manifest md stream cs" and ?b = "sealed_files md stream cs" and ?L = "sealed_leaves stream cs"
  have n: "1 \<le> length cs" "length cs \<le> 4" "cs \<noteq> []" "safe_text stream" using assms(1) by (auto simp: fitting_def Suc_le_eq)
  have len: "length ?L = length cs" by (simp add: sealed_leaves_def sealed_log_ok(3) [OF assms(1)])
  have L: "?L \<noteq> []" "sealed_log stream cs \<noteq> []" "map leaf_of (map Some (sealed_log stream cs)) = ?L"
    using n(1) len sealed_log_ok(3) [OF assms(1)] by (auto simp: sealed_leaves_def)
  have m: "mf_from ?mf = 1" "mf_to ?mf = int (length cs)" "mf_stream ?mf = stream" "mf_keys ?mf = [(sample_key, None, None)]"
    by (simp_all add: sealed_manifest_def)
  have red: "log_redactions ?b f t = Map.empty" for f t
    using plain_absent(1) [OF sealed_plain [OF assms(1,2)]] by (simp add: log_redactions_def)
  have "sealed (\<lambda>_ _ _. True) ?mf sample_keys 1 ?L 1 (first_prev 1) [sealed_cp stream cs]"
    unfolding first_prev_def if_P [OF refl]
    by (rule cp_doc_sealed [where n = "int (length cs)" and stream = stream])
      (use n L len m in \<open>simp_all add: sealed_cp_def sealed_root_def Let_def\<close>)
  then have "intact (\<lambda>_ _ _. True) sample_keys ?mf ?b"
    using sealed_log_ok(1) [OF assms(1)] red n L
    by (simp add: intact_def Let_def m sealed_events_read [OF assms(1)] sealed_checkpoints_read [OF assms(1,2)] sealed_log_ok(3) [OF assms(1)]
        del: sealed.simps map_map)
  moreover have "vouched sample_keys ?mf ?b"
    using cp_doc_trusted
    by (simp add: vouched_def sealed_checkpoints_read [OF assms(1,2)] last_to_def checkpoint_ranges_def cp_range_def sealed_cp_def Let_def m)
  ultimately show ?thesis using assms(3,4) by (simp add: proven_def)
qed

subsection \<open>A bundle of one event\<close>

definition sample_stream :: bytes where "sample_stream = lit ''s''"

definition sample_contents :: "event_content list" where
  "sample_contents = [(lit ''a'', lit ''2024-01-01T00:00:00Z'', JInt 7)]"

definition manifest_doc :: json where
  "manifest_doc = JObject [(lit ''format'', JString (lit ''sigilbase-evidence/1'')),
     (lit ''range'', JObject [(lit ''from'', JInt 1), (lit ''to'', JInt 1)]),
     (lit ''signing_keys'', JArray [JObject [(lit ''public_key'', JString sample_key)]]),
     (lit ''stream'', JObject [(lit ''id'', JString sample_stream)])]"

definition sample_files :: reader where
  "sample_files = sealed_files manifest_doc sample_stream sample_contents"

definition sample_manifest :: manifest where
  "sample_manifest = sealed_manifest manifest_doc sample_stream sample_contents"

definition sample_root :: bytes where
  "sample_root = sealed_root sample_stream sample_contents"

lemma signing_key_doc:
  "safe_json (JObject [(lit ''public_key'', JString sample_key)])"
  "canon_sort (JObject [(lit ''public_key'', JString sample_key)]) = JObject [(lit ''public_key'', JString sample_key)]"
  by (rule in_order_object; simp)+

lemma range_doc_sorted:
  assumes "n \<in> {1, 2, 3, 4}"
  shows "safe_json (JObject [(lit ''from'', JInt 1), (lit ''to'', JInt n)])"
    "canon_sort (JObject [(lit ''from'', JInt 1), (lit ''to'', JInt n)]) = JObject [(lit ''from'', JInt 1), (lit ''to'', JInt n)]"
  by (rule in_order_object; use assms in auto)+

lemma sample_fits: "fitting sample_stream sample_contents" "manifest_fits manifest_doc sample_stream sample_contents"
proof -
  have t: "safe_text (lit ''s'')" "safe_text (lit ''a'')" by code_simp+
  then show "fitting sample_stream sample_contents"
    by (simp add: fitting_def sample_stream_def sample_contents_def content_ok_def plain_doc_def)
  have st: "safe_json (JObject [(lit ''id'', JString sample_stream)])"
    "canon_sort (JObject [(lit ''id'', JString sample_stream)]) = JObject [(lit ''id'', JString sample_stream)]"
    by (rule in_order_object; use t in \<open>simp add: sample_stream_def\<close>)+
  have "plain_doc 1000 manifest_doc"
    unfolding manifest_doc_def
    by (rule plain_object; simp del: safe_json.simps(4) canon_sort.simps(2) add: signing_key_doc range_doc_sorted st)
      (simp_all add: sample_key_def sample_stream_def)
  then show "manifest_fits manifest_doc sample_stream sample_contents"
    by (simp add: manifest_fits_def) (simp add: manifest_doc_def sample_contents_def)
qed

definition sample_crypto :: crypto where
  "sample_crypto = \<lparr>cr_md5 = \<lambda>_. [], cr_sha1 = \<lambda>_. [], cr_sha224 = \<lambda>_. [], cr_sha384 = \<lambda>_. [], cr_sha512 = \<lambda>_. [],
     cr_ec_point = \<lambda>_ _. False, cr_ecdsa = \<lambda>_ _ _ _. False, cr_ed = \<lambda>_ _ _. True\<rparr>"

definition sample_env :: env where
  "sample_env = \<lparr>env_os = \<lambda>_. Directory sample_files, env_regular = \<lambda>_. None, env_listing = \<lambda>_. None, env_crypto = sample_crypto,
     env_embedded = \<lparr>EmbeddedKeys = [], EmbeddedTSARoots = [], EmbeddedReceiptKeys = Map.empty\<rparr>,
     env_Name = lit ''v'', env_Version = lit ''1'', env_SelfSHA256 = []\<rparr>"

definition sample_options :: options where
  "sample_options = \<lparr>opt_Keys = Some [\<lparr>publicKey = sample_key, createdAt = None, retiredAt = None\<rparr>],
     opt_KeysSource = lit ''k'', opt_TSARoots = None, opt_TSARootsSource = [], opt_ReceiptKeys = None,
     opt_ReceiptKeysSource = [], opt_SkipAnchors = False, opt_PrintHashes = False\<rparr>"

lemma sample_ed: "cr_ed (env_crypto sample_env) = (\<lambda>_ _ _. True)"
  by (simp add: sample_env_def sample_crypto_def)

lemma sample_trusted: "trusted_keys sample_env sample_options = sample_keys"
  by (simp add: trusted_keys_def newRun_def sample_options_def sample_keys_def)

lemma sample_plain: "plain sample_manifest sample_files"
  unfolding sample_manifest_def sample_files_def by (rule sealed_plain [OF sample_fits])

lemma sample_proven:
  "bundle_at sample_env path sample_files sample_manifest" "proven sample_env sample_options sample_manifest sample_files"
proof -
  show "bundle_at sample_env path sample_files sample_manifest"
    using sealed_describes [OF sample_fits] by (simp add: bundle_at_def sample_env_def Open_bundle_def sample_files_def sample_manifest_def)
  show "proven sample_env sample_options sample_manifest sample_files"
    unfolding sample_manifest_def sample_files_def by (rule sealed_proven [OF sample_fits sample_ed sample_trusted])
qed

lemma sample_range: "mf_from sample_manifest = 1" "mf_to sample_manifest = 1"
  by (simp_all add: sample_manifest_def sealed_manifest_def sample_contents_def)

lemma sample_passes: "\<exists>v. Bundle sample_env path sample_options = Some v \<and> vd_ExitCode v = ExitPass"
  by (rule Bundle_complete [OF sample_proven(1) sample_proven(2) sample_plain])

lemma sample_recorded_passes:
  "\<exists>v. ConsistencyRecorded sample_env path sample_root 1 sample_options = Some v \<and> vd_ExitCode v = ExitPass"
proof (rule ConsistencyRecorded_complete [OF sample_proven(1) sample_proven(2) sample_plain])
  show "lower sample_root = hex_text (prefix_root sample_files 1)"
    using sealed_events_read [OF sample_fits(1), of manifest_doc]
    by (simp add: sample_root_def prefix_root_def bundle_leaves_def sealed_root_def sealed_leaves_def sample_files_def o_def)
      (simp add: sample_contents_def sealed_log_def)
qed (simp_all add: sample_range)

lemma sample_pair_passes:
  "\<exists>v. ConsistencyBundles sample_env path path' sample_options = Some v \<and> vd_ExitCode v = ExitPass"
  by (rule ConsistencyBundles_complete [OF sample_proven(1) sample_proven(2) sample_plain _ sample_proven(1) sample_proven(2) sample_plain])
    (simp_all add: sample_range)

lemma sample_verdict:
  obtains v where "Bundle sample_env path sample_options = Some v" "\<not> vd_Hard v" "vd_Results v ResultContent \<noteq> StateFail"
proof -
  obtain v where v: "Bundle sample_env path sample_options = Some v" "vd_ExitCode v = ExitPass" using sample_passes by blast
  from Bundle_finished [OF v] that v(1) show thesis by blast
qed

subsection \<open>A bundle that is not there\<close>

definition missing_verdict :: verdict where
  "missing_verdict = finishHard (newRun (env_embedded sample_env) sample_options) (newReport sample_env sample_options (lit ''verify'') [[]])
     (hard (lit ''bundle ['' @ [] @ lit ''] does not exist'') 2)"

lemma missing_bundle:
  "Bundle (sample_env\<lparr>env_os := \<lambda>_. Neither\<rparr>) [] sample_options = Some missing_verdict" "vd_Hard missing_verdict"
  by (simp_all add: Bundle_def conclude_def verifyBundle_def andthen_def lift_def Open_bundle_def missing_verdict_def
      finishHard_def newReport_def pathHash_def sample_env_def Let_def)

definition sample_run :: run where
  "sample_run = newRun (env_embedded sample_env) sample_options"

end
