(* ===== verification/Reconcile_Sound.thy ===== *)
theory Reconcile_Sound
  imports Reconcile_Facts Sample_Bundle
begin

text \<open>
  Rules 6 to 10 as properties, what the reading of a decision log collects, and what a reconcile run with
  exit code 0 establishes of the registry, its log and the receipts.
\<close>

subsection \<open>Rule 6: one to one\<close>

text \<open>How often the acceptances name a sequence.\<close>

definition times_accepted :: "registry_acceptance list \<Rightarrow> int \<Rightarrow> int" where
  "times_accepted accs n = int (count (mset (map accepts accs)) (Some n))"

definition acceptance_held :: "verified_bundle \<Rightarrow> registry_acceptance \<Rightarrow> bool" where
  "acceptance_held registry acc \<longleftrightarrow> (\<exists>n. accepts acc = Some n \<and> held_as_said registry acc n)"

lemma rule_acceptance_step:
  assumes "clean_for ResultContent (cl_run (rule_acceptance registry acc st))"
    "clean_for ResultScope (cl_run (rule_acceptance registry acc st))"
  shows "acceptance_held registry acc" "cl_run (rule_acceptance registry acc st) = cl_run st"
    "cl_claimed (rule_acceptance registry acc st) n = cl_claimed st n + times_accepted [acc] n"
proof -
  have p: "\<not> past_range registry acc"
    using assms(2) by (auto simp: rule_acceptance_def Let_def split: option.splits if_splits)
  obtain m where m: "accepts acc = Some m" "held_as_said registry acc m"
    using assms(1) p by (auto simp: rule_acceptance_def Let_def split: option.splits if_splits)
  then show "acceptance_held registry acc" by (auto simp: acceptance_held_def)
  show "cl_run (rule_acceptance registry acc st) = cl_run st"
    "cl_claimed (rule_acceptance registry acc st) n = cl_claimed st n + times_accepted [acc] n"
    using m p by (auto simp: rule_acceptance_def Let_def times_accepted_def)
qed

lemma clean_acceptances:
  assumes "clean_for ResultContent (cl_run (fold (rule_acceptance registry) accs st))"
    "clean_for ResultScope (cl_run (fold (rule_acceptance registry) accs st))"
  shows "list_all (acceptance_held registry) accs \<and> cl_run (fold (rule_acceptance registry) accs st) = cl_run st \<and>
    (\<forall>n. cl_claimed (fold (rule_acceptance registry) accs st) n = cl_claimed st n + times_accepted accs n)"
  using assms
proof (induction accs arbitrary: st)
  case (Cons acc accs)
  let ?st = "rule_acceptance registry acc st"
  have c: "clean_for k (cl_run ?st)" if "clean_for k (cl_run (fold (rule_acceptance registry) accs ?st))" for k
    by (rule clean_kept.kept_fold [where g = cl_run, OF grows_rule_acceptance that])
  note st = rule_acceptance_step [OF c c]
  show ?case using Cons.IH [of ?st] Cons.prems st c by (auto simp: times_accepted_def)
qed (simp add: times_accepted_def)

lemma clean_rule_events:
  assumes "clean_for ResultContent (fold (rule_event registry log' read' st) ns r)"
    "clean_for ResultScope (fold (rule_event registry log' read' st) ns r)"
  shows "\<forall>n \<in> set ns. cl_claimed st n = 1"
  using assms
proof (induction ns arbitrary: r)
  case (Cons n ns)
  let ?r = "rule_event registry log' read' st n r"
  have c: "clean_for k ?r" if "clean_for k (fold (rule_event registry log' read' st) ns ?r)" for k
    by (rule clean_kept.kept_fold [where g = "\<lambda>r. r", OF grows_rule_event that])
  have "clean_for ResultContent ?r" "clean_for ResultScope ?r" using c Cons.prems by simp_all
  then have "cl_claimed st n = 1" by (auto simp: rule_event_def split: if_splits)
  with Cons.IH [of ?r] Cons.prems show ?case by simp
qed simp

text \<open>Every acceptance is of an event the registry holds as said, and every event is accepted exactly once.\<close>

definition one_to_one :: "verified_bundle \<Rightarrow> registry_acceptance list \<Rightarrow> bool" where
  "one_to_one registry accs \<longleftrightarrow>
     list_all (acceptance_held registry) accs \<and> (\<forall>n \<in> set (vb_order registry). times_accepted accs n = 1)"

lemma clean_rule_matching:
  assumes "clean_for ResultContent (rule_matching registry log' read' r)" "clean_for ResultScope (rule_matching registry log' read' r)"
  shows "one_to_one registry (rl_accepted read')"
proof -
  let ?st = "match_acceptances registry read' r"
  have c: "clean_for k (cl_run ?st)" if "clean_for k (rule_matching registry log' read' r)" for k
    by (rule clean_kept.kept_fold [where g = "\<lambda>r. r" and f = "rule_event registry log' read' ?st" and xs = "vb_order registry",
          OF grows_rule_event]) (use that in \<open>simp add: rule_matching_def Let_def\<close>)
  have a: "list_all (acceptance_held registry) (rl_accepted read')" "\<forall>n. cl_claimed ?st n = times_accepted (rl_accepted read') n"
    using clean_acceptances [of registry "rl_accepted read'" "\<lparr>cl_claimed = \<lambda>_. 0, cl_highest = 0, cl_run = r\<rparr>"]
      c assms unfolding match_acceptances_def by simp_all
  have "\<forall>n \<in> set (vb_order registry). cl_claimed ?st n = 1"
    by (rule clean_rule_events) (use assms in \<open>simp_all add: rule_matching_def Let_def\<close>)
  with a show ?thesis by (simp add: one_to_one_def)
qed

text \<open>For a registry read back from a bundle this is a bijection with its events.\<close>

lemma one_to_one_events:
  assumes "one_to_one registry accs" "vb_order registry = [a..b]" "\<And>n. vb_events registry n \<noteq> None \<Longrightarrow> a \<le> n \<and> n \<le> b"
  shows "mset (map accepts accs) = mset (map Some [a..b])"
proof (rule multiset_eqI)
  fix x
  show "count (mset (map accepts accs)) x = count (mset (map Some [a..b])) x"
  proof (cases "x \<in> Some ` {a..b}")
    case True
    then obtain n where n: "x = Some n" "n \<in> {a..b}" by blast
    then have "times_accepted accs n = 1" using assms(1,2) by (simp add: one_to_one_def)
    moreover have "count (mset (map Some [a..b])) (Some n) = 1"
      using n(2) by (subst distinct_count_atmost_1 [THEN iffD1, rule_format]) (auto simp: distinct_map)
    ultimately show ?thesis using n(1) by (simp add: times_accepted_def)
  next
    case False
    have "x \<notin> accepts ` set accs"
    proof
      assume "x \<in> accepts ` set accs"
      then obtain n acc where "x = Some n" "held_as_said registry acc n"
        using assms(1) by (auto simp: one_to_one_def list_all_iff acceptance_held_def)
      with assms(3) [of n] False show False by (auto simp: held_as_said_def split: option.splits)
    qed
    then have "count (mset (map accepts accs)) x = 0" by (subst count_eq_zero_iff) simp
    moreover from False have "count (mset (map Some [a..b])) x = 0" by (subst count_eq_zero_iff) simp
    ultimately show ?thesis by simp
  qed
qed

subsection \<open>Rule 7: one acceptance per key\<close>

text \<open>The acceptance of a key: the only one.\<close>

definition acceptance_for :: "registry_acceptance list \<Rightarrow> bytes \<Rightarrow> registry_acceptance option" where
  "acceptance_for accs key = find (\<lambda>a. ra_key a = Some key) accs"

lemma clean_rule_keys_from:
  assumes "fold rule_key accs (m, r) = (m', r')" "clean_for ResultContent r'"
  shows "distinct (map ra_key accs) \<and> None \<notin> set (map ra_key accs) \<and> (\<forall>acc \<in> set accs. m (the (ra_key acc)) = None) \<and>
    (\<forall>key. m' key = (case acceptance_for accs key of None \<Rightarrow> m key | Some a \<Rightarrow> Some a))"
  using assms
proof (induction accs arbitrary: m r)
  case (Cons acc accs)
  obtain m1 r1 where s: "rule_key acc (m, r) = (m1, r1)" by fastforce
  have "clean_for ResultContent r1"
    using clean_kept.kept_fold [where g = snd and f = rule_key and s = "(m1, r1)" and xs = accs, OF grows_rule_key] Cons.prems s
    by simp
  then obtain key where k: "ra_key acc = Some key" "m key = None" "m1 = m(key \<mapsto> acc)"
    using s by (auto simp: rule_key_def split: option.splits)
  have ih: "distinct (map ra_key accs) \<and> None \<notin> set (map ra_key accs) \<and> (\<forall>a \<in> set accs. m1 (the (ra_key a)) = None) \<and>
      (\<forall>k. m' k = (case acceptance_for accs k of None \<Rightarrow> m1 k | Some a \<Rightarrow> Some a))"
    using Cons.IH [of m1 r1] Cons.prems s by simp
  have new: "ra_key acc \<notin> set (map ra_key accs)"
  proof
    assume "ra_key acc \<in> set (map ra_key accs)"
    then obtain a where "a \<in> set accs" "ra_key a = Some key" using k(1) by auto
    with ih have "m1 key = None" by force
    with k(3) show False by simp
  qed
  then have "acceptance_for accs key = None" using k(1) by (force simp: acceptance_for_def find_None_iff)
  then have "m' k = (case acceptance_for (acc # accs) k of None \<Rightarrow> m k | Some a \<Rightarrow> Some a)" for k
    using ih k by (auto simp: acceptance_for_def split: option.split)
  with ih k new show ?case by (auto split: if_splits)
qed (simp add: acceptance_for_def)

lemma clean_rule_keys:
  assumes "rule_keys read' r = (m, r')" "clean_for ResultContent r'"
  shows "distinct (map ra_key (rl_accepted read'))" "None \<notin> set (map ra_key (rl_accepted read'))"
    "m = acceptance_for (rl_accepted read')"
  using clean_rule_keys_from [OF assms(1) [unfolded rule_keys_def] assms(2)] by (auto simp: fun_eq_iff split: option.splits)

subsection \<open>Rule 8: window closes\<close>

text \<open>
  A close names a window of a policy and says of it what the log shows: committed, with the acceptance's
  sequence, when the key was accepted before the window closed; missing otherwise.
\<close>

definition close_true :: "vopt \<Rightarrow> registry_acceptance option \<Rightarrow> json \<Rightarrow> bool" where
  "close_true payload acceptance window \<longleftrightarrow>
     (if \<exists>acc t closeAt. acceptance = Some acc \<and> ra_receivedAt acc = Some t \<and>
           parseRFC3339Value (Field (Some window) (lit ''close_at'')) = Some closeAt \<and> t < closeAt
      then strEq (Field payload (lit ''outcome'')) (lit ''committed'') \<and> IsObject (Field payload (lit ''accepted'')) \<and>
        strictEqual (Field (Field payload (lit ''accepted'')) (lit ''sequence''))
          (false_if_null (Field (Field (ra_payload (the acceptance)) (lit ''accepted'')) (lit ''sequence'')))
      else strEq (Field payload (lit ''outcome'')) (lit ''missing'') \<and> nullish (Field payload (lit ''accepted'')))"

lemma close_wrong_iff: "close_wrong payload acceptance window \<longleftrightarrow> \<not> close_true payload acceptance window"
proof -
  have w: "(\<exists>acc t closeAt. acceptance = Some acc \<and> ra_receivedAt acc = Some t \<and>
      parseRFC3339Value (Field (Some window) (lit ''close_at'')) = Some closeAt \<and> t < closeAt)
      \<longleftrightarrow> was_committed acceptance window"
    by (auto simp: was_committed_def Before_def split: option.splits)
  show ?thesis
    unfolding close_wrong_def close_true_def w Let_def by (cases "was_committed acceptance window") auto
qed

text \<open>What a close is of: the policy version and the key.\<close>

definition close_of :: "registry_policy list \<Rightarrow> registry_close \<Rightarrow> (int \<times> bytes) option" where
  "close_of policies c =
     map_option (\<lambda>(version, window). (version, text_of (Field (rx_payload c) (lit ''key'')))) (closed_window policies (rx_payload c))"

definition close_holds :: "registry_log \<Rightarrow> registry_close \<Rightarrow> bool" where
  "close_holds read' c \<longleftrightarrow>
     (\<exists>version window. closed_window (rl_policies read') (rx_payload c) = Some (version, window) \<and>
        close_true (rx_payload c) (acceptance_for (rl_accepted read') (text_of (Field (rx_payload c) (lit ''key'')))) window)"

definition closes_hold :: "registry_log \<Rightarrow> bool" where
  "closes_hold read' \<longleftrightarrow>
     list_all (close_holds read') (rl_closes read') \<and> distinct (map (close_of (rl_policies read')) (rl_closes read')) \<and>
     (\<forall>lastReceived p window. rl_lastReceived read' = Some lastReceived \<and> p \<in> set (rl_policies read') \<and>
        window \<in> set (pl_windows p) \<longrightarrow>
        \<not> close_missing (rl_policies read') {vk. Some vk \<in> set (map (close_of (rl_policies read')) (rl_closes read'))}
            lastReceived p window)"

lemma clean_rule_close:
  assumes "fold (rule_close policies m) cs (closed, r) = (closed', r')" "clean_for ResultContent r'"
  shows "list_all (\<lambda>c. \<exists>version window. closed_window policies (rx_payload c) = Some (version, window) \<and>
      close_true (rx_payload c) (m (text_of (Field (rx_payload c) (lit ''key'')))) window) cs \<and>
    distinct (map (close_of policies) cs) \<and> (\<forall>c \<in> set cs. \<forall>vk. close_of policies c = Some vk \<longrightarrow> vk \<notin> closed) \<and>
    closed' = closed \<union> {vk. Some vk \<in> set (map (close_of policies) cs)}"
  using assms
proof (induction cs arbitrary: closed r)
  case (Cons c cs)
  let ?key = "text_of (Field (rx_payload c) (lit ''key''))"
  obtain closed1 r1 where s: "rule_close policies m c (closed, r) = (closed1, r1)" by fastforce
  have "clean_for ResultContent r1"
    using clean_kept.kept_fold [where g = snd and f = "rule_close policies m" and s = "(closed1, r1)" and xs = cs,
        OF grows_rule_close] Cons.prems s by simp
  then obtain version window where w: "closed_window policies (rx_payload c) = Some (version, window)"
    "(version, ?key) \<notin> closed" "closed1 = insert (version, ?key) closed" "close_true (rx_payload c) (m ?key) window"
    using s by (auto simp: rule_close_def Let_def close_wrong_iff split: option.splits if_splits)
  have c: "close_of policies c = Some (version, ?key)" using w(1) by (simp add: close_of_def)
  have ih: "list_all (\<lambda>c. \<exists>version window. closed_window policies (rx_payload c) = Some (version, window) \<and>
      close_true (rx_payload c) (m (text_of (Field (rx_payload c) (lit ''key'')))) window) cs"
    "distinct (map (close_of policies) cs)" "\<forall>c \<in> set cs. \<forall>vk. close_of policies c = Some vk \<longrightarrow> vk \<notin> closed1"
    "closed' = closed1 \<union> {vk. Some vk \<in> set (map (close_of policies) cs)}"
    using Cons.IH [of closed1 r1] Cons.prems s by simp_all
  have "close_of policies c \<notin> set (map (close_of policies) cs)"
  proof
    assume "close_of policies c \<in> set (map (close_of policies) cs)"
    then obtain x where "x \<in> set cs" "close_of policies x = Some (version, ?key)" using c by auto
    with ih(3) have "(version, ?key) \<notin> closed1" by blast
    with w(3) show False by simp
  qed
  with ih c w show ?case by auto
qed simp

lemma clean_unclosed:
  assumes "clean_for ResultContent (fold (\<lambda>p. fold (rule_unclosed policies closed t p) (pl_windows p)) ps r)"
  shows "\<forall>p \<in> set ps. \<forall>w \<in> set (pl_windows p). \<not> close_missing policies closed t p w"
proof -
  have inner: "clean_for ResultContent r \<and> (\<forall>w \<in> set ws. \<not> close_missing policies closed t p w)"
    if "clean_for ResultContent (fold (rule_unclosed policies closed t p) ws r)" for p ws r
    using that
  proof (induction ws arbitrary: r)
    case (Cons w ws)
    then have "clean_for ResultContent (rule_unclosed policies closed t p w r)"
      "\<forall>w \<in> set ws. \<not> close_missing policies closed t p w" by (simp_all del: clean_for_def)
    then show ?case by (auto simp: rule_unclosed_def split: if_splits)
  qed simp
  show ?thesis using assms
  proof (induction ps arbitrary: r)
    case (Cons p ps)
    let ?f = "\<lambda>p. fold (rule_unclosed policies closed t p) (pl_windows p)"
    have g: "grows r (?f p r)" for p r by (intro grow grows_rule_unclosed)
    have all: "clean_for ResultContent (fold ?f ps (?f p r))" using Cons.prems by simp
    have "clean_for ResultContent (?f p r)" by (rule clean_kept.kept_fold [where g = "\<lambda>r. r", OF g all])
    moreover have "\<forall>p \<in> set ps. \<forall>w \<in> set (pl_windows p). \<not> close_missing policies closed t p w"
      by (rule Cons.IH [OF all])
    ultimately show ?case using inner by simp
  qed simp
qed

lemma clean_rule_closes:
  assumes "clean_for ResultContent (rule_closes read' (acceptance_for (rl_accepted read')) r)"
  shows "closes_hold read'"
proof -
  let ?ps = "rl_policies read'"
  obtain closed r1 where c: "fold (rule_close ?ps (acceptance_for (rl_accepted read'))) (rl_closes read') ({}, r) = (closed, r1)"
    by fastforce
  let ?rest = "\<lambda>t. fold (\<lambda>p. fold (rule_unclosed ?ps closed t p) (pl_windows p)) ?ps r1"
  have g: "grows r1 (?rest t)" for t by (intro grow grows_rule_unclosed)
  have clean: "rl_lastReceived read' = Some t \<Longrightarrow> clean_for ResultContent (?rest t)" for t
    using assms by (simp add: rule_closes_def c)
  have "clean_for ResultContent r1"
  proof (cases "rl_lastReceived read'")
    case None
    then show ?thesis using assms by (simp add: rule_closes_def c)
  next
    case (Some t)
    then show ?thesis using clean_kept.kept [OF g] clean by blast
  qed
  note cl = clean_rule_close [OF c this]
  then have closed: "closed = {vk. Some vk \<in> set (map (close_of ?ps) (rl_closes read'))}" by simp
  have "list_all (close_holds read') (rl_closes read')" "distinct (map (close_of ?ps) (rl_closes read'))"
    using cl by (simp_all add: list_all_iff close_holds_def)
  then show ?thesis unfolding closes_hold_def closed [symmetric] using clean_unclosed [OF clean] by blast
qed

subsection \<open>The reading of a log\<close>

text \<open>What is read does not depend on the run that it adds its notes to.\<close>

lemma log_fail_run: "log_fail code m (st\<lparr>lg_run := r\<rparr>) = (log_fail code m st)\<lparr>lg_run := r\<rparr>"
  by (simp add: log_fail_def)

lemma log_record_run: "\<exists>r'. log_record log' n (st\<lparr>lg_run := r\<rparr>) = (log_record log' n st)\<lparr>lg_run := r'\<rparr>"
proof -
  have n: "note_record rec (st\<lparr>lg_run := r\<rparr>) = (note_record rec st)\<lparr>lg_run := r\<rparr>" for rec
    by (simp add: note_record_def Let_def split: option.split)
  have c: "check_credential k rec c (s\<lparr>lg_run := r\<rparr>) = (check_credential k rec c s)\<lparr>lg_run := r\<rparr>" for k rec c s
    by (simp add: check_credential_def log_fail_run split: option.split)
  have d: "decision_record k a rec p (s\<lparr>lg_run := r\<rparr>) = (decision_record k a rec p s)\<lparr>lg_run := r\<rparr>" for k a rec p s
    by (cases s) (simp add: decision_record_def Let_def check_credential_def log_fail_def split: option.split)
  have p: "policy_record k a rec p (s\<lparr>lg_run := r\<rparr>) = (policy_record k a rec p s)\<lparr>lg_run := r\<rparr>"
    "windows_record k p (s\<lparr>lg_run := r\<rparr>) = (windows_record k p s)\<lparr>lg_run := r\<rparr>" for k a rec p s
    by (simp_all add: policy_record_def windows_record_def Let_def log_fail_run)
  have a: "\<exists>r'. absent_payload k a (s\<lparr>lg_run := r\<rparr>) = (absent_payload k a s)\<lparr>lg_run := r'\<rparr>" for k a s
    by (auto simp: absent_payload_def)
  let ?rec = "vb_events log' n"
  obtain ra where ra: "absent_payload n (text_of (Field ?rec (lit ''action''))) ((note_record ?rec st)\<lparr>lg_run := r\<rparr>) =
      (absent_payload n (text_of (Field ?rec (lit ''action''))) (note_record ?rec st))\<lparr>lg_run := ra\<rparr>" using a by blast
  show ?thesis
    by (rule exI [of _ "if IsObject (Field ?rec (lit ''payload'')) then r else ra"])
      (cases "IsObject (Field ?rec (lit ''payload''))"; simp add: log_record_def Let_def n ra d p)
qed

lemma fold_log_record_run:
  "\<exists>r'. fold (log_record log') ns (st\<lparr>lg_run := r\<rparr>) = (fold (log_record log') ns st)\<lparr>lg_run := r'\<rparr>"
proof (induction ns arbitrary: st r)
  case (Cons n ns)
  obtain r1 where "log_record log' n (st\<lparr>lg_run := r\<rparr>) = (log_record log' n st)\<lparr>lg_run := r1\<rparr>" using log_record_run by blast
  with Cons.IH show ?case by simp
qed (auto intro: exI [of _ r])

lemma truncate_run: "registry_log.truncate (st\<lparr>lg_run := r\<rparr>) = registry_log.truncate st"
  by (simp add: registry_log.truncate_def)

lemma reading_same: "fst (readRegistryLog log' order r) = fst (readRegistryLog log' order r')"
proof -
  have s: "start_reading r = (start_reading r')\<lparr>lg_run := r\<rparr>" by (simp add: start_reading_def)
  obtain r1 where f: "fold (log_record log') order (start_reading r) = (fold (log_record log') order (start_reading r'))\<lparr>lg_run := r1\<rparr>"
    using fold_log_record_run unfolding s by blast
  have pr: "fold policy_problem ms (st\<lparr>lg_run := r1\<rparr>) = (fold policy_problem ms st)\<lparr>lg_run := r1\<rparr>" for ms st
    by (induction ms arbitrary: st) (simp_all add: log_fail_run)
  have "join_policies (st\<lparr>lg_run := r1\<rparr>) = (join_policies st)\<lparr>lg_run := r1\<rparr>" for st
  proof -
    have "(st\<lparr>lg_run := r1\<rparr>)\<lparr>rl_policies := ps\<rparr> = (st\<lparr>rl_policies := ps\<rparr>)\<lparr>lg_run := r1\<rparr>" for ps by simp
    then show ?thesis by (simp only: join_policies_def Let_def pr log_reading.select_convs registry_log.update_convs) simp
  qed
  then show ?thesis by (simp add: readRegistryLog_def f truncate_run Let_def)
qed

text \<open>The acceptances are the log's records of accepted decisions, in the log's order.\<close>

definition is_acceptance :: "verified_bundle \<Rightarrow> int \<Rightarrow> bool" where
  "is_acceptance log' n \<longleftrightarrow>
     text_of (Field (vb_events log' n) (lit ''action'')) = lit ''ingress.accepted'' \<and>
     IsObject (Field (vb_events log' n) (lit ''payload''))"

definition acceptance_of :: "verified_bundle \<Rightarrow> int \<Rightarrow> registry_acceptance" where
  "acceptance_of log' n =
     (let record' = vb_events log' n; payload = Field record' (lit ''payload'')
      in \<lparr>ra_sequence = n, ra_record = record', ra_payload = payload, ra_receivedAt = received_at record',
          ra_key = stringOrNil (Field payload (lit ''commitment_key''))\<rparr>)"

lemma accepted_kept [simp]:
  "rl_accepted (log_fail code m st) = rl_accepted st" "rl_accepted (note_record rec st) = rl_accepted st"
  "rl_accepted (policy_record n a rec p st) = rl_accepted st" "rl_accepted (windows_record n p st) = rl_accepted st"
  "rl_accepted (check_credential n rec c st) = rl_accepted st" "rl_accepted (absent_payload n a st) = rl_accepted st"
  by (simp_all add: log_fail_def note_record_def policy_record_def windows_record_def absent_payload_def
      check_credential_def Let_def split: option.split)

lemma ingress_accepted: "is_ingress a \<and> ingress_outcome a = lit ''accepted'' \<longleftrightarrow> a = lit ''ingress.accepted''"
proof -
  have l: "lit ''ingress.accepted'' = lit ''ingress.'' @ lit ''accepted''" by (simp add: lit_def)
  have n: "length (lit ''ingress.'') = 8" by (simp add: lit_def)
  show ?thesis
  proof
    assume "is_ingress a \<and> ingress_outcome a = lit ''accepted''"
    then have "take 8 a = lit ''ingress.''" "drop 8 a = lit ''accepted''"
      by (simp_all only: is_ingress_def ingress_outcome_def has_prefix_def n)
    then show "a = lit ''ingress.accepted''" unfolding l by (metis append_take_drop_id)
  qed (simp add: is_ingress_def ingress_outcome_def has_prefix_def lit_simps)
qed

lemma accepted_record:
  "rl_accepted (log_record log' n st) = rl_accepted st @ (if is_acceptance log' n then [acceptance_of log' n] else [])"
proof -
  let ?a = "text_of (Field (vb_events log' n) (lit ''action''))" let ?p = "Field (vb_events log' n) (lit ''payload'')"
  have d: "rl_accepted (decision_record n ?a (vb_events log' n) ?p s) =
      rl_accepted s @ (if ingress_outcome ?a = lit ''accepted'' then [acceptance_of log' n] else [])" for s
    by (simp add: decision_record_def Let_def acceptance_of_def)
  show ?thesis
  proof (cases "is_acceptance log' n")
    case True
    then have a: "?a = lit ''ingress.accepted''" "IsObject ?p" by (simp_all add: is_acceptance_def)
    then have "is_ingress ?a" "ingress_outcome ?a = lit ''accepted''" using ingress_accepted by blast+
    with a True d show ?thesis by (simp add: log_record_def Let_def)
  next
    case False
    then have "IsObject ?p \<Longrightarrow> is_ingress ?a \<Longrightarrow> ingress_outcome ?a \<noteq> lit ''accepted''"
      using ingress_accepted by (auto simp: is_acceptance_def)
    with False d show ?thesis by (simp add: log_record_def Let_def)
  qed
qed

lemma accepted_policies [simp]: "rl_accepted (fold (log_fail code) ms st) = rl_accepted st"
  by (induction ms arbitrary: st) simp_all

lemma log_accepted:
  "rl_accepted (fst (readRegistryLog log' order r)) = map (acceptance_of log') (filter (is_acceptance log') order)"
proof -
  have "rl_accepted (fold (log_record log') ns st) = rl_accepted st @ map (acceptance_of log') (filter (is_acceptance log') ns)" for ns st
    by (induction ns arbitrary: st) (simp_all add: accepted_record)
  then show ?thesis
    by (simp add: readRegistryLog_def Let_def join_policies_def start_reading_def registry_log.truncate_def)
qed

text \<open>A log without policy problems has policies that hash, with their windows, to the hashes they name.\<close>

definition policy_whole :: "registry_policy \<Rightarrow> bool" where
  "policy_whole p \<longleftrightarrow>
     IsObject (pl_rules p) \<and> pl_count p = Some (JInt (int (length (pl_windows p)))) \<and>
     policy_digest (pl_rules p) (pl_windows p) = Some (pl_hash p)"

lemma join_policy_whole:
  assumes "snd (join_policy parts p) = []"
  shows "policy_whole (fst (join_policy parts p))"
  using assms by (auto simp: join_policy_def Let_def policy_whole_def intIs_iff split: if_splits)

lemma problems_of_policies:
  "rl_problems (fold (log_fail code) ms st) = (rl_problems st)(code := rl_problems st code @ ms)"
  by (induction ms arbitrary: st) (simp_all add: log_fail_def)

lemma rl_policies_problems: "rl_policies (fold (log_fail code) ms st) = rl_policies st"
  by (induction ms arbitrary: st) (simp_all add: log_fail_def)

lemma log_policies_whole:
  assumes "rl_problems (fst (readRegistryLog log' order r)) (lit ''POLICY_HASH'') = []"
  shows "list_all policy_whole (rl_policies (fst (readRegistryLog log' order r)))"
proof -
  let ?st = "fold (log_record log') order (start_reading r)"
  let ?join = "\<lambda>p. join_policy (lg_parts ?st (pl_version p)) p"
  from assms have "concat (map snd (map ?join (rl_policies ?st))) = []"
    by (simp add: readRegistryLog_def Let_def join_policies_def registry_log.truncate_def problems_of_policies del: concat_eq_Nil_conv)
  then have "\<forall>p \<in> set (rl_policies ?st). snd (?join p) = []" by auto
  then have "\<forall>p \<in> set (rl_policies ?st). policy_whole (fst (?join p))" using join_policy_whole by blast
  then show ?thesis
    by (simp add: readRegistryLog_def Let_def join_policies_def registry_log.truncate_def rl_policies_problems list_all_iff)
qed

subsection \<open>Rules 1 to 9 together\<close>

definition rules_hold :: "bytes \<Rightarrow> verified_bundle \<Rightarrow> verified_bundle \<Rightarrow> registry_log \<Rightarrow> bool" where
  "rules_hold publicID registry log' read' \<longleftrightarrow>
     (whole_history registry \<and> whole_history log') \<and>
     (in_time_order (vb_events registry) (sort (vb_order registry)) \<and> in_time_order (vb_events log') (sort (vb_order log'))) \<and>
     opens_on_policy log' \<and>
     (list_all policy_whole (rl_policies read') \<and> policies_follow publicID None (rl_policies read')) \<and>
     each_after (decision_follows (rl_policies read')) [] (rl_decisions read') \<and>
     one_to_one registry (rl_accepted read') \<and>
     (distinct (map ra_key (rl_accepted read')) \<and> None \<notin> set (map ra_key (rl_accepted read'))) \<and>
     closes_hold read' \<and>
     rl_problems read' (lit ''CREDENTIAL_NOT_VALID'') = []"

lemma clean_reconcile_rules:
  assumes "reconcile_rules publicID registry log' r = (read', r')" "clean_for ResultContent r'" "clean_for ResultScope r'"
  shows "rules_hold publicID registry log' read'" "read' = fst (readRegistryLog log' (sort (vb_order log')) r0)"
proof -
  let ?P = "lit ''POLICY_HASH''" let ?C = "lit ''CREDENTIAL_NOT_VALID''"
  obtain rd r1 where rd: "readRegistryLog log' (sort (vb_order log')) (rule_history registry log' r) = (rd, r1)" by fastforce
  define r2 where "r2 = rule_problems ?P rd r1"
  define r3 where "r3 = rule_policies publicID None (rl_policies rd) r2"
  define r4 where "r4 = rule_decisions rd r3"
  define r5 where "r5 = rule_matching registry log' rd r4"
  obtain m r6 where k: "rule_keys rd r5 = (m, r6)" by fastforce
  define r7 where "r7 = rule_closes rd m r6"
  have e: "read' = rd" "r' = rule_problems ?C rd r7"
    using assms(1) rd k by (auto simp: reconcile_rules_def r2_def r3_def r4_def r5_def r7_def)
  have c7: "clean_for q r7" if "clean_for q r'" for q
    using clean_kept.kept [OF grows_rule_problems] that e(2) by blast
  have c6: "clean_for q r6" if "clean_for q r'" for q
    using clean_kept.kept [OF grows_rule_closes] c7 that unfolding r7_def by blast
  have "grows r5 r6" using grows_rule_keys [of r5 rd] k by simp
  then have c5: "clean_for q r5" if "clean_for q r'" for q using clean_kept.kept c6 that by blast
  have c4: "clean_for q r4" if "clean_for q r'" for q
    using clean_kept.kept [OF grows_rule_matching] c5 that unfolding r5_def by blast
  have c3: "clean_for q r3" if "clean_for q r'" for q
    using clean_kept.kept [OF grows_rule_decisions] c4 that unfolding r4_def by blast
  have c2: "clean_for q r2" if "clean_for q r'" for q
    using clean_kept.kept [OF grows_rule_policies] c3 that unfolding r3_def by blast
  have c1: "clean_for q r1" if "clean_for q r'" for q
    using clean_kept.kept [OF grows_rule_problems] c2 that unfolding r2_def by blast
  have "grows (rule_history registry log' r) r1"
    using grows_readRegistryLog [of "rule_history registry log' r" log' "sort (vb_order log')"] rd by simp
  then have c0: "clean_for ResultContent (rule_history registry log' r)" using clean_kept.kept c1 assms(2) by blast
  have p: "rl_problems rd ?P = []" using c2 [OF assms(2)] by (simp add: r2_def clean_rule_problems)
  have w: "list_all policy_whole (rl_policies rd)"
    using log_policies_whole [of log' "sort (vb_order log')" "rule_history registry log' r"] p rd by simp
  have f: "policies_follow publicID None (rl_policies rd)"
    using clean_rule_policies c3 [OF assms(2)] unfolding r3_def by blast
  have d: "each_after (decision_follows (rl_policies rd)) [] (rl_decisions rd)"
    using clean_rule_decisions c4 [OF assms(2)] unfolding r4_def by blast
  have o: "one_to_one registry (rl_accepted rd)"
    using clean_rule_matching c5 [OF assms(2)] c5 [OF assms(3)] unfolding r5_def by blast
  note ks = clean_rule_keys [OF k c6 [OF assms(2)]]
  have cl: "closes_hold rd" using clean_rule_closes c7 [OF assms(2)] unfolding r7_def ks(3) by blast
  have cr: "rl_problems rd ?C = []" using assms(2) e(2) by (simp add: clean_rule_problems)
  show "rules_hold publicID registry log' read'"
    unfolding rules_hold_def e(1) using c0 w f d o ks(1,2) cl cr by (simp add: clean_rule_history)
  show "read' = fst (readRegistryLog log' (sort (vb_order log')) r0)"
    using reading_same [of log' "sort (vb_order log')" "rule_history registry log' r" r0] rd e(1) by simp
qed

subsection \<open>Rule 10: the receipts\<close>

text \<open>
  What the two bundles say of a receipt's promises: the registry's event at the sequence it names has the entry
  hash, the request digest and, for an acceptance, the time of the receipt; and the checkpoint over what the
  deadline is for, the event of an acceptance or else the decision record, was made by \<open>seal_by\<close>. A sequence the
  registry does not hold is noted by the code and not held against the receipt.
\<close>

definition promises_kept :: "vopt \<Rightarrow> verified_bundle \<Rightarrow> verified_bundle \<Rightarrow> bool" where
  "promises_kept body registry log' \<longleftrightarrow>
     (let acc = Field body (lit ''accepted''); n = IntOf (Field acc (lit ''sequence''));
          sealBy = text_of (Field body (lit ''seal_by''))
      in (\<not> nullish acc \<longrightarrow> (case vb_events registry n of None \<Rightarrow> True | Some ev \<Rightarrow> event_agrees body (Some ev))) \<and>
         (if deadline_on_event body
          then vb_events registry n \<noteq> None \<longrightarrow> sealed_in_time (vb_checkpoints registry) n sealBy
          else sealed_in_time (vb_checkpoints log') (IntOf (Field body (lit ''decision_seq''))) sealBy))"

text \<open>Every event a bundle was read back with is under one of its checkpoints.\<close>

definition checkpointed :: "verified_bundle \<Rightarrow> bool" where
  "checkpointed v \<longleftrightarrow>
     (\<forall>n. vb_events v n \<noteq> None \<longrightarrow> (\<exists>cp \<in> set (vb_checkpoints v). vc_from cp \<le> n \<and> n \<le> vc_to cp))"

lemma consecutive_reaches:
  "consecutive n rs \<Longrightarrow> rs \<noteq> [] \<Longrightarrow> n \<le> k \<Longrightarrow> k \<le> snd (last rs) \<Longrightarrow> \<exists>f t. (f, t) \<in> set rs \<and> f \<le> k \<and> k \<le> t"
proof (induction n rs rule: consecutive.induct)
  case (2 n f t rs)
  show ?case
  proof (cases "k \<le> t")
    case True
    then show ?thesis using 2 by (intro exI [of _ f] exI [of _ t]) simp
  next
    case False
    with 2 have "rs \<noteq> []" by auto
    with 2 False show ?thesis by fastforce
  qed
qed simp

lemma reads_back_checkpointed:
  assumes "reads_back mf b v" "proven e opts mf b"
  shows "checkpointed v"
proof -
  let ?cps = "log_checkpoints b"
  have s: "sealed (cr_ed (env_crypto e)) mf (trusted_keys e opts) (mf_from mf) (map leaf_of (log_events b)) (mf_from mf)
      (first_prev (mf_from mf)) ?cps" "?cps \<noteq> []" "last_to ?cps = mf_to mf"
    using assms(2) by (simp_all add: proven_def intact_def vouched_def Let_def)
  note rs = sealed_ranges [OF s(1)] and all = sealed_all_ranges [OF s(1)]
  have "checkpoint_ranges ?cps \<noteq> []"
    using s(2) all by (cases ?cps) (auto simp: checkpoint_ranges_def)
  moreover have "mf_from mf \<le> n \<and> n \<le> mf_to mf" if "vb_events v n \<noteq> None" for n
    using assms(1) that by (auto simp: reads_back_def log_event_def split: if_splits)
  ultimately have "\<exists>f t. (f, t) \<in> set (checkpoint_ranges ?cps) \<and> f \<le> n \<and> n \<le> t" if "vb_events v n \<noteq> None" for n
    using consecutive_reaches [OF rs] s(3) that by (simp add: last_to_def)
  moreover have "\<exists>cp \<in> set ?cps. vc_from (checkpoint_view cp) = f \<and> vc_to (checkpoint_view cp) = t"
    if "(f, t) \<in> set (checkpoint_ranges ?cps)" for f t
    using that by (force simp: checkpoint_ranges_def map_filter_def checkpoint_view_def cp_range_def Let_def split: if_splits)
  ultimately show ?thesis using assms(1) unfolding checkpointed_def reads_back_def by fastforce
qed

text \<open>A seal the code reports nothing on, under a checkpoint, is in time.\<close>

lemma deadline_clean:
  assumes "clean_for ResultContent (subject_run (subject_deadline body stream log' (c, u, r)))"
    and "deadline_of body stream log' = (Some v, Some (JInt n))" "vb_events v n \<noteq> None" "checkpointed v"
  shows "sealed_in_time (vb_checkpoints v) n (text_of (Field body (lit ''seal_by'')))"
proof -
  let ?s = "sealedByDeadline (vb_checkpoints v) n (text_of (Field body (lit ''seal_by'')))"
  have "?s \<noteq> None" using assms(3,4) by (auto simp: sealedByDeadline_iff checkpointed_def)
  then obtain ok where ok: "?s = Some ok" by blast
  then have "ok" using assms(1-3) by (auto simp: subject_deadline_def Let_def split: if_splits)
  with ok show ?thesis by (simp add: sealedByDeadline_iff)
qed

lemma subject_keeps_promises:
  assumes "clean_for ResultContent (snd (checkReceiptSubject body (Some registry) (Some log') r))" "well_formed_receipt body"
    and "Field body (lit ''decision_seq'') = Some (JInt d)" "vb_events log' d \<noteq> None" "checkpointed registry" "checkpointed log'"
  shows "promises_kept body registry log'"
proof -
  let ?acc = "Field body (lit ''accepted'')"
  obtain c1 u1 r1 where s1: "subject_decision body (Some log') (False, False, r) = (c1, u1, r1)" by (metis prod_cases3)
  obtain c2 u2 r2 where s2: "subject_event body (Some registry) (c1, u1, r1) = (c2, u2, r2)" by (metis prod_cases3)
  have c3: "clean_for ResultContent (subject_run (subject_deadline body (Some registry) (Some log') (c2, u2, r2)))"
    using assms(1) by (simp add: checkReceiptSubject_def subject_steps_def s1 s2 split: prod.splits)
  have "clean_for ResultContent r2"
    using clean_kept.kept [OF grows_subject_steps(3) c3] by simp
  then have ev: "\<not> nullish ?acc \<longrightarrow>
      (case vb_events registry (IntOf (Field ?acc (lit ''sequence''))) of None \<Rightarrow> True | Some ev \<Rightarrow> event_agrees body (Some ev))"
    using s2 by (auto simp: subject_event_def Let_def vb_event_def subject_event_problem_none split: if_splits option.splits)
  have acc: "\<not> nullish ?acc \<Longrightarrow> \<exists>n. Field ?acc (lit ''sequence'') = Some (JInt n)"
    using assms(2) by (auto simp: well_formed_receipt_def accepted_shape_def Let_def IsInt_iff)
  show ?thesis
  proof (cases "deadline_on_event body")
    case True
    then obtain n where n: "Field ?acc (lit ''sequence'') = Some (JInt n)"
      using acc by (auto simp: deadline_on_event_def Let_def)
    from deadline_clean [OF c3, of registry n] True n assms(5) ev show ?thesis
      by (simp add: promises_kept_def Let_def deadline_of_def)
  next
    case False
    from deadline_clean [OF c3, of log' d] False assms(3,4,6) ev show ?thesis
      by (simp add: promises_kept_def Let_def deadline_of_def)
  qed
qed

text \<open>
  A receipt file of a reconciled registry holds a receipt; one for this registry is genuine, the decision it
  names is in the log and says what the receipt says, and its promises are kept. One for another stream is set
  aside by the code, unchecked.
\<close>

definition receipt_reconciled ::
    "env \<Rightarrow> receipt_keys \<Rightarrow> bytes \<Rightarrow> verified_bundle \<Rightarrow> verified_bundle \<Rightarrow> bytes \<Rightarrow> bool" where
  "receipt_reconciled e ks publicID registry log' path \<longleftrightarrow>
     (\<exists>d. receipt_at e path d \<and>
        (strEq (Field (rd_body d) (lit ''stream'')) publicID \<longrightarrow>
           genuine (cr_ed (env_crypto e)) ks (rd_body d) (rd_signature d) \<and>
           (\<exists>n rec. Field (rd_body d) (lit ''decision_seq'') = Some (JInt n) \<and> vb_events log' n = Some rec \<and>
              decision_agrees (rd_body d) (Some rec)) \<and>
           promises_kept (rd_body d) registry log'))"

lemma grows_reconcile_receipt: "grows r (reconcile_receipt ed registry log' read' label d r)"
proof -
  obtain ok r1 where c: "checkReceipt ed (rd_body d) (rd_signature d) label r = (ok, r1)" by fastforce
  have "grows r r1" using grows_checkReceipt [of r ed "rd_body d" "rd_signature d" label] c by simp
  moreover have "grows r1 (snd (checkReceiptSubject (rd_body d) (Some registry) (Some log') r1))"
    by (rule grows_checkReceiptSubject)
  ultimately show ?thesis
    using grows_trans by (auto simp: reconcile_receipt_def Let_def c split: bool.split)
qed

lemma reconcile_receipt_clean:
  assumes "\<And>k. clean_for k (reconcile_receipt ed registry log' read' label d r)" "checkpointed registry" "checkpointed log'"
  shows "genuine ed (receiptKeys r) (rd_body d) (rd_signature d) \<and>
    (\<exists>n rec. Field (rd_body d) (lit ''decision_seq'') = Some (JInt n) \<and> vb_events log' n = Some rec \<and>
       decision_agrees (rd_body d) (Some rec)) \<and>
    promises_kept (rd_body d) registry log'"
proof -
  obtain ok r1 where c: "checkReceipt ed (rd_body d) (rd_signature d) label r = (ok, r1)" by fastforce
  let ?all = "reconcile_receipt ed registry log' read' label d r"
  have "grows r1 ?all"
    using grows_checkReceiptSubject
    by (auto simp: reconcile_receipt_def Let_def c split: bool.split)
  then have c1: "\<And>k. clean_for k r1" using clean_kept.kept assms(1) by blast
  have ok: "ok" by (rule checkReceipt_clean [OF c c1 c1])
  with c have g: "genuine ed (receiptKeys r) (rd_body d) (rd_signature d)" by (simp add: checkReceipt_true)
  have e: "?all = (if past_log_receipt log' read' (rd_body d)
             then reason_unconfirmed (lit ''RECEIPT_NOT_LOGGED'') (label @ lit '' names decision '' @
               int_text (IntOf (Field (rd_body d) (lit ''decision_seq''))) @
               lit '', past the log bundle's range: export the log again'') ResultScope r1
             else if logged_differences log' (rd_body d) \<noteq> []
             then reason_content (lit ''RECEIPT_NOT_LOGGED'') (label @
               lit '': signed by Sigilbase, but the decision log does not hold it ('' @
               join_bytes (lit '', '') (logged_differences log' (rd_body d)) @ lit '')'') r1
             else snd (checkReceiptSubject (rd_body d) (Some registry) (Some log') r1))"
    using ok by (simp add: reconcile_receipt_def Let_def c)
  have p: "\<not> past_log_receipt log' read' (rd_body d)" using assms(1) [of ResultScope] unfolding e by (auto split: if_splits)
  then have l: "logged_differences log' (rd_body d) = []" using assms(1) [of ResultContent] unfolding e by (auto split: if_splits)
  then obtain n rec where n: "Field (rd_body d) (lit ''decision_seq'') = Some (JInt n)" "vb_events log' n = Some rec"
      "decision_agrees (rd_body d) (Some rec)"
    by (auto simp: logged_differences_def Let_def IsInt_iff decisionRecordDifferences_none split: option.splits if_splits)
  have "promises_kept (rd_body d) registry log'"
    by (rule subject_keeps_promises [of _ _ _ r1 n]) (use assms p l g n(1,2) e in \<open>simp_all add: genuine_def\<close>)
  with g n show ?thesis by blast
qed

subsection \<open>The whole run\<close>

lemma growing_one_receipt [grow]: "growing (one_receipt e publicID registry log' read' path)"
  unfolding one_receipt_def Let_def by (auto intro!: grow grows_reconcile_receipt split: option.split)

lemma growing_rule_receipts [grow]: "growing (rule_receipts e publicID registry log' read' ps n)"
  by (induction e publicID registry log' read' ps n rule: rule_receipts.induct) (auto intro!: grow)

lemma growing_reconcile_rules [grow]: "growing (compute (reconcile_rules publicID registry log'))"
  by (rule growing_compute) (rule grows_reconcile_rules)

lemma growing_reconcileRegistry [grow]: "growing (reconcileRegistry e registry log' ps)"
  unfolding reconcileRegistry_def by (auto intro!: grow split: option.split)

lemma growing_reconcile_views [grow]: "growing (reconcile_views e p q ps rr lr)"
  unfolding reconcile_views_def by (intro grow)

lemma one_receipt_clean:
  assumes "one_receipt e publicID registry log' read' path r = Some (Inr n, r')" "\<And>k. clean_for k r'"
    and "checkpointed registry" "checkpointed log'"
  shows "receipt_reconciled e (receiptKeys r) publicID registry log' path"
proof -
  obtain doc r1 where rd: "readReceiptDocument e path r = Some (Inr doc, r1)"
    and rest: "(case doc of None \<Rightarrow> return 1
        | Some d \<Rightarrow>
            if \<not> strEq (Field (rd_body d) (lit ''stream'')) publicID
            then andthen (perform (note_msg ((lit ''receipt '' @ path_base path) @ lit '' is for another stream; set aside''))) (\<lambda>_. return 0)
            else andthen (perform (reconcile_receipt (cr_ed (env_crypto e)) registry log' read' (lit ''receipt '' @ path_base path) d))
              (\<lambda>_. return 1)) r1 = Some (Inr n, r')"
    using assms(1) unfolding one_receipt_def Let_def andthen_Inr by blast
  have "doc \<noteq> None"
  proof
    assume "doc = None"
    with rest have "r' = r1" by (simp add: action_Inr)
    with readReceiptDocument_at [OF rd] \<open>doc = None\<close> assms(2) show False by simp
  qed
  with readReceiptDocument_at [OF rd] obtain d where d: "doc = Some d" "receipt_at e path d" "r1 = r" by blast
  show ?thesis
  proof (cases "strEq (Field (rd_body d) (lit ''stream'')) publicID")
    case True
    with rest d have "r' = reconcile_receipt (cr_ed (env_crypto e)) registry log' read' (lit ''receipt '' @ path_base path) d r"
      by (simp add: andthen_Inr action_Inr)
    with reconcile_receipt_clean [OF _ assms(3,4), of "cr_ed (env_crypto e)" read' "lit ''receipt '' @ path_base path" d r]
      assms(2) d(2) show ?thesis unfolding receipt_reconciled_def by blast
  next
    case False
    with d(2) show ?thesis unfolding receipt_reconciled_def by blast
  qed
qed

lemma rule_receipts_clean:
  assumes "rule_receipts e publicID registry log' read' ps c r = Some (Inr n, r')" "\<And>k. clean_for k r'"
    and "checkpointed registry" "checkpointed log'"
  shows "\<forall>p \<in> set ps. receipt_reconciled e (receiptKeys r) publicID registry log' p"
  using assms(1,2)
proof (induction ps arbitrary: c r)
  case (Cons p ps)
  from Cons.prems(1) obtain k r1 where
    o: "one_receipt e publicID registry log' read' p r = Some (Inr k, r1)"
    and rest: "rule_receipts e publicID registry log' read' ps (c + k) r1 = Some (Inr n, r')"
    by (auto simp: andthen_Inr)
  have "grows r1 r'" by (rule growingD [OF growing_rule_receipts rest])
  then have c1: "\<And>k. clean_for k r1" using clean_kept.kept Cons.prems(2) by blast
  have "receiptKeys r1 = receiptKeys r" by (rule grows_receiptKeys [OF growingD [OF growing_one_receipt o]])
  with Cons.IH [OF rest Cons.prems(2)] one_receipt_clean [OF o c1 assms(3,4)] show ?case by simp
qed simp

text \<open>Two verified bundles reconcile when the second is the first's decision log and every rule holds.\<close>

definition reconciled ::
    "env \<Rightarrow> receipt_keys \<Rightarrow> verified_bundle \<Rightarrow> verified_bundle \<Rightarrow> registry_log \<Rightarrow> bytes list \<Rightarrow> bool" where
  "reconciled e ks registry log' read' paths \<longleftrightarrow>
     (\<exists>publicID. manifestPublicID (vb_manifest registry) = Some publicID \<and> manifestLogFor (vb_manifest log') = Some publicID \<and>
        rules_hold publicID registry log' read' \<and>
        list_all (receipt_reconciled e ks publicID registry log') paths)"

lemma reconcileRegistry_clean:
  assumes "reconcileRegistry e registry log' paths r = Some (Inr (counts, n), r')" "\<And>k. clean_for k r'"
    and "checkpointed registry" "checkpointed log'"
  shows "reconciled e (receiptKeys r) registry log' (fst (readRegistryLog log' (sort (vb_order log')) r0)) paths"
    "counts = rl_counts (fst (readRegistryLog log' (sort (vb_order log')) r0))"
proof -
  have "manifestPublicID (vb_manifest registry) \<noteq> None \<and> manifestLogFor (vb_manifest log') = manifestPublicID (vb_manifest registry)"
  proof (rule ccontr)
    assume "\<not> ?thesis"
    then have "\<exists>m. r' = reason_content (lit ''NOT_DECISION_LOG'') m r"
      using assms(1) by (auto simp: reconcileRegistry_def andthen_Inr action_Inr split: option.splits if_splits)
    then show False using assms(2) [of ResultContent] by auto
  qed
  then obtain publicID where id: "manifestPublicID (vb_manifest registry) = Some publicID"
    "manifestLogFor (vb_manifest log') = Some publicID" by force
  with assms(1) obtain read' r1 where
    rd: "reconcile_rules publicID registry log' r = (read', r1)"
    and rc: "rule_receipts e publicID registry log' read' paths 0 r1 = Some (Inr n, r')"
    and counts: "counts = rl_counts read'"
    by (auto simp: reconcileRegistry_def andthen_Inr action_Inr)
  have c1: "\<And>k. clean_for k r1" using clean_kept.kept [OF growingD [OF growing_rule_receipts rc]] assms(2) by blast
  have k: "receiptKeys r1 = receiptKeys r"
    using grows_receiptKeys [OF grows_reconcile_rules [of r publicID registry log']] rd by simp
  note rules = clean_reconcile_rules [OF rd c1 c1]
  show "reconciled e (receiptKeys r) registry log' (fst (readRegistryLog log' (sort (vb_order log')) r0)) paths"
    unfolding reconciled_def rules(2) [of r0, symmetric]
    using id rules(1) rule_receipts_clean [OF rc assms(2-4)] k by (auto simp: list_all_iff)
  show "counts = rl_counts (fst (readRegistryLog log' (sort (vb_order log')) r0))"
    unfolding rules(2) [of r0, symmetric] by (rule counts)
qed

end
