(* ===== verification/Reconcile_Run.thy ===== *)
theory Reconcile_Run
  imports Reconcile_Sound
begin

text \<open>
  The mode \<open>Reconcile\<close> from its paths to its verdict: it returns, and with exit code 0 both bundles are
  verified and they, the log and the receipts reconcile.
\<close>

subsection \<open>It ends\<close>

lemma ends_one_receipt [ending]: "ends p (one_receipt e publicID registry log' read' path)"
  unfolding one_receipt_def Let_def by (intro ending)

lemma ends_rule_receipts [ending]: "ends p (rule_receipts e publicID registry log' read' ps n)"
  by (induction e publicID registry log' read' ps n rule: rule_receipts.induct) (auto intro!: ending)

lemma ends_reconcileRegistry [ending]: "ends p (reconcileRegistry e registry log' ps)"
  unfolding reconcileRegistry_def by (intro ending)

lemma ends_receipt_paths [ending]: "ends p (receipt_paths e dir)"
  by (auto simp: receipt_paths_def ExitError_def intro!: ending split: option.split path_kind.split)

lemma ends_no_walk [ending]: "ends p (verifyBundle cr os target skip no_walk_options)"
  by (rule ends_verifyBundle) (simp add: no_walk_options_def)

lemma ends_reconcile_run: "ends p (reconcile_run e registryPath logPath receiptsDir skip)"
  unfolding reconcile_run_def reconcile_views_def by (intro ending)

lemma Reconcile_returns: "\<exists>v. Reconcile e registryPath logPath receiptsDir opts = Some v"
  using ends_return [OF ends_reconcile_run, of e registryPath logPath receiptsDir "opt_SkipAnchors opts" "newRun (env_embedded e) opts"]
  by (auto simp: Reconcile_def conclude_def Let_def)

subsection \<open>What exit code 0 says\<close>

text \<open>The receipt files of the run.\<close>

definition receipts_given :: "env \<Rightarrow> bytes option \<Rightarrow> bytes list" where
  "receipts_given e receiptsDir =
     (case receiptsDir of None \<Rightarrow> [] | Some dir \<Rightarrow> (case receiptFiles e dir of None \<Rightarrow> [] | Some paths \<Rightarrow> paths))"

lemma receipt_paths_Inr:
  "receipt_paths e dir r = Some (Inr paths, r') \<Longrightarrow> paths = receipts_given e dir \<and> r' = r"
  by (auto simp: receipt_paths_def receipts_given_def action_Inr split: option.splits path_kind.splits)

lemma reads_back_anchored [simp]: "reads_back mf b (view\<lparr>vb_anchoredAt := at\<rparr>) = reads_back mf b view"
  by (simp add: reads_back_def)

lemma reconcile_views_clean:
  assumes "reconcile_views e p q paths rr lr r = Some (Inr (counts, n), r')" "\<And>k. clean_for k r'"
    and "bundle_at e p b mf" "proven e opts mf b" "bundle_at e q b' mf'" "proven e opts mf' b'"
  shows "\<exists>registry log'. reads_back mf b registry \<and> reads_back mf' b' log' \<and>
    reconciled e (receiptKeys r) registry log' (fst (readRegistryLog log' (sort (vb_order log')) r0)) paths \<and>
    counts = rl_counts (fst (readRegistryLog log' (sort (vb_order log')) r0))"
proof -
  from assms(1) obtain registry r1 log' r2 where
    rg: "loadVerifiedBundle (env_os e) p r = Some (Inr registry, r1)"
    and lg: "loadVerifiedBundle (env_os e) q r1 = Some (Inr log', r2)"
    and rc: "reconcileRegistry e (registry\<lparr>vb_anchoredAt := br_latestAnchorAt rr\<rparr>) (log'\<lparr>vb_anchoredAt := br_latestAnchorAt lr\<rparr>)
      paths r2 = Some (Inr (counts, n), r')"
    by (auto simp: reconcile_views_def andthen_Inr)
  note v = loadVerifiedBundle_proven [OF rg assms(3,4)] loadVerifiedBundle_proven [OF lg assms(5,6)]
  have cp: "checkpointed (registry\<lparr>vb_anchoredAt := br_latestAnchorAt rr\<rparr>)" "checkpointed (log'\<lparr>vb_anchoredAt := br_latestAnchorAt lr\<rparr>)"
    using reads_back_checkpointed [OF v(1) assms(4)] reads_back_checkpointed [OF v(3) assms(6)] by (simp_all add: checkpointed_def)
  from reconcileRegistry_clean [OF rc assms(2) cp, of r0] v show ?thesis
    by (intro exI [of _ "registry\<lparr>vb_anchoredAt := br_latestAnchorAt rr\<rparr>"] exI [of _ "log'\<lparr>vb_anchoredAt := br_latestAnchorAt lr\<rparr>"])
      simp
qed

lemma Reconcile_pass:
  assumes "Reconcile e registryPath logPath receiptsDir opts = Some v" "vd_ExitCode v = ExitPass"
  shows "\<exists>b mf b' mf' registry log'.
    bundle_at e registryPath b mf \<and> proven e opts mf b \<and> reads_back mf b registry \<and>
    bundle_at e logPath b' mf' \<and> proven e opts mf' b' \<and> reads_back mf' b' log' \<and>
    reconciled e (trusted_receipt_keys e opts) registry log' (fst (readRegistryLog log' (sort (vb_order log')) r0))
      (receipts_given e receiptsDir) \<and>
    vd_Counts v = Some (rl_counts (fst (readRegistryLog log' (sort (vb_order log')) r0)))"
proof -
  let ?r = "newRun (env_embedded e) opts" let ?skip = "opt_SkipAnchors opts"
  obtain rr lr counts checked r' where
    m: "reconcile_run e registryPath logPath receiptsDir ?skip ?r = Some (Inr (rr, lr, counts, checked), r')"
    and v: "vd_ExitCode v = exitCode (results r')" "vd_Counts v = Some counts"
    by (rule conclude_pass [OF assms(1) [unfolded Reconcile_def Let_def] ends_reconcile_run [where p = False] assms(2)])
      (auto split: prod.splits simp: finish_def)
  have clean: "clean_for k r'" for k using v assms(2) exitCode_pass [of r'] by metis
  obtain r1 r2 failed where
    vr: "verifyBundle (env_crypto e) (env_os e) registryPath ?skip no_walk_options
      (info (lit ''=== Registry: '' @ registryPath @ lit '' ==='') ?r) = Some (Inr rr, r1)"
    and vl: "verifyBundle (env_crypto e) (env_os e) logPath ?skip no_walk_options
      (info (lit ''=== Decision log: '' @ logPath @ lit '' ==='') r1) = Some (Inr lr, r2)"
    and f: "failed = (failures (info (lit ''Reconciling...'') r2) \<noteq> [])"
    and rest: "(if failed
       then andthen (perform (\<lambda>r. note_msg (lit ''a bundle does not verify, so the registry is not reconciled'')
         (setReason (lit ''BUNDLE'') r))) (\<lambda>_. return (no_counts, 0))
       else reconcile_views e registryPath logPath (receipts_given e receiptsDir) rr lr) (info (lit ''Reconciling...'') r2) =
      Some (Inr (counts, checked), r')"
    using m by (auto simp: reconcile_run_def andthen_Inr action_Inr dest!: receipt_paths_Inr)
  have "grows r (note_msg m (setReason c r))" for r m c
    by (simp add: setReason_def note_msg_def grows_def)
  then have "grows (info (lit ''Reconciling...'') r2) r'"
    using rest growingD [OF growing_reconcile_views] by (auto simp: andthen_Inr action_Inr split: if_splits)
  then have c2: "clean_for k r2" for k using clean_kept.kept clean by fastforce
  have g1: "grows ?r r1" using growingD [OF growing_verifyBundle vr] grows_info grows_trans by blast
  have g2: "grows r1 r2" using growingD [OF growing_verifyBundle vl] grows_info grows_trans by blast
  have c1: "clean_for k r1" for k using clean_kept.kept [OF g2 c2] .
  have "failures r2 = failures ?r" by (rule clean_no_failure [OF grows_trans [OF g1 g2] c2])
  then have "\<not> failed" using f by (simp add: newRun_def info_def)
  with rest have vs: "reconcile_views e registryPath logPath (receipts_given e receiptsDir) rr lr
      (info (lit ''Reconciling...'') r2) = Some (Inr (counts, checked), r')" by simp
  have t: "trusted r1 = trusted_keys e opts" using grows_trusted [OF g1] by (simp add: trusted_keys_def)
  obtain b mf where b: "bundle_at e registryPath b mf" "proven e opts mf b"
    using verifyBundle_vouched [OF vr c1] by (auto simp: proven_def trusted_keys_def)
  obtain b' mf' where b': "bundle_at e logPath b' mf'" "proven e opts mf' b'"
    using verifyBundle_vouched [OF vl c2] t by (auto simp: proven_def)
  have k: "receiptKeys (info (lit ''Reconciling...'') r2) = trusted_receipt_keys e opts"
    using grows_receiptKeys [OF grows_trans [OF g1 g2]] by (simp add: trusted_receipt_keys_def info_def)
  from reconcile_views_clean [OF vs clean b b', of r0] b b' v(2) k show ?thesis by fastforce
qed

text \<open>
  So every event of the registry is accepted by exactly one record of the log, and every such record accepts
  an event of the registry as it is.
\<close>

definition log_acceptances :: "verified_bundle \<Rightarrow> registry_acceptance list" where
  "log_acceptances log' = map (acceptance_of log') (filter (is_acceptance log') (sort (vb_order log')))"

lemma reconciled_events:
  assumes "reconciled e ks registry log' (fst (readRegistryLog log' (sort (vb_order log')) r0)) paths" "reads_back mf b registry"
  shows "mset (map accepts (log_acceptances log')) = mset (map Some [mf_from mf..mf_to mf])"
    "list_all (acceptance_held registry) (log_acceptances log')" "distinct (map ra_key (log_acceptances log'))"
proof -
  have "one_to_one registry (log_acceptances log')" "distinct (map ra_key (log_acceptances log'))"
    using assms(1) by (auto simp: reconciled_def rules_hold_def log_accepted log_acceptances_def)
  then show "list_all (acceptance_held registry) (log_acceptances log')" "distinct (map ra_key (log_acceptances log'))"
    by (simp_all add: one_to_one_def)
  show "mset (map accepts (log_acceptances log')) = mset (map Some [mf_from mf..mf_to mf])"
    by (rule one_to_one_events [OF \<open>one_to_one registry (log_acceptances log')\<close>])
      (use assms(2) in \<open>auto simp: reads_back_def log_event_def split: if_splits\<close>)
qed

end
