(* ===== verification/Report_Doc.thy ===== *)
theory Report_Doc
  imports Reconcile_Run
begin

text \<open>
  The machine-readable report: the \<open>MarshalJSON\<close> methods of \<open>verify/report.go\<close> and \<open>verify/receipts.go\<close>
  as the document they build, and \<open>Report.JSON\<close> as its text, with what Go's \<open>encoding/json\<close> does to it: the
  members in the order given, strings escaped, the whole of it HTML-escaped by the outer \<open>json.Marshal\<close> and
  indented by four spaces a level.
\<close>

subsection \<open>Documents\<close>

text \<open>What the report hands to the encoder.\<close>

datatype doc =
  DNull
| DInt int
| DString bytes
| DArray "doc list"
| DObject "(bytes \<times> doc) list"

definition marshalOrdered :: "bytes list \<Rightarrow> (bytes \<Rightarrow> doc) \<Rightarrow> doc" where
  "marshalOrdered ks value = DObject (map (\<lambda>k. (k, value k)) ks)"

definition text_doc :: "bytes option \<Rightarrow> doc" where
  "text_doc s = (case s of None \<Rightarrow> DNull | Some t \<Rightarrow> DString t)"

definition int_doc :: "int option \<Rightarrow> doc" where
  "int_doc i = (case i of None \<Rightarrow> DNull | Some n \<Rightarrow> DInt n)"

definition Results_MarshalJSON :: "results \<Rightarrow> doc" where
  "Results_MarshalJSON rs = DObject (map (\<lambda>k. (result_text k, DString (state_text (rs k)))) resultOrder)"

definition tree_doc :: "tree_state \<Rightarrow> doc" where
  "tree_doc t = DObject [(lit ''tree_size'', DInt (ts_size t)), (lit ''root'', DString (ts_root t))]"

definition range_doc :: "int \<Rightarrow> int \<Rightarrow> doc" where
  "range_doc from to = DObject [(lit ''from'', DInt from), (lit ''to'', DInt to)]"

definition BundleInfo_MarshalJSON :: "bundle_info \<Rightarrow> doc" where
  "BundleInfo_MarshalJSON b = DObject
     ([(lit ''path'', DString (bi_Path b)), (lit ''stream'', DString (bi_Stream b)),
       (lit ''range'', range_doc (bi_from b) (bi_to b))] @
      (if bi_full b
       then [(lit ''events'', DInt (bi_Events b)), (lit ''checkpoints'', DInt (bi_Checkpoints b)),
         (lit ''redacted_events'', DInt (bi_RedactedEvents b))]
       else []))"

definition consistency_info_doc :: "consistency_info \<Rightarrow> doc" where
  "consistency_info_doc c = DObject [(lit ''old'', tree_doc (ci_Old c)), (lit ''new'', tree_doc (ci_New c)),
     (lit ''proof_nodes'', DInt (ci_ProofNodes c))]"

definition receipt_summary_doc :: "receipt_summary \<Rightarrow> doc" where
  "receipt_summary_doc s = DObject
     [(lit ''key_id'', text_doc (rs_KeyID s)), (lit ''stream'', text_doc (rs_Stream s)),
      (lit ''outcome'', text_doc (rs_Outcome s)), (lit ''decision_seq'', int_doc (rs_DecisionSeq s)),
      (lit ''received_at'', text_doc (rs_ReceivedAt s)), (lit ''seal_by'', text_doc (rs_SealBy s)),
      (lit ''subject'', DString (rs_Subject s))]"

definition CountMap_MarshalJSON :: "(bytes \<times> int) list \<Rightarrow> doc" where
  "CountMap_MarshalJSON c = DObject (map (\<lambda>(k, n). (k, DInt n)) c)"

definition CredentialCounts_MarshalJSON :: "(bytes \<times> (bytes \<times> int) list) list \<Rightarrow> doc" where
  "CredentialCounts_MarshalJSON c = DObject (map (\<lambda>(k, m). (k, CountMap_MarshalJSON m)) c)"

definition counts_doc :: "reconcile_counts \<Rightarrow> doc" where
  "counts_doc c = DObject
     [(lit ''decisions'', DInt (rc_Decisions c)), (lit ''outcomes'', CountMap_MarshalJSON (rc_Outcomes c)),
      (lit ''credentials'', CredentialCounts_MarshalJSON (rc_Credentials c))]"

text \<open>PHP's encoding of an array: a list when it is empty, an object by key otherwise.\<close>

definition orderedObject_MarshalJSON :: "(bytes \<times> doc) list \<Rightarrow> doc" where
  "orderedObject_MarshalJSON ms = (if ms = [] then DArray [] else DObject ms)"

text \<open>The sources in the order of the keys; a fingerprint that comes twice has its last source.\<close>

definition keySourcesJSON :: "(bytes \<times> bytes) list \<Rightarrow> doc" where
  "keySourcesJSON sources =
     (let values = fold (\<lambda>(f, s) m. m(f \<mapsto> DString s)) sources Map.empty
      in orderedObject_MarshalJSON (map (\<lambda>(f, s). (f, lookup_or DNull values f)) sources))"

definition pathHashesJSON :: "(bytes \<times> bytes option) list \<Rightarrow> doc" where
  "pathHashesJSON hashes = orderedObject_MarshalJSON (fold (\<lambda>(p, h). AList.update p (text_doc h)) hashes [])"

subsection \<open>The report\<close>

definition opt_doc :: "('a \<Rightarrow> doc) \<Rightarrow> 'a option \<Rightarrow> doc" where
  "opt_doc f x = (case x of None \<Rightarrow> DNull | Some y \<Rightarrow> f y)"

definition mode_members :: "verdict \<Rightarrow> (bytes \<times> doc) list" where
  "mode_members v =
     (if vd_Mode v = lit ''verify''
      then [(lit ''bundle'', opt_doc BundleInfo_MarshalJSON (vd_Bundle v)),
            (lit ''consistency_state'', opt_doc tree_doc (vd_ConsistencyState v))]
      else if vd_Mode v = lit ''consistency-bundles''
      then [(lit ''bundles'', DArray (map BundleInfo_MarshalJSON (vd_Bundles v))),
            (lit ''consistency'', opt_doc consistency_info_doc (vd_Consistency v))]
      else if vd_Mode v = lit ''consistency-recorded-root''
      then [(lit ''bundle'', opt_doc BundleInfo_MarshalJSON (vd_Bundle v)),
            (lit ''recorded'', opt_doc tree_doc (vd_Recorded v))]
      else if vd_Mode v = lit ''receipt''
      then [(lit ''receipt'', opt_doc receipt_summary_doc (vd_Receipt v)),
            (lit ''bundles'', DArray (map BundleInfo_MarshalJSON (vd_Bundles v))),
            (lit ''reason'', text_doc (vd_Reason v))]
      else if vd_Mode v = lit ''reconcile''
      then [(lit ''bundles'', DArray (map BundleInfo_MarshalJSON (vd_Bundles v))),
            (lit ''counts'', counts_doc (case vd_Counts v of None \<Rightarrow> no_counts | Some c \<Rightarrow> c)),
            (lit ''receipts_checked'', DInt (vd_ReceiptsChecked v)),
            (lit ''reason'', text_doc (vd_Reason v))]
      else [])"

definition Report_MarshalJSON :: "verdict \<Rightarrow> doc" where
  "Report_MarshalJSON v = DObject
     ([(lit ''verifier_name'', DString (vd_VerifierName v)), (lit ''verifier_version'', DString (vd_VerifierVersion v))] @
      (if vd_Hard v
       then [(lit ''result'', DString (lit ''error'')), (lit ''exit_code'', DInt (int (vd_ExitCode v))),
             (lit ''message'', DString (vd_Message v))]
       else [(lit ''verifier_sha256'', DString (vd_VerifierSHA256 v)), (lit ''result'', DString (vd_Result v)),
             (lit ''exit_code'', DInt (int (vd_ExitCode v))), (lit ''results'', Results_MarshalJSON (vd_Results v)),
             (lit ''signing_keys'', keySourcesJSON (vd_SigningKeys v)), (lit ''mode'', DString (vd_Mode v))] @
         mode_members v @
         [(lit ''failures'', DArray (map DString (vd_Failures v))), (lit ''notes'', DArray (map DString (vd_Notes v)))] @
         (if vd_PrintHashes v then [(lit ''bundle_sha256'', pathHashesJSON (vd_BundleSHA256 v))] else [])))"

subsection \<open>The text\<close>

text \<open>
  The encoding of a string: quotes, backslashes and controls escaped, malformed bytes replaced by U+FFFD,
  the two line separators as escapes, everything else as it is.
\<close>

definition u00 :: "byte \<Rightarrow> bytes" where
  "u00 b = [92] @ lit ''u00'' @ [hex_char (unat b div 16), hex_char (unat b mod 16)]"

definition encode_ascii :: "byte \<Rightarrow> bytes" where
  "encode_ascii b =
     (if b = 34 \<or> b = 92 then [92, b]
      else if b = 8 then [92, 98]
      else if b = 12 then [92, 102]
      else if b = 10 then [92, 110]
      else if b = 13 then [92, 114]
      else if b = 9 then [92, 116]
      else if b < 32 then u00 b
      else [b])"

function encode_chars :: "bytes \<Rightarrow> bytes" where
  "encode_chars s =
     (case s of
        [] \<Rightarrow> []
      | b # rest \<Rightarrow>
          if b < 128 then encode_ascii b @ encode_chars rest
          else
            (let d = DecodeRune s
             in (if malformed d then [92] @ lit ''ufffd''
                 else if fst d = 8232 then [92] @ lit ''u2028''
                 else if fst d = 8233 then [92] @ lit ''u2029''
                 else take (snd d) s) @ encode_chars (drop (snd d) s)))"
  by pat_completeness auto
termination
proof (relation "measure length")
  show "(drop (snd d) s, s) \<in> measure length" if "s = b # rest" "d = DecodeRune s" for s b rest d
    using DecodeRune_drop_less [of s] that by simp
qed auto

declare encode_chars.simps [simp del]

definition encode_string :: "bytes \<Rightarrow> bytes" where
  "encode_string s = [34] @ encode_chars s @ [34]"

text \<open>The escapes the outer \<open>json.Marshal\<close> adds when it compacts the document.\<close>

definition html_escape :: "bytes \<Rightarrow> bytes" where
  "html_escape s = concat (map (\<lambda>b. if b = 60 \<or> b = 62 \<or> b = 38 then u00 b else [b]) s)"

definition indent_line :: "nat \<Rightarrow> bytes" where
  "indent_line depth = [10] @ replicate (4 * depth) 32"

fun between :: "bytes \<Rightarrow> bytes list \<Rightarrow> bytes" where
  "between sep [] = []"
| "between sep [x] = x"
| "between sep (x # y # zs) = x @ sep @ between sep (y # zs)"

fun indented :: "nat \<Rightarrow> doc \<Rightarrow> bytes" where
  "indented depth DNull = lit ''null''"
| "indented depth (DInt i) = int_text i"
| "indented depth (DString s) = html_escape (encode_string s)"
| "indented depth (DArray xs) =
     (if xs = [] then lit ''[]''
      else [91] @ indent_line (depth + 1) @
        between ([44] @ indent_line (depth + 1)) (map (indented (depth + 1)) xs) @ indent_line depth @ [93])"
| "indented depth (DObject ms) =
     (if ms = [] then lit ''{}''
      else [123] @ indent_line (depth + 1) @
        between ([44] @ indent_line (depth + 1))
          (map (\<lambda>(k, v). html_escape (encode_string k) @ lit '': '' @ indented (depth + 1) v) ms) @
        indent_line depth @ [125])"

definition Report_JSON :: "verdict \<Rightarrow> bytes" where
  "Report_JSON v = indented 0 (Report_MarshalJSON v) @ [10]"

subsection \<open>No raw HTML\<close>

text \<open>
  \<open>marshalOrdered\<close> says it writes without HTML escaping; the outer \<open>json.Marshal\<close> escapes what it wrote. In the
  report no angle bracket or ampersand is left as it is, whatever the paths and messages hold.
\<close>

definition no_html :: "bytes \<Rightarrow> bool" where
  "no_html s \<longleftrightarrow> list_all (\<lambda>b. b \<noteq> 60 \<and> b \<noteq> 62 \<and> b \<noteq> 38) s"

lemma no_html_append [simp]: "no_html (s @ t) \<longleftrightarrow> no_html s \<and> no_html t"
  by (simp add: no_html_def)

lemma no_html_cons [simp]: "no_html (b # s) \<longleftrightarrow> b \<noteq> 60 \<and> b \<noteq> 62 \<and> b \<noteq> 38 \<and> no_html s" "no_html []"
  by (simp_all add: no_html_def)

lemma no_html_hex: "n < 16 \<Longrightarrow> no_html [hex_char n]"
proof -
  assume "n < 16"
  then have "n \<in> set [0..<16]" by simp
  moreover have "\<forall>n \<in> set [0..<16]. no_html [hex_char n]" by code_simp
  ultimately show ?thesis by blast
qed

lemma no_html_u00: "no_html (u00 b)"
proof -
  have "unat b < 256" by (rule unat_byte_lt)
  then have "no_html [hex_char (unat b div 16)]" "no_html [hex_char (unat b mod 16)]"
    by (intro no_html_hex; simp add: less_mult_imp_div_less)+
  then show ?thesis by (simp add: u00_def lit_simps)
qed

lemma no_html_escape: "no_html (html_escape s)"
  by (induction s) (auto simp: html_escape_def no_html_u00)

lemma no_html_between: "no_html sep \<Longrightarrow> list_all no_html xs \<Longrightarrow> no_html (between sep xs)"
  by (induction sep xs rule: between.induct) auto

lemma no_html_int: "no_html (int_text i)"
proof -
  have "no_html ds" if "list_all is_digit ds" for ds
    using that by (induction ds) (auto simp: is_digit_def)
  then show ?thesis using nat_digits_props by (simp add: int_text_def)
qed

lemma no_html_line: "no_html (indent_line depth)"
  by (simp add: indent_line_def no_html_def list_all_iff)

lemma no_html_indented: "no_html (indented depth x)"
proof (induction depth x rule: indented.induct)
  case (4 depth xs)
  have "list_all no_html (map (indented (depth + 1)) xs)" if "xs \<noteq> []" using 4 [OF that] by (simp add: list_all_iff)
  then show ?case using no_html_between [of "[44] @ indent_line (depth + 1)"] by (simp add: no_html_line lit_simps)
next
  case (5 depth ms)
  have "list_all no_html (map (\<lambda>(k, v). html_escape (encode_string k) @ lit '': '' @ indented (depth + 1) v) ms)"
    if "ms \<noteq> []" using 5 [OF that] by (auto simp: list_all_iff no_html_escape lit_simps)
  then show ?case using no_html_between [of "[44] @ indent_line (depth + 1)"] by (simp add: no_html_line lit_simps)
qed (simp_all add: no_html_escape no_html_int, simp add: lit_simps)

lemma no_html_report: "no_html (Report_JSON v)"
  by (simp add: Report_JSON_def no_html_indented)

end
