(* ===== verification/Command.thy ===== *)
theory Command
  imports Report_Doc
begin

text \<open>
  \<open>cmd/sigilbase-verify/main.go\<close>: the command line, the choice of the mode, the files its options name, and
  what is written where. \<open>stdout\<close> and \<open>stderr\<close> are the bytes written; the text of the usage is a parameter.
\<close>

subsection \<open>The command line\<close>

record cli_options =
  co_skipAnchors :: bool
  co_consistency :: bool
  co_jsonMode :: bool
  co_quiet :: bool
  co_printHashes :: bool
  co_showHelp :: bool
  co_recordedRoot :: "bytes option"
  co_recordedSize :: "int option"
  co_keysFile :: "bytes option"
  co_tsaRootsFile :: "bytes option"
  co_targets :: "bytes list"
  co_receiptFile :: "bytes option"
  co_reconcile :: bool
  co_receiptsDir :: "bytes option"
  co_receiptKeysFile :: "bytes option"

definition no_cli_options :: cli_options where
  "no_cli_options =
     \<lparr>co_skipAnchors = False, co_consistency = False, co_jsonMode = False, co_quiet = False, co_printHashes = False,
      co_showHelp = False, co_recordedRoot = None, co_recordedSize = None, co_keysFile = None, co_tsaRootsFile = None,
      co_targets = [], co_receiptFile = None, co_reconcile = False, co_receiptsDir = None, co_receiptKeysFile = None\<rparr>"

text \<open>The options without a value, those with one, and how each is set.\<close>

definition switches :: "(bytes \<times> (cli_options \<Rightarrow> cli_options)) list" where
  "switches =
     [(lit ''--skip-anchors'', co_skipAnchors_update (\<lambda>_. True)), (lit ''--consistency'', co_consistency_update (\<lambda>_. True)),
      (lit ''--json'', co_jsonMode_update (\<lambda>_. True)), (lit ''--quiet'', co_quiet_update (\<lambda>_. True)),
      (lit ''--print-hashes'', co_printHashes_update (\<lambda>_. True)), (lit ''--reconcile'', co_reconcile_update (\<lambda>_. True)),
      (lit ''--help'', co_showHelp_update (\<lambda>_. True)), (lit ''-h'', co_showHelp_update (\<lambda>_. True))]"

definition setters :: "(bytes \<times> (bytes \<Rightarrow> cli_options \<Rightarrow> cli_options)) list" where
  "setters =
     [(lit ''--root'', \<lambda>v. co_recordedRoot_update (\<lambda>_. Some (lower v))),
      (lit ''--size'', \<lambda>v. co_recordedSize_update (\<lambda>_. Some (StringToInt v))),
      (lit ''--keys'', \<lambda>v. co_keysFile_update (\<lambda>_. Some v)),
      (lit ''--tsa-roots'', \<lambda>v. co_tsaRootsFile_update (\<lambda>_. Some v)),
      (lit ''--receipt'', \<lambda>v. co_receiptFile_update (\<lambda>_. Some v)),
      (lit ''--receipts'', \<lambda>v. co_receiptsDir_update (\<lambda>_. Some v)),
      (lit ''--receipt-keys'', \<lambda>v. co_receiptKeysFile_update (\<lambda>_. Some v))]"

definition inline_setter :: "bytes \<Rightarrow> (cli_options \<Rightarrow> cli_options) option" where
  "inline_setter a =
     map_option (\<lambda>(name, f). f (drop (length name + 1) a)) (find (\<lambda>(name, f). has_prefix a (name @ [61])) setters)"

definition add_target :: "bytes \<Rightarrow> cli_options \<Rightarrow> cli_options" where
  "add_target a o' = o'\<lparr>co_targets := co_targets o' @ [a]\<rparr>"

text \<open>The options, and the first unknown one, where the parsing stops.\<close>

function parse_args :: "bytes list \<Rightarrow> cli_options \<Rightarrow> cli_options \<times> bytes option" where
  "parse_args [] o' = (o', None)"
| "parse_args (a # rest) o' =
     (case map_of switches a of
        Some f \<Rightarrow> parse_args rest (f o')
      | None \<Rightarrow>
          (case map_of setters a of
             Some f \<Rightarrow> parse_args (tl rest) (f (case rest of [] \<Rightarrow> [] | v # _ \<Rightarrow> v) o')
           | None \<Rightarrow>
               (case inline_setter a of
                  Some f \<Rightarrow> parse_args rest (f o')
                | None \<Rightarrow>
                    if has_prefix a (lit ''--'') then (o', Some a) else parse_args rest (add_target a o'))))"
  by pat_completeness auto
termination
  by (relation "measure (\<lambda>(args, o'). length args)") (auto simp: less_Suc_eq_le)

subsection \<open>Modes\<close>

datatype cli_mode =
  Mode_receipt bytes "bytes list"
| Mode_reconcile bytes bytes "bytes option"
| Mode_bundle bytes
| Mode_pair bytes bytes
| Mode_recorded bytes bytes int

definition invalid_combination :: bytes where
  "invalid_combination = lit ''invalid combination of arguments''"

definition consistency_mode :: "cli_options \<Rightarrow> bytes + cli_mode" where
  "consistency_mode o' =
     (case (co_targets o', co_recordedRoot o', co_recordedSize o') of
        ([a, b], None, None) \<Rightarrow> Inr (Mode_pair a b)
      | ([a], Some r, Some n) \<Rightarrow> Inr (Mode_recorded a r n)
      | _ \<Rightarrow> Inl invalid_combination)"

definition select_mode :: "cli_options \<Rightarrow> bytes + cli_mode" where
  "select_mode o' =
     (case co_receiptFile o' of
        Some f \<Rightarrow>
          if \<not> co_reconcile o' \<and> \<not> co_consistency o' \<and> length (co_targets o') \<le> 2
          then Inr (Mode_receipt f (co_targets o')) else Inl invalid_combination
      | None \<Rightarrow>
          if co_reconcile o'
          then (case co_targets o' of
                  [a, b] \<Rightarrow> if \<not> co_consistency o' then Inr (Mode_reconcile a b (co_receiptsDir o')) else Inl invalid_combination
                | _ \<Rightarrow> Inl invalid_combination)
          else if \<not> co_consistency o'
          then (case co_targets o' of
                  [a] \<Rightarrow> Inr (Mode_bundle a) | _ \<Rightarrow> Inl (lit ''expected exactly one bundle argument''))
          else consistency_mode o')"

definition run_mode :: "env \<Rightarrow> options \<Rightarrow> cli_mode \<Rightarrow> verdict option" where
  "run_mode e opts m =
     (case m of
        Mode_receipt f ts \<Rightarrow> Receipt e f ts opts
      | Mode_reconcile a b d \<Rightarrow> Reconcile e a b d opts
      | Mode_bundle a \<Rightarrow> Bundle e a opts
      | Mode_pair a b \<Rightarrow> ConsistencyBundles e a b opts
      | Mode_recorded a r n \<Rightarrow> ConsistencyRecorded e a r n opts)"

subsection \<open>The files the options name\<close>

definition load_keys :: "env \<Rightarrow> cli_options \<Rightarrow> options \<Rightarrow> bytes + options" where
  "load_keys e o' opts =
     (case co_keysFile o' of
        None \<Rightarrow> Inr opts
      | Some f \<Rightarrow>
          (case LoadKeyFile f (env_regular e f) of
             Inl m \<Rightarrow> Inl m
           | Inr ks \<Rightarrow> Inr (opts\<lparr>opt_Keys := Some ks, opt_KeysSource := lit ''--keys '' @ f\<rparr>)))"

definition load_receipt_keys :: "env \<Rightarrow> cli_options \<Rightarrow> options \<Rightarrow> bytes + options" where
  "load_receipt_keys e o' opts =
     (case co_receiptKeysFile o' of
        None \<Rightarrow> Inr opts
      | Some f \<Rightarrow>
          (case LoadReceiptKeyFile f (env_regular e f) of
             Inl m \<Rightarrow> Inl m
           | Inr ks \<Rightarrow> Inr (opts\<lparr>opt_ReceiptKeys := Some ks, opt_ReceiptKeysSource := lit ''--receipt-keys '' @ f\<rparr>)))"

definition load_tsa_roots :: "env \<Rightarrow> cli_options \<Rightarrow> options \<Rightarrow> bytes + options" where
  "load_tsa_roots e o' opts =
     (case co_tsaRootsFile o' of
        None \<Rightarrow> Inr opts
      | Some f \<Rightarrow>
          (case env_regular e f of
             None \<Rightarrow> Inl (lit ''--tsa-roots file ['' @ f @ lit ''] does not exist'')
           | Some pem \<Rightarrow> Inr (opts\<lparr>opt_TSARoots := Some pem, opt_TSARootsSource := lit ''--tsa-roots '' @ f\<rparr>)))"

definition cli_base :: "cli_options \<Rightarrow> options" where
  "cli_base o' =
     \<lparr>opt_Keys = None, opt_KeysSource = [], opt_TSARoots = None, opt_TSARootsSource = [], opt_ReceiptKeys = None,
      opt_ReceiptKeysSource = [], opt_SkipAnchors = co_skipAnchors o', opt_PrintHashes = co_printHashes o'\<rparr>"

definition load_options :: "env \<Rightarrow> cli_options \<Rightarrow> bytes + options" where
  "load_options e o' =
     (case load_keys e o' (cli_base o') of
        Inl m \<Rightarrow> Inl m
      | Inr o1 \<Rightarrow> (case load_receipt_keys e o' o1 of Inl m \<Rightarrow> Inl m | Inr o2 \<Rightarrow> load_tsa_roots e o' o2))"

subsection \<open>The report for a person\<close>

definition nl :: bytes where
  "nl = [10]"

definition reasonText :: "bytes option \<Rightarrow> bytes" where
  "reasonText r = (case r of None \<Rightarrow> lit ''a bundle check'' | Some s \<Rightarrow> s)"

definition orDash :: "bytes option \<Rightarrow> bytes" where
  "orDash s = (case s of None \<Rightarrow> lit ''-'' | Some t \<Rightarrow> t)"

definition upper :: "bytes \<Rightarrow> bytes" where
  "upper s = map (\<lambda>c. if 97 \<le> c \<and> c \<le> 122 then c - 32 else c) s"

definition spaced :: "bytes \<Rightarrow> bytes" where
  "spaced s = map (\<lambda>c. if c = 95 then 32 else c) s"

definition problems_text :: "verdict \<Rightarrow> bytes" where
  "problems_text v = int_text (int (length (vd_Failures v)))"

definition human_bundle_verdict :: "verdict \<Rightarrow> bytes" where
  "human_bundle_verdict v =
     (if vd_ExitCode v = ExitFail
      then lit ''FAIL: '' @ problems_text v @ lit '' problem(s) found. This bundle does NOT verify.'' @ nl
      else if vd_ExitCode v = ExitUnconfirmed
      then lit ''UNCONFIRMED: the maths holds and nothing here has been altered, but this bundle's'' @ nl @
        lit ''origin is not established (see the results below). It is not evidence of tampering,'' @ nl @
        lit ''and it is not a pass.'' @ nl
      else lit ''PASS: every result that was checked holds.'' @ nl)"

definition human_receipt_verdict :: "verdict \<Rightarrow> bytes" where
  "human_receipt_verdict v =
     (if vd_ExitCode v = ExitFail
      then lit ''FAIL: '' @ problems_text v @ lit '' problem(s) found, the first being '' @ reasonText (vd_Reason v) @
        lit ''. This receipt does NOT hold.'' @ nl
      else if vd_ExitCode v = ExitUnconfirmed
      then lit ''UNCONFIRMED: nothing here contradicts the receipt, but whose signature it carries is not established ('' @
        reasonText (vd_Reason v) @ lit '').'' @ nl
      else if (case vd_Receipt v of None \<Rightarrow> False | Some s \<Rightarrow> rs_Subject s = lit ''checked'')
      then lit ''PASS: this receipt is the signed statement of Sigilbase, and the records it names say the same.'' @ nl
      else lit ''PASS: this receipt is the signed statement of Sigilbase.'' @ nl)"

definition human_reconcile_verdict :: "verdict \<Rightarrow> bytes" where
  "human_reconcile_verdict v =
     (if vd_ExitCode v = ExitFail
      then lit ''FAIL: '' @ problems_text v @ lit '' problem(s) found, the first rule broken being '' @ reasonText (vd_Reason v) @
        lit ''. The registry does NOT account for every request.'' @ nl
      else if vd_ExitCode v = ExitUnconfirmed
      then lit ''UNCONFIRMED: no rule is broken, but not every check could be made (an unknown signing key, or a record past the other bundle's range) - see the results below.'' @ nl
      else lit ''PASS: every decision the log records is accounted for, every acceptance is a registry event and the reverse, and every receipt checked is logged.'' @ nl) @
     lit ''No one can show a request that never reached Sigilbase: this proves what was received, not what was sent.'' @ nl"

definition human_consistency_verdict :: "verdict \<Rightarrow> bytes" where
  "human_consistency_verdict v =
     (if vd_ExitCode v = ExitFail
      then lit ''FAIL: '' @ problems_text v @ lit '' problem(s) found. Consistency does NOT hold.'' @ nl
      else if vd_Mode v = lit ''consistency-bundles''
      then VerdictWord (vd_ExitCode v) @ lit '': the new bundle is an append-only extension of the old bundle.'' @ nl @
        lit ''Nothing recorded in the old export was modified, deleted, or reordered in the new one.'' @ nl
      else VerdictWord (vd_ExitCode v) @ lit '': this bundle is an append-only extension of the recorded state.'' @ nl)"

definition human_verdict :: "verdict \<Rightarrow> bytes" where
  "human_verdict v =
     (if vd_Mode v = lit ''verify'' then human_bundle_verdict v
      else if vd_Mode v = lit ''receipt'' then human_receipt_verdict v
      else if vd_Mode v = lit ''reconcile'' then human_reconcile_verdict v
      else human_consistency_verdict v)"

definition human_mode :: "verdict \<Rightarrow> bytes" where
  "human_mode v =
     nl @ lit ''Sigilbase evidence verifier '' @ vd_VerifierName v @ lit '' v'' @ vd_VerifierVersion v @ nl @
     (if vd_Mode v = lit ''verify''
      then lit ''Bundle: '' @ (case vd_Bundle v of None \<Rightarrow> [] | Some b \<Rightarrow> bi_Path b) @ nl
      else if vd_Mode v = lit ''consistency-bundles'' then lit ''Mode:   consistency between two bundles'' @ nl
      else if vd_Mode v = lit ''consistency-recorded-root'' then lit ''Mode:   consistency against a recorded root'' @ nl
      else if vd_Mode v = lit ''receipt''
      then lit ''Mode:   receipt'' @ nl @ lit ''Receipt: '' @ vd_ReceiptPath v @ nl @
        lit ''Receipt keys: '' @ vd_ReceiptKeysSource v @ nl
      else if vd_Mode v = lit ''reconcile''
      then lit ''Mode:   reconcile a registry with its decision log'' @ nl @
        lit ''Receipt keys: '' @ vd_ReceiptKeysSource v @ nl
      else []) @ nl"

fun kind_text :: "log_kind \<Rightarrow> bytes" where
  "kind_text Log_fail = lit ''fail''"
| "kind_text Log_unconfirmed = lit ''unconfirmed''"
| "kind_text Log_note = lit ''note''"
| "kind_text Log_info = lit ''info''"
| "kind_text Log_hard = lit ''hard''"

definition flagged :: "log_kind \<Rightarrow> bool" where
  "flagged k \<longleftrightarrow> k = Log_fail \<or> k = Log_unconfirmed \<or> k = Log_note"

definition flagged_line :: "log_kind \<times> bytes \<Rightarrow> bytes" where
  "flagged_line l = lit ''  '' @ upper (kind_text (fst l)) @ lit '' '' @ snd l @ nl"

definition human_log :: "verdict \<Rightarrow> bytes" where
  "human_log v =
     concat (map (\<lambda>l. if fst l = Log_info then snd l @ nl else if flagged (fst l) then flagged_line l else []) (vd_Log v))"

definition human_collection :: "collection_summary option \<Rightarrow> bytes" where
  "human_collection c =
     (case c of
        None \<Rightarrow> []
      | Some s \<Rightarrow> lit ''Collection records: '' @ int_text (sm_Receipts s) @ lit '' receipt(s) chained on '' @
          int_text (sm_Streams s) @ lit '' stream(s), '' @ int_text (sm_Gaps s) @ lit '' gap(s) declared, '' @
          int_text (sm_Settlements s) @ lit '' settlement record(s); every link inside the range holds.'' @ nl)"

definition human_bundle :: "verdict \<Rightarrow> bytes" where
  "human_bundle v =
     (case vd_Bundle v of
        None \<Rightarrow> []
      | Some b \<Rightarrow>
          if vd_Mode v = lit ''verify'' \<and> vd_ExitCode v \<noteq> ExitFail
          then nl @ int_text (bi_Events b) @ lit '' events and '' @ int_text (bi_Checkpoints b) @
            lit '' checkpoints verified for stream '' @ bi_Stream b @ lit '' ('' @ int_text (bi_from b) @ lit ''..'' @
            int_text (bi_to b) @ lit '').'' @ nl @
            lit ''No event has been modified, deleted, or reordered, and every checkpoint signature is genuine.'' @ nl @
            human_collection (bi_Collection b) @
            (if bi_RedactedEvents b > 0
             then lit ''Redactions: '' @ int_text (bi_RedactedEvents b) @
               lit '' payload(s) were destroyed by the tenant, each named by an authenticated declaration in this bundle; their hashes are preserved and the chain is intact.'' @ nl
             else [])
          else [])"

definition human_receipt :: "verdict \<Rightarrow> bytes" where
  "human_receipt v =
     (case vd_Receipt v of
        None \<Rightarrow> []
      | Some s \<Rightarrow>
          if vd_Mode v = lit ''receipt''
          then nl @ lit ''Receipt: outcome '' @ orDash (rs_Outcome s) @ lit '', stream '' @ orDash (rs_Stream s) @
            lit '', received '' @ orDash (rs_ReceivedAt s) @ lit '', seal by '' @ orDash (rs_SealBy s) @
            lit ''; records named: '' @ spaced (rs_Subject s) @ lit ''.'' @ nl
          else [])"

definition human_counts :: "verdict \<Rightarrow> bytes" where
  "human_counts v =
     (case vd_Counts v of
        None \<Rightarrow> []
      | Some c \<Rightarrow>
          if vd_Mode v = lit ''reconcile''
          then nl @ lit ''Decisions: '' @ int_text (rc_Decisions c) @
            concat (map (\<lambda>(k, n). lit ''  '' @ k @ lit '' '' @ int_text n) (rc_Outcomes c)) @ nl @
            concat (map (\<lambda>(cred, m). lit ''  credential '' @ cred @ lit '':'' @
              concat (map (\<lambda>(k, n). lit '' '' @ k @ lit '' '' @ int_text n) m) @ nl) (rc_Credentials c)) @
            lit ''Receipts checked: '' @ int_text (vd_ReceiptsChecked v) @ nl
          else [])"

fun result_label :: "result_name \<Rightarrow> bytes" where
  "result_label ResultContent = lit ''Content integrity''"
| "result_label ResultIdentity = lit ''Signing identity''"
| "result_label ResultTimestamps = lit ''Timestamps''"
| "result_label ResultScope = lit ''Scope''"
| "result_label ResultRedactions = lit ''Redactions''"

definition pad_right :: "nat \<Rightarrow> bytes \<Rightarrow> bytes" where
  "pad_right n s = s @ replicate (n - length s) 32"

definition human_results :: "verdict \<Rightarrow> bytes" where
  "human_results v =
     nl @ concat (map (\<lambda>k. lit ''  '' @ pad_right 18 (result_label k) @ lit '' '' @
       upper (spaced (state_text (vd_Results v k))) @ nl) resultOrder)"

definition human_keys :: "verdict \<Rightarrow> bytes" where
  "human_keys v =
     (if vd_SigningKeys v = [] then []
      else nl @ lit ''Signing keys used:'' @ nl @
        concat (map (\<lambda>(f, s). lit ''  '' @ f @ lit ''  trust: '' @ s @ nl) (vd_SigningKeys v)))"

definition human_state :: "verdict \<Rightarrow> bytes" where
  "human_state v =
     (case vd_ConsistencyState v of
        None \<Rightarrow> []
      | Some t \<Rightarrow> nl @ lit ''Consistency state: tree_size='' @ int_text (ts_size t) @ lit '' root='' @ ts_root t @ nl @
          lit ''Record these two values: a future export can prove it extends this one (--consistency).'' @ nl)"

definition human_identity :: "verdict \<Rightarrow> bytes" where
  "human_identity v =
     nl @ lit ''Verifier: '' @ vd_VerifierName v @ lit '' v'' @ vd_VerifierVersion v @ lit '' sha256 '' @
     vd_VerifierSHA256 v @ nl @
     (if vd_PrintHashes v
      then concat (map (\<lambda>(p, h). lit ''Bundle sha256:  '' @
        (case h of None \<Rightarrow> lit ''(directory, not hashed)'' | Some x \<Rightarrow> x) @ lit ''  '' @ p @ nl) (vd_BundleSHA256 v))
      else [])"

definition Human :: "verdict \<Rightarrow> bytes" where
  "Human v =
     human_verdict v @ human_mode v @ human_log v @ human_bundle v @ human_receipt v @ human_counts v @
     human_results v @ human_keys v @ human_state v @ human_identity v"

subsection \<open>What is written, and the exit code\<close>

record cli_output =
  out_code :: nat
  out_stdout :: bytes
  out_stderr :: bytes

definition emit :: "cli_options \<Rightarrow> verdict \<Rightarrow> cli_output" where
  "emit o' v =
     (if co_quiet o' then \<lparr>out_code = vd_ExitCode v, out_stdout = [], out_stderr = []\<rparr>
      else if co_jsonMode o' then \<lparr>out_code = vd_ExitCode v, out_stdout = Report_JSON v, out_stderr = []\<rparr>
      else if vd_Hard v
      then \<lparr>out_code = vd_ExitCode v, out_stdout = [],
            out_stderr = VerdictWord (vd_ExitCode v) @ lit '': '' @ vd_Message v @ nl @
              concat (map flagged_line (filter (\<lambda>l. flagged (fst l)) (vd_Log v)))\<rparr>
      else \<lparr>out_code = vd_ExitCode v, out_stdout = Human v, out_stderr = []\<rparr>)"

definition hard_report :: "env \<Rightarrow> bytes \<Rightarrow> nat \<Rightarrow> verdict" where
  "hard_report e message code =
     (newReport e (cli_base no_cli_options) [] [])\<lparr>vd_VerifierSHA256 := [], vd_Hard := True, vd_Result := lit ''error'',
        vd_ExitCode := code, vd_Message := message\<rparr>"

definition failHard :: "env \<Rightarrow> cli_options \<Rightarrow> bytes \<Rightarrow> nat \<Rightarrow> cli_output" where
  "failHard e o' message code = emit o' (hard_report e message code)"

text \<open>A failure after the usage has been shown, unless the output is for a machine.\<close>

definition fail_usage :: "env \<Rightarrow> bytes \<Rightarrow> cli_options \<Rightarrow> bytes \<Rightarrow> cli_output" where
  "fail_usage e usage o' message =
     (let out = failHard e o' message ExitError
      in if \<not> co_quiet o' \<and> \<not> co_jsonMode o' then out\<lparr>out_stderr := usage @ out_stderr out\<rparr> else out)"

definition run_command :: "env \<Rightarrow> bytes \<Rightarrow> bytes list \<Rightarrow> cli_output option" where
  "run_command e usage args =
     (case parse_args args no_cli_options of
        (o', Some unknown) \<Rightarrow> Some (failHard e o' (lit ''unknown option ['' @ unknown @ lit '']'') ExitError)
      | (o', None) \<Rightarrow>
          if co_showHelp o' then Some \<lparr>out_code = ExitPass, out_stdout = usage, out_stderr = []\<rparr>
          else case load_options e o' of
            Inl message \<Rightarrow> Some (failHard e o' message ExitError)
          | Inr opts \<Rightarrow>
              (case select_mode o' of
                 Inl message \<Rightarrow> Some (fail_usage e usage o' message)
               | Inr m \<Rightarrow> map_option (emit o') (run_mode e opts m)))"

end
