(* ===== verification/Command_Facts.thy ===== *)
theory Command_Facts
  imports Command
begin

text \<open>
  What the command promises: its exit codes, what it writes, its first word, and that exit code 0 of a
  verification is the soundness of its mode.
\<close>

subsection \<open>Exit codes\<close>

definition exit_codes :: "nat set" where
  "exit_codes = {ExitPass, ExitFail, ExitError, ExitUnconfirmed}"

lemma exit_code_known: "exitCode rs \<in> exit_codes"
  using exitCode_cases(3) [of rs] by (auto simp: exit_codes_def)

lemma conclude_code:
  assumes "conclude rep r m f = Some v" "ends p m" "\<And>x r'. vd_ExitCode (f x r') = exitCode (results r')"
  shows "vd_ExitCode v \<in> exit_codes"
proof -
  from assms(1) obtain res r' where m: "m r = Some (res, r')"
    "v = (case res of Inl herr \<Rightarrow> finishHard r' rep herr | Inr x \<Rightarrow> f x r')" by (auto simp: conclude_def)
  show ?thesis
  proof (cases res)
    case (Inl err)
    then show ?thesis using m ends_error [OF assms(2), of r err r']
      by (auto simp: finishHard_def error_code_def exit_codes_def)
  next
    case (Inr x)
    then show ?thesis using m assms(3) exit_code_known by simp
  qed
qed

lemma run_mode_code:
  assumes "run_mode e opts m = Some v"
  shows "vd_ExitCode v \<in> exit_codes"
proof (cases m)
  case (Mode_receipt f ts)
  with assms have "Receipt e f ts opts = Some v" by (simp add: run_mode_def)
  from conclude_code [OF this [unfolded Receipt_def Let_def] ends_receipt_run [where p = False]] show ?thesis
    by (auto simp: finish_def split: prod.split)
next
  case (Mode_reconcile a b d)
  with assms have "Reconcile e a b d opts = Some v" by (simp add: run_mode_def)
  from conclude_code [OF this [unfolded Reconcile_def Let_def] ends_reconcile_run [where p = False]] show ?thesis
    by (auto simp: finish_def split: prod.split)
next
  case (Mode_bundle a)
  with assms have "Bundle e a opts = Some v" by (simp add: run_mode_def)
  from conclude_code [OF this [unfolded Bundle_def Let_def] ends_one_bundle] show ?thesis
    by (auto simp: finish_def)
next
  case (Mode_pair a b)
  with assms have "ConsistencyBundles e a b opts = Some v" by (simp add: run_mode_def)
  from conclude_code [OF this [unfolded ConsistencyBundles_def Let_def] ends_both_bundles] show ?thesis
    by (auto simp: finish_def split: prod.split)
next
  case (Mode_recorded a r n)
  with assms have "ConsistencyRecorded e a r n opts = Some v" by (simp add: run_mode_def)
  from conclude_code [OF this [unfolded ConsistencyRecorded_def Let_def] ends_recorded] show ?thesis
    by (auto simp: finish_def)
qed

text \<open>The exit code is the report's, however it is written.\<close>

lemma emit_code [simp]: "out_code (emit o' v) = vd_ExitCode v"
  by (simp add: emit_def)

lemma failHard_code [simp]: "out_code (failHard e o' message code) = code"
  by (simp add: failHard_def hard_report_def)

lemma fail_usage_code [simp]: "out_code (fail_usage e usage o' message) = ExitError"
  by (simp add: fail_usage_def Let_def)

text \<open>How a run of the command ends: an error in its arguments or files, the usage, or a verification.\<close>

lemma run_command_cases:
  assumes "run_command e usage args = Some out"
  obtains (error) "out_code out = ExitError"
  | (usage_shown) o' where "parse_args args no_cli_options = (o', None)" "co_showHelp o'"
      "out = \<lparr>out_code = ExitPass, out_stdout = usage, out_stderr = []\<rparr>"
  | (verified) o' opts m v where "parse_args args no_cli_options = (o', None)" "\<not> co_showHelp o'"
      "load_options e o' = Inr opts" "select_mode o' = Inr m" "run_mode e opts m = Some v" "out = emit o' v"
  using assms unfolding run_command_def
  by (auto split: prod.splits option.splits if_splits sum.splits)

lemma run_command_code: "run_command e usage args = Some out \<Longrightarrow> out_code out \<in> exit_codes"
  by (erule run_command_cases) (auto simp: exit_codes_def dest: run_mode_code [unfolded exit_codes_def])

text \<open>The command returns in every mode but the consistency of two bundles, whose plan may not end.\<close>

lemma run_mode_returns: "\<forall>a b. m \<noteq> Mode_pair a b \<Longrightarrow> \<exists>v. run_mode e opts m = Some v"
  using Receipt_returns Reconcile_returns Bundle_returns ConsistencyRecorded_returns
  by (cases m) (auto simp: run_mode_def)

lemma run_command_returns:
  assumes "\<forall>a b. select_mode (fst (parse_args args no_cli_options)) \<noteq> Inr (Mode_pair a b)"
  shows "\<exists>out. run_command e usage args = Some out"
proof -
  have "\<exists>v. run_mode e opts m = Some v" if "select_mode (fst (parse_args args no_cli_options)) = Inr m" for opts m
    using assms that run_mode_returns by metis
  then show ?thesis unfolding run_command_def by (auto split: prod.split option.split sum.split)
qed

subsection \<open>What is written\<close>

lemma quiet_writes_nothing:
  assumes "run_command e usage args = Some out" "parse_args args no_cli_options = (o', u)" "co_quiet o'"
    and "u \<noteq> None \<or> \<not> co_showHelp o'"
  shows "out_stdout out = [] \<and> out_stderr out = []"
  using assms unfolding run_command_def
  by (auto simp: failHard_def fail_usage_def emit_def Let_def split: option.splits if_splits sum.splits)

lemma machine_output:
  assumes "co_jsonMode o'" "\<not> co_quiet o'"
  shows "out_stdout (emit o' v) = Report_JSON v" "out_stderr (emit o' v) = []"
  using assms by (simp_all add: emit_def)

text \<open>The first word of the report for a person is the verdict.\<close>

lemma Human_first_word:
  assumes "vd_ExitCode v \<in> {ExitPass, ExitFail, ExitUnconfirmed}"
  shows "prefix (VerdictWord (vd_ExitCode v) @ lit '':'') (Human v)"
proof -
  have "\<exists>rest. human_verdict v = VerdictWord (vd_ExitCode v) @ lit '':'' @ rest"
    using assms
    by (auto simp: human_verdict_def human_bundle_verdict_def human_receipt_verdict_def human_reconcile_verdict_def
        human_consistency_verdict_def VerdictWord_def ExitPass_def ExitFail_def ExitUnconfirmed_def lit_def)
  then show ?thesis by (auto simp: Human_def)
qed

subsection \<open>Exit code 0\<close>

text \<open>
  What a mode with exit code 0 says of the files and of its report \<open>v\<close>. The log of a reconciliation is read as
  the code reads it.
\<close>

definition mode_holds :: "env \<Rightarrow> options \<Rightarrow> cli_mode \<Rightarrow> verdict \<Rightarrow> bool" where
  "mode_holds e opts m v =
     (case m of
        Mode_bundle t \<Rightarrow> \<exists>b mf. bundle_at e t b mf \<and> proven e opts mf b
      | Mode_recorded t recorded n \<Rightarrow>
          \<exists>b mf. bundle_at e t b mf \<and> proven e opts mf b \<and> mf_from mf = 1 \<and> 1 \<le> n \<and> n \<le> mf_to mf \<and>
            lower recorded = hex_text (prefix_root b n)
      | Mode_pair old new \<Rightarrow>
          \<exists>bo mo bn mn. bundle_at e old bo mo \<and> bundle_at e new bn mn \<and> proven e opts mo bo \<and> proven e opts mn bn \<and>
            mf_stream mo = mf_stream mn \<and> mf_from mo = 1 \<and> mf_from mn = 1 \<and> mf_to mo \<le> mf_to mn \<and>
            prefix_root bo (mf_to mo) = prefix_root bn (mf_to mo)
      | Mode_receipt path ts \<Rightarrow>
          (\<forall>t \<in> set ts. \<exists>b mf. bundle_at e t b mf \<and> proven e opts mf b) \<and>
          (\<exists>d subj vs. receipt_at e path d \<and>
             genuine (cr_ed (env_crypto e)) (trusted_receipt_keys e opts) (rd_body d) (rd_signature d) \<and>
             vd_Receipt v = Some (summary_of (rd_body d) subj) \<and>
             (subj = lit ''checked'' \<longrightarrow> views_ok e opts ts (Field (rd_body d) (lit ''stream'')) vs \<and>
                subject_holds (rd_body d) (rv_stream vs) (rv_log vs)))
      | Mode_reconcile registry log' dir \<Rightarrow>
          \<exists>b mf b' mf' rv lv. bundle_at e registry b mf \<and> proven e opts mf b \<and> reads_back mf b rv \<and>
            bundle_at e log' b' mf' \<and> proven e opts mf' b' \<and> reads_back mf' b' lv \<and>
            (let read' = fst (readRegistryLog lv (sort (vb_order lv)) (newRun (env_embedded e) opts))
             in reconciled e (trusted_receipt_keys e opts) rv lv read' (receipts_given e dir) \<and>
                vd_Counts v = Some (rl_counts read')))"

lemma run_mode_pass:
  assumes "run_mode e opts m = Some v" "vd_ExitCode v = ExitPass"
  shows "mode_holds e opts m v"
proof (cases m)
  case (Mode_receipt f ts)
  with assms Receipt_pass [of e f ts opts v] show ?thesis by (simp add: run_mode_def mode_holds_def) blast
next
  case (Mode_reconcile a b d)
  with assms Reconcile_pass [of e a b d opts v "newRun (env_embedded e) opts"] show ?thesis
    by (simp add: run_mode_def mode_holds_def Let_def)
next
  case (Mode_bundle a)
  with assms Bundle_pass [of e a opts v] show ?thesis by (auto simp: run_mode_def mode_holds_def)
next
  case (Mode_pair a b)
  with assms ConsistencyBundles_pass [of e a b opts v] show ?thesis by (simp add: run_mode_def mode_holds_def)
next
  case (Mode_recorded a r n)
  with assms ConsistencyRecorded_pass [of e a r n opts v] show ?thesis by (simp add: run_mode_def mode_holds_def)
qed

lemma run_command_pass:
  assumes "run_command e usage args = Some out" "out_code out = ExitPass"
    and "parse_args args no_cli_options = (o', None)" "\<not> co_showHelp o'"
  shows "\<exists>opts m v. load_options e o' = Inr opts \<and> select_mode o' = Inr m \<and> out = emit o' v \<and> mode_holds e opts m v"
  using assms(1)
proof (cases rule: run_command_cases)
  case error
  then show ?thesis using assms(2) by (simp add: ExitPass_def ExitError_def)
next
  case (usage_shown o2)
  then show ?thesis using assms(3,4) by simp
next
  case (verified o2 opts m v)
  then show ?thesis using assms run_mode_pass [of e opts m v] by auto
qed

end
