(* ===== verification/Sample_Registry.thy ===== *)
theory Sample_Registry
  imports Command_Facts
begin

text \<open>
  A registry of one event, its decision log of four records and the receipt of the acceptance: the inputs at
  which the theorems on the receipt and reconcile modes are applied.
\<close>

subsection \<open>The registry\<close>

definition time0 :: bytes where "time0 = lit ''2024-01-01T00:00:00Z''"
definition time1 :: bytes where "time1 = lit ''2024-01-01T00:00:10Z''"
definition time2 :: bytes where "time2 = lit ''2024-01-02T00:00:00Z''"
definition time3 :: bytes where "time3 = lit ''2024-03-01T00:00:00Z''"

definition public_id :: bytes where "public_id = lit ''s''"

definition manifest_of :: "(bytes \<times> json) list \<Rightarrow> int \<Rightarrow> json \<Rightarrow> json" where
  "manifest_of pre n stream = JObject
     (pre @ [(lit ''format'', JString (lit ''sigilbase-evidence/1'')),
       (lit ''range'', JObject [(lit ''from'', JInt 1), (lit ''to'', JInt n)]),
       (lit ''signing_keys'', JArray [JObject [(lit ''public_key'', JString sample_key)]]),
       (lit ''stream'', stream)])"

definition registry_stream :: bytes where "registry_stream = lit ''r''"

definition registry_content :: event_content where
  "registry_content = (lit ''x'', time1, JInt 7)"

definition registry_md :: json where
  "registry_md = manifest_of [] 1 (JObject [(lit ''id'', JString registry_stream), (lit ''public_id'', JString public_id)])"

definition registry_files :: reader where
  "registry_files = sealed_files registry_md registry_stream [registry_content]"

definition registry_event :: json where
  "registry_event = sealed_event registry_stream registry_content 1 zeroHash"

definition registry_hash :: bytes where
  "registry_hash = sha256Hex (sealed_entry registry_stream registry_content 1 zeroHash)"

definition registry_digest :: bytes where
  "registry_digest = requestDigest (Some registry_event) (Some (lit ''k''))"

subsection \<open>The decision log\<close>

definition window_doc :: json where
  "window_doc = JObject [(lit ''close_at'', JString time3), (lit ''key'', JString (lit ''k'')), (lit ''open_at'', JString time0)]"

definition rules_doc :: json where
  "rules_doc = JObject [(lit ''msd_seconds'', JInt 900), (lit ''registry'', JString public_id)]"

definition rules_hash :: bytes where
  "rules_hash = lit ''sha256:'' @ sha256Hex (json_bytes (full_policy (Some rules_doc) [window_doc]))"

definition committed_doc :: json where
  "committed_doc = JObject [(lit ''effective_at'', JString time0), (lit ''policy'', rules_doc), (lit ''policy_hash'', JString rules_hash),
     (lit ''version'', JInt 1), (lit ''windows'', JObject [(lit ''count'', JInt 1), (lit ''parts'', JInt 1)])]"

definition windows_doc :: json where
  "windows_doc = JObject [(lit ''part'', JInt 1), (lit ''version'', JInt 1), (lit ''windows'', JArray [window_doc])]"

definition issued_doc :: json where
  "issued_doc = JObject [(lit ''credential'', JString (lit ''c''))]"

definition event_named :: json where
  "event_named = JObject [(lit ''entry_hash'', JString registry_hash), (lit ''request_digest'', JString registry_digest),
     (lit ''sequence'', JInt 1)]"

definition accepted_doc :: json where
  "accepted_doc = JObject [(lit ''accepted'', event_named), (lit ''commitment_key'', JString (lit ''k'')),
     (lit ''credential'', JString (lit ''c'')), (lit ''digest_kind'', JString (lit ''canonical'')),
     (lit ''outcome'', JString (lit ''accepted'')), (lit ''policy_hash'', JString rules_hash),
     (lit ''request_digest'', JString registry_digest)]"

definition log_stream :: bytes where "log_stream = lit ''l''"

definition log_contents :: "event_content list" where
  "log_contents =
     [(lit ''policy.committed'', time0, committed_doc), (lit ''policy.windows'', time0, windows_doc),
      (lit ''credential.issued'', time0, issued_doc), (lit ''ingress.accepted'', time1, accepted_doc)]"

definition log_md :: json where
  "log_md = manifest_of [(lit ''decision_log_for'', JObject [(lit ''public_id'', JString public_id)])] 4
     (JObject [(lit ''id'', JString log_stream)])"

definition log_files :: reader where
  "log_files = sealed_files log_md log_stream log_contents"

subsection \<open>The receipt\<close>

definition receipt_key_id :: bytes where
  "receipt_key_id = sha256Hex (replicate 32 2)"

definition receipt_body :: json where
  "receipt_body = JObject [(lit ''accepted'', event_named), (lit ''commitment_key'', JString (lit ''k'')),
     (lit ''credential'', JString (lit ''c'')), (lit ''decision_seq'', JInt 4), (lit ''digest_kind'', JString (lit ''canonical'')),
     (lit ''key_id'', JString receipt_key_id), (lit ''outcome'', JString (lit ''accepted'')), (lit ''policy_hash'', JString rules_hash),
     (lit ''received_at'', JString time1), (lit ''request_digest'', JString registry_digest), (lit ''seal_by'', JString time2),
     (lit ''signed_at'', JString time1), (lit ''stream'', JString public_id), (lit ''tenant'', JString (lit ''t'')),
     (lit ''v'', JString ReceiptVersion)]"

text \<open>64 bytes of the value 3.\<close>

definition receipt_signature :: bytes where
  "receipt_signature = concat (replicate 21 (lit ''AwMD'')) @ lit ''Aw==''"

definition receipt_file :: json where
  "receipt_file = JObject [(lit ''body'', receipt_body), (lit ''signature'', JString receipt_signature)]"

subsection \<open>They are plain documents\<close>

lemma registry_orders [simp]:
  "in_order [lit ''decision_log_for'', lit ''format'', lit ''range'', lit ''signing_keys'', lit ''stream'']"
  "in_order [lit ''public_id'']" "in_order [lit ''id'', lit ''public_id'']"
  "in_order [lit ''close_at'', lit ''key'', lit ''open_at'']" "in_order [lit ''msd_seconds'', lit ''registry'']"
  "in_order [lit ''msd_seconds'', lit ''registry'', lit ''windows'']" "in_order [lit ''count'', lit ''parts'']"
  "in_order [lit ''effective_at'', lit ''policy'', lit ''policy_hash'', lit ''version'', lit ''windows'']"
  "in_order [lit ''part'', lit ''version'', lit ''windows'']" "in_order [lit ''credential'']"
  "in_order [lit ''entry_hash'', lit ''request_digest'', lit ''sequence'']"
  "in_order [lit ''accepted'', lit ''commitment_key'', lit ''credential'', lit ''digest_kind'', lit ''outcome'',
     lit ''policy_hash'', lit ''request_digest'']"
  "in_order [lit ''accepted'', lit ''commitment_key'', lit ''credential'', lit ''decision_seq'', lit ''digest_kind'',
     lit ''key_id'', lit ''outcome'', lit ''policy_hash'', lit ''received_at'', lit ''request_digest'', lit ''seal_by'',
     lit ''signed_at'', lit ''stream'', lit ''tenant'', lit ''v'']"
  "in_order [lit ''body'', lit ''signature'']"
  by (rule ascii_in_order, code_simp)+

lemma registry_texts [simp]:
  "safe_text time0" "safe_text time1" "safe_text time2" "safe_text time3" "safe_text public_id" "safe_text registry_stream"
  "safe_text log_stream" "safe_text (lit ''k'')" "safe_text (lit ''c'')" "safe_text (lit ''t'')" "safe_text (lit ''x'')"
  "safe_text (lit ''accepted'')" "safe_text (lit ''canonical'')" "safe_text ReceiptVersion" "safe_text (lit ''sha256:'')"
  "safe_text (lit ''policy.committed'')" "safe_text (lit ''policy.windows'')" "safe_text (lit ''credential.issued'')"
  "safe_text (lit ''ingress.accepted'')" "safe_text receipt_signature"
  by code_simp+

lemma registry_lengths [simp]:
  "length time0 = 20" "length time1 = 20" "length time2 = 20" "length time3 = 20" "length public_id = 1"
  "length registry_stream = 1" "length log_stream = 1" "length ReceiptVersion = 19" "length receipt_signature = 88"
  by (simp_all add: time0_def time1_def time2_def time3_def public_id_def registry_stream_def log_stream_def
      ReceiptVersion_def receipt_signature_def length_concat sum_list_replicate)

lemma hash_texts [simp]:
  "safe_text registry_hash" "length registry_hash = 64" "safe_text rules_hash" "length rules_hash = 71"
  "safe_text receipt_key_id" "length receipt_key_id = 64"
  by (simp_all add: registry_hash_def rules_hash_def receipt_key_id_def safe_sha)

lemma hex_low: "hexLow64 (sha256Hex x)"
proof -
  have "list_all (\<lambda>c. 48 \<le> c \<and> c \<le> 57 \<or> 97 \<le> c \<and> c \<le> 102) [hex_char n]" if "n < 16" for n
  proof -
    have "n \<in> set [0..<16]" using that by simp
    moreover have "\<forall>n \<in> set [0..<16]. list_all (\<lambda>c. 48 \<le> c \<and> c \<le> 57 \<or> 97 \<le> c \<and> c \<le> 102) [hex_char n]" by code_simp
    ultimately show ?thesis by blast
  qed
  then have "list_all (\<lambda>c. 48 \<le> c \<and> c \<le> 57 \<or> 97 \<le> c \<and> c \<le> 102) (hex_text bs)" for bs
    by (induction bs) (simp_all add: hex_text_def)
  then show ?thesis by (simp add: hexLow64_def sha256Hex_def)
qed

lemma digest_text: "digest_shape (lit ''sha256:'' @ sha256Hex x)"
proof -
  have "length (lit ''sha256:'') = 7" by simp
  then show ?thesis by (simp only: digest_shape_def has_prefix_def append_eq_conv_conj take_append drop_append) (simp add: hex_low)
qed

text \<open>A digest of canonical bytes.\<close>

lemma digest_of_event:
  assumes "safe_text (text_of (Field ev (lit ''occurred_at'')))" "safe_text (text_of (Field ev (lit ''actor'')))"
    and "safe_text (text_of (Field ev (lit ''action'')))" "safe_json (string_or_null (Field ev (lit ''resource'')))"
    and "safe_text (text_of (Field ev (lit ''payload_hash'')))" "safe_text key"
  shows "requestDigest ev (Some key) = lit ''sha256:'' @ sha256Hex (json_bytes (digest_object ev (Some key)))"
proof -
  have "\<forall>k \<in> set [''occurred_at'', ''actor'', ''action'', ''resource'', ''payload_sha256'', ''commitment_key'']. safe_text (lit k)"
    by code_simp
  then have "safe_json (digest_object ev (Some key))" using assms by (simp add: digest_object_def)
  from canon_safe [OF this] show ?thesis by (simp add: requestDigest_def Canonical_def)
qed

lemma registry_digest_eq:
  "registry_digest = lit ''sha256:'' @ sha256Hex (json_bytes (digest_object (Some registry_event) (Some (lit ''k''))))"
  unfolding registry_digest_def
  by (rule digest_of_event) (simp_all add: registry_event_def sealed_event_def registry_content_def string_or_null_def safe_sha)

lemma digest_texts [simp]:
  "safe_text registry_digest" "length registry_digest = 71" "digest_shape registry_digest" "digest_shape rules_hash"
  "hexLow64 registry_hash" "hexLow64 receipt_key_id"
  by (simp_all add: registry_digest_eq safe_sha digest_text rules_hash_def registry_hash_def receipt_key_id_def hex_low del: append_assoc)

lemma plain_docD: "plain_doc n v \<Longrightarrow> safe_json v \<and> canon_sort v = v"
  by (simp add: plain_doc_def)

lemmas nested = safe_json.simps(1,2,3,5) canon_sort.simps(1)

lemma small_docs:
  "plain_doc 200 window_doc" "plain_doc 200 rules_doc" "plain_doc 200 issued_doc" "plain_doc 300 event_named"
  unfolding window_doc_def rules_doc_def issued_doc_def event_named_def
  by (rule plain_object; simp)+

lemmas small_nested = small_docs [THEN plain_docD]

lemma windows_docs: "plain_doc 500 windows_doc"
  unfolding windows_doc_def
  by (rule plain_object; simp del: safe_json.simps(4) canon_sort.simps(2) add: small_nested) (simp_all add: window_doc_def)

lemma committed_docs: "plain_doc 1000 committed_doc"
proof -
  have w: "plain_doc 100 (JObject [(lit ''count'', JInt 1), (lit ''parts'', JInt 1)])" by (rule plain_object; simp)
  show ?thesis unfolding committed_doc_def
    by (rule plain_object; simp del: safe_json.simps(4) canon_sort.simps(2) add: small_nested plain_docD [OF w])
      (simp_all add: rules_doc_def)
qed

lemma accepted_docs: "plain_doc 1000 accepted_doc" "plain_doc 2000 receipt_body"
  unfolding accepted_doc_def receipt_body_def
  by (rule plain_object; simp del: safe_json.simps(4) canon_sort.simps(2) add: small_nested; simp add: event_named_def)+

lemma receipt_docs: "plain_doc 3000 receipt_file"
proof -
  have l: "json_len receipt_body \<le> 2000" "json_depth receipt_body \<le> 9" using accepted_docs(2)
    by (simp_all add: plain_doc_def) (simp add: receipt_body_def event_named_def)
  show ?thesis unfolding receipt_file_def
    by (rule plain_object; simp del: safe_json.simps(4) canon_sort.simps(2) add: plain_docD [OF accepted_docs(2)]) (use l in simp_all)
qed

subsection \<open>They are sealed bundles\<close>

lemma registry_fits: "fitting registry_stream [registry_content]" "manifest_fits registry_md registry_stream [registry_content]"
proof -
  show "fitting registry_stream [registry_content]"
    by (simp add: fitting_def content_ok_def registry_content_def plain_doc_def)
  have st: "plain_doc 100 (JObject [(lit ''id'', JString registry_stream), (lit ''public_id'', JString public_id)])"
    by (rule plain_object; simp)
  have "plain_doc 1000 registry_md"
    unfolding registry_md_def manifest_of_def append_Nil
    by (rule plain_object; simp del: safe_json.simps(4) canon_sort.simps(2) add: signing_key_doc range_doc_sorted plain_docD [OF st])
      (simp_all add: sample_key_def)
  then show "manifest_fits registry_md registry_stream [registry_content]"
    by (simp add: manifest_fits_def) (simp add: registry_md_def manifest_of_def)
qed

lemma log_fits: "fitting log_stream log_contents" "manifest_fits log_md log_stream log_contents"
proof -
  have d: "json_depth windows_doc \<le> 8" "json_depth committed_doc \<le> 8" "json_depth issued_doc \<le> 8" "json_depth accepted_doc \<le> 8"
    by (simp_all add: windows_doc_def committed_doc_def issued_doc_def accepted_doc_def window_doc_def rules_doc_def event_named_def)
  have n: "windows_doc \<noteq> JNull" "committed_doc \<noteq> JNull" "issued_doc \<noteq> JNull" "accepted_doc \<noteq> JNull"
    by (simp_all add: windows_doc_def committed_doc_def issued_doc_def accepted_doc_def)
  have l: "length (lit ''policy.committed'') \<le> 100" "length (lit ''policy.windows'') \<le> 100"
    "length (lit ''credential.issued'') \<le> 100" "length (lit ''ingress.accepted'') \<le> 100" by simp_all
  show "fitting log_stream log_contents"
    using d n l plain_doc_mono [OF windows_docs, of 2000] plain_doc_mono [OF committed_docs, of 2000]
      plain_doc_mono [OF small_docs(3), of 2000] plain_doc_mono [OF accepted_docs(1), of 2000]
    by (simp add: fitting_def content_ok_def log_contents_def)
  have st: "plain_doc 100 (JObject [(lit ''id'', JString log_stream)])" "plain_doc 100 (JObject [(lit ''public_id'', JString public_id)])"
    by (rule plain_object; simp)+
  have "plain_doc 1000 log_md"
    unfolding log_md_def manifest_of_def append_Cons append_Nil
    by (rule plain_object; simp del: safe_json.simps(4) canon_sort.simps(2) add: signing_key_doc range_doc_sorted st [THEN plain_docD])
      (simp_all add: sample_key_def)
  then show "manifest_fits log_md log_stream log_contents"
    by (simp add: manifest_fits_def) (simp add: log_md_def manifest_of_def log_contents_def)
qed

definition registry_manifest :: manifest where
  "registry_manifest = sealed_manifest registry_md registry_stream [registry_content]"

definition log_manifest :: manifest where
  "log_manifest = sealed_manifest log_md log_stream log_contents"

definition scenario_env :: env where
  "scenario_env = sample_env\<lparr>
     env_os := (\<lambda>p. if p = lit ''r'' then Directory registry_files else if p = lit ''l'' then Directory log_files
       else if p = lit ''d'' then Directory Map.empty else Neither),
     env_regular := (\<lambda>p. if p = lit ''d/f.json'' then Some (json_bytes receipt_file) else None),
     env_listing := (\<lambda>p. if p = lit ''d'' then Some [(lit ''f.json'', True)] else None)\<rparr>"

definition scenario_keys :: receipt_keys where
  "scenario_keys = [receipt_key_id \<mapsto> \<lparr>rk_publicKey = sample_key, rk_createdAt = None, rk_retiredAt = None\<rparr>]"

definition scenario_options :: options where
  "scenario_options = sample_options\<lparr>opt_ReceiptKeys := Some scenario_keys\<rparr>"

lemma scenario_ed: "cr_ed (env_crypto scenario_env) = (\<lambda>_ _ _. True)"
  by (simp add: scenario_env_def sample_ed)

lemma scenario_trusted: "trusted_keys scenario_env scenario_options = sample_keys"
  by (simp add: trusted_keys_def newRun_def scenario_options_def sample_options_def sample_keys_def)

lemma scenario_receipt_keys: "trusted_receipt_keys scenario_env scenario_options = scenario_keys"
  by (simp add: trusted_receipt_keys_def newRun_def scenario_options_def)

lemma registry_ok:
  "bundle_at scenario_env (lit ''r'') registry_files registry_manifest"
  "proven scenario_env scenario_options registry_manifest registry_files" "plain registry_manifest registry_files"
proof -
  show "bundle_at scenario_env (lit ''r'') registry_files registry_manifest"
    using sealed_describes [OF registry_fits]
    by (simp add: bundle_at_def scenario_env_def Open_bundle_def registry_files_def registry_manifest_def)
  show "proven scenario_env scenario_options registry_manifest registry_files"
    unfolding registry_manifest_def registry_files_def by (rule sealed_proven [OF registry_fits scenario_ed scenario_trusted])
  show "plain registry_manifest registry_files"
    unfolding registry_manifest_def registry_files_def by (rule sealed_plain [OF registry_fits])
qed

lemma log_ok:
  "bundle_at scenario_env (lit ''l'') log_files log_manifest"
  "proven scenario_env scenario_options log_manifest log_files" "plain log_manifest log_files"
proof -
  show "bundle_at scenario_env (lit ''l'') log_files log_manifest"
    using sealed_describes [OF log_fits]
    by (simp add: bundle_at_def scenario_env_def Open_bundle_def log_files_def log_manifest_def)
  show "proven scenario_env scenario_options log_manifest log_files"
    unfolding log_manifest_def log_files_def by (rule sealed_proven [OF log_fits scenario_ed scenario_trusted])
  show "plain log_manifest log_files"
    unfolding log_manifest_def log_files_def by (rule sealed_plain [OF log_fits])
qed

subsection \<open>What is read back\<close>

lemma sealed_events_nth:
  "i < length cs \<Longrightarrow> \<exists>pv h. sealed_events stream cs n pv0 ! i = event_doc (cs ! i) (n + int i) pv h"
proof (induction cs arbitrary: n pv0 i)
  case (Cons c cs)
  show ?case
  proof (cases i)
    case 0
    then show ?thesis by (auto simp: sealed_event_def)
  next
    case (Suc j)
    with Cons.prems Cons.IH [of j "n + 1"] show ?thesis by (simp add: algebra_simps)
  qed
qed simp

lemma sealed_view:
  assumes "fitting stream cs" "manifest_fits md stream cs" "reads_back (sealed_manifest md stream cs) (sealed_files md stream cs) v"
  shows "vb_manifest v = Some md" "vb_order v = [1..int (length cs)]"
    "vb_checkpoints v = [\<lparr>vc_from = 1, vc_to = int (length cs), vc_createdAt = time0\<rparr>]"
    "\<And>i. i < length cs \<Longrightarrow> vb_events v (1 + int i) = Some (sealed_log stream cs ! i)"
    "\<And>n. n < 1 \<or> int (length cs) < n \<Longrightarrow> vb_events v n = None"
proof -
  note m = sealed_manifest_def
  show "vb_manifest v = Some md" "vb_order v = [1..int (length cs)]" using assms(3) by (simp_all add: reads_back_def m)
  show "vb_checkpoints v = [\<lparr>vc_from = 1, vc_to = int (length cs), vc_createdAt = time0\<rparr>]"
    using assms(3) by (simp add: reads_back_def sealed_checkpoints_read [OF assms(1,2)] checkpoint_view_def sealed_cp_def Let_def time0_def)
  show "vb_events v (1 + int i) = Some (sealed_log stream cs ! i)" if "i < length cs" for i
    using assms(3) that
    by (simp add: reads_back_def log_event_def m sealed_events_read [OF assms(1)] sealed_log_ok(3) [OF assms(1)])
  show "vb_events v n = None" if "n < 1 \<or> int (length cs) < n" for n
    using assms(3) that by (auto simp: reads_back_def log_event_def m)
qed

definition registry_view :: "verified_bundle \<Rightarrow> bool" where
  "registry_view v \<longleftrightarrow> reads_back registry_manifest registry_files v"

definition log_view :: "verified_bundle \<Rightarrow> bool" where
  "log_view v \<longleftrightarrow> reads_back log_manifest log_files v"

lemma registry_view:
  assumes "registry_view v"
  shows "vb_manifest v = Some registry_md" "vb_order v = [1]" "vb_events v 1 = Some registry_event"
    "vb_checkpoints v = [\<lparr>vc_from = 1, vc_to = 1, vc_createdAt = time0\<rparr>]"
  using sealed_view [OF registry_fits assms [unfolded registry_view_def registry_manifest_def registry_files_def]]
  by (simp_all add: registry_event_def sealed_log_def)

lemma log_view:
  assumes "log_view v"
  obtains p1 h1 p2 h2 p3 h3 p4 h4 where "vb_manifest v = Some log_md" "vb_order v = [1, 2, 3, 4]"
    "vb_events v 1 = Some (event_doc (lit ''policy.committed'', time0, committed_doc) 1 p1 h1)"
    "vb_events v 2 = Some (event_doc (lit ''policy.windows'', time0, windows_doc) 2 p2 h2)"
    "vb_events v 3 = Some (event_doc (lit ''credential.issued'', time0, issued_doc) 3 p3 h3)"
    "vb_events v 4 = Some (event_doc (lit ''ingress.accepted'', time1, accepted_doc) 4 p4 h4)"
    "vb_checkpoints v = [\<lparr>vc_from = 1, vc_to = 4, vc_createdAt = time0\<rparr>]"
proof -
  note lv = sealed_view [OF log_fits assms [unfolded log_view_def log_manifest_def log_files_def]]
  have len: "length log_contents = 4" by (simp add: log_contents_def)
  have ev: "\<exists>pv h. vb_events v (1 + int i) = Some (event_doc (log_contents ! i) (1 + int i) pv h)" if "i < 4" for i
    using lv(4) [of i] sealed_events_nth [of i log_contents log_stream 1 zeroHash] that len by (auto simp: sealed_log_def)
  have ord: "[1..4 :: int] = [1, 2, 3, 4]" by (simp add: upto.simps)
  from ev [of 0] ev [of 1] ev [of 2] ev [of 3] show thesis
    using that lv(1-3) len ord by (auto simp: log_contents_def)
qed

end
