(* ===== verification/Read_Back.thy ===== *)
theory Read_Back
  imports Receipt_Facts Completeness
begin

text \<open>
  A verified bundle whose events are within the limit on lines can be read back: \<open>loadVerifiedBundle\<close> returns
  the view that \<open>reads_back\<close> describes. It is the converse of \<open>loadVerifiedBundle_proven\<close> of Receipt_Facts.
\<close>

lemma load_complete:
  assumes "bundle_at e t b mf" "proven e opts mf b"
    and "\<And>f. b (lit ''events.ndjson'') = Some f \<Longrightarrow> list_all short_line (phys_lines f)"
  obtains view where "\<forall>r. loadVerifiedBundle (env_os e) t r = Some (Inr view, r)" "reads_back mf b view"
proof -
  from assms(1) have b: "Open_bundle (env_os e) t = Inr b" "describes b mf" by (simp_all add: bundle_at_def)
  from b(2) obtain mdata where m: "readRequired b (lit ''manifest.json'') = Inr mdata"
    unfolding describes_def using read_manifest_doc by blast
  have int: "log_events b \<noteq> []" "log_checkpoints b \<noteq> []"
    using assms(2) by (auto simp: proven_def intact_def Let_def)
  obtain f where f: "Open_file b (lit ''events.ndjson'') = Inr f" "b (lit ''events.ndjson'') = Some f"
    using int(1) by (cases "b (lit ''events.ndjson'')") (auto simp: log_events_def Open_file_def)
  note short = assms(3) [OF f(2)]
  have err: "l_err (snd (view_events f)) = None"
  proof -
    from short have "\<forall>x \<in> set (phys_lines f). short_line x" by (simp add: list_all_iff)
    then obtain ls l where l: "\<And>body s. for_lines body (NewLines f) (s :: (int \<rightharpoonup> json) \<times> int list) = (fold (\<lambda>(n, x). body n x) ls s, l)"
      "l_err l = None"
      by (rule all_content_lines) blast
    show ?thesis by (simp add: view_events_def l)
  qed
  obtain cdata where c: "readRequired b (lit ''checkpoints.json'') = Inr cdata"
  proof -
    have "Parse [] = Inr v \<Longrightarrow> False" for v
    proof -
      have "case Parse [] of Inl e \<Rightarrow> True | Inr v \<Rightarrow> False" by code_simp
      then show "Parse [] = Inr v \<Longrightarrow> False" by simp
    qed
    then have "IsFile b (lit ''checkpoints.json'') \<and> (\<exists>data. ReadWhole b (lit ''checkpoints.json'') = Inr data)"
      using int(2) by (cases "ReadWhole b (lit ''checkpoints.json'')"; cases "IsFile b (lit ''checkpoints.json'')")
        (auto simp: log_checkpoints_def ReadWhole_def decode_def split: sum.splits)
    then show thesis using that by (auto simp: readRequired_def)
  qed
  have ef: "IsFile b (lit ''events.ndjson'')" using f(2) by (simp add: IsFile_def)
  obtain view where v: "\<forall>r. load_view b r = Some (Inr view, r)"
    using m ef f(1) err c by (auto simp: load_view_def andthen_def lift_def require_def return_def)
  then have l: "loadVerifiedBundle (env_os e) t r = Some (Inr view, r)" for r
    using b(1) by (simp add: loadVerifiedBundle_def andthen_def lift_def)
  show thesis by (rule that) (use l loadVerifiedBundle_proven(1) [OF l assms(1,2)] in blast)+
qed

text \<open>A verification that got past the events found no line over the limit.\<close>

lemma walk_events_short:
  assumes "walk_events b cx ranges p r = Some (Inr w, r')"
  shows "\<exists>f. b (lit ''events.ndjson'') = Some f \<and> list_all short_line (phys_lines f)"
proof -
  from assms obtain f c w1 l where f: "Open_file b (lit ''events.ndjson'') = Inr f"
    and run: "for_lines (event_step cx) (NewLines f) (start_walk cx ranges c
        (info (lit ''Checking events.ndjson (hash chain)...'') r)) = (w1, l)" and l: "l_err l = None"
    by (auto simp: walk_events_def andthen_Inr action_Inr lines_problem_Inr run_events_iff Let_def dest!: new_collector_run)
  have "l = snd (all_lines (NewLines f))" using run by (simp add: for_lines_fold)
  with l have "list_all short_line (phys_lines f)"
    using all_lines_spec [of "NewLines f"] by (simp add: NewLines_def list_all_iff)
  moreover have "b (lit ''events.ndjson'') = Some f" using f by (auto simp: Open_file_def split: option.splits)
  ultimately show ?thesis by blast
qed

lemma Bundle_pass_reads_back:
  assumes "Bundle e path opts = Some v" "vd_ExitCode v = ExitPass"
  shows "\<exists>b mf view. bundle_at e path b mf \<and> proven e opts mf b \<and>
    (\<forall>r. loadVerifiedBundle (env_os e) path r = Some (Inr view, r)) \<and> reads_back mf b view"
proof -
  obtain b mf where b: "bundle_at e path b mf" "proven e opts mf b" using Bundle_pass [OF assms] by blast
  obtain br r' where "verifyBundle (env_crypto e) (env_os e) path (opt_SkipAnchors opts) no_walk_options
      (newRun (env_embedded e) opts) = Some (Inr br, r')"
    by (rule conclude_pass [OF assms(1) [unfolded Bundle_def Let_def] ends_one_bundle assms(2)]) (rule that, assumption)
  then have "verify_reader (env_crypto e) b (opt_SkipAnchors opts) no_walk_options (newRun (env_embedded e) opts) = Some (Inr br, r')"
    using b(1) by (auto simp: verifyBundle_reader bundle_at_def)
  then obtain mf1 r1 cps cx r2 w r3 where "walk_events b cx (checkpoint_ranges cps) (wo_proofFrom no_walk_options) r2 = Some (Inr w, r3)"
    by (rule verify_reader_steps)
  from walk_events_short [OF this] have short: "b (lit ''events.ndjson'') = Some f \<Longrightarrow> list_all short_line (phys_lines f)" for f
    by auto
  obtain view where "\<forall>r. loadVerifiedBundle (env_os e) path r = Some (Inr view, r)" "reads_back mf b view"
    by (rule load_complete [OF b short])
  with b show ?thesis by blast
qed

end
