(* ===== verification/Scenario.thy ===== *)
theory Scenario
  imports Sample_Registry Read_Back
begin

text \<open>
  The three documents of Sample_Registry taken through the two modes: what the log reads to, that every rule
  is kept, that the receipt is genuine, and that \<open>Receipt\<close> and \<open>Reconcile\<close> end with exit code 0.
\<close>

subsection \<open>The log as it reads\<close>

definition t0 :: time where "t0 = 1704067200000000000"
definition t1 :: time where "t1 = 1704067210000000000"
definition t2 :: time where "t2 = 1704153600000000000"
definition t3 :: time where "t3 = 1709251200000000000"

lemma times [simp]:
  "ParseRFC3339 time0 = Some t0" "ParseRFC3339 time1 = Some t1" "ParseRFC3339 time2 = Some t2" "ParseRFC3339 time3 = Some t3"
  by code_simp+

lemma time_values [simp]:
  "parseRFC3339Value (Some (JString time0)) = Some t0" "parseRFC3339Value (Some (JString time1)) = Some t1"
  "parseRFC3339Value (Some (JString time2)) = Some t2" "parseRFC3339Value (Some (JString time3)) = Some t3"
  by (simp_all add: parseRFC3339Value_def)

lemma actions [simp]:
  "is_ingress (lit ''policy.committed'') = False" "is_ingress (lit ''policy.windows'') = False"
  "is_ingress (lit ''credential.issued'') = False" "is_ingress (lit ''ingress.accepted'')"
  "ingress_outcome (lit ''ingress.accepted'') = lit ''accepted''"
  by code_simp+

lemma doc_fields [simp]:
  "Field (Some committed_doc) (lit ''effective_at'') = Some (JString time0)" "Field (Some committed_doc) (lit ''policy'') = Some rules_doc"
  "Field (Some committed_doc) (lit ''policy_hash'') = Some (JString rules_hash)" "Field (Some committed_doc) (lit ''version'') = Some (JInt 1)"
  "Field (Some committed_doc) (lit ''windows'') = Some (JObject [(lit ''count'', JInt 1), (lit ''parts'', JInt 1)])"
  "Field (Some committed_doc) (lit ''credential'') = None" "IsObject (Some committed_doc)"
  "Field (Some windows_doc) (lit ''part'') = Some (JInt 1)" "Field (Some windows_doc) (lit ''version'') = Some (JInt 1)"
  "Field (Some windows_doc) (lit ''windows'') = Some (JArray [window_doc])" "Field (Some windows_doc) (lit ''credential'') = None"
  "IsObject (Some windows_doc)"
  "Field (Some issued_doc) (lit ''credential'') = Some (JString (lit ''c''))" "Field (Some issued_doc) (lit ''expires_at'') = None"
  "IsObject (Some issued_doc)"
  "Field (Some accepted_doc) (lit ''accepted'') = Some event_named"
  "Field (Some accepted_doc) (lit ''commitment_key'') = Some (JString (lit ''k''))"
  "Field (Some accepted_doc) (lit ''credential'') = Some (JString (lit ''c''))"
  "Field (Some accepted_doc) (lit ''digest_kind'') = Some (JString (lit ''canonical''))"
  "Field (Some accepted_doc) (lit ''outcome'') = Some (JString (lit ''accepted''))"
  "Field (Some accepted_doc) (lit ''policy_hash'') = Some (JString rules_hash)"
  "Field (Some accepted_doc) (lit ''request_digest'') = Some (JString registry_digest)" "IsObject (Some accepted_doc)"
  "Field (Some event_named) (lit ''entry_hash'') = Some (JString registry_hash)"
  "Field (Some event_named) (lit ''request_digest'') = Some (JString registry_digest)"
  "Field (Some event_named) (lit ''sequence'') = Some (JInt 1)" "IsObject (Some event_named)"
  "Field (Some rules_doc) (lit ''registry'') = Some (JString public_id)" "Field (Some rules_doc) (lit ''msd_seconds'') = Some (JInt 900)"
  "Field (Some rules_doc) (lit ''amendment'') = None" "IsObject (Some rules_doc)"
  "Field (Some window_doc) (lit ''close_at'') = Some (JString time3)" "Field (Some window_doc) (lit ''open_at'') = Some (JString time0)"
  "Field (Some window_doc) (lit ''key'') = Some (JString (lit ''k''))" "IsObject (Some window_doc)"
  by (simp_all add: committed_doc_def windows_doc_def issued_doc_def accepted_doc_def event_named_def rules_doc_def window_doc_def)

definition the_policy :: registry_policy where
  "the_policy = \<lparr>pl_version = 1, pl_sequence = 1, pl_hash = rules_hash, pl_effectiveAt = Some t0,
     pl_action = lit ''policy.committed'', pl_recordedAt = Some t0, pl_rules = Some rules_doc, pl_count = Some (JInt 1),
     pl_parts = Some (JInt 1), pl_windows = [window_doc]\<rparr>"

lemma the_policy_windows [simp]: "pl_windows the_policy = [window_doc]"
  by (simp add: the_policy_def)

definition the_acceptance :: "json \<Rightarrow> registry_acceptance" where
  "the_acceptance ev = \<lparr>ra_sequence = 4, ra_record = Some ev, ra_payload = Some accepted_doc, ra_receivedAt = Some t1,
     ra_key = Some (lit ''k'')\<rparr>"

definition the_decision :: registry_decision where
  "the_decision = \<lparr>rg_sequence = 4, rg_outcome = lit ''accepted'', rg_payload = Some accepted_doc, rg_receivedAt = Some t1,
     rg_status = lit ''active''\<rparr>"

lemma digest_holds: "policy_digest (Some rules_doc) [window_doc] = Some rules_hash"
proof -
  have "safe_json (full_policy (Some rules_doc) [window_doc])"
  proof -
    have "safe_text (lit ''windows'')" "safe_text (lit ''msd_seconds'')" "safe_text (lit ''registry'')" by code_simp+
    then show ?thesis using small_nested(1) by (simp add: full_policy_def rules_doc_def members_of_def)
  qed
  from canon_safe [OF this] show ?thesis by (simp add: policy_digest_def rules_hash_def Canonical_def)
qed

lemma reading:
  assumes "log_view v"
  obtains L ev where "\<forall>r. readRegistryLog v [1, 2, 3, 4] r = (L, r)" "rl_policies L = [the_policy]"
    "rl_accepted L = [the_acceptance ev]" "rl_decisions L = [the_decision]" "rl_closes L = []"
    "rl_problems L = (\<lambda>_. [])" "rl_lastReceived L = Some t1" "vb_events v 4 = Some ev"
    "Field (Some ev) (lit ''received_at'') = Some (JString time1)"
proof -
  obtain p1 h1 p2 h2 p3 h3 p4 h4 where v: "vb_manifest v = Some log_md" "vb_order v = [1, 2, 3, 4]"
    "vb_events v 1 = Some (event_doc (lit ''policy.committed'', time0, committed_doc) 1 p1 h1)"
    "vb_events v 2 = Some (event_doc (lit ''policy.windows'', time0, windows_doc) 2 p2 h2)"
    "vb_events v 3 = Some (event_doc (lit ''credential.issued'', time0, issued_doc) 3 p3 h3)"
    "vb_events v 4 = Some (event_doc (lit ''ingress.accepted'', time1, accepted_doc) 4 p4 h4)"
    "vb_checkpoints v = [\<lparr>vc_from = 1, vc_to = 4, vc_createdAt = time0\<rparr>]"
    by (rule log_view [OF assms])
  let ?p = "the_policy\<lparr>pl_windows := []\<rparr>"
  let ?e4 = "event_doc (lit ''ingress.accepted'', time1, accepted_doc) 4 p4 h4"
  define cred where "cred = [lit ''c'' \<mapsto> (None :: vopt)]"
  define counts where "counts = count_decision (lit ''c'') (lit ''accepted'') no_counts"
  let ?S = "\<lambda>ps parts cs decs accs counts t r. \<lparr>rl_policies = ps, rl_policyByVer = [1 \<mapsto> ?p], rl_accepted = accs, rl_decisions = decs,
      rl_closes = [], rl_counts = counts, rl_problems = (\<lambda>_. []), rl_lastReceived = Some t, lg_parts = (\<lambda>_. [])(1 := parts),
      lg_credentials = cs, lg_status = lit ''active'', lg_run = r\<rparr>"
  have 1: "log_record v 1 (start_reading r) = ?S [?p] [] Map.empty [] [] no_counts t0 r" for r
    by (simp add: log_record_def Let_def v note_record_def policy_record_def start_reading_def status_after_def the_policy_def fun_eq_iff)
  have 2: "log_record v 2 (?S [?p] [] Map.empty [] [] no_counts t0 r) = ?S [?p] [[window_doc]] Map.empty [] [] no_counts t0 r" for r
    by (simp add: log_record_def Let_def v note_record_def windows_record_def status_after_def fun_eq_iff intIs_iff)
  have 3: "log_record v 3 (?S [?p] [[window_doc]] Map.empty [] [] no_counts t0 r) = ?S [?p] [[window_doc]] cred [] [] no_counts t0 r" for r
    by (simp add: log_record_def Let_def v note_record_def status_after_def fun_eq_iff cred_def)
  have 4: "log_record v 4 (?S [?p] [[window_doc]] cred [] [] no_counts t0 r) =
      ?S [?p] [[window_doc]] cred [the_decision] [the_acceptance ?e4] counts t1 r" for r
    by (simp add: log_record_def Let_def v note_record_def status_after_def decision_record_def check_credential_def cred_def
        the_decision_def the_acceptance_def counts_def nullish_def stringOrNil_def)
  let ?L = "\<lparr>rl_policies = [the_policy], rl_policyByVer = [1 \<mapsto> ?p], rl_accepted = [the_acceptance ?e4], rl_decisions = [the_decision],
      rl_closes = [], rl_counts = counts, rl_problems = (\<lambda>_. []), rl_lastReceived = Some t1\<rparr>"
  have "fold (log_record v) [1, 2, 3, 4] (start_reading r) = ?S [?p] [[window_doc]] cred [the_decision] [the_acceptance ?e4] counts t1 r" for r
    by (simp only: fold_simps 1 2 3 4)
  moreover have "join_policy [[window_doc]] ?p = (the_policy, [])"
    using digest_holds by (simp add: join_policy_def Let_def the_policy_def intIs_iff)
  ultimately have L: "readRegistryLog v [1, 2, 3, 4] r = (?L, r)" for r
    by (simp add: readRegistryLog_def Let_def join_policies_def registry_log.truncate_def the_policy_def)
  show thesis
    by (rule that [of ?L ?e4]) (simp_all add: L v)
qed

subsection \<open>Every rule is kept\<close>

lemma registry_fields:
  "Field (Some registry_event) (lit ''received_at'') = Some (JString time1)"
  "Field (Some registry_event) (lit ''entry_hash'') = Some (JString registry_hash)"
  by (simp_all add: registry_event_def sealed_event_def registry_content_def registry_hash_def)

lemma range_docs:
  "Field (Field (Some registry_md) (lit ''range'')) (lit ''from'') = Some (JInt 1)" "IsObject (Field (Some registry_md) (lit ''range''))"
  "Field (Field (Some registry_md) (lit ''range'')) (lit ''to'') = Some (JInt 1)"
  "Field (Field (Some log_md) (lit ''range'')) (lit ''from'') = Some (JInt 1)" "IsObject (Field (Some log_md) (lit ''range''))"
  "Field (Field (Some log_md) (lit ''range'')) (lit ''to'') = Some (JInt 4)"
  "manifestPublicID (Some registry_md) = Some public_id" "manifestLogFor (Some log_md) = Some public_id"
  "manifestLogFor (Some registry_md) = None"
  by (simp_all add: registry_md_def log_md_def manifest_of_def manifestPublicID_def manifestLogFor_def named_id_def)

lemma history_ok:
  assumes "registry_view rv" "log_view lv"
  shows "rule_history rv lv r = r"
proof -
  obtain p1 h1 p2 h2 p3 h3 p4 h4 where v: "vb_manifest lv = Some log_md" "vb_order lv = [1, 2, 3, 4]"
    "vb_events lv 1 = Some (event_doc (lit ''policy.committed'', time0, committed_doc) 1 p1 h1)"
    "vb_events lv 2 = Some (event_doc (lit ''policy.windows'', time0, windows_doc) 2 p2 h2)"
    "vb_events lv 3 = Some (event_doc (lit ''credential.issued'', time0, issued_doc) 3 p3 h3)"
    "vb_events lv 4 = Some (event_doc (lit ''ingress.accepted'', time1, accepted_doc) 4 p4 h4)"
    "vb_checkpoints lv = [\<lparr>vc_from = 1, vc_to = 4, vc_createdAt = time0\<rparr>]"
    by (rule log_view [OF assms(2)])
  note rv = registry_view [OF assms(1)]
  have b: "\<not> Before t1 t0" "\<not> Before t0 t0" by (simp_all add: Before_def t0_def t1_def)
  show ?thesis
    by (simp add: rule_history_def whole_history_def v rv range_docs registry_fields intIs_iff opens_on_policy_def
        whenever_def b strEq_def)
qed

lemma policies_ok: "rule_policies public_id None [the_policy] r = r"
  by (simp add: policy_own_def policy_succession_def the_policy_def whenever_def Let_def intIs_iff msdSecondsRequired_def strEq_def
      IsString_iff)

lemma in_force: "inForceAt [the_policy] (Some t1) 4 = Some the_policy"
  by (simp add: inForceAt_def the_policy_def effective_by_def After_def t0_def t1_def)

lemma window_of_key: "windowsByKey [the_policy] 1 (lit ''k'') = Some window_doc"
  by (simp add: windowsByKey_def the_policy_def window_entry_def)

lemma decisions_ok:
  assumes "rl_policies L = [the_policy]" "rl_decisions L = [the_decision]"
  shows "rule_decisions L r = r"
proof -
  have w: "window_open (Some window_doc) t1"
    by (simp add: window_open_def Before_def After_def t0_def t1_def t3_def)
  show ?thesis
    by (simp add: rule_decisions_def assms rule_decision_def Let_def the_decision_def in_force decision_state_def decision_window_def
        decision_broken_def w window_of_key whenever_def needed_status_def stringOrNil_def strEq_def)
      (simp add: the_policy_def window_of_key [unfolded the_policy_def] w)
qed

lemma matching_ok:
  assumes "registry_view rv" "log_view lv" "rl_accepted L = [the_acceptance ev]" "Field (Some ev) (lit ''received_at'') = Some (JString time1)"
  shows "rule_matching rv lv L r = r"
proof -
  note rv = registry_view [OF assms(1)]
  have a: "accepts (the_acceptance ev) = Some 1" by (simp add: the_acceptance_def named_sequence_def)
  have r: "range_to rv = 1" by (simp add: range_to_def rv range_docs)
  have p: "\<not> past_range rv (the_acceptance ev)" by (simp add: past_range_def a r)
  have h: "held_as_said rv (the_acceptance ev) 1"
    using assms(4) by (simp add: held_as_said_def rv registry_fields the_acceptance_def registry_digest_def)
  show ?thesis
    by (simp add: rule_matching_def match_acceptances_def assms(3) rule_acceptance_def Let_def a p h rv rule_event_def past_log_def whenever_def)
qed

lemma keys_ok:
  assumes "rl_accepted L = [the_acceptance ev]"
  shows "rule_keys L r = ([lit ''k'' \<mapsto> the_acceptance ev], r)"
  by (simp add: rule_keys_def assms rule_key_def the_acceptance_def)

lemma closes_ok:
  assumes "rl_policies L = [the_policy]" "rl_closes L = []" "rl_lastReceived L = Some t1"
  shows "rule_closes L m r = r"
proof -
  have "\<not> close_missing [the_policy] {} t1 the_policy window_doc"
    by (simp add: close_missing_def Before_def t1_def t3_def windowCloseGrace_def second_def)
  then show ?thesis by (simp add: rule_closes_def assms rule_unclosed_def whenever_def)
qed

lemma rules_ok:
  assumes "registry_view rv" "log_view lv"
  obtains L ev where "\<forall>r. reconcile_rules public_id rv lv r = (L, r)" "rl_lastReceived L = Some t1" "vb_events lv 4 = Some ev"
proof -
  obtain L ev where L: "\<forall>r. readRegistryLog lv [1, 2, 3, 4] r = (L, r)" "rl_policies L = [the_policy]"
    "rl_accepted L = [the_acceptance ev]" "rl_decisions L = [the_decision]" "rl_closes L = []"
    "rl_problems L = (\<lambda>_. [])" "rl_lastReceived L = Some t1" "vb_events lv 4 = Some ev"
    "Field (Some ev) (lit ''received_at'') = Some (JString time1)"
    by (rule reading [OF assms(2)])
  have o: "sort (vb_order lv) = [1, 2, 3, 4]" by (rule log_view [OF assms(2)]) simp
  have pr: "rule_problems code L r = r" for code r by (simp add: rule_problems_def L(6))
  have "reconcile_rules public_id rv lv r = (L, r)" for r
    by (simp add: reconcile_rules_def o history_ok [OF assms] L(1) pr L(2) policies_ok decisions_ok [OF L(2,4)]
        matching_ok [OF assms L(3,9)] keys_ok [OF L(3)] closes_ok [OF L(2,5,7)] del: rule_policies.simps)
  then show thesis using that L(7,8) by blast
qed

subsection \<open>The receipt is genuine\<close>

lemma body_fields [simp]:
  "Field (Some receipt_body) (lit ''accepted'') = Some event_named" "Field (Some receipt_body) (lit ''commitment_key'') = Some (JString (lit ''k''))"
  "Field (Some receipt_body) (lit ''credential'') = Some (JString (lit ''c''))" "Field (Some receipt_body) (lit ''decision_seq'') = Some (JInt 4)"
  "Field (Some receipt_body) (lit ''digest_kind'') = Some (JString (lit ''canonical''))"
  "Field (Some receipt_body) (lit ''key_id'') = Some (JString receipt_key_id)"
  "Field (Some receipt_body) (lit ''outcome'') = Some (JString (lit ''accepted''))"
  "Field (Some receipt_body) (lit ''policy_hash'') = Some (JString rules_hash)"
  "Field (Some receipt_body) (lit ''received_at'') = Some (JString time1)"
  "Field (Some receipt_body) (lit ''request_digest'') = Some (JString registry_digest)"
  "Field (Some receipt_body) (lit ''seal_by'') = Some (JString time2)" "Field (Some receipt_body) (lit ''signed_at'') = Some (JString time1)"
  "Field (Some receipt_body) (lit ''stream'') = Some (JString public_id)" "Field (Some receipt_body) (lit ''tenant'') = Some (JString (lit ''t''))"
  "Field (Some receipt_body) (lit ''v'') = Some (JString ReceiptVersion)" "Field (Some receipt_body) (lit ''idempotency_key'') = None"
  "Field (Some receipt_body) (lit ''reasons'') = None" "IsObject (Some receipt_body)"
  by (simp_all add: receipt_body_def)

lemma receipt_genuine: "genuine (\<lambda>_ _ _. True) scenario_keys (Some receipt_body) receipt_signature"
proof -
  have w: "well_formed_receipt (Some receipt_body)"
    by (simp add: well_formed_receipt_def strEq_def registryOutcomes_def isDigest_def hasMember_def optional_field_def receipt_times_def
        accepted_shape_def public_id_def IsString_iff) (simp add: lit_def)
  have "Base64Strict receipt_signature = Some (replicate 64 3)" by code_simp
  moreover have "Verify (\<lambda>_ _ _. True) (replicate 32 2) [] (replicate 64 3)" by code_simp
  then have "Verify (\<lambda>_ _ _. True) (replicate 32 2) m (replicate 64 3)" for m by (simp only: Verify_def)
  moreover have "hex_or_empty sample_key = replicate 32 2" by (simp add: sample_key_def hex_or_empty_def hexBytes_hex_text)
  ultimately show ?thesis
    using w plain_doc_reads(2) [OF accepted_docs(2)]
    by (simp add: genuine_def scenario_keys_def active_at_def nullish_def)
qed

lemma registry_agrees: "event_agrees (Some receipt_body) (Some registry_event)"
  by (simp add: event_agrees_def registry_fields stringOrNil_def registry_digest_def)

lemma accepted_agrees: "decision_agrees (Some receipt_body) (Some (event_doc (lit ''ingress.accepted'', time1, accepted_doc) n p h))"
proof -
  have "lit ''ingress.'' @ lit ''accepted'' = lit ''ingress.accepted''" by (simp add: lit_def)
  then show ?thesis by (simp add: decision_agrees_def strEq_def decision_fields_def strictEqual_def)
qed

lemma subject_ok:
  assumes "registry_view rv" "log_view lv"
  shows "checkReceiptSubject (Some receipt_body) (Some rv) (Some lv) r = (lit ''checked'', r)"
proof -
  obtain p4 h4 where v: "vb_events lv 4 = Some (event_doc (lit ''ingress.accepted'', time1, accepted_doc) 4 p4 h4)"
    by (rule log_view [OF assms(2)])
  note rv = registry_view [OF assms(1)]
  have d: "decisionRecordDifferences (Some (event_doc (lit ''ingress.accepted'', time1, accepted_doc) 4 p4 h4)) (Some receipt_body) = []"
    by (simp add: decisionRecordDifferences_none accepted_agrees)
  have e: "subject_event_problem (Some receipt_body) (Some registry_event) 1 = None"
    by (simp add: subject_event_problem_none registry_agrees)
  have s: "sealedByDeadline (vb_checkpoints rv) 1 time2 = Some True"
    by (simp add: rv After_def t0_def t2_def)
  have a: "\<not> After t0 t2" "event_named \<noteq> JNull" by (simp_all add: After_def t0_def t2_def event_named_def)
  show ?thesis
    by (simp add: checkReceiptSubject_def subject_steps_def subject_decision_def subject_event_def subject_deadline_def
        deadline_of_def deadline_on_event_def vb_event_def v rv d e s [simplified rv] a nullish_def whenever_def Let_def)
qed

lemma receipt_checked: "receiptKeys r = scenario_keys \<Longrightarrow>
    checkReceipt (\<lambda>_ _ _. True) (Some receipt_body) receipt_signature label r = (True, r)"
  by (simp add: checkReceipt_true receipt_genuine)

lemma scenario_receipt_read:
  "readReceiptDocument scenario_env (lit ''d/f.json'') r = Some (Inr (Some \<lparr>rd_body = Some receipt_body, rd_signature = receipt_signature\<rparr>), r)"
proof -
  have f: "Field (Some receipt_file) (lit ''body'') = Some receipt_body" "Field (Some receipt_file) (lit ''signature'') = Some (JString receipt_signature)"
    "Field (Some receipt_file) (lit ''receipt'') = None" "IsObject (Some receipt_file)"
    by (simp_all add: receipt_file_def)
  then show ?thesis
    using plain_doc_reads(1) [OF receipt_docs]
    by (simp add: readReceiptDocument_def scenario_env_def unwrap_receipt_def return_def Let_def IsString_iff)
qed

lemma scenario_receipts: "receipts_given scenario_env (Some (lit ''d'')) = [lit ''d/f.json'']"
proof -
  have "trim_separators (lit ''d'') = lit ''d''" "has_suffix (lit ''f.json'') (lit ''.json'')" "\<not> has_prefix (lit ''f.json'') [46]"
    "lit ''d'' @ [47] @ lit ''f.json'' = lit ''d/f.json''" by code_simp+
  then show ?thesis by (simp add: receipts_given_def receiptFiles_def scenario_env_def)
qed

lemma scenario_reconciled:
  assumes "registry_view rv" "log_view lv" "receiptKeys r = scenario_keys"
  shows "\<exists>counts. reconcileRegistry scenario_env rv lv [lit ''d/f.json''] r = Some (Inr (counts, 1), r)"
proof -
  obtain L ev where L: "\<forall>r. reconcile_rules public_id rv lv r = (L, r)" "rl_lastReceived L = Some t1" "vb_events lv 4 = Some ev"
    by (rule rules_ok [OF assms(1,2)])
  obtain p4 h4 where v: "vb_manifest lv = Some log_md" "vb_events lv 4 = Some (event_doc (lit ''ingress.accepted'', time1, accepted_doc) 4 p4 h4)"
    by (rule log_view [OF assms(2)])
  have "\<not> past_log_receipt lv L (Some receipt_body)" by (simp add: past_log_receipt_def range_to_def v range_docs)
  moreover have "logged_differences lv (Some receipt_body) = []"
    by (simp add: logged_differences_def v decisionRecordDifferences_none accepted_agrees)
  ultimately have rr: "reconcile_receipt (\<lambda>_ _ _. True) rv lv L label \<lparr>rd_body = Some receipt_body, rd_signature = receipt_signature\<rparr> r = r" for label
    by (simp add: reconcile_receipt_def receipt_checked [OF assms(3)] subject_ok [OF assms(1,2)])
  have one: "one_receipt scenario_env public_id rv lv L (lit ''d/f.json'') r = Some (Inr 1, r)"
    by (simp add: one_receipt_def Let_def andthen_def scenario_receipt_read strEq_def scenario_ed perform_def return_def rr)
  show ?thesis
    by (simp add: reconcileRegistry_def registry_view [OF assms(1)] v range_docs andthen_def compute_def L(1) one return_def)
qed

subsection \<open>The modes end with exit code 0\<close>

lemma scenario_verified:
  assumes "bundle_at scenario_env t b mf" "proven scenario_env scenario_options mf b" "plain mf b"
    and "trusted r = sample_keys" "\<And>k. clean_for k r"
  obtains br r' where "verifyBundle (env_crypto scenario_env) (env_os scenario_env) t skip no_walk_options r = Some (Inr br, r')"
    "\<And>k. clean_for k r'" "trusted r' = sample_keys" "failures r' = failures r" "receiptKeys r' = receiptKeys r"
proof (rule verifyBundle_complete [OF assms(1-3), of r no_walk_options None skip])
  fix br r'
  assume v: "verifyBundle (env_crypto scenario_env) (env_os scenario_env) t skip no_walk_options r = Some (Inr br, r')"
    "\<And>k. clean_for k r'" "trusted r' = trusted r" "failures r' = failures r"
  show thesis
    by (rule that [OF v(1,2)]) (use v assms(4) grows_receiptKeys [OF growingD [OF growing_verifyBundle v(1)]] in simp_all)
qed (use assms(4,5) in \<open>simp_all add: scenario_trusted new_collector_def return_def no_walk_options_def\<close>)

lemma scenario_start:
  "trusted (newRun (env_embedded scenario_env) scenario_options) = sample_keys"
  "receiptKeys (newRun (env_embedded scenario_env) scenario_options) = scenario_keys"
  "failures (newRun (env_embedded scenario_env) scenario_options) = []"
  using scenario_trusted scenario_receipt_keys by (simp_all add: trusted_keys_def trusted_receipt_keys_def) (simp add: newRun_def)

lemma views_anchored [simp]:
  "registry_view (v\<lparr>vb_anchoredAt := at\<rparr>) = registry_view v" "log_view (v\<lparr>vb_anchoredAt := at\<rparr>) = log_view v"
  by (simp_all add: registry_view_def log_view_def)

lemma scenario_loads:
  obtains rv lv where "\<forall>r. loadVerifiedBundle (env_os scenario_env) (lit ''r'') r = Some (Inr rv, r)" "registry_view rv"
    "\<forall>r. loadVerifiedBundle (env_os scenario_env) (lit ''l'') r = Some (Inr lv, r)" "log_view lv"
proof -
  obtain rv where rv: "\<forall>r. loadVerifiedBundle (env_os scenario_env) (lit ''r'') r = Some (Inr rv, r)"
    "reads_back registry_manifest registry_files rv"
    by (rule load_complete [OF registry_ok(1,2)]) (use registry_ok(3) in \<open>auto simp: plain_def\<close>)
  obtain lv where lv: "\<forall>r. loadVerifiedBundle (env_os scenario_env) (lit ''l'') r = Some (Inr lv, r)"
    "reads_back log_manifest log_files lv"
    by (rule load_complete [OF log_ok(1,2)]) (use log_ok(3) in \<open>auto simp: plain_def\<close>)
  show thesis by (rule that [OF rv(1) _ lv(1)]) (use rv(2) lv(2) in \<open>simp_all add: registry_view_def log_view_def\<close>)
qed

lemma Reconcile_scenario:
  "\<exists>v. Reconcile scenario_env (lit ''r'') (lit ''l'') (Some (lit ''d'')) scenario_options = Some v \<and> vd_ExitCode v = ExitPass"
proof -
  let ?skip = "opt_SkipAnchors scenario_options" let ?start = "newRun (env_embedded scenario_env) scenario_options"
  let ?banner = "\<lambda>what t. info (lit what @ lit t @ lit '' ==='')"
  have paths: "receipt_paths scenario_env (Some (lit ''d'')) r = Some (Inr [lit ''d/f.json''], r)" for r
    using scenario_receipts by (simp add: receipt_paths_def receipts_given_def return_def scenario_env_def)
  obtain rr r1 where v1: "verifyBundle (env_crypto scenario_env) (env_os scenario_env) (lit ''r'') ?skip no_walk_options
      (?banner ''=== Registry: '' ''r'' ?start) = Some (Inr rr, r1)"
    "\<And>k. clean_for k r1" "trusted r1 = sample_keys" "failures r1 = failures (?banner ''=== Registry: '' ''r'' ?start)"
    "receiptKeys r1 = receiptKeys (?banner ''=== Registry: '' ''r'' ?start)"
    by (rule scenario_verified [OF registry_ok, of "?banner ''=== Registry: '' ''r'' ?start" ?skip])
      (simp_all add: scenario_start new_run_clean)
  obtain lr r2 where v2: "verifyBundle (env_crypto scenario_env) (env_os scenario_env) (lit ''l'') ?skip no_walk_options
      (?banner ''=== Decision log: '' ''l'' r1) = Some (Inr lr, r2)"
    "\<And>k. clean_for k r2" "failures r2 = failures (?banner ''=== Decision log: '' ''l'' r1)"
    "receiptKeys r2 = receiptKeys (?banner ''=== Decision log: '' ''l'' r1)"
    by (rule scenario_verified [OF log_ok, of "?banner ''=== Decision log: '' ''l'' r1" ?skip])
      (use v1 in simp_all)
  let ?r = "info (lit ''Reconciling...'') r2"
  have f: "failures ?r = []" "receiptKeys ?r = scenario_keys"
    using v1 v2 scenario_start by (simp_all add: info_def)
  obtain rv lv where l: "\<forall>r. loadVerifiedBundle (env_os scenario_env) (lit ''r'') r = Some (Inr rv, r)" "registry_view rv"
    "\<forall>r. loadVerifiedBundle (env_os scenario_env) (lit ''l'') r = Some (Inr lv, r)" "log_view lv"
    by (rule scenario_loads)
  obtain counts where rc: "reconcileRegistry scenario_env (rv\<lparr>vb_anchoredAt := br_latestAnchorAt rr\<rparr>)
      (lv\<lparr>vb_anchoredAt := br_latestAnchorAt lr\<rparr>) [lit ''d/f.json''] ?r = Some (Inr (counts, 1), ?r)"
    using scenario_reconciled [of "rv\<lparr>vb_anchoredAt := br_latestAnchorAt rr\<rparr>" "lv\<lparr>vb_anchoredAt := br_latestAnchorAt lr\<rparr>" ?r] l(2,4) f(2)
    by auto
  have "reconcile_run scenario_env (lit ''r'') (lit ''l'') (Some (lit ''d'')) ?skip ?start = Some (Inr (rr, lr, counts, 1), ?r)"
    using f(1) by (simp add: reconcile_run_def reconcile_views_def andthen_def paths perform_def v1(1) v2(1) compute_def l(1,3) rc return_def)
  moreover have "exitCode (results ?r) = ExitPass" using v2(2) exitCode_pass [of ?r] by simp
  ultimately show ?thesis by (simp add: Reconcile_def conclude_def Let_def)
qed

text \<open>The receipt with the bundle of its stream and the decision log.\<close>

lemma scenario_target:
  assumes "bundle_at scenario_env t b mf" "proven scenario_env scenario_options mf b" "plain mf b"
    and "\<forall>r. loadVerifiedBundle (env_os scenario_env) t r = Some (Inr view, r)"
    and "\<And>r bs. view_for sid t (vs\<lparr>rv_bundles := bs\<rparr>) view r = Some (Inr (vs'\<lparr>rv_bundles := bs\<rparr>), r)"
    and "trusted r = sample_keys" "\<And>k. clean_for k r" "receiptKeys r = scenario_keys"
  obtains bs r' where "receipt_bundle scenario_env skip sid t vs r = Some (Inr (vs'\<lparr>rv_bundles := bs\<rparr>), r')"
    "\<And>k. clean_for k r'" "trusted r' = sample_keys" "receiptKeys r' = scenario_keys"
proof -
  let ?r = "info (lit ''=== Bundle: '' @ t @ lit '' ==='') r"
  obtain br r1 where v: "verifyBundle (env_crypto scenario_env) (env_os scenario_env) t skip no_walk_options ?r = Some (Inr br, r1)"
    "\<And>k. clean_for k r1" "trusted r1 = sample_keys" "failures r1 = failures ?r" "receiptKeys r1 = receiptKeys ?r"
    by (rule scenario_verified [OF assms(1-3), of ?r skip]) (use assms(6,7) in simp_all)
  have "verify_target scenario_env skip t r = Some (Inr (br, False), r1)"
    by (simp add: verify_target_def andthen_def perform_def compute_def v(1,4))
  then have "receipt_bundle scenario_env skip sid t vs r = Some (Inr (vs'\<lparr>rv_bundles := rv_bundles vs @ [short_info t br]\<rparr>), r1)"
    using assms(4,5) by (simp add: receipt_bundle_def andthen_def use_target_def)
  then show thesis by (rule that) (use v(2,3,5) assms(8) in \<open>simp_all add: info_def\<close>)
qed

lemma Receipt_scenario:
  "\<exists>v. Receipt scenario_env (lit ''d/f.json'') [lit ''r'', lit ''l''] scenario_options = Some v \<and> vd_ExitCode v = ExitPass"
proof -
  let ?skip = "opt_SkipAnchors scenario_options" let ?start = "newRun (env_embedded scenario_env) scenario_options"
  let ?doc = "\<lparr>rd_body = Some receipt_body, rd_signature = receipt_signature\<rparr>"
  let ?vs0 = "\<lparr>rv_bundles = [], rv_stream = None, rv_log = None\<rparr>" let ?sid = "Some (JString public_id)"
  obtain rv lv where l: "\<forall>r. loadVerifiedBundle (env_os scenario_env) (lit ''r'') r = Some (Inr rv, r)" "registry_view rv"
    "\<forall>r. loadVerifiedBundle (env_os scenario_env) (lit ''l'') r = Some (Inr lv, r)" "log_view lv"
    by (rule scenario_loads)
  have lm: "vb_manifest lv = Some log_md" by (rule log_view [OF l(4)])
  have vr: "view_for ?sid (lit ''r'') (vs\<lparr>rv_bundles := bs\<rparr>) rv r = Some (Inr (vs\<lparr>rv_stream := Some rv\<rparr>\<lparr>rv_bundles := bs\<rparr>), r)" for vs bs r
    using registry_view(1) [OF l(2)] by (simp add: view_for_def range_docs return_def)
  have vl: "view_for ?sid (lit ''l'') (vs\<lparr>rv_bundles := bs\<rparr>) lv r = Some (Inr (vs\<lparr>rv_log := Some lv\<rparr>\<lparr>rv_bundles := bs\<rparr>), r)" for vs bs r
    by (simp add: view_for_def range_docs lm return_def)
  obtain b1 r1 where v1: "receipt_bundle scenario_env ?skip ?sid (lit ''r'') ?vs0 ?start = Some (Inr (?vs0\<lparr>rv_stream := Some rv\<rparr>\<lparr>rv_bundles := b1\<rparr>), r1)"
    "\<And>k. clean_for k r1" "trusted r1 = sample_keys" "receiptKeys r1 = scenario_keys"
    by (rule scenario_target [OF registry_ok l(1) vr [where vs = ?vs0], of ?start ?skip]) (simp_all add: scenario_start new_run_clean)
  let ?vs1 = "?vs0\<lparr>rv_stream := Some rv\<rparr>\<lparr>rv_bundles := b1\<rparr>"
  obtain b2 r2 where v2: "receipt_bundle scenario_env ?skip ?sid (lit ''l'') ?vs1 r1 = Some (Inr (?vs1\<lparr>rv_log := Some lv\<rparr>\<lparr>rv_bundles := b2\<rparr>), r2)"
    "\<And>k. clean_for k r2" "receiptKeys r2 = scenario_keys"
    by (rule scenario_target [OF log_ok l(3) vl [where vs = ?vs1], of r1 ?skip]) (use v1 in simp_all)
  let ?r = "info (lit ''Checking the receipt...'') r2"
  have k: "receiptKeys ?r = scenario_keys" using v2(3) by (simp add: info_def)
  have j: "judge_receipt (\<lambda>_ _ _. True) (Some ?doc) True (?vs1\<lparr>rv_log := Some lv\<rparr>\<lparr>rv_bundles := b2\<rparr>) ?r =
      (Some (summary_of (Some receipt_body) (lit ''checked'')), ?r)"
    by (simp add: judge_receipt_def receipt_checked [OF k] subject_ok [OF l(2,4)])
  have "\<exists>x. receipt_run scenario_env (lit ''d/f.json'') [lit ''r'', lit ''l''] ?skip ?start = Some (Inr x, ?r)"
    using v1(1) v2(1) j
    by (simp add: receipt_run_def andthen_def scenario_receipt_read document_stream_def perform_def compute_def return_def scenario_ed)
  then obtain x where "receipt_run scenario_env (lit ''d/f.json'') [lit ''r'', lit ''l''] ?skip ?start = Some (Inr x, ?r)" ..
  moreover have "exitCode (results ?r) = ExitPass" using v2(2) exitCode_pass [of ?r] by simp
  ultimately show ?thesis by (cases x) (simp add: Receipt_def conclude_def Let_def finish_def)
qed

subsection \<open>The command on one bundle\<close>

definition command_env :: env where
  "command_env = sample_env\<lparr>env_embedded := \<lparr>EmbeddedKeys = sample_keys, EmbeddedTSARoots = [], EmbeddedReceiptKeys = Map.empty\<rparr>\<rparr>"

lemma command_args: "parse_args [lit ''p''] no_cli_options = (add_target (lit ''p'') no_cli_options, None)"
  "\<not> co_showHelp (add_target (lit ''p'') no_cli_options)"
proof -
  have "map_of switches (lit ''p'') = None" "map_of setters (lit ''p'') = None" "inline_setter (lit ''p'') = None"
    "\<not> has_prefix (lit ''p'') (lit ''--'')"
    by (simp_all add: switches_def setters_def inline_setter_def has_prefix_def lit_def)
  then show "parse_args [lit ''p''] no_cli_options = (add_target (lit ''p'') no_cli_options, None)" by simp
  show "\<not> co_showHelp (add_target (lit ''p'') no_cli_options)" by (simp add: add_target_def no_cli_options_def)
qed

lemma command_passes: "\<exists>out. run_command command_env usage [lit ''p''] = Some out \<and> out_code out = 0"
proof -
  let ?o = "cli_base (add_target (lit ''p'') no_cli_options)"
  have b: "bundle_at command_env (lit ''p'') sample_files sample_manifest"
    using sample_proven(1) [of "lit ''p''"] by (simp add: bundle_at_def command_env_def)
  have p: "proven command_env ?o sample_manifest sample_files"
    unfolding sample_manifest_def sample_files_def
    by (rule sealed_proven [OF sample_fits])
      (simp_all add: command_env_def sample_ed trusted_keys_def newRun_def cli_base_def)
  have l: "load_options command_env (add_target (lit ''p'') no_cli_options) = Inr ?o"
    by (simp add: load_options_def load_keys_def load_receipt_keys_def load_tsa_roots_def add_target_def no_cli_options_def)
  have s: "select_mode (add_target (lit ''p'') no_cli_options) = Inr (Mode_bundle (lit ''p''))"
    by (simp add: select_mode_def add_target_def no_cli_options_def)
  from Bundle_complete [OF b p sample_plain] command_args show ?thesis
    by (auto simp: run_command_def l s run_mode_def ExitPass_def)
qed

subsection \<open>A bundle and an extension of it\<close>

definition longer_contents :: "event_content list" where
  "longer_contents = [registry_content, registry_content]"

definition longer_md :: json where
  "longer_md = manifest_of [] 2 (JObject [(lit ''id'', JString registry_stream), (lit ''public_id'', JString public_id)])"

lemma longer_fits: "fitting registry_stream longer_contents" "manifest_fits longer_md registry_stream longer_contents"
proof -
  show "fitting registry_stream longer_contents"
    by (simp add: fitting_def content_ok_def longer_contents_def registry_content_def plain_doc_def)
  have st: "plain_doc 100 (JObject [(lit ''id'', JString registry_stream), (lit ''public_id'', JString public_id)])"
    by (rule plain_object; simp)
  have "plain_doc 1000 longer_md"
    unfolding longer_md_def manifest_of_def append_Nil
    by (rule plain_object; simp del: safe_json.simps(4) canon_sort.simps(2) add: signing_key_doc range_doc_sorted plain_docD [OF st])
      (simp_all add: sample_key_def)
  then show "manifest_fits longer_md registry_stream longer_contents"
    by (simp add: manifest_fits_def) (simp add: longer_md_def manifest_of_def longer_contents_def)
qed

definition longer_files :: reader where
  "longer_files = sealed_files longer_md registry_stream longer_contents"

definition longer_manifest :: manifest where
  "longer_manifest = sealed_manifest longer_md registry_stream longer_contents"

definition pair_env :: env where
  "pair_env = sample_env\<lparr>env_os := (\<lambda>p. if p = lit ''r'' then Directory registry_files else Directory longer_files)\<rparr>"

lemma pair_ok:
  "bundle_at pair_env (lit ''r'') registry_files registry_manifest" "proven pair_env sample_options registry_manifest registry_files"
  "bundle_at pair_env (lit ''n'') longer_files longer_manifest" "proven pair_env sample_options longer_manifest longer_files"
  "plain longer_manifest longer_files"
proof -
  have e: "cr_ed (env_crypto pair_env) = (\<lambda>_ _ _. True)" "trusted_keys pair_env sample_options = sample_keys"
    using sample_trusted by (simp_all add: pair_env_def sample_ed trusted_keys_def)
  show "bundle_at pair_env (lit ''r'') registry_files registry_manifest"
    using sealed_describes [OF registry_fits]
    by (simp add: bundle_at_def pair_env_def Open_bundle_def registry_files_def registry_manifest_def)
  show "proven pair_env sample_options registry_manifest registry_files"
    unfolding registry_manifest_def registry_files_def by (rule sealed_proven [OF registry_fits e])
  show "bundle_at pair_env (lit ''n'') longer_files longer_manifest"
    using sealed_describes [OF longer_fits]
    by (simp add: bundle_at_def pair_env_def Open_bundle_def longer_files_def longer_manifest_def)
  show "proven pair_env sample_options longer_manifest longer_files"
    unfolding longer_manifest_def longer_files_def by (rule sealed_proven [OF longer_fits e])
  show "plain longer_manifest longer_files"
    unfolding longer_manifest_def longer_files_def by (rule sealed_plain [OF longer_fits])
qed

lemma pair_extends:
  "mf_from registry_manifest = 1" "mf_from longer_manifest = 1" "mf_to registry_manifest = 1" "mf_to longer_manifest = 2"
  "mf_stream registry_manifest = mf_stream longer_manifest"
  "prefix (bundle_leaves registry_files) (bundle_leaves longer_files)"
proof -
  show "mf_from registry_manifest = 1" "mf_from longer_manifest = 1" "mf_to registry_manifest = 1" "mf_to longer_manifest = 2"
    "mf_stream registry_manifest = mf_stream longer_manifest"
    by (simp_all add: registry_manifest_def longer_manifest_def sealed_manifest_def longer_contents_def)
  show "prefix (bundle_leaves registry_files) (bundle_leaves longer_files)"
    unfolding bundle_leaves_def registry_files_def longer_files_def sealed_events_read [OF registry_fits(1)]
      sealed_events_read [OF longer_fits(1)]
    by (simp add: sealed_log_def longer_contents_def)
qed

lemma pair_passes:
  "\<exists>v. ConsistencyBundles pair_env (lit ''r'') (lit ''n'') sample_options = Some v \<and> vd_ExitCode v = ExitPass"
  by (rule ConsistencyBundles_complete [OF pair_ok(1,2) registry_ok(3) _ pair_ok(3-5)]) (simp_all add: pair_extends)

end
