(* ===== verification/Spec2Isabelle.thy ===== *)
theory Spec2Isabelle
  imports Scenario
begin

text \<open>
  The offline verifier of Sigilbase evidence bundles, \<open>sigilbase-verify\<close>.

  The program. A bundle is a directory or a zip archive of JSON files: a manifest, a log of events in which
  each entry names the hash of the one before, checkpoints that sign the Merkle root of a range of entries, and
  optional sections (redactions, declarations, RFC 3161 anchors, certificates of evidence, SigilSign blocks,
  collection records, recorded consistency states). The command reads bundles, recomputes every hash, checks
  every signature against keys it trusts, and ends with five results (content, signing identity, timestamps,
  scope, redactions) and an exit code: 0 pass, 1 fail, 2 error, 3 unconfirmed. It has five modes: one bundle,
  two bundles (is the new one an extension of the old?), one bundle against a recorded root, a receipt with up
  to two bundles, and a registry against its decision log.

  How the code is modelled. A Go string or byte slice is a list of 8-bit words (\<open>lit\<close> writes one from a
  literal); an \<open>int\<close> or \<open>int64\<close> is an \<open>int\<close>, wrapped with \<open>wrap64\<close> where the code can leave 64 bits;
  \<open>*cjson.Value\<close> is \<open>json option\<close>, nil being \<open>None\<close>; a struct is a record; an error result is a sum. The state
  of a verification, \<open>verify.Run\<close>, is the record \<open>run\<close>, passed and returned. A check that can stop the run with
  a hard error is an \<open>action\<close>, \<open>run => ((hard_error + 'a) * run) option\<close>, composed with \<open>andthen\<close>; \<open>None\<close> is a
  run that does not return. What the operating system, the build and the cryptographic packages give is the
  record \<open>env\<close>: what a path holds, the bytes of files, the listing of directories, the compiled-in key sets, the
  name, version and hash of the binary, and \<open>crypto\<close>.

  The theories, from the bottom, with the code under \<open>src/\<close> they model:

  \<^item> Prelude: bytes, literals, hexadecimal, 64-bit wrap-around. Sha256: SHA-256, and the locale \<open>digest\<close> of a
    hash function, interpreted on it. Utf8, Float64: what is used of \<open>unicode/utf8\<close>, \<open>strconv\<close> and \<open>float64\<close>.
  \<^item> Merkle, Consistency (\<open>internal/merkle\<close>): leaf and node hashes, the split point, the recursive root, the
    hash stack, audit paths; consistency proofs generated, verified and collected from a stream. Merkle_Facts
    has the refinement of the root by the stack (locale \<open>leaf_accumulator\<close>, given by every \<open>digest\<close>) and the
    soundness of audit paths up to a collision among named strings; Consistency_Facts the soundness and
    completeness of consistency proofs; Collector_Facts that the stream collector yields the generated proof.
  \<^item> Cjson_Value, Cjson_Parse, Cjson_Canonical (\<open>internal/cjson\<close>): values, the ordered members (locale
    \<open>ordered_map\<close>, interpreted on association lists and on the indexed object), the strict reader in both its
    modes, the RFC 8785 encoder. Cjson_Facts, Cjson_Roundtrip and Cjson_Sound: the key order (locale
    \<open>strict_key_order\<close>), that canonical bytes read back and identify a value, and what a value that was read
    satisfies.
  \<^item> Php_Compat, Php_Time (\<open>internal/phpcompat\<close>), Php_Value (\<open>verify/phpvalue.go\<close>): strict base64, casts,
    timestamps and the loose comparisons of PHP, on which the verdicts of the PHP twin depend.
  \<^item> Edsig (\<open>internal/edsig\<close>): libsodium's checks on the encodings before a signature is verified.
  \<^item> Bundle_Read (\<open>internal/bundle\<close>): opening, extraction of a zip into a table of names, bounded reads, lines.
    Bundle_Facts: names stay inside, the last entry wins, lines are the physical lines.
  \<^item> Tst_Der, Tst_Token, Tst_Crypto, Tst_Validate (\<open>internal/tst\<close>): DER, timestamp tokens, RSA signatures,
    certificates and their chains.
  \<^item> Report_Run (\<open>verify/report.go\<close>, \<open>verify/run.go\<close>), Action, Keys (\<open>verify/keys.go\<close>): results, run, actions,
    trusted keys and their windows.
  \<^item> Walk, Declarations, Collection, Sigilsign, Anchors, Verify (the files of those names in \<open>verify\<close>,
    \<open>consistency.go\<close> in Verify): the sections of a bundle verification, \<open>verifyBundle\<close>, and the modes \<open>Bundle\<close>,
    \<open>ConsistencyBundles\<close> and \<open>ConsistencyRecorded\<close>.
  \<^item> Receipts, Receipt_Mode, Registry, Reconcile, Reconcile_Mode (\<open>verify/receipts.go\<close>): receipt keys, the check
    of a receipt and of the records it names, the reading of a decision log, the ten rules of the
    reconciliation, and the modes \<open>Receipt\<close> and \<open>Reconcile\<close>.
  \<^item> Report_Doc (the \<open>MarshalJSON\<close> methods and \<open>JSON\<close>), Command (\<open>cmd/sigilbase-verify/main.go\<close>): the
    report as an ordered document and as text; arguments, files, choice of mode, the two streams, the exit code.

  The lemmas on whole runs:

  \<^item> Growth: every section only adds to a run (\<open>grows\<close>; the rules are collected in \<open>grow\<close>). Endings: every
    section returns a value or a hard error of code 1 or 2 (\<open>ends\<close>, collected in \<open>ending\<close>).
  \<^item> Walk_Facts, Bundle_Sound, Verdict_Sound: the specification of a bundle, stated on its documents alone
    (\<open>intact\<close>: the chain, the hashes, the checkpoints and their signatures; \<open>vouched\<close>: by trusted keys in their
    windows; \<open>proven\<close>: both), and that a verification whose results did not fail, or passed, implies it. The
    locale \<open>kept_verdict\<close> says what a later step cannot undo.
  \<^item> Completeness: the converse for a bundle of the three required files with all payloads (\<open>plain\<close>).
  \<^item> Receipt_Facts, Read_Back: a verified bundle is read back as what it holds (\<open>reads_back\<close>), and always can be; a
    receipt that passes is \<open>genuine\<close>. Reconcile_Facts, Reconcile_Sound, Reconcile_Run: each rule as a property of
    the registry and its log, and all of them (\<open>reconciled\<close>) from exit code 0.
  \<^item> Command_Facts: exit codes, what is written, and \<open>mode_holds\<close> from exit code 0 of the command.
  \<^item> Sample_Bundle, Sample_Registry, Scenario: sealed bundles, a registry with its log and a receipt, at which
    the theorems are applied. Their hashes are symbolic, so no SHA-256 of a document is run in a proof.

  This theory states the properties, each after its claim; a property with hypotheses is followed by its
  application at such inputs.

  Bounds and termination. Recursion over files and documents is structural or on their length. The reader stops
  at nesting 512, a line at 64 MiB, an entry at 64 GiB, as in the code. The one loop that may not end is the
  doubling in \<open>SplitPoint\<close>, which wraps above 2^62 leaves, first to a negative number and then to zero, and goes
  on: \<open>split_loop\<close> is a \<open>partial_function\<close>, and not returning is the value \<open>None\<close>. No definition has fuel. Only the plan of a proof between two bundles reaches it; every other mode is proved
  to return, and theorems on consistent bundles that a proof is generated assume at most 2^62 entries.

  Hypotheses. No theorem assumes SHA-256 free of collisions: where it matters the conclusion names the strings
  among which a collision would have to be. Nothing is assumed of Ed25519: \<open>intact\<close>, \<open>vouched\<close> and \<open>genuine\<close> say
  that the signature check of the parameter accepts.

  Not modelled. DEFLATE, the zip container and its directory, and the file system are the parameters of
  Bundle_Read and \<open>env\<close> (standard library and operating system). Ed25519, ECDSA on the NIST curves, MD5, SHA-1,
  SHA-224, SHA-384 and SHA-512 are functions of \<open>crypto\<close>; RSA is modelled. The key sets compiled in with
  \<open>go:embed\<close> are data, given in \<open>embedded\<close>. \<open>strings.ToLower\<close> and \<open>ToUpper\<close> are modelled on ASCII: the texts that
  the code compares after it are hexadecimal, and a text with other letters fails those comparisons
  either way. The usage text is an argument of \<open>run_command\<close>. Encoding the report cannot fail on its types, so
  that error branch has no counterpart; a list of bundles is never nil in a finished report, so it is never null.
  An error of the operating system in the middle of a read has no counterpart, and the messages on a file of a
  directory name the file without the directory. \<open>intact\<close> says nothing of the root of a checkpoint whose range
  begins below 1, where the code's count of leaves can wrap. The tools under \<open>src/tools\<close> and
  \<open>src/internal/difftest\<close> generate bundles and drive the PHP and Go verifiers as processes to compare them: they
  are no part of the verifier.
\<close>

subsection \<open>Concrete documents and archives\<close>

lemma Parse_example: "Parse (lit ''{\"a\":[7]}'') = Inr (JObject [(lit ''a'', JArray [JInt 7])])"
proof -
  let ?v = "JObject [(lit ''a'', JArray [JInt 7])]"
  have "DecodeRune (lit ''a'') = (97, 1)" by code_simp
  then have "ValidString (lit ''a'')"
    by (subst ValidString.simps) (simp add: lit_simps malformed_def ValidString.simps [of "[]"])
  moreover have "starts 0 (lit ''a'') = False" by code_simp
  ultimately have "json_ok ?v" by simp
  moreover have "canon ?v = Inr (lit ''{\"a\":[7]}'')" by code_simp
  moreover have "json_depth ?v < maxDepth" by (simp add: maxDepth_def)
  moreover have "canon_sort ?v = ?v" by (simp add: sort_keys_def)
  ultimately show ?thesis by (simp only: Parse_canon)
qed

lemma Canonical_example:
  "Canonical (Some (JObject [(lit ''a'', JArray [JInt 7])])) = Inr (lit ''{\"a\":[7]}'')"
  by code_simp

definition entry_example :: zip_entry where
  "entry_example = \<lparr>ze_name = lit ''d/f'', ze_flags = 0, ze_data = Some [1]\<rparr>"

lemma extract_example: "extract_zip [entry_example] = Some [lit ''d/f'' \<mapsto> entry_example]"
proof -
  have "phpZipPath (lit ''d/f'') = Some (lit ''d/f'')" by code_simp
  moreover have "has_suffix (lit ''d/f'') [47] = False" by code_simp
  moreover have "dir_of (lit ''d/f'') = lit ''d''" "path_prefixes (lit ''d'') = [lit ''d'']" "lit ''d'' \<noteq> []" "lit ''d/f'' \<noteq> lit ''d''" by code_simp+
  ultimately show ?thesis
    by (simp add: extract_zip_def extract_entry_def entry_example_def entryReadable_def MaxEntryBytes_def mkdirAll_def fun_eq_iff)
qed

subsection \<open>Properties\<close>

text \<open>C8. Soundness of consistency proofs: when the verifier accepts a consistency proof between the
  recomputed roots of two leaf lists, the old list is a prefix of the new one, unless the strings
  hashed on the way (leaves and interior nodes of both trees, and the nodes recomputed from the
  proof) contain a SHA-256 collision.\<close>

theorem consistency_accepts_only_prefixes:
  assumes "ConsistencyVerify sha256 (int (length xs)) (int (length ys)) (root sha256 xs) (root sha256 ys) proof'"
  shows "xs = take (length xs) ys \<or>
    collision sha256 (root_calls sha256 xs \<union> root_calls sha256 ys \<union>
      consistency_calls sha256 (int (length xs)) (int (length ys)) (root sha256 xs) proof')"
  using sha.ConsistencyVerify_prefix [OF _ _ _ _ assms] by (fastforce simp: collision_iff)

theorem consistency_accepts_only_prefixes_witness:
  "[[1]] = take (length [[1 :: byte]]) [[1], [2 :: byte]] \<or>
    collision sha256 (root_calls sha256 [[1]] \<union> root_calls sha256 [[1], [2]] \<union>
      consistency_calls sha256 (int (length [[1 :: byte]])) (int (length [[1], [2 :: byte]]))
        (root sha256 [[1]]) [LeafHash sha256 [2]])"
proof (rule consistency_accepts_only_prefixes)
  have "split_point (Suc (Suc 0)) = 1" using split_point_eq [of 0 "Suc (Suc 0)"] by simp
  then show "ConsistencyVerify sha256 (int (length [[1 :: byte]])) (int (length [[1], [2 :: byte]]))
      (root sha256 [[1]]) (root sha256 [[1], [2]]) [LeafHash sha256 [2]]"
    using ConsistencyVerify_complete [where H = sha256 and ys = "[[1], [2]]" and m = 1]
    by (simp add: ConsistencyProof_def subproof.simps)
qed


text \<open>C18. Completeness of consistency proofs: the proof the generator makes for a prefix of a leaf list
  is accepted against the roots of the prefix and of the whole list.\<close>

theorem generated_consistency_proof_accepted:
  assumes "ConsistencyProof sha256 ys (int m) = Inr proof'" "0 < m" "m \<le> length ys"
  shows "ConsistencyVerify sha256 (int m) (int (length ys)) (root sha256 (take m ys)) (root sha256 ys) proof'"
  by (rule ConsistencyVerify_complete [OF assms])

theorem generated_consistency_proof_accepted_witness:
  "ConsistencyVerify sha256 (int 2) (int (length [[1], [2 :: byte]]))
     (root sha256 (take 2 [[1], [2]])) (root sha256 [[1], [2]]) []"
  by (rule generated_consistency_proof_accepted) (simp_all add: ConsistencyProof_def)

text \<open>C19. The streaming collector refines the recursive generator: fed the leaves one at a time it
  holds, at the end, exactly the proof the recursion over the whole leaf list produces.\<close>

theorem collector_refines_generator:
  assumes "0 < m" "m \<le> length xs" "int (length xs) \<le> 2 ^ 62"
  shows "\<exists>c. NewCollector (int m) (int (length xs)) = Some (Inr c) \<and>
    Collector_Nodes sha256 (fold (Collector_Append sha256) xs c) = ConsistencyProof sha256 xs (int m)"
  by (rule sha.Collector_generates [OF assms])

theorem collector_refines_generator_witness:
  "\<exists>c. NewCollector (int 1) (int (length [[1], [2], [3 :: byte]])) = Some (Inr c) \<and>
    Collector_Nodes sha256 (fold (Collector_Append sha256) [[1], [2], [3]] c) =
      ConsistencyProof sha256 [[1], [2], [3]] (int 1)"
  by (rule collector_refines_generator) simp_all

text \<open>C20. Above 2^62 leaves the split point's doubling wraps to a negative number and never ends, so
  planning a collector for such a range does not return.\<close>

theorem collector_plan_diverges_past_2_62:
  assumes "1 \<le> m" "m < n" "2 ^ 62 < n" "n < 2 ^ 63"
  shows "NewCollector m n = None"
  by (rule NewCollector_diverges [OF assms])

theorem collector_plan_diverges_past_2_62_witness: "NewCollector 1 (2 ^ 62 + 1) = None"
  by (rule collector_plan_diverges_past_2_62) simp_all

text \<open>C21. The incremental hash stack refines the recursive tree: after any leaves its root is the root
  of their list, it reports no root while it has none, and a reset forgets what came before.\<close>

theorem stack_root_is_tree_root:
  "Stack_Root sha256 (fold (Stack_Append sha256) ys (Stack_Reset (fold (Stack_Append sha256) xs new_stack))) =
     (if ys = [] then None else Some (root sha256 ys))"
  by (rule sha.stk.result_after_reset)

text \<open>C22. An audit path that folds to the root of a leaf list proves its entry is one of the leaves,
  unless the strings hashed contain a SHA-256 collision.\<close>

theorem audit_path_proves_membership:
  assumes "AuditPath sha256 e path = root sha256 xs" "xs \<noteq> []"
  shows "e \<in> set xs \<or>
    collision sha256 (root_calls sha256 xs \<union> insert (0x00 # e) (audit_calls sha256 (LeafHash sha256 e) path))"
  using sha.AuditPath_sound [OF _ assms(2) _ _ assms(1)] by (fastforce simp: collision_iff)

theorem audit_path_proves_membership_witness:
  "[7] \<in> set [[7 :: byte]] \<or>
    collision sha256 (root_calls sha256 [[7]] \<union> insert (0x00 # [7]) (audit_calls sha256 (LeafHash sha256 [7]) []))"
  by (rule audit_path_proves_membership) (simp_all add: AuditPath_def)

text \<open>C17. What the parser accepts is well formed: every string and key is valid UTF-8, no object has a
  key twice, every integer fits 64 bits, and the nesting is below the limit.\<close>

theorem parsed_documents_are_well_formed:
  assumes "Parse data = Inr v"
  shows "json_ok v \<and> json_int64 v \<and> json_depth v < maxDepth"
  by (rule Parse_sound [OF assms])

theorem parsed_documents_are_well_formed_witness:
  "json_ok (JObject [(lit ''a'', JArray [JInt 7])]) \<and> json_int64 (JObject [(lit ''a'', JArray [JInt 7])]) \<and> json_depth (JObject [(lit ''a'', JArray [JInt 7])]) < maxDepth"
  by (rule parsed_documents_are_well_formed [OF Parse_example])

text \<open>C16. Canonical bytes parse back: reading what the serialiser wrote for a parsed document gives the
  document again, its members in canonical order.\<close>

theorem canonical_bytes_parse_back:
  assumes "Parse data = Inr v" "Canonical (Some v) = Inr bs"
  shows "Parse bs = Inr (canon_sort v)"
  by (rule Parse_Canonical_Parse [OF assms])

theorem canonical_bytes_parse_back_witness:
  "Parse (lit ''{\"a\":[7]}'') = Inr (canon_sort (JObject [(lit ''a'', JArray [JInt 7])]))"
  by (rule canonical_bytes_parse_back [OF Parse_example Canonical_example])

text \<open>C15. Canonical bytes identify a document: two parsed documents with the same canonical bytes are
  the same up to the order of their members.\<close>

theorem canonical_bytes_identify_documents:
  assumes "Parse data = Inr v" "Parse data' = Inr w" "Canonical (Some v) = Canonical (Some w)"
    and "\<not> isl (Canonical (Some v))"
  shows "canon_sort v = canon_sort w"
proof -
  obtain bs where "Canonical (Some v) = Inr bs" using assms(4) by (cases "Canonical (Some v)") auto
  with assms(3) show ?thesis using Canonical_inj_on_documents [OF assms(1,2)] by metis
qed

theorem canonical_bytes_identify_documents_witness:
  "canon_sort (JObject [(lit ''a'', JArray [JInt 7])]) = canon_sort (JObject [(lit ''a'', JArray [JInt 7])])"
  by (rule canonical_bytes_identify_documents [OF Parse_example Parse_example])
    (simp_all add: Canonical_example)

text \<open>C23. The members of a canonical object are in the one order that is strictly increasing in UTF-16
  code units.\<close>

theorem canonical_member_order_unique:
  assumes "good_keys ps"
  shows "set qs = set ps \<and> sorted_wrt (\<lambda>p q. compareUTF16 (fst p) (fst q) < 0) qs \<longleftrightarrow> qs = sort_keys ps"
  using sort_keys_unique [OF assms, of qs] sort_keys_sorted [OF assms] set_sort_keys [of ps]
  by (auto simp: key_less_def)

theorem canonical_member_order_unique_witness:
  "set [([] :: bytes, 0 :: nat)] = set [([], 0)] \<and> sorted_wrt (\<lambda>p q. compareUTF16 (fst p) (fst q) < 0) [([], 0 :: nat)] \<longleftrightarrow>
     [([], 0 :: nat)] = sort_keys [([], 0)]"
  by (rule canonical_member_order_unique [of "[([], 0)]" "[([], 0)]"]) (simp add: ValidString.simps [of "[]"])

text \<open>C24. The indexed object refines association lists: whatever is set and deleted, its entries are
  those of the list operations and a lookup finds what the list has.\<close>

theorem members_refine_assoc_lists:
  "members_entries (fold (\<lambda>(k, c). case c of None \<Rightarrow> members_Delete k | Some v \<Rightarrow> members_Set k v) cs NewObject) =
     fold (\<lambda>(k, c). case c of None \<Rightarrow> AList.delete k | Some v \<Rightarrow> AList.update k v) cs [] \<and>
   members_Get key (fold (\<lambda>(k, c). case c of None \<Rightarrow> members_Delete k | Some v \<Rightarrow> members_Set k v) cs NewObject) =
     (case map_of (rev cs) key of None \<Rightarrow> None | Some c \<Rightarrow> c)"
  using gomap.entries_fold_changes [OF gomap.empty_ok, of cs] gomap.get_fold_changes [OF gomap.empty_ok, of key cs]
  by (auto simp: gomap.empty_entries gomap.get_entries [OF gomap.empty_ok] split: option.splits)

text \<open>C25. The base64 state machine computes the strict decoding of PHP: blanks dropped, the padding
  only at the end and complete, the rest read in base 64.\<close>

theorem base64_decodes_strictly: "Base64Strict s = b64_spec s"
  by (rule Base64Strict_spec)

text \<open>C26. The float cast is truncation modulo 2^64, with NaN and the infinities giving zero.\<close>

theorem float_cast_wraps: "FloatToInt f = wrap64 (ftrunc f)"
  by (rule FloatToInt_wrap)

text \<open>C27. An accepted signature has passed the libsodium encoding checks: lengths, a reduced public
  key, and no small-order point for the key or the nonce.\<close>

theorem accepted_signature_is_well_encoded:
  assumes "Verify ed_verify pub message sig"
  shows "length pub = 32 \<and> length sig = 64 \<and> le_val (clear_sign pub) < field_p \<and>
    clear_sign pub \<notin> set smallOrder \<and> clear_sign (take 32 sig) \<notin> set smallOrder \<and> ed_verify pub message sig"
  by (rule Verify_guards [OF assms])

theorem accepted_signature_is_well_encoded_witness:
  "length (replicate 32 (2 :: byte)) = 32 \<and> length (replicate 64 (3 :: byte)) = 64 \<and>
    le_val (clear_sign (replicate 32 2)) < field_p \<and> clear_sign (replicate 32 2) \<notin> set smallOrder \<and>
    clear_sign (take 32 (replicate 64 3)) \<notin> set smallOrder \<and> True"
proof -
  have "Verify (\<lambda>_ _ _. True) (replicate 32 2) [] (replicate 64 3)" by code_simp
  from accepted_signature_is_well_encoded [OF this] show ?thesis by simp
qed

text \<open>C28. A zip entry is never extracted outside the bundle: no component of an extracted name is a
  parent reference, and no extracted file is a directory of another.\<close>

theorem extraction_stays_inside:
  assumes "extract_zip es = Some files" "files name = Some f"
  shows "entryReadable f \<and> dotdot \<notin> set (split_byte 47 name) \<and>
    (\<forall>p \<in> set (path_prefixes (dir_of name)). dir_of name \<noteq> [] \<longrightarrow> files p = None)"
  by (rule extract_zip_props(2) [OF assms])

theorem extraction_stays_inside_witness:
  "entryReadable entry_example \<and> dotdot \<notin> set (split_byte 47 (lit ''d/f''))"
  using extraction_stays_inside [OF extract_example, of "lit ''d/f''" entry_example] by simp

text \<open>C29. The last entry of a name is the one read.\<close>

theorem last_entry_of_a_name_wins:
  assumes "extract_zip es = Some files"
  shows "files name = find (\<lambda>f. entry_key f = Some name) (rev es)"
  by (rule extract_zip_props(1) [OF assms])

theorem last_entry_of_a_name_wins_witness:
  "[lit ''d/f'' \<mapsto> entry_example] (lit ''d/f'') = find (\<lambda>f. entry_key f = Some (lit ''d/f'')) (rev [entry_example])"
  by (rule last_entry_of_a_name_wins [OF extract_example])

text \<open>C30. The line reader yields the physical lines, terminators cut, up to the first over-long one,
  and ends with an error exactly when there is such a line.\<close>

theorem lines_are_the_physical_lines:
  "fst (all_lines (NewLines s)) = map trim_eol (takeWhile short_line (phys_lines s)) \<and>
   (l_err (snd (all_lines (NewLines s))) = None \<longleftrightarrow> list_all short_line (phys_lines s)) \<and>
   l_number (snd (all_lines (NewLines s))) + 1 = int (length (fst (all_lines (NewLines s))))"
  using all_lines_spec [of "NewLines s"] by (simp add: NewLines_def list_all_iff)

subsection \<open>Whole verifications\<close>

text \<open>C1. Exit code 0 means verified: the bundle opens, its manifest reads, its events are all there, in
  order, chained and hashed, its checkpoints are chained and signed over exactly those events' entry
  hashes, every one by a key of the trusted set inside that key's window, up to the end of the range.\<close>

theorem exit_zero_means_verified:
  assumes "Bundle e path opts = Some v" "vd_ExitCode v = ExitPass"
  shows "\<exists>b mf. bundle_at e path b mf \<and> intact (cr_ed (env_crypto e)) (trusted_keys e opts) mf b \<and>
    vouched (trusted_keys e opts) mf b"
  using Bundle_pass [OF assms] unfolding proven_def .

theorem exit_zero_means_verified_witness:
  "\<exists>b mf. bundle_at sample_env (lit ''p'') b mf \<and>
    intact (cr_ed (env_crypto sample_env)) (trusted_keys sample_env sample_options) mf b \<and>
    vouched (trusted_keys sample_env sample_options) mf b"
proof -
  obtain v where "Bundle sample_env (lit ''p'') sample_options = Some v" "vd_ExitCode v = ExitPass"
    using sample_passes by blast
  then show ?thesis by (rule exit_zero_means_verified)
qed

text \<open>C11. The content result alone: whatever the other results say, a verdict that is not a hard error and
  does not fail content integrity comes from a bundle whose content holds together.\<close>

theorem content_result_means_intact:
  assumes "Bundle e path opts = Some v" "\<not> vd_Hard v" "vd_Results v ResultContent \<noteq> StateFail"
  shows "\<exists>b mf. bundle_at e path b mf \<and> intact (cr_ed (env_crypto e)) (trusted_keys e opts) mf b"
  by (rule Bundle_content [OF assms])

theorem content_result_means_intact_witness:
  "\<exists>b mf. bundle_at sample_env (lit ''p'') b mf \<and>
    intact (cr_ed (env_crypto sample_env)) (trusted_keys sample_env sample_options) mf b"
proof -
  obtain v where "Bundle sample_env (lit ''p'') sample_options = Some v" "\<not> vd_Hard v" "vd_Results v ResultContent \<noteq> StateFail"
    by (rule sample_verdict)
  then show ?thesis by (rule content_result_means_intact)
qed

text \<open>C9. A recorded root is the root of the bundle's prefix: with exit code 0, the root another party kept
  for a tree size is the Merkle root of the first entries of the verified bundle, in that number.\<close>

theorem recorded_root_is_prefix_root:
  assumes "ConsistencyRecorded e path rootText sz opts = Some v" "vd_ExitCode v = ExitPass"
  shows "\<exists>b mf. bundle_at e path b mf \<and> proven e opts mf b \<and> mf_from mf = 1 \<and> 1 \<le> sz \<and> sz \<le> mf_to mf \<and>
    lower rootText = hex_text (prefix_root b sz)"
  by (rule ConsistencyRecorded_pass [OF assms])

theorem recorded_root_is_prefix_root_witness:
  "\<exists>b mf. bundle_at sample_env (lit ''p'') b mf \<and> proven sample_env sample_options mf b \<and> mf_from mf = 1 \<and> 1 \<le> (1 :: int) \<and>
    1 \<le> mf_to mf \<and> lower sample_root = hex_text (prefix_root b 1)"
proof -
  obtain v where "ConsistencyRecorded sample_env (lit ''p'') sample_root 1 sample_options = Some v" "vd_ExitCode v = ExitPass"
    using sample_recorded_passes by blast
  then show ?thesis by (rule recorded_root_is_prefix_root)
qed

text \<open>C2. Two bundles that pass as consistent share their history: both are verified, for one stream, from
  sequence 1, and the canonical bytes of the old bundle's entries are a prefix of the new one's, unless
  the strings hashed on the way contain a SHA-256 collision.\<close>

theorem consistent_bundles_share_history:
  assumes "ConsistencyBundles e oldPath newPath opts = Some v" "vd_ExitCode v = ExitPass"
  shows "\<exists>bo mo bn mn. bundle_at e oldPath bo mo \<and> bundle_at e newPath bn mn \<and> proven e opts mo bo \<and> proven e opts mn bn \<and>
    mf_stream mo = mf_stream mn \<and>
    (prefix (log_entries mo bo) (log_entries mn bn) \<or>
     collision sha256 (hashed (log_entries mo bo) \<union> hashed (take (length (log_entries mo bo)) (log_entries mn bn))))"
proof -
  obtain bo mo bn mn where b: "bundle_at e oldPath bo mo" "bundle_at e newPath bn mn" "proven e opts mo bo" "proven e opts mn bn"
    "mf_stream mo = mf_stream mn" "mf_from mo = 1" "mf_from mn = 1" "mf_to mo \<le> mf_to mn"
    "prefix_root bo (mf_to mo) = prefix_root bn (mf_to mo)"
    using ConsistencyBundles_pass [OF assms] by blast
  then have "intact (cr_ed (env_crypto e)) (trusted_keys e opts) mo bo" "intact (cr_ed (env_crypto e)) (trusted_keys e opts) mn bn"
    by (simp_all add: proven_def)
  from common_history [OF this b(6-9)] b(1-5) show ?thesis by blast
qed

theorem consistent_bundles_share_history_witness:
  "\<exists>bo mo bn mn. bundle_at pair_env (lit ''r'') bo mo \<and> bundle_at pair_env (lit ''n'') bn mn \<and>
    proven pair_env sample_options mo bo \<and> proven pair_env sample_options mn bn \<and> mf_stream mo = mf_stream mn \<and>
    (prefix (log_entries mo bo) (log_entries mn bn) \<or>
     collision sha256 (hashed (log_entries mo bo) \<union> hashed (take (length (log_entries mo bo)) (log_entries mn bn))))"
proof -
  obtain v where "ConsistencyBundles pair_env (lit ''r'') (lit ''n'') sample_options = Some v" "vd_ExitCode v = ExitPass"
    using pair_passes by blast
  then show ?thesis by (rule consistent_bundles_share_history)
qed

text \<open>C7. No false alarm: a bundle of the three required files whose content is intact, whose checkpoints
  trusted keys signed, and whose payloads are all present, is verified with exit code 0. \<open>plain\<close> also asks for
  lines within the limit, ranges of checkpoints that are not empty, and a manifest without certificates in a
  format before 1.6, which need not carry collection records.\<close>

theorem intact_bundle_passes:
  assumes "bundle_at e path b mf" "intact (cr_ed (env_crypto e)) (trusted_keys e opts) mf b"
    and "vouched (trusted_keys e opts) mf b" "plain mf b"
  shows "\<exists>v. Bundle e path opts = Some v \<and> vd_ExitCode v = ExitPass"
  using Bundle_complete [OF assms(1) _ assms(4)] assms(2,3) by (simp add: proven_def)

theorem intact_bundle_passes_witness:
  "\<exists>v. Bundle sample_env (lit ''p'') sample_options = Some v \<and> vd_ExitCode v = ExitPass"
  by (rule intact_bundle_passes [OF sample_proven(1) _ _ sample_plain]) (use sample_proven(2) in \<open>simp_all add: proven_def\<close>)

text \<open>C10. An honest extension passes: two verified plain bundles of one stream from sequence 1, the older one's entry
  hashes a prefix of the newer one's, are consistent with exit code 0; the generated proof verifies.\<close>

theorem honest_extension_passes:
  assumes "bundle_at e oldPath bo mo" "proven e opts mo bo" "plain mo bo" "mf_from mo = 1"
    and "bundle_at e newPath bn mn" "proven e opts mn bn" "plain mn bn" "mf_from mn = 1"
    and "mf_stream mo = mf_stream mn" "prefix (bundle_leaves bo) (bundle_leaves bn)" "mf_to mn \<le> 2 ^ 62"
  shows "\<exists>v. ConsistencyBundles e oldPath newPath opts = Some v \<and> vd_ExitCode v = ExitPass"
  by (rule ConsistencyBundles_complete [OF assms])

theorem honest_extension_passes_witness:
  "\<exists>v. ConsistencyBundles pair_env (lit ''r'') (lit ''n'') sample_options = Some v \<and> vd_ExitCode v = ExitPass"
  by (rule honest_extension_passes [OF pair_ok(1,2) registry_ok(3) _ pair_ok(3-5)]) (simp_all add: pair_extends)

text \<open>C13. A verification of one bundle always returns a verdict, whatever the files hold.\<close>

theorem verification_always_returns:
  "(\<exists>v. Bundle e path opts = Some v) \<and> (\<exists>v. ConsistencyRecorded e path rootText sz opts = Some v)"
  using Bundle_returns ConsistencyRecorded_returns by blast

text \<open>C14. A verification that stops on a hard error exits with 1 or 2 and says so, never with the codes of
  a finished verification that did not fail.\<close>

theorem hard_errors_exit_one_or_two:
  assumes "Bundle e path opts = Some v" "vd_Hard v"
  shows "vd_ExitCode v \<in> {ExitFail, ExitError} \<and> vd_Result v = lit ''error''"
  by (rule Bundle_hard [OF assms])

theorem hard_errors_exit_one_or_two_witness:
  "vd_ExitCode missing_verdict \<in> {ExitFail, ExitError} \<and> vd_Result missing_verdict = lit ''error''"
  by (rule hard_errors_exit_one_or_two [OF missing_bundle])

text \<open>C12. Nothing recorded is taken back: a verification only adds to the failures and notes of its run, no
  result improves, and a new failure leaves exit code 1.\<close>

theorem failures_are_never_retracted:
  assumes "verifyBundle cr os target skip wopts r = Some (x, r')"
  shows "(\<forall>k. results r k \<le> results r' k) \<and> prefix (failures r) (failures r') \<and> prefix (run_notes r) (run_notes r') \<and>
    (failures r' = failures r \<or> exitCode (results r') = ExitFail)"
  using growingD [OF growing_verifyBundle assms] exitCode_cases(2) [of "results r'"] by (auto simp: grows_def)

theorem failures_are_never_retracted_witness:
  "(\<forall>k. results sample_run k \<le> results sample_run k) \<and> prefix (failures sample_run) (failures sample_run) \<and>
    prefix (run_notes sample_run) (run_notes sample_run) \<and>
    (failures sample_run = failures sample_run \<or> exitCode (results sample_run) = ExitFail)"
proof (rule failures_are_never_retracted)
  show "verifyBundle sample_crypto (\<lambda>_. Neither) [] False no_walk_options sample_run =
      Some (Inl (hard (lit ''bundle ['' @ [] @ lit ''] does not exist'') 2), sample_run)"
    by (simp add: verifyBundle_def andthen_def lift_def Open_bundle_def)
qed

subsection \<open>Receipts and the reconciliation\<close>

text \<open>C4. A receipt that passes is genuine: with exit code 0 the document is at the path, has the fields of the
  format, and carries a signature of its canonical body by a key of the trusted set inside its window. Every
  bundle given with it is verified. When its subject was checked, the decision record, the accepted event and
  the seal in those bundles are the ones the receipt names.\<close>

theorem passing_receipt_is_genuine:
  assumes "Receipt e path targets opts = Some v" "vd_ExitCode v = ExitPass"
  shows "\<exists>d subj vs. receipt_at e path d \<and>
    genuine (cr_ed (env_crypto e)) (trusted_receipt_keys e opts) (rd_body d) (rd_signature d) \<and>
    (\<forall>t \<in> set targets. \<exists>b mf. bundle_at e t b mf \<and> proven e opts mf b) \<and>
    vd_Receipt v = Some (summary_of (rd_body d) subj) \<and>
    (subj = lit ''checked'' \<longrightarrow> views_ok e opts targets (Field (rd_body d) (lit ''stream'')) vs \<and>
       subject_holds (rd_body d) (rv_stream vs) (rv_log vs))"
  by (rule Receipt_pass [OF assms])

theorem passing_receipt_is_genuine_witness:
  "\<exists>d. receipt_at scenario_env (lit ''d/f.json'') d \<and>
    genuine (cr_ed (env_crypto scenario_env)) (trusted_receipt_keys scenario_env scenario_options) (rd_body d) (rd_signature d)"
proof -
  obtain v where "Receipt scenario_env (lit ''d/f.json'') [lit ''r'', lit ''l''] scenario_options = Some v" "vd_ExitCode v = ExitPass"
    using Receipt_scenario by blast
  from passing_receipt_is_genuine [OF this] show ?thesis by blast
qed

text \<open>C3. A registry that reconciles is accounted for: with exit code 0 both bundles are verified, and in what they
  hold every event of the registry's range is accepted by exactly one record of the log, every accepting record
  names an event of the registry as it is held there, and no two of them share a commitment key.\<close>

theorem reconciled_registry_is_accounted_for:
  assumes "Reconcile e registryPath logPath receiptsDir opts = Some v" "vd_ExitCode v = ExitPass"
  shows "\<exists>b mf b' mf' registry log'.
    bundle_at e registryPath b mf \<and> proven e opts mf b \<and> reads_back mf b registry \<and>
    bundle_at e logPath b' mf' \<and> proven e opts mf' b' \<and> reads_back mf' b' log' \<and>
    mset (map accepts (log_acceptances log')) = mset (map Some [mf_from mf..mf_to mf]) \<and>
    list_all (acceptance_held registry) (log_acceptances log') \<and> distinct (map ra_key (log_acceptances log'))"
  using Reconcile_pass [OF assms, of undefined] reconciled_events by metis

theorem reconciled_registry_is_accounted_for_witness:
  "\<exists>b mf b' mf' registry log'.
    bundle_at scenario_env (lit ''r'') b mf \<and> proven scenario_env scenario_options mf b \<and> reads_back mf b registry \<and>
    bundle_at scenario_env (lit ''l'') b' mf' \<and> proven scenario_env scenario_options mf' b' \<and> reads_back mf' b' log' \<and>
    mset (map accepts (log_acceptances log')) = mset (map Some [mf_from mf..mf_to mf]) \<and>
    list_all (acceptance_held registry) (log_acceptances log') \<and> distinct (map ra_key (log_acceptances log'))"
proof -
  obtain v where "Reconcile scenario_env (lit ''r'') (lit ''l'') (Some (lit ''d'')) scenario_options = Some v" "vd_ExitCode v = ExitPass"
    using Reconcile_scenario by blast
  then show ?thesis by (rule reconciled_registry_is_accounted_for)
qed



text \<open>C31. The check of a receipt accepts exactly the genuine ones, and then leaves the run as it was: nothing is
  reported, no result is lowered.\<close>

theorem receipt_check_accepts_exactly_genuine:
  "checkReceipt ed body signature label r = (True, r') \<longleftrightarrow> r' = r \<and> genuine ed (receiptKeys r) body signature"
  by (rule checkReceipt_true)

text \<open>C32. The log is read faithfully: the acceptances the rules are checked on are exactly the accepting records of
  the log, in its order, whatever else it holds and whatever was reported while reading.\<close>

theorem log_reading_finds_the_acceptances:
  "rl_accepted (fst (readRegistryLog log' order r)) = map (acceptance_of log') (filter (is_acceptance log') order)"
  by (rule log_accepted)

text \<open>C35. Times are compared to the nanosecond: split into seconds and nanoseconds, the comparison that decides a
  deadline and the one that decides the notice of a policy are those of the instants.\<close>

theorem deadlines_compare_instants:
  "(afterPlusSeconds at n than \<longleftrightarrow> than < at + n * second) \<and>
   (effectiveBeforeNotice effective recorded n \<longleftrightarrow> effective < recorded + n * second)"
  by (simp add: afterPlusSeconds_iff effectiveBeforeNotice_iff)

text \<open>C34. A receipt key set names its keys by what they are: a set is either refused with a message that says which
  file it is, or every key in it is 32 bytes of hex and its name is the SHA-256 of those bytes.\<close>

theorem receipt_keys_named_by_hash:
  "case parseReceiptKeySet data source of
     Inl message \<Rightarrow> prefix source message
   | Inr ks \<Rightarrow> \<forall>kid k. case ks kid of
       None \<Rightarrow> True
     | Some key \<Rightarrow> \<exists>raw. hexBytes (rk_publicKey key) = Some raw \<and> length raw = 32 \<and> kid = sha256Hex raw"
proof -
  have "receipt_entries source es ks = Inl message \<Longrightarrow> prefix source message" for es ks message
    by (induction source es ks rule: receipt_entries.induct) (auto simp: Let_def bad_key_entry_def split: option.splits if_splits)
  moreover have "keys_named ks" if "parseReceiptKeySet data source = Inr ks" for ks by (rule parseReceiptKeySet_named [OF that])
  ultimately show ?thesis
    by (auto simp: parseReceiptKeySet_def Let_def keys_named_def split: sum.split option.split if_splits)
qed

text \<open>C33. A bundle that verifies can be read back, in any format and with any sections: the reader the receipt and
  reconcile modes use finds, without an error and without touching the run, the manifest, the events by their
  sequence, their order and the checkpoints of the bundle that was verified.\<close>

theorem verified_bundle_reads_back:
  assumes "Bundle e target opts = Some v" "vd_ExitCode v = ExitPass"
  shows "\<exists>b mf view. bundle_at e target b mf \<and> proven e opts mf b \<and>
    loadVerifiedBundle (env_os e) target r = Some (Inr view, r) \<and> reads_back mf b view"
  using Bundle_pass_reads_back [OF assms] by metis

theorem verified_bundle_reads_back_witness:
  "\<exists>b mf view. bundle_at sample_env (lit ''p'') b mf \<and> proven sample_env sample_options mf b \<and>
     loadVerifiedBundle (env_os sample_env) (lit ''p'') sample_run = Some (Inr view, sample_run) \<and> reads_back mf b view"
proof -
  obtain v where "Bundle sample_env (lit ''p'') sample_options = Some v" "vd_ExitCode v = ExitPass"
    using sample_passes by blast
  then show ?thesis by (rule verified_bundle_reads_back)
qed

text \<open>C36. The worst state wins: after any reports each result holds the worst of its first state and those reported
  for it, so their order does not matter, and the run fails exactly when one of them was a failure.\<close>

theorem worst_state_wins:
  "fold (\<lambda>(k, s). demote k s) ds rs k = fold max (map snd (filter (\<lambda>d. fst d = k) ds)) (rs k) \<and>
   (exitCode (fold (\<lambda>(k, s). demote k s) ds rs) = ExitFail \<longleftrightarrow> StateFail \<in> range rs \<union> snd ` set ds)"
proof (induction ds arbitrary: rs)
  case Nil
  show ?case by (simp add: exitCode_cases(2)) (metis rangeE rangeI)
next
  case (Cons d ds)
  have top: "max t StateFail = StateFail" "max StateFail t = StateFail" for t :: result_state
    by (cases t; simp add: max_def less_eq_result_state_def)+
  have "StateFail \<in> range (rs(k := max (rs k) s)) \<longleftrightarrow> StateFail \<in> insert s (range rs)" for k s
    using top by (auto simp: image_iff max_def split: if_splits)
  with Cons show ?case by (cases d) (auto simp: demote_max max.commute)
qed

text \<open>C37. The receipt and the reconcile mode always return a verdict, whatever the files hold.\<close>

theorem receipt_modes_always_return:
  "(\<exists>v. Receipt e path targets opts = Some v) \<and> (\<exists>v. Reconcile e registryPath logPath receiptsDir opts = Some v)"
  using Receipt_returns Reconcile_returns by blast

subsection \<open>The command\<close>

text \<open>C6. Exit code 0 of the command is the soundness of its mode: unless the usage was asked for, the options were
  read, a mode was selected, the output is that mode's report, and the mode's claim holds. For one bundle, it is
  verified, and has the recorded root if one was given; for two, both are verified and have the same root over
  the older one's range; for a receipt, it is genuine, its bundles are verified, and where the report says its
  subject was checked it agrees with the records it names; for a registry, it reconciles with its log, read as
  the code reads it, and the counts reported are the log's.\<close>

theorem command_exit_zero_is_sound:
  assumes "run_command e usage args = Some out" "out_code out = 0"
    and "parse_args args no_cli_options = (o', None)" "\<not> co_showHelp o'"
  shows "\<exists>opts m v. load_options e o' = Inr opts \<and> select_mode o' = Inr m \<and> out = emit o' v \<and> mode_holds e opts m v"
  by (rule run_command_pass [OF assms(1) _ assms(3,4)]) (simp add: assms(2) ExitPass_def)

theorem command_exit_zero_is_sound_witness:
  "\<exists>opts m v. load_options command_env (add_target (lit ''p'') no_cli_options) = Inr opts \<and>
     select_mode (add_target (lit ''p'') no_cli_options) = Inr m \<and> mode_holds command_env opts m v"
proof -
  obtain out where "run_command command_env [] [lit ''p''] = Some out" "out_code out = 0"
    using command_passes by blast
  from command_exit_zero_is_sound [OF this command_args] show ?thesis by blast
qed

text \<open>C38. The exit code is one of the four the command documents, in every mode, for an error in the arguments or
  files, and for the usage.\<close>

theorem exit_code_is_documented:
  "case run_command e usage args of None \<Rightarrow> True | Some out \<Rightarrow> out_code out \<in> {0, 1, 2, 3}"
  using run_command_code [of e usage args]
  by (auto simp: exit_codes_def ExitPass_def ExitFail_def ExitError_def ExitUnconfirmed_def split: option.split)

text \<open>C39. The report for a person opens with the verdict of its exit code, so the word and the code agree.\<close>

theorem report_opens_with_verdict:
  assumes "vd_ExitCode v \<in> {ExitPass, ExitFail, ExitUnconfirmed}"
  shows "prefix (VerdictWord (vd_ExitCode v) @ lit '':'') (Human v)"
  by (rule Human_first_word [OF assms])

theorem report_opens_with_verdict_witness:
  "\<exists>v. vd_ExitCode v = ExitPass \<and> prefix (VerdictWord (vd_ExitCode v) @ lit '':'') (Human v)"
proof -
  obtain v where v: "Bundle sample_env (lit ''p'') sample_options = Some v" "vd_ExitCode v = ExitPass"
    using sample_passes by blast
  then have "prefix (VerdictWord (vd_ExitCode v) @ lit '':'') (Human v)" by (intro report_opens_with_verdict) simp
  with v(2) show ?thesis by blast
qed

text \<open>C40. The JSON report has no raw markup: whatever paths, messages and documents it carries, its bytes have no
  less-than sign, greater-than sign or ampersand.\<close>

theorem report_has_no_raw_html: "list_all (\<lambda>b. b \<noteq> 60 \<and> b \<noteq> 62 \<and> b \<noteq> 38) (Report_JSON v)"
  using no_html_report [of v] by (simp add: no_html_def)

end
